(* ===== verification/Js_String.thy ===== *)
theory Js_String
  imports Main "HOL-Library.Sublist"
begin

text \<open>
  The part of the ECMAScript string and array library that the web client of
  SynthApi uses.  A JavaScript string is a sequence of UTF-16 code units, so a
  string is a list of integers (the code units), and \<open>length\<close>,
  \<open>slice\<close> and \<open>indexOf\<close> count what the source counts.  A literal
  of the source is written \<open>js ''abc''\<close>; a literal outside ASCII is the
  list of its code units.

  The theory also holds the generic lemmas the component theories share: trimming,
  splitting and joining, searching, decimal numerals, the first-occurrence
  deduplication of \<open>new Set\<close>, and option-valued traversals.
\<close>

named_theorems js_defs \<open>definitions of the string library, for evaluation\<close>

type_synonym jchar = int
type_synonym jstr = "jchar list"

section \<open>Definitions\<close>

definition js :: "string \<Rightarrow> jstr" where
  "js s = map of_char s"

text \<open>The code points of WhiteSpace and LineTerminator, which \<open>trim\<close> removes and
  the class \<open>\s\<close> of a regular expression matches.\<close>

definition is_ws :: "jchar \<Rightarrow> bool" where
  "is_ws c \<longleftrightarrow> (9 \<le> c \<and> c \<le> 13) \<or> c = 32 \<or> c = 160 \<or> c = 5760 \<or> (8192 \<le> c \<and> c \<le> 8202)
     \<or> c = 8232 \<or> c = 8233 \<or> c = 8239 \<or> c = 8287 \<or> c = 12288 \<or> c = 65279"

definition is_digit :: "jchar \<Rightarrow> bool" where
  "is_digit c \<longleftrightarrow> 48 \<le> c \<and> c \<le> 57"

definition trim_start :: "jstr \<Rightarrow> jstr" where
  "trim_start s = dropWhile is_ws s"

definition trim_end :: "jstr \<Rightarrow> jstr" where
  "trim_end s = rev (dropWhile is_ws (rev s))"

definition trim :: "jstr \<Rightarrow> jstr" where
  "trim s = trim_end (trim_start s)"

definition starts_with :: "jstr \<Rightarrow> jstr \<Rightarrow> bool" where
  "starts_with p s \<longleftrightarrow> take (length p) s = p"

definition ends_with :: "jstr \<Rightarrow> jstr \<Rightarrow> bool" where
  "ends_with p s \<longleftrightarrow> starts_with (rev p) (rev s)"

text \<open>\<open>s.indexOf(p)\<close>, with \<open>None\<close> for -1.\<close>

fun index_of :: "jstr \<Rightarrow> jstr \<Rightarrow> nat option" where
  "index_of p [] = (if p = [] then Some 0 else None)"
| "index_of p (c # s) = (if starts_with p (c # s) then Some 0 else map_option Suc (index_of p s))"

text \<open>\<open>s.indexOf(p, from)\<close>: the position counts from the start of \<open>s\<close>.\<close>

definition index_of_from :: "jstr \<Rightarrow> jstr \<Rightarrow> nat \<Rightarrow> nat option" where
  "index_of_from p s from = map_option (\<lambda>i. from + i) (index_of p (drop from s))"

definition str_includes :: "jstr \<Rightarrow> jstr \<Rightarrow> bool" where
  "str_includes p s \<longleftrightarrow> index_of p s \<noteq> None"

text \<open>\<open>s.substring(a, b)\<close> for \<open>a \<le> b\<close>.\<close>

definition substring :: "jstr \<Rightarrow> nat \<Rightarrow> nat \<Rightarrow> jstr" where
  "substring s a b = take (b - a) (drop a s)"

text \<open>\<open>s.split(sep)\<close>: \<open>acc\<close> holds the current piece, reversed.\<close>

function split_acc :: "jstr \<Rightarrow> jstr \<Rightarrow> jstr \<Rightarrow> jstr list" where
  "split_acc sep acc s =
     (if sep = [] then map (\<lambda>c. [c]) s
      else if starts_with sep s then rev acc # split_acc sep [] (drop (length sep) s)
      else (case s of [] \<Rightarrow> [rev acc] | c # t \<Rightarrow> split_acc sep (c # acc) t))"
  by pat_completeness auto
termination
  by (relation "measure (\<lambda>(sep, acc, s). length s)")
     (auto simp: starts_with_def intro!: diff_less)

declare split_acc.simps [simp del]

definition split_str :: "jstr \<Rightarrow> jstr \<Rightarrow> jstr list" where
  "split_str sep s = split_acc sep [] s"

text \<open>\<open>parts.join(sep)\<close>.\<close>

fun join :: "jstr \<Rightarrow> jstr list \<Rightarrow> jstr" where
  "join sep [] = []"
| "join sep [p] = p"
| "join sep (p # q # ps) = p @ sep @ join sep (q # ps)"

text \<open>\<open>Array.from(new Set(xs))\<close>: every element once, at its first occurrence.\<close>

fun set_list :: "'a list \<Rightarrow> 'a list" where
  "set_list [] = []"
| "set_list (x # xs) = x # filter (\<lambda>y. y \<noteq> x) (set_list xs)"

text \<open>\<open>s.replace(/[c]/g, d)\<close> for a single code unit.\<close>

definition replace_unit :: "jchar \<Rightarrow> jchar \<Rightarrow> jstr \<Rightarrow> jstr" where
  "replace_unit c d s = map (\<lambda>x. if x = c then d else x) s"

text \<open>\<open>s.replace(/\s/g, '')\<close>.\<close>

definition strip_ws :: "jstr \<Rightarrow> jstr" where
  "strip_ws s = filter (\<lambda>c. \<not> is_ws c) s"

text \<open>The decimal numeral of an integer, as a template literal prints it, and the value
  of a string of digits, as \<open>Number.parseInt\<close> reads it.\<close>

function dec_pos :: "int \<Rightarrow> jstr" where
  "dec_pos i = (if i < 10 then [48 + i] else dec_pos (i div 10) @ [48 + i mod 10])"
  by pat_completeness auto
termination
  by (relation "measure nat") auto

declare dec_pos.simps [simp del]

definition dec :: "int \<Rightarrow> jstr" where
  "dec i = (if i < 0 then 45 # dec_pos (- i) else dec_pos i)"

definition digits_value :: "jstr \<Rightarrow> int" where
  "digits_value s = foldl (\<lambda>a c. 10 * a + (c - 48)) 0 s"

text \<open>A traversal that stops at the first element without a result.\<close>

fun map_opt :: "('a \<Rightarrow> 'b option) \<Rightarrow> 'a list \<Rightarrow> 'b list option" where
  "map_opt f [] = Some []"
| "map_opt f (x # xs) =
     (case f x of None \<Rightarrow> None | Some y \<Rightarrow> map_option ((#) y) (map_opt f xs))"

lemmas [js_defs] = is_ws_def is_digit_def trim_start_def trim_end_def trim_def starts_with_def
  ends_with_def index_of_from_def str_includes_def substring_def split_str_def replace_unit_def
  strip_ws_def dec_def digits_value_def

section \<open>Literals and classes\<close>

lemma js_Nil [simp]: "js [] = []"
  by (simp add: js_def)

lemma js_Cons [simp]: "js (c # s) = of_char c # js s"
  by (simp add: js_def)

lemma is_digit_not_ws [simp]: "is_digit c \<Longrightarrow> \<not> is_ws c"
  by (auto simp: is_digit_def is_ws_def)

section \<open>Trimming\<close>

lemma trim_Nil [simp]: "trim [] = []"
  by (simp add: js_defs)

lemma trim_end_id: "s \<noteq> [] \<Longrightarrow> \<not> is_ws (last s) \<Longrightarrow> trim_end s = s"
  by (cases s rule: rev_cases) (simp_all add: trim_end_def)

lemma trim_start_id: "s \<noteq> [] \<Longrightarrow> \<not> is_ws (hd s) \<Longrightarrow> trim_start s = s"
  by (cases s) (simp_all add: trim_start_def)

lemma trim_id: "s \<noteq> [] \<Longrightarrow> \<not> is_ws (hd s) \<Longrightarrow> \<not> is_ws (last s) \<Longrightarrow> trim s = s"
  by (simp add: trim_def trim_start_id trim_end_id)

lemma trim_id_all: "\<forall>c\<in>set s. \<not> is_ws c \<Longrightarrow> trim s = s"
  by (cases "s = []") (auto intro!: trim_id)

lemma set_trim_subset: "set (trim s) \<subseteq> set s"
proof -
  have *: "set (dropWhile is_ws t) \<subseteq> set t" for t
    by (auto dest: set_dropWhileD)
  show ?thesis
    using * [of "rev (dropWhile is_ws s)"] * [of s] by (auto simp: trim_def trim_end_def trim_start_def)
qed

lemma trim_end_ends: "trim_end s = [] \<or> \<not> is_ws (last (trim_end s))"
  using hd_dropWhile [of is_ws "rev s"] by (auto simp: trim_end_def last_rev)

lemma hd_trim_end: "trim_end s \<noteq> [] \<Longrightarrow> hd (trim_end s) = hd s"
proof -
  assume ne: "trim_end s \<noteq> []"
  have "suffix (dropWhile is_ws (rev s)) (rev s)" by (rule suffix_dropWhile)
  then have "prefix (trim_end s) s"
    by (simp add: trim_end_def suffix_to_prefix)
  then obtain t where "s = trim_end s @ t" by (auto simp: prefix_def)
  with ne show ?thesis by (metis hd_append2)
qed

lemma trim_hd_last: "trim s \<noteq> [] \<Longrightarrow> \<not> is_ws (hd (trim s)) \<and> \<not> is_ws (last (trim s))"
proof -
  assume ne: "trim s \<noteq> []"
  then have "trim_start s \<noteq> []" by (auto simp: trim_def trim_end_def)
  then have "\<not> is_ws (hd (trim_start s))"
    by (simp add: trim_start_def hd_dropWhile)
  with ne show ?thesis
    using trim_end_ends [of "trim_start s"] by (auto simp: trim_def hd_trim_end)
qed

lemma trim_trim [simp]: "trim (trim s) = trim s"
  using trim_hd_last [of s] by (cases "trim s = []") (auto intro: trim_id)

lemma trim_eq_Nil_iff: "trim s = [] \<longleftrightarrow> (\<forall>c\<in>set s. is_ws c)"
proof
  assume "trim s = []"
  then have "\<forall>c\<in>set (dropWhile is_ws s). is_ws c"
    by (simp add: trim_def trim_end_def trim_start_def)
  then have "dropWhile is_ws s = []"
    by (metis hd_dropWhile list.set_sel(1))
  then show "\<forall>c\<in>set s. is_ws c" by simp
next
  assume "\<forall>c\<in>set s. is_ws c"
  then show "trim s = []"
    by (auto simp: trim_def trim_end_def trim_start_def dest: set_dropWhileD)
qed

lemma trim_end_Cons: "\<not> is_ws c \<Longrightarrow> trim_end (c # s) = c # trim_end s"
  by (simp add: trim_end_def dropWhile_append3 dropWhile_append)

section \<open>Prefixes, searching\<close>

lemma starts_with_Nil [simp]: "starts_with [] s"
  by (simp add: starts_with_def)

lemma starts_with_Cons [simp]:
  "starts_with (a # p) (c # s) \<longleftrightarrow> a = c \<and> starts_with p s"
  "\<not> starts_with (a # p) []"
  by (auto simp: starts_with_def)

lemma starts_with_append [simp]: "starts_with p (p @ s)"
  by (simp add: starts_with_def)

lemma starts_with_iff: "starts_with p s \<longleftrightarrow> (\<exists>t. s = p @ t)"
  by (metis append_eq_conv_conj starts_with_def)

lemma index_of_Some: "index_of p s = Some i \<Longrightarrow> starts_with p (drop i s) \<and> i + length p \<le> length s"
proof (induction p s arbitrary: i rule: index_of.induct)
  case (2 p c s)
  show ?case
  proof (cases "starts_with p (c # s)")
    case True
    then have "length p \<le> length (c # s)"
      by (metis starts_with_iff length_append le_add1)
    with True 2(2) show ?thesis by auto
  next
    case False
    with 2 show ?thesis by auto
  qed
qed (auto split: if_splits)

lemma index_of_first:
  "index_of p s = Some i \<Longrightarrow> j < i \<Longrightarrow> \<not> starts_with p (drop j s)"
proof (induction p s arbitrary: i j rule: index_of.induct)
  case (2 p c s)
  then show ?case by (cases j) (auto split: if_splits)
qed (auto split: if_splits)

lemma index_of_None: "index_of p s = None \<longleftrightarrow> (\<nexists>u v. s = u @ p @ v)"
proof (induction p s rule: index_of.induct)
  case (2 p c s)
  show ?case
  proof (cases "starts_with p (c # s)")
    case True
    then show ?thesis using append_Nil starts_with_iff by (metis index_of.simps(2) option.discI)
  next
    case False
    have "(\<exists>u v. c # s = u @ p @ v) \<longleftrightarrow> (\<exists>u v. s = u @ p @ v)"
    proof
      assume "\<exists>u v. c # s = u @ p @ v"
      then obtain u v where uv: "c # s = u @ p @ v" by blast
      with False have "u \<noteq> []" by (auto simp: starts_with_iff)
      with uv show "\<exists>u v. s = u @ p @ v" by (cases u) auto
    next
      assume "\<exists>u v. s = u @ p @ v"
      then show "\<exists>u v. c # s = u @ p @ v" by (metis append_Cons)
    qed
    with False 2 show ?thesis by simp
  qed
qed auto

lemma str_includes_iff: "str_includes p s \<longleftrightarrow> (\<exists>u v. s = u @ p @ v)"
  using index_of_None [of p s] by (simp add: str_includes_def)

lemma str_includes_unit [simp]: "str_includes [c] s \<longleftrightarrow> c \<in> set s"
  by (auto simp: str_includes_iff in_set_conv_decomp)

section \<open>Splitting and joining\<close>

lemma split_acc_Nil: "sep \<noteq> [] \<Longrightarrow> split_acc sep acc [] = [rev acc]"
  by (subst split_acc.simps) (auto simp: starts_with_def)

lemma split_acc_unit_piece:
  "c \<notin> set p \<Longrightarrow> split_acc [c] acc (p @ s) = split_acc [c] (rev p @ acc) s"
proof (induction p arbitrary: acc)
  case (Cons a p)
  then have "split_acc [c] acc (a # p @ s) = split_acc [c] (a # acc) (p @ s)"
    by (subst split_acc.simps) simp
  with Cons show ?case by simp
qed simp

lemma split_acc_unit_sep: "split_acc [c] acc (c # s) = rev acc # split_acc [c] [] s"
  by (subst split_acc.simps) simp

lemma split_join_unit:
  "ps \<noteq> [] \<Longrightarrow> \<forall>p\<in>set ps. c \<notin> set p \<Longrightarrow> split_str [c] (join [c] ps) = ps"
  unfolding split_str_def
proof (induction "[c]" ps rule: join.induct)
  case (2 p)
  then show ?case using split_acc_unit_piece [of c p "[]" "[]"] by (simp add: split_acc_Nil)
next
  case (3 p q ps)
  then show ?case
    using split_acc_unit_piece [of c p "[]" "c # join [c] (q # ps)"]
    by (simp add: split_acc_unit_sep)
qed simp

lemma join_Cons: "ps \<noteq> [] \<Longrightarrow> join sep (p # ps) = p @ sep @ join sep ps"
  by (cases ps) simp_all

lemma set_join_subset: "set (join sep ps) \<subseteq> set sep \<union> \<Union> (set ` set ps)"
  by (induction sep ps rule: join.induct) auto

section \<open>Deduplication\<close>

lemma set_set_list [simp]: "set (set_list xs) = set xs"
  by (induction xs) auto

lemma distinct_set_list [simp]: "distinct (set_list xs)"
  by (induction xs) auto

lemma set_list_id: "distinct xs \<Longrightarrow> set_list xs = xs"
proof (induction xs)
  case (Cons x xs)
  then have "filter (\<lambda>y. y \<noteq> x) xs = xs" by (auto simp: filter_id_conv)
  with Cons show ?case by simp
qed simp

section \<open>Decimal numerals\<close>

lemma dec_pos_small: "0 \<le> i \<Longrightarrow> i < 10 \<Longrightarrow> dec_pos i = [48 + i]"
  by (subst dec_pos.simps) simp

lemma dec_pos_step: "10 \<le> i \<Longrightarrow> dec_pos i = dec_pos (i div 10) @ [48 + i mod 10]"
  by (subst dec_pos.simps) simp

lemma dec_pos_digits: "0 \<le> i \<Longrightarrow> dec_pos i \<noteq> [] \<and> (\<forall>c\<in>set (dec_pos i). is_digit c)"
proof (induction i rule: dec_pos.induct)
  case (1 i)
  show ?case
  proof (cases "i < 10")
    case True
    with 1 show ?thesis by (simp add: dec_pos_small is_digit_def)
  next
    case False
    have "is_digit (48 + i mod 10)" by (simp add: is_digit_def)
    with 1 False show ?thesis by (simp add: dec_pos_step pos_imp_zdiv_nonneg_iff)
  qed
qed

lemma digits_value_snoc: "digits_value (s @ [c]) = 10 * digits_value s + (c - 48)"
  by (simp add: digits_value_def)

lemma digits_value_dec_pos: "0 \<le> i \<Longrightarrow> digits_value (dec_pos i) = i"
proof (induction i rule: dec_pos.induct)
  case (1 i)
  show ?case
  proof (cases "i < 10")
    case True
    with 1 show ?thesis by (simp add: dec_pos_small digits_value_def)
  next
    case False
    with 1 show ?thesis
      by (simp add: dec_pos_step digits_value_snoc pos_imp_zdiv_nonneg_iff)
  qed
qed

lemma dec_digits: "0 \<le> i \<Longrightarrow> dec i \<noteq> [] \<and> (\<forall>c\<in>set (dec i). is_digit c)"
  by (simp add: dec_def dec_pos_digits)

lemma digits_value_dec [simp]: "0 \<le> i \<Longrightarrow> digits_value (dec i) = i"
  by (simp add: dec_def digits_value_dec_pos)

lemma dec_not_in: "0 \<le> i \<Longrightarrow> \<not> is_digit c \<Longrightarrow> c \<notin> set (dec i)"
  using dec_digits by blast

lemma dec_inj: "0 \<le> i \<Longrightarrow> 0 \<le> j \<Longrightarrow> dec i = dec j \<longleftrightarrow> i = j"
  by (metis digits_value_dec)

section \<open>Traversals\<close>

lemma map_opt_Some_iff:
  "map_opt f xs = Some ys \<longleftrightarrow> length xs = length ys \<and> (\<forall>i<length xs. f (xs ! i) = Some (ys ! i))"
proof (induction xs arbitrary: ys)
  case (Cons x xs)
  show ?case
  proof (cases ys)
    case Nil
    then show ?thesis by (auto split: option.splits)
  next
    case (Cons y ys')
    then show ?thesis
      using Cons.IH [of ys'] by (auto split: option.splits simp: All_less_Suc2)
  qed
qed auto

lemma map_opt_None_iff: "map_opt f xs = None \<longleftrightarrow> (\<exists>x\<in>set xs. f x = None)"
  by (induction xs) (auto split: option.splits)

lemma map_opt_map: "(\<And>x. x \<in> set xs \<Longrightarrow> f (g x) = Some (h x)) \<Longrightarrow> map_opt f (map g xs) = Some (map h xs)"
  by (induction xs) auto

end
