(* ===== verification/Js_RegExp.thy ===== *)
theory Js_RegExp
  imports Js_String
begin

text \<open>
  Regular expressions as ECMAScript evaluates them: a backtracking matcher in
  continuation-passing style, as in the semantics of \<open>RegExp\<close> patterns of the
  language specification (CompilePattern, RepeatMatcher, BackreferenceMatcher).
  A matcher gets the text before the current position (reversed), the text after it, the
  captures so far, and the continuation to run on success; alternatives and iterations
  are tried in the order of the specification, so the first success is the match the
  program sees.  \<open>^\<close>, \<open>$\<close> and \<open>\b\<close> look at the two sides of
  the position.

  The lemmas compute the matcher on literals and on greedy repetitions of a character
  class, which is what the patterns of the program are made of.
\<close>

section \<open>Definitions\<close>

type_synonym caps = "(nat \<times> jstr) list"
type_synonym 'r cont = "jstr \<Rightarrow> jstr \<Rightarrow> caps \<Rightarrow> 'r option"

datatype rx =
    REmpty
  | RCls "jchar \<Rightarrow> bool"
  | RSeq rx rx
  | RAlt rx rx
  | RStar rx
  | ROpt rx
  | RGroup nat rx
  | RRef nat
  | RStart
  | REnd
  | RWordB

definition is_word :: "jchar \<Rightarrow> bool" where
  "is_word c \<longleftrightarrow> is_digit c \<or> (65 \<le> c \<and> c \<le> 90) \<or> (97 \<le> c \<and> c \<le> 122) \<or> c = 95"

definition word_at :: "jstr \<Rightarrow> bool" where
  "word_at s = (case s of [] \<Rightarrow> False | c # _ \<Rightarrow> is_word c)"

text \<open>A greedy repetition: every iteration has to consume input, so the length of the
  rest of the input bounds the number of iterations.\<close>

fun star_iter :: "('r cont \<Rightarrow> 'r cont) \<Rightarrow> nat \<Rightarrow> 'r cont \<Rightarrow> 'r cont" where
  "star_iter m 0 k b a c = k b a c"
| "star_iter m (Suc n) k b a c =
     (case m (\<lambda>b' a' c'. if length a' < length a then star_iter m n k b' a' c' else None) b a c of
        Some r \<Rightarrow> Some r
      | None \<Rightarrow> k b a c)"

fun rx_m :: "rx \<Rightarrow> 'r cont \<Rightarrow> 'r cont" where
  "rx_m REmpty k b a c = k b a c"
| "rx_m (RCls P) k b a c = (case a of [] \<Rightarrow> None | x # a' \<Rightarrow> if P x then k (x # b) a' c else None)"
| "rx_m (RSeq r s) k b a c = rx_m r (rx_m s k) b a c"
| "rx_m (RAlt r s) k b a c = (case rx_m r k b a c of Some x \<Rightarrow> Some x | None \<Rightarrow> rx_m s k b a c)"
| "rx_m (RStar r) k b a c = star_iter (rx_m r) (length a) k b a c"
| "rx_m (ROpt r) k b a c = (case rx_m r k b a c of Some x \<Rightarrow> Some x | None \<Rightarrow> k b a c)"
| "rx_m (RGroup n r) k b a c =
     rx_m r (\<lambda>b' a' c'. k b' a' ((n, take (length a - length a') a) # c')) b a c"
| "rx_m (RRef n) k b a c =
     (case map_of c n of
        None \<Rightarrow> k b a c
      | Some t \<Rightarrow> if starts_with t a then k (rev t @ b) (drop (length t) a) c else None)"
| "rx_m RStart k b a c = (if b = [] then k b a c else None)"
| "rx_m REnd k b a c = (if a = [] then k b a c else None)"
| "rx_m RWordB k b a c = (if word_at b \<noteq> word_at a then k b a c else None)"

text \<open>Patterns as the source writes them: literals, sequences, alternatives, \<open>r+\<close>.\<close>

fun rx_lit :: "jstr \<Rightarrow> rx" where
  "rx_lit [] = REmpty"
| "rx_lit (c # s) = RSeq (RCls (\<lambda>x. x = c)) (rx_lit s)"

fun rx_seq :: "rx list \<Rightarrow> rx" where
  "rx_seq [] = REmpty"
| "rx_seq [r] = r"
| "rx_seq (r # rs) = RSeq r (rx_seq rs)"

fun rx_alt :: "rx list \<Rightarrow> rx" where
  "rx_alt [] = REmpty"
| "rx_alt [r] = r"
| "rx_alt (r # rs) = RAlt r (rx_alt rs)"

definition rx_plus :: "rx \<Rightarrow> rx" where
  "rx_plus r = RSeq r (RStar r)"

text \<open>A match: the text before it (reversed), the text before its end (reversed), the text
  after it, its captures.\<close>

type_synonym rx_result = "jstr \<times> jstr \<times> jstr \<times> caps"

definition rx_at :: "rx \<Rightarrow> jstr \<Rightarrow> jstr \<Rightarrow> rx_result option" where
  "rx_at r b a = rx_m r (\<lambda>b' a' c'. Some (b, b', a', c')) b a []"

fun rx_search :: "rx \<Rightarrow> jstr \<Rightarrow> jstr \<Rightarrow> rx_result option" where
  "rx_search r b [] = rx_at r b []"
| "rx_search r b (x # a) =
     (case rx_at r b (x # a) of Some m \<Rightarrow> Some m | None \<Rightarrow> rx_search r (x # b) a)"

text \<open>\<open>s.match(r)\<close> and \<open>r.exec(s)\<close> give the captures, \<open>r.test(s)\<close>
  whether there is a match.\<close>

definition rx_match :: "rx \<Rightarrow> jstr \<Rightarrow> caps option" where
  "rx_match r s = map_option (\<lambda>(b, b', a', c). c) (rx_search r [] s)"

definition rx_test :: "rx \<Rightarrow> jstr \<Rightarrow> bool" where
  "rx_test r s \<longleftrightarrow> rx_match r s \<noteq> None"

text \<open>\<open>m[n]\<close> of a match: an unmatched group is \<open>undefined\<close>.\<close>

definition cap :: "caps \<Rightarrow> nat \<Rightarrow> jstr option" where
  "cap c n = map_of c n"

definition cap_str :: "caps \<Rightarrow> nat \<Rightarrow> jstr" where
  "cap_str c n = (case map_of c n of None \<Rightarrow> [] | Some t \<Rightarrow> t)"

text \<open>The matches of a pattern with the flag \<open>g\<close>, as the loop
  \<open>while ((m = re.exec(s)) !== null)\<close> meets them: the next search starts at the end
  of the last match.  An empty match would leave \<open>lastIndex\<close> where it is and the loop
  would not end, so the list is defined for patterns whose matches are not empty, and stops
  at an empty one.\<close>

function rx_all :: "rx \<Rightarrow> jstr \<Rightarrow> jstr \<Rightarrow> caps list" where
  "rx_all r b a =
     (case rx_search r b a of
        None \<Rightarrow> []
      | Some (b0, b', a', c) \<Rightarrow> if length a' < length a then c # rx_all r b' a' else [])"
  by pat_completeness auto
termination
  by (relation "measure (\<lambda>(r, b, a). length a)") auto

declare rx_all.simps [simp del]

text \<open>\<open>s.split(r)\<close> for a pattern without captures that matches no empty text: \<open>acc\<close> is the
  current piece, reversed.\<close>

function rx_split_acc :: "rx \<Rightarrow> jstr \<Rightarrow> jstr \<Rightarrow> jstr \<Rightarrow> jstr list" where
  "rx_split_acc r b acc a =
     (case a of
        [] \<Rightarrow> [rev acc]
      | x # t \<Rightarrow>
          (case rx_at r b a of
             Some (b0, b', a', c) \<Rightarrow>
               if length a' < length a then rev acc # rx_split_acc r b' [] a'
               else rx_split_acc r (x # b) (x # acc) t
           | None \<Rightarrow> rx_split_acc r (x # b) (x # acc) t))"
  by pat_completeness auto
termination
  by (relation "measure (\<lambda>(r, b, acc, a). length a)") auto

declare rx_split_acc.simps [simp del]

definition rx_split :: "rx \<Rightarrow> jstr \<Rightarrow> jstr list" where
  "rx_split r s = rx_split_acc r [] [] s"

section \<open>The matcher on literals\<close>

lemma rx_m_lit [simp]:
  "rx_m (rx_lit t) k b a c = (if starts_with t a then k (rev t @ b) (drop (length t) a) c else None)"
proof (induction t arbitrary: b a)
  case (Cons x t)
  then show ?case by (cases a) (auto simp: rx_lit.simps)
qed (simp add: rx_lit.simps)

text \<open>Sequences as nested continuations, at the level of functions so that they also compute
  inside a continuation.\<close>

lemma rx_m_RSeq [simp]: "rx_m (RSeq r s) k = rx_m r (rx_m s k)"
  by (intro ext) simp

lemma rx_m_REmpty [simp]: "rx_m REmpty k = k"
  by (intro ext) simp

lemma rx_m_seq [simp]:
  "rx_m (rx_seq []) k = k"
  "rx_m (rx_seq [r]) k = rx_m r k"
  "rx_m (rx_seq (r # s # rs)) k = rx_m r (rx_m (rx_seq (s # rs)) k)"
  by (simp_all add: rx_seq.simps)

lemma rx_m_alt [simp]:
  "rx_m (rx_alt [r]) k = rx_m r k"
  "rx_m (rx_alt (r # s # rs)) k b a c =
     (case rx_m r k b a c of Some x \<Rightarrow> Some x | None \<Rightarrow> rx_m (rx_alt (s # rs)) k b a c)"
  by (simp_all add: rx_alt.simps)

declare rx_lit.simps [simp del] rx_seq.simps [simp del] rx_alt.simps [simp del]

lemma rx_m_None [simp]: "rx_m r (\<lambda>_ _ _. None :: 'r option) b a c = None"
proof (induction r arbitrary: b a c)
  case (RStar r)
  have "star_iter (rx_m r) n (\<lambda>_ _ _. None :: 'r option) b a c = None" for n b a c
  proof (induction n arbitrary: b a c)
    case (Suc n)
    have "(\<lambda>b' a' c'. if length a' < length a
        then star_iter (rx_m r) n (\<lambda>_ _ _. None :: 'r option) b' a' c' else None) = (\<lambda>_ _ _. None)"
      using Suc.IH by (intro ext) simp
    with RStar show ?case by simp
  qed simp
  then show ?case by simp
next
  case (RSeq r s)
  have "rx_m s (\<lambda>_ _ _. None :: 'r option) = (\<lambda>_ _ _. None)"
    by (intro ext) (rule RSeq.IH)
  with RSeq show ?case by simp
qed (auto split: list.splits option.splits)

lemma rx_m_anchor_later: "b \<noteq> [] \<Longrightarrow> rx_m (RSeq RStart r) k b a c = None"
  by simp

lemma rx_search_anchor_later: "b \<noteq> [] \<Longrightarrow> rx_search (RSeq RStart r) b a = None"
  by (induction a arbitrary: b) (simp_all add: rx_at_def)

lemma rx_search_anchor: "rx_search (RSeq RStart r) [] a = rx_at (RSeq RStart r) [] a"
  by (cases a) (simp_all add: rx_search_anchor_later split: option.split)

text \<open>Mapping the result of a match is mapping the result of its continuation.\<close>

lemma star_iter_map:
  fixes g :: "'x \<Rightarrow> 'y"
  assumes "\<And>k b a c. map_option g (m k b a c) = m' (\<lambda>b a c. map_option g (k b a c)) b a c"
  shows "map_option g (star_iter m n k b a c) = star_iter m' n (\<lambda>b a c. map_option g (k b a c)) b a c"
proof (induction n arbitrary: b a c)
  case (Suc n)
  let ?k = "\<lambda>b' a' c'. if length a' < length a then star_iter m n k b' a' c' else None"
  let ?k' = "\<lambda>b' a' c'. if length a' < length a
      then star_iter m' n (\<lambda>b a c. map_option g (k b a c)) b' a' c' else None"
  have "(\<lambda>b a c. map_option g (?k b a c)) = ?k'"
    by (intro ext) (simp add: Suc.IH)
  then have "map_option g (m ?k b a c) = m' ?k' b a c"
    using assms [of ?k b a c] by simp
  then show ?case by (auto split: option.split)
qed simp

lemma rx_m_map:
  fixes g :: "'x \<Rightarrow> 'y"
  shows "map_option g (rx_m r k b a c) = rx_m r (\<lambda>b a c. map_option g (k b a c)) b a c"
proof (induction r arbitrary: k b a c)
  case (RSeq r s)
  have "(\<lambda>b a c. map_option g (rx_m s k b a c)) = rx_m s (\<lambda>b a c. map_option g (k b a c))"
    by (intro ext) (rule RSeq.IH(2))
  then show ?case by (simp add: RSeq.IH(1))
next
  case (RAlt r s)
  then show ?case by (auto split: option.split simp: RAlt.IH [symmetric])
next
  case (ROpt r)
  then show ?case by (auto split: option.split simp: ROpt.IH [symmetric])
next
  case (RStar r)
  then show ?case
    using star_iter_map [where g = g and m = "rx_m r" and m' = "rx_m r"] by simp
qed (auto split: list.split option.split)

text \<open>An anchored pattern is matched at the start only.\<close>

lemma rx_match_anchor:
  "rx_match (RSeq RStart r) s = rx_m r (\<lambda>b' a' c'. Some c') [] s []"
  by (simp add: rx_match_def rx_search_anchor rx_at_def rx_m_map)

lemma rx_match_start:
  "rx_match (rx_seq (RStart # r # rs)) s = rx_m (rx_seq (r # rs)) (\<lambda>b' a' c'. Some c') [] s []"
  by (simp add: rx_seq.simps rx_match_anchor)

section \<open>Greedy repetition of a character class\<close>

lemma star_cls_step:
  "rx_m (RStar (RCls P)) k b (x # a) c =
     (if P x then (case rx_m (RStar (RCls P)) k (x # b) a c of Some r \<Rightarrow> Some r | None \<Rightarrow> k b (x # a) c)
      else k b (x # a) c)"
  by simp

lemma star_cls_Nil: "rx_m (RStar r) k b [] c = k b [] c"
  by simp

text \<open>If the continuation succeeds after the longest run, that is the match.\<close>

lemma star_cls_max:
  assumes "\<forall>x\<in>set p. P x" and "rest = [] \<or> \<not> P (hd rest)" and "k (rev p @ b) rest c = Some r"
  shows "rx_m (RStar (RCls P)) k b (p @ rest) c = Some r"
  using assms
proof (induction p arbitrary: b)
  case Nil
  then show ?case by (cases rest) (simp_all add: star_cls_step del: rx_m.simps(5), simp)
next
  case (Cons x p)
  then have "rx_m (RStar (RCls P)) k (x # b) (p @ rest) c = Some r" by simp
  with Cons.prems show ?case by (simp add: star_cls_step del: rx_m.simps(5))
qed

text \<open>If it can only succeed there, the result is its result there.\<close>

lemma star_cls_det:
  assumes "\<forall>x\<in>set p. P x" and "rest = [] \<or> \<not> P (hd rest)"
    and "\<And>p1 p2. p = p1 @ p2 \<Longrightarrow> p2 \<noteq> [] \<Longrightarrow> k (rev p1 @ b) (p2 @ rest) c = None"
  shows "rx_m (RStar (RCls P)) k b (p @ rest) c = k (rev p @ b) rest c"
  using assms
proof (induction p arbitrary: b)
  case Nil
  then show ?case by (cases rest) (simp_all add: star_cls_step del: rx_m.simps(5), simp)
next
  case (Cons x p)
  have k0: "k b (x # p @ rest) c = None"
    using Cons.prems(3) [of "[]" "x # p"] by simp
  have "rx_m (RStar (RCls P)) k (x # b) (p @ rest) c = k (rev p @ x # b) rest c"
  proof (rule Cons.IH)
    fix p1 p2
    assume "p = p1 @ p2" and "p2 \<noteq> []"
    then show "k (rev p1 @ x # b) (p2 @ rest) c = None"
      using Cons.prems(3) [of "x # p1" p2] by simp
  qed (use Cons.prems in auto)
  with k0 Cons.prems show ?case
    by (simp add: star_cls_step split: option.split del: rx_m.simps(5))
qed

text \<open>The continuation of a class is a literal that the class does not match.\<close>

lemma star_cls_needs:
  assumes "\<forall>x\<in>set p. P x" and "\<not> P d" and "\<And>b x a c. x \<noteq> d \<Longrightarrow> k b (x # a) c = None"
  shows "rx_m (RStar (RCls P)) k b (p @ d # rest) c = k (rev p @ b) (d # rest) c"
proof (rule star_cls_det)
  fix p1 p2
  assume p: "p = p1 @ p2" and "p2 \<noteq> []"
  then obtain x q where "p2 = x # q" by (cases p2) auto
  moreover from this p assms(1,2) have "x \<noteq> d" by auto
  ultimately show "k (rev p1 @ b) (p2 @ d # rest) c = None" using assms(3) by simp
qed (use assms in auto)

text \<open>The continuation is the end of the input.\<close>

lemma star_cls_end:
  "rx_m (RStar (RCls P)) (rx_m REnd k) b a c =
     (if \<forall>x\<in>set a. P x then k (rev a @ b) [] c else None)"
proof (induction a arbitrary: b)
  case (Cons x a)
  then show ?case
    by (auto simp: star_cls_step split: option.split simp del: rx_m.simps(5))
qed simp

text \<open>\<open>/^[P]+$/.test(s)\<close>\<close>

lemma rx_test_cls_plus:
  "rx_test (rx_seq [RStart, rx_plus (RCls P), REnd]) s \<longleftrightarrow> s \<noteq> [] \<and> (\<forall>x\<in>set s. P x)"
  by (cases s)
     (auto simp: rx_test_def rx_match_start rx_plus_def star_cls_end simp del: rx_m.simps(5))

text \<open>The continuation fails at every split.\<close>

lemma star_cls_None:
  "(\<And>p q. a = p @ q \<Longrightarrow> \<forall>x\<in>set p. P x \<Longrightarrow> k (rev p @ b) q c = None) \<Longrightarrow>
   rx_m (RStar (RCls P)) k b a c = None"
proof (induction a arbitrary: b)
  case Nil
  then show ?case by simp
next
  case (Cons x a)
  have k0: "k b (x # a) c = None" using Cons.prems [of "[]" "x # a"] by simp
  have "rx_m (RStar (RCls P)) k (x # b) a c = None" if "P x"
  proof (rule Cons.IH)
    fix p q
    assume "a = p @ q" and "\<forall>x\<in>set p. P x"
    then show "k (rev p @ x # b) q c = None" using Cons.prems [of "x # p" q] that by simp
  qed
  with k0 show ?case by (simp add: star_cls_step del: rx_m.simps(5))
qed

text \<open>The continuation succeeds at a split and at none after it.\<close>

lemma star_cls_last:
  assumes "\<forall>x\<in>set (p @ q). P x" and "k (rev p @ b) q c = Some r"
    and "\<And>q1 q2. q = q1 @ q2 \<Longrightarrow> q1 \<noteq> [] \<Longrightarrow> k (rev q1 @ rev p @ b) q2 c = None"
  shows "rx_m (RStar (RCls P)) k b (p @ q) c = Some r"
  using assms
proof (induction p arbitrary: b)
  case Nil
  show ?case
  proof (cases q)
    case Nil
    with Nil.prems show ?thesis by simp
  next
    case (Cons x t)
    have "rx_m (RStar (RCls P)) k (x # b) t c = None"
    proof (rule star_cls_None)
      fix p q'
      assume "t = p @ q'"
      then show "k (rev p @ x # b) q' c = None"
        using Nil.prems(3) [of "x # p" q'] Cons by simp
    qed
    with Nil.prems Cons show ?thesis by (simp add: star_cls_step del: rx_m.simps(5))
  qed
next
  case (Cons x p)
  then have "rx_m (RStar (RCls P)) k (x # b) (p @ q) c = Some r" by simp
  with Cons.prems show ?case by (simp add: star_cls_step del: rx_m.simps(5))
qed

section \<open>Repetition of any pattern\<close>

text \<open>The bound on the iterations is never met: the length of the rest is enough, and more
  changes nothing.\<close>

lemma star_iter_enough:
  "length a \<le> n \<Longrightarrow> star_iter (rx_m r) n k b a c = star_iter (rx_m r) (length a) k b a c"
proof (induction n arbitrary: b a c rule: less_induct)
  case (less n)
  show ?case
  proof (cases n)
    case 0
    with less.prems show ?thesis by simp
  next
    case (Suc m)
    show ?thesis
    proof (cases a)
      case Nil
      with Suc show ?thesis by simp
    next
      case (Cons x t)
      have "(if length a' < length a then star_iter (rx_m r) m k b' a' c' else None) =
          (if length a' < length a then star_iter (rx_m r) (length t) k b' a' c' else None)" for b' a' c'
        using less.IH [of m a' b' c'] less.IH [of "length t" a' b' c'] less.prems Suc Cons by auto
      then show ?thesis using Suc Cons by simp
    qed
  qed
qed

lemma star_unfold:
  "rx_m (RStar r) k b a c =
     (case rx_m r (\<lambda>b' a' c'. if length a' < length a then rx_m (RStar r) k b' a' c' else None) b a c of
        Some x \<Rightarrow> Some x
      | None \<Rightarrow> k b a c)"
proof (cases a)
  case Nil
  then show ?thesis by simp
next
  case (Cons x t)
  have "(if length a' < length a then star_iter (rx_m r) (length t) k b' a' c' else None) =
      (if length a' < length a then rx_m (RStar r) k b' a' c' else None)" for b' a' c'
    using star_iter_enough [of a' "length t" r k b' c'] Cons by auto
  then show ?thesis using Cons by (simp split: option.split)
qed

section \<open>Groups around a repeated class\<close>

lemma rx_m_group_plus:
  "rx_m (RGroup n (rx_plus (RCls P))) k b (x # a) c =
     (if P x then rx_m (RStar (RCls P))
        (\<lambda>b' a' c'. k b' a' ((n, take (length (x # a) - length a') (x # a)) # c')) (x # b) a c
      else None)"
  by (simp add: rx_plus_def)

text \<open>A group that ends where a literal starts.\<close>

lemma group_plus_needs:
  assumes "p \<noteq> []" and "\<forall>x\<in>set p. P x" and "\<not> P d" and "\<And>b x a c. x \<noteq> d \<Longrightarrow> k b (x # a) c = None"
  shows "rx_m (RGroup n (rx_plus (RCls P))) k b (p @ d # rest) c = k (rev p @ b) (d # rest) ((n, p) # c)"
proof -
  obtain x q where p: "p = x # q" using assms(1) by (cases p) auto
  let ?k = "\<lambda>b' a' c'. k b' a' ((n, take (length (p @ d # rest) - length a') (p @ d # rest)) # c')"
  have "rx_m (RStar (RCls P)) ?k (x # b) (q @ d # rest) c = ?k (rev q @ x # b) (d # rest) c"
    by (rule star_cls_needs) (use assms p in auto)
  with assms(2) show ?thesis
    by (simp add: p rx_m_group_plus del: rx_m.simps)
qed

text \<open>A group that ends where the input ends.\<close>

lemma group_plus_end:
  assumes "p \<noteq> []" and "\<forall>x\<in>set p. P x"
  shows "rx_m (RGroup n (rx_plus (RCls P))) (rx_m REnd k) b p c = k (rev p @ b) [] ((n, p) # c)"
proof -
  obtain x q where p: "p = x # q" using assms(1) by (cases p) auto
  have "(\<lambda>b' a' c'. rx_m REnd k b' a' ((n, take (length p - length a') p) # c')) =
      rx_m REnd (\<lambda>b' a' c'. k b' a' ((n, p) # c'))"
    by (intro ext) simp
  with assms show ?thesis
    by (simp add: p rx_m_group_plus star_cls_end del: rx_m.simps)
qed

text \<open>A group over text of the class only, where the continuation needs another code unit.\<close>

lemma group_plus_needs_None:
  assumes "\<forall>x\<in>set p. P x" and "\<not> P d" and "\<And>b c. k b [] c = None"
    and "\<And>b x a c. x \<noteq> d \<Longrightarrow> k b (x # a) c = None"
  shows "rx_m (RGroup n (rx_plus (RCls P))) k b p c = None"
proof (cases p)
  case Nil
  then show ?thesis by (simp add: rx_plus_def)
next
  case (Cons x q)
  let ?k = "\<lambda>b' a' c'. k b' a' ((n, take (length p - length a') p) # c')"
  have "rx_m (RStar (RCls P)) ?k (x # b) q c = None"
  proof (rule star_cls_None)
    fix u v
    assume "q = u @ v"
    then have "v = [] \<or> hd v \<noteq> d" using assms(1,2) Cons by (cases v) auto
    then show "?k (rev u @ x # b) v c = None"
      using assms(3,4) by (cases v) auto
  qed
  then show ?thesis by (simp add: Cons rx_m_group_plus del: rx_m.simps)
qed

section \<open>What a match consumes\<close>

text \<open>If every class of a pattern is contained in \<open>P\<close> and the pattern has no backreference,
  a success consumes code units in \<open>P\<close> only, and is a success of the continuation.\<close>

primrec rx_over :: "(jchar \<Rightarrow> bool) \<Rightarrow> rx \<Rightarrow> bool" where
  "rx_over P REmpty = True"
| "rx_over P (RCls Q) = (\<forall>c. Q c \<longrightarrow> P c)"
| "rx_over P (RSeq r s) = (rx_over P r \<and> rx_over P s)"
| "rx_over P (RAlt r s) = (rx_over P r \<and> rx_over P s)"
| "rx_over P (RStar r) = rx_over P r"
| "rx_over P (ROpt r) = rx_over P r"
| "rx_over P (RGroup n r) = rx_over P r"
| "rx_over P (RRef n) = False"
| "rx_over P RStart = True"
| "rx_over P REnd = True"
| "rx_over P RWordB = True"

lemma rx_over_lit [simp]: "rx_over P (rx_lit t) \<longleftrightarrow> (\<forall>c\<in>set t. P c)"
  by (induction t) (auto simp: rx_lit.simps)

lemma rx_over_seq [simp]: "rx_over P (rx_seq rs) \<longleftrightarrow> (\<forall>r\<in>set rs. rx_over P r)"
  by (induction rs rule: rx_seq.induct) (auto simp: rx_seq.simps)

lemma rx_over_alt [simp]: "rx_over P (rx_alt rs) \<longleftrightarrow> (\<forall>r\<in>set rs. rx_over P r)"
  by (induction rs rule: rx_alt.induct) (auto simp: rx_alt.simps)

lemma rx_over_plus [simp]: "rx_over P (rx_plus r) \<longleftrightarrow> rx_over P r"
  by (simp add: rx_plus_def)

lemma consumes_nothing:
  "k b a c = Some x \<Longrightarrow> \<exists>p a' c'. a = p @ a' \<and> (\<forall>y\<in>set p. P y) \<and> k (rev p @ b) a' c' = Some x"
  by (rule exI [of _ "[]"]) auto

lemma star_iter_consumes:
  assumes m: "\<And>k b a c x. m k b a c = Some x \<Longrightarrow>
      \<exists>p a' c'. a = p @ a' \<and> (\<forall>y\<in>set p. P y) \<and> k (rev p @ b) a' c' = Some x"
    and "star_iter m n k b a c = Some x"
  shows "\<exists>p a' c'. a = p @ a' \<and> (\<forall>y\<in>set p. P y) \<and> k (rev p @ b) a' c' = Some x"
  using assms(2)
proof (induction n arbitrary: b a c)
  case 0
  then show ?case by (intro consumes_nothing) simp
next
  case (Suc n)
  let ?k = "\<lambda>b' a' c'. if length a' < length a then star_iter m n k b' a' c' else None"
  show ?case
  proof (cases "m ?k b a c")
    case None
    with Suc.prems show ?thesis by (intro consumes_nothing) simp
  next
    case (Some y)
    with Suc.prems have "m ?k b a c = Some x" by simp
    from m [OF this] obtain p a' c'
      where p: "a = p @ a'" "\<forall>y\<in>set p. P y" "?k (rev p @ b) a' c' = Some x"
      by (elim exE conjE)
    then have "star_iter m n k (rev p @ b) a' c' = Some x" by (simp split: if_splits)
    from Suc.IH [OF this] obtain q a'' c''
      where "a' = q @ a''" "\<forall>y\<in>set q. P y" "k (rev q @ rev p @ b) a'' c'' = Some x"
      by (elim exE conjE)
    with p(1,2) have "a = (p @ q) @ a'' \<and> (\<forall>y\<in>set (p @ q). P y) \<and> k (rev (p @ q) @ b) a'' c'' = Some x"
      by auto
    then show ?thesis by blast
  qed
qed

lemma rx_m_consumes:
  "rx_over P r \<Longrightarrow> rx_m r k b a c = Some x \<Longrightarrow>
   \<exists>p a' c'. a = p @ a' \<and> (\<forall>y\<in>set p. P y) \<and> k (rev p @ b) a' c' = Some x"
proof (induction r arbitrary: k b a c x)
  case (RCls Q)
  then obtain y a' where "a = y # a'" "Q y" "k (y # b) a' c = Some x"
    by (auto split: list.splits if_splits)
  with RCls.prems(1) have "a = [y] @ a' \<and> (\<forall>z\<in>set [y]. P z) \<and> k (rev [y] @ b) a' c = Some x"
    by auto
  then show ?case by blast
next
  case (RSeq r s)
  from RSeq.prems have m: "rx_m r (rx_m s k) b a c = Some x" and o: "rx_over P r" "rx_over P s"
    by simp_all
  from RSeq.IH(1) [OF o(1) m] obtain p a' c'
    where p: "a = p @ a'" "\<forall>y\<in>set p. P y" "rx_m s k (rev p @ b) a' c' = Some x"
    by (elim exE conjE)
  from RSeq.IH(2) [OF o(2) p(3)] obtain q a'' c''
    where "a' = q @ a''" "\<forall>y\<in>set q. P y" "k (rev q @ rev p @ b) a'' c'' = Some x"
    by (elim exE conjE)
  with p(1,2) have "a = (p @ q) @ a'' \<and> (\<forall>y\<in>set (p @ q). P y) \<and> k (rev (p @ q) @ b) a'' c'' = Some x"
    by auto
  then show ?case by blast
next
  case (RAlt r s)
  then show ?case
    using RAlt.IH(1) [of k b a c] RAlt.IH(2) [of k b a c] by (auto split: option.splits)
next
  case (RStar r)
  then have o: "rx_over P r" and m: "star_iter (rx_m r) (length a) k b a c = Some x" by simp_all
  show ?case by (rule star_iter_consumes [OF _ m]) (rule RStar.IH [OF o])
next
  case (ROpt r)
  then show ?case
    using ROpt.IH [of k b a c] consumes_nothing [of k b a c x P] by (auto split: option.splits)
next
  case (RGroup n r)
  let ?k = "\<lambda>b' a' c'. k b' a' ((n, take (length a - length a') a) # c')"
  from RGroup.prems have m: "rx_m r ?k b a c = Some x" and o: "rx_over P r" by simp_all
  from RGroup.IH [OF o m] show ?case by (elim exE conjE) (intro exI conjI, assumption+)
next
  case REmpty
  then show ?case by (intro consumes_nothing) simp
next
  case RStart
  then show ?case by (intro consumes_nothing) (simp split: if_splits)
next
  case REnd
  then show ?case by (intro consumes_nothing) (simp split: if_splits)
next
  case RWordB
  then show ?case by (intro consumes_nothing) (simp split: if_splits)
qed simp

text \<open>Groups and repetitions compute by the lemmas above; a group around alternatives unfolds.\<close>

lemma rx_m_group_alt [simp]:
  "rx_m (RGroup n (rx_alt rs)) k b a c =
     rx_m (rx_alt rs) (\<lambda>b' a' c'. k b' a' ((n, take (length a - length a') a) # c')) b a c"
  by simp

declare rx_m.simps(5,7) [simp del]

end
