(* ===== verification/Http_Status_Rules.thy ===== *)
theory Http_Status_Rules
  imports Js_RegExp "HOL-Library.Product_Lexorder"
begin

text \<open>
  The status-code rules of the channel settings,
  \<^verbatim>\<open>src/web/default/src/lib/http-status-code-rules.ts\<close>: a comma separated
  list of codes and ranges is parsed, validated, merged and printed in a normal form.

  The model follows \<open>parseHttpStatusCodeRules\<close>, \<open>parseToken\<close>,
  \<open>isNumber\<close> and \<open>mergeRanges\<close>.  Codes are integers: \<open>parseInt\<close> is
  applied to digit strings only, and the values that survive the range check are exact.
  The specification is the set of codes a list of ranges denotes; the locale
  \<open>range_merger\<close> states what the parser relies on of \<open>mergeRanges\<close>.
\<close>

section \<open>Definitions\<close>

record StatusCodeRange =
  sr_start :: int
  sr_end :: int

record ParsedHttpStatusCodeRules =
  ok :: bool
  ranges :: "StatusCodeRange list"
  tokens :: "jstr list"
  normalized :: jstr
  invalidTokens :: "jstr list"

definition isNumber :: "jstr \<Rightarrow> bool" where
  "isNumber s = rx_test (rx_seq [RStart, rx_plus (RCls is_digit), REnd]) s"

definition isValidCode :: "int \<Rightarrow> bool" where
  "isValidCode code \<longleftrightarrow> 100 \<le> code \<and> code \<le> 599"

definition parseToken :: "jstr \<Rightarrow> StatusCodeRange option" where
  "parseToken token =
     (let cleaned = strip_ws (trim token) in
      if cleaned = [] then None
      else if str_includes (js ''-'') cleaned then
        (case split_str (js ''-'') cleaned of
           a # b # _ \<Rightarrow>
             if \<not> isNumber a \<or> \<not> isNumber b then None
             else
               let start = digits_value a; end = digits_value b in
               if \<not> isValidCode start \<or> \<not> isValidCode end \<or> end < start then None
               else Some \<lparr>sr_start = start, sr_end = end\<rparr>
         | _ \<Rightarrow> None)
      else if \<not> isNumber cleaned then None
      else
        let code = digits_value cleaned in
        if \<not> isValidCode code then None
        else Some \<lparr>sr_start = code, sr_end = code\<rparr>)"

definition merge_step :: "StatusCodeRange list \<Rightarrow> StatusCodeRange \<Rightarrow> StatusCodeRange list" where
  "merge_step merged current =
     (if merged = [] \<or> sr_end (last merged) + 1 < sr_start current then merged @ [current]
      else butlast merged @
        [(last merged)\<lparr>sr_end := max (sr_end (last merged)) (sr_end current)\<rparr>])"

definition mergeRanges :: "StatusCodeRange list \<Rightarrow> StatusCodeRange list" where
  "mergeRanges rs =
     (if rs = [] then []
      else foldl merge_step [] (sort_key (\<lambda>r. (sr_start r, sr_end r)) rs))"

text \<open>The two arrays the loop over the segments fills.\<close>

fun collect_segments ::
  "jstr list \<Rightarrow> StatusCodeRange list \<Rightarrow> jstr list \<Rightarrow> StatusCodeRange list \<times> jstr list" where
  "collect_segments [] rs bad = (rs, bad)"
| "collect_segments (seg # segs) rs bad =
     (case parseToken seg of
        None \<Rightarrow> collect_segments segs rs (bad @ [seg])
      | Some r \<Rightarrow> collect_segments segs (rs @ [r]) bad)"

definition rule_segments :: "jstr \<Rightarrow> jstr list" where
  "rule_segments raw =
     filter (\<lambda>s. s \<noteq> []) (map trim (split_str (js '','') (replace_unit 65292 44 raw)))"

definition range_token :: "StatusCodeRange \<Rightarrow> jstr" where
  "range_token r =
     (if sr_start r = sr_end r then dec (sr_start r)
      else dec (sr_start r) @ js ''-'' @ dec (sr_end r))"

text \<open>The argument is \<open>None\<close> for \<open>null\<close> and \<open>undefined\<close>.\<close>

definition parseHttpStatusCodeRules :: "jstr option \<Rightarrow> ParsedHttpStatusCodeRules" where
  "parseHttpStatusCodeRules input =
     (let raw = trim (case input of None \<Rightarrow> [] | Some s \<Rightarrow> s) in
      if raw = [] then
        \<lparr>ok = True, ranges = [], tokens = [], normalized = [], invalidTokens = []\<rparr>
      else
        let (rs, bad) = collect_segments (rule_segments raw) [] [] in
        if bad \<noteq> [] then
          \<lparr>ok = False, ranges = [], tokens = [], normalized = raw, invalidTokens = bad\<rparr>
        else
          let merged = mergeRanges rs; toks = map range_token merged in
          \<lparr>ok = True, ranges = merged, tokens = toks, normalized = join (js '','') toks,
           invalidTokens = []\<rparr>)"

text \<open>What a list of ranges means, and the form the merged list has: every range is
  non-empty and between two neighbours at least one code is missing.\<close>

definition range_codes :: "StatusCodeRange \<Rightarrow> int set" where
  "range_codes r = {sr_start r..sr_end r}"

definition codes :: "StatusCodeRange list \<Rightarrow> int set" where
  "codes rs = (\<Union>r\<in>set rs. range_codes r)"

definition range_wf :: "StatusCodeRange \<Rightarrow> bool" where
  "range_wf r \<longleftrightarrow> sr_start r \<le> sr_end r"

definition range_gap :: "StatusCodeRange \<Rightarrow> StatusCodeRange \<Rightarrow> bool" where
  "range_gap a b \<longleftrightarrow> sr_end a + 1 < sr_start b"

definition normal_ranges :: "StatusCodeRange list \<Rightarrow> bool" where
  "normal_ranges rs \<longleftrightarrow> list_all range_wf rs \<and> sorted_wrt range_gap rs"

definition range_valid :: "StatusCodeRange \<Rightarrow> bool" where
  "range_valid r \<longleftrightarrow> 100 \<le> sr_start r \<and> sr_start r \<le> sr_end r \<and> sr_end r \<le> 599"

definition input_text :: "jstr option \<Rightarrow> jstr" where
  "input_text input = trim (case input of None \<Rightarrow> [] | Some s \<Rightarrow> s)"

section \<open>Normal forms are canonical\<close>

lemma codes_simps [simp]:
  "codes [] = {}"
  "codes (r # rs) = range_codes r \<union> codes rs"
  "codes (rs @ rs') = codes rs \<union> codes rs'"
  by (auto simp: codes_def)

lemma normal_ranges_Cons:
  "normal_ranges (r # rs) \<longleftrightarrow> range_wf r \<and> (\<forall>r'\<in>set rs. range_gap r r') \<and> normal_ranges rs"
  by (auto simp: normal_ranges_def)

lemma gap_codes:
  "\<forall>r'\<in>set rs. range_gap r r' \<Longrightarrow> c \<in> codes rs \<Longrightarrow> sr_end r + 1 < c"
  by (fastforce simp: codes_def range_codes_def range_gap_def)

lemma range_codes_first:
  assumes "normal_ranges (r # rs)"
  shows "sr_start r \<in> codes (r # rs)" and "\<forall>c\<in>codes (r # rs). sr_start r \<le> c"
    and "sr_end r + 1 \<notin> codes (r # rs)" and "{sr_start r..sr_end r} \<subseteq> codes (r # rs)"
  using assms gap_codes [of rs r]
  by (fastforce simp: normal_ranges_Cons range_codes_def range_wf_def)+

lemma normal_ranges_hd_eq:
  assumes "normal_ranges (r # rs)" and "normal_ranges (q # qs)" and "codes (r # rs) = codes (q # qs)"
  shows "r = q"
proof -
  have le_end: "sr_end a \<le> sr_end b"
    if a: "normal_ranges (a # as)" and b: "normal_ranges (b # bs)"
      and eq: "codes (a # as) = codes (b # bs)" and st: "sr_start a = sr_start b" for a b as bs
  proof (rule ccontr)
    assume "\<not> sr_end a \<le> sr_end b"
    moreover have "sr_start b \<le> sr_end b" using b by (simp add: normal_ranges_Cons range_wf_def)
    ultimately have "sr_end b + 1 \<in> {sr_start a..sr_end a}" using st by auto
    then have "sr_end b + 1 \<in> codes (b # bs)" using range_codes_first(4) [OF a] eq by blast
    then show False using range_codes_first(3) [OF b] by blast
  qed
  have st: "sr_start r = sr_start q"
    using range_codes_first(1,2) [OF assms(1)] range_codes_first(1,2) [OF assms(2)] assms(3)
    by (intro antisym) auto
  moreover have "sr_end r = sr_end q"
    using le_end [OF assms(1,2) assms(3) st] le_end [OF assms(2,1) assms(3) [symmetric] st [symmetric]]
    by simp
  ultimately show ?thesis by simp
qed

lemma normal_ranges_tl_codes:
  assumes "normal_ranges (r # rs)"
  shows "codes rs = codes (r # rs) - range_codes r"
  using assms gap_codes [of rs r] by (fastforce simp: normal_ranges_Cons range_codes_def)

theorem normal_ranges_canonical:
  "normal_ranges rs \<Longrightarrow> normal_ranges qs \<Longrightarrow> codes rs = codes qs \<Longrightarrow> rs = qs"
proof (induction rs arbitrary: qs)
  case Nil
  then show ?case
    by (cases qs) (auto simp: normal_ranges_Cons range_wf_def range_codes_def)
next
  case (Cons r rs)
  show ?case
  proof (cases qs)
    case Nil
    with Cons.prems show ?thesis by (auto simp: normal_ranges_Cons range_wf_def range_codes_def)
  next
    case (Cons q qs')
    with Cons.prems have rq: "r = q" by (blast intro: normal_ranges_hd_eq)
    have "codes rs = codes (r # rs) - range_codes r"
      by (rule normal_ranges_tl_codes) (rule Cons.prems(1))
    also have "\<dots> = codes (q # qs') - range_codes q"
      using Cons.prems(3) Cons rq by simp
    also have "\<dots> = codes qs'"
      using Cons.prems(2) Cons by (intro normal_ranges_tl_codes [symmetric]) simp
    finally have "codes rs = codes qs'" .
    with rq show ?thesis
      using Cons.IH [of qs'] Cons.prems(1,2) Cons by (simp add: normal_ranges_Cons)
  qed
qed

section \<open>The contract of merging\<close>

locale range_merger =
  fixes merge :: "StatusCodeRange list \<Rightarrow> StatusCodeRange list"
  assumes merge_codes: "list_all range_wf rs \<Longrightarrow> codes (merge rs) = codes rs"
    and merge_normal: "list_all range_wf rs \<Longrightarrow> normal_ranges (merge rs)"
begin

lemma merge_fixes_normal: "normal_ranges rs \<Longrightarrow> merge rs = rs"
  using merge_normal [of rs] merge_codes [of rs]
  by (intro normal_ranges_canonical) (auto simp: normal_ranges_def)

lemma merge_idem: "list_all range_wf rs \<Longrightarrow> merge (merge rs) = merge rs"
  by (rule merge_fixes_normal) (rule merge_normal)

lemma merge_extensional:
  "list_all range_wf rs \<Longrightarrow> list_all range_wf qs \<Longrightarrow> codes rs = codes qs \<Longrightarrow> merge rs = merge qs"
  by (rule normal_ranges_canonical) (auto simp: merge_codes merge_normal)

end

section \<open>mergeRanges keeps the contract\<close>

text \<open>The loop invariant: the array built so far is in normal form, denotes what was read,
  and no later range starts before the last one it holds.\<close>

lemma merge_step_inv:
  assumes "normal_ranges merged" and "range_wf r"
    and "merged \<noteq> [] \<Longrightarrow> sr_start (last merged) \<le> sr_start r"
  shows "normal_ranges (merge_step merged r)"
    and "codes (merge_step merged r) = codes merged \<union> range_codes r"
    and "merge_step merged r \<noteq> []"
    and "sr_start (last (merge_step merged r)) \<le> sr_start r"
proof -
  have "normal_ranges (merge_step merged r) \<and>
    codes (merge_step merged r) = codes merged \<union> range_codes r \<and>
    merge_step merged r \<noteq> [] \<and> sr_start (last (merge_step merged r)) \<le> sr_start r"
  proof (cases merged rule: rev_cases)
    case Nil
    with assms show ?thesis by (simp add: merge_step_def normal_ranges_def)
  next
    case (snoc ms l)
    have gap_trans: "range_gap a r" if "range_gap a l" "range_gap l r" "range_wf l" for a
      using that by (simp add: range_gap_def range_wf_def)
    show ?thesis
      using assms snoc
      by (auto simp: merge_step_def normal_ranges_def range_wf_def sorted_wrt_append range_codes_def
          gap_trans) (auto simp: range_gap_def)
  qed
  then show "normal_ranges (merge_step merged r)"
    and "codes (merge_step merged r) = codes merged \<union> range_codes r"
    and "merge_step merged r \<noteq> []"
    and "sr_start (last (merge_step merged r)) \<le> sr_start r" by blast+
qed

lemma merge_fold_inv:
  assumes "sorted (map (\<lambda>r. (sr_start r, sr_end r)) rs)" and "list_all range_wf rs"
    and "normal_ranges merged"
    and "merged \<noteq> [] \<Longrightarrow> \<forall>r\<in>set rs. sr_start (last merged) \<le> sr_start r"
  shows "normal_ranges (foldl merge_step merged rs) \<and>
    codes (foldl merge_step merged rs) = codes merged \<union> codes rs"
  using assms
proof (induction rs arbitrary: merged)
  case (Cons r rs)
  let ?m = "merge_step merged r"
  have wf: "range_wf r" and le: "merged \<noteq> [] \<Longrightarrow> sr_start (last merged) \<le> sr_start r"
    using Cons.prems by auto
  note inv = merge_step_inv [OF Cons.prems(3) wf le]
  have "\<forall>r'\<in>set rs. sr_start r \<le> sr_start r'"
    using Cons.prems(1) by (auto simp: less_eq_prod_def)
  with inv(4) have "\<forall>r'\<in>set rs. sr_start (last ?m) \<le> sr_start r'" by fastforce
  with Cons inv show ?case by auto
qed simp

lemma mergeRanges_correct:
  assumes "list_all range_wf rs"
  shows "normal_ranges (mergeRanges rs) \<and> codes (mergeRanges rs) = codes rs"
proof -
  let ?s = "sort_key (\<lambda>r. (sr_start r, sr_end r)) rs"
  have "normal_ranges (foldl merge_step [] ?s) \<and> codes (foldl merge_step [] ?s) = codes [] \<union> codes ?s"
    using assms by (intro merge_fold_inv) (auto simp: normal_ranges_def list_all_iff)
  then show ?thesis by (simp add: mergeRanges_def codes_def normal_ranges_def)
qed

interpretation mr: range_merger mergeRanges
  by unfold_locales (simp_all add: mergeRanges_correct)

section \<open>Tokens\<close>

lemma isNumber_iff: "isNumber s \<longleftrightarrow> s \<noteq> [] \<and> (\<forall>c\<in>set s. is_digit c)"
  unfolding isNumber_def by (rule rx_test_cls_plus)

lemma isNumber_dec: "0 \<le> i \<Longrightarrow> isNumber (dec i)"
  using dec_digits [of i] by (simp add: isNumber_iff)

lemma range_valid_wf: "range_valid r \<Longrightarrow> range_wf r"
  by (simp add: range_valid_def range_wf_def)

lemma parseToken_valid: "parseToken t = Some r \<Longrightarrow> range_valid r"
  by (auto simp: parseToken_def Let_def isValidCode_def range_valid_def split: if_splits list.splits)

lemma no_ws_clean: "\<forall>c\<in>set s. \<not> is_ws c \<Longrightarrow> strip_ws (trim s) = s"
  by (simp add: trim_id_all strip_ws_def filter_id_conv)

lemma range_token_chars:
  "range_valid r \<Longrightarrow> c \<in> set (range_token r) \<Longrightarrow> is_digit c \<or> c = 45"
  using dec_digits [of "sr_start r"] dec_digits [of "sr_end r"]
  by (auto simp: range_token_def range_valid_def split: if_splits)

lemma range_token_no_ws: "range_valid r \<Longrightarrow> \<forall>c\<in>set (range_token r). \<not> is_ws c"
  using range_token_chars [of r] by (fastforce simp: is_ws_def is_digit_def)

lemma split_dash:
  "0 \<le> i \<Longrightarrow> 0 \<le> j \<Longrightarrow> split_str [45] (dec i @ 45 # dec j) = [dec i, dec j]"
  using split_join_unit [of "[dec i, dec j]" 45] dec_not_in [of i 45] dec_not_in [of j 45]
  by (simp add: is_digit_def)

lemma parseToken_range_token: "range_valid r \<Longrightarrow> parseToken (range_token r) = Some r"
proof -
  assume v: "range_valid r"
  then have nn: "0 \<le> sr_start r" "0 \<le> sr_end r" by (auto simp: range_valid_def)
  have clean: "strip_ws (trim (range_token r)) = range_token r"
    using v by (intro no_ws_clean range_token_no_ws)
  show ?thesis
  proof (cases "sr_start r = sr_end r")
    case True
    with v nn clean show ?thesis
      using dec_digits [OF nn(1)] dec_not_in [OF nn(1), of 45]
      by (cases r) (simp add: parseToken_def range_token_def isNumber_dec isValidCode_def
          range_valid_def is_digit_def Let_def)
  next
    case False
    with v nn clean show ?thesis
      by (cases r) (simp add: parseToken_def range_token_def isNumber_dec isValidCode_def
          range_valid_def split_dash Let_def)
  qed
qed

section \<open>The parser\<close>

lemma collect_segments_eq:
  "collect_segments segs rs bad =
     (rs @ List.map_filter parseToken segs, bad @ filter (\<lambda>s. parseToken s = None) segs)"
  by (induction segs arbitrary: rs bad) (auto simp: List.map_filter_simps split: option.splits)

lemma parse_unfold:
  "parseHttpStatusCodeRules input =
     (let raw = input_text input; bad = filter (\<lambda>s. parseToken s = None) (rule_segments raw);
          merged = mergeRanges (List.map_filter parseToken (rule_segments raw)) in
      if bad \<noteq> [] then
        \<lparr>ok = False, ranges = [], tokens = [], normalized = raw, invalidTokens = bad\<rparr>
      else
        \<lparr>ok = True, ranges = merged, tokens = map range_token merged,
         normalized = join (js '','') (map range_token merged), invalidTokens = []\<rparr>)"
proof (cases "input_text input = []")
  case True
  have "rule_segments [] = []"
    by (simp add: rule_segments_def replace_unit_def split_str_def split_acc_Nil)
  with True show ?thesis
    by (simp add: parseHttpStatusCodeRules_def input_text_def mergeRanges_def List.map_filter_simps)
next
  case False
  then show ?thesis
    by (simp add: parseHttpStatusCodeRules_def input_text_def collect_segments_eq Let_def)
qed

lemma map_filter_valid: "list_all range_valid (List.map_filter parseToken segs)"
  by (auto simp: list_all_iff List.map_filter_def parseToken_valid)

lemma merged_valid:
  assumes "list_all range_valid rs"
  shows "list_all range_valid (mergeRanges rs)"
proof -
  have wf: "list_all range_wf rs"
    using assms by (auto simp: list_all_iff range_valid_wf)
  then have n: "normal_ranges (mergeRanges rs)" and c: "codes (mergeRanges rs) = codes rs"
    by (simp_all add: mergeRanges_correct)
  have "codes rs \<subseteq> {100..599}"
    using assms by (auto simp: codes_def range_codes_def range_valid_def list_all_iff)
  moreover have "{sr_start r, sr_end r} \<subseteq> codes (mergeRanges rs) \<and> sr_start r \<le> sr_end r"
    if "r \<in> set (mergeRanges rs)" for r
    using n that by (auto simp: normal_ranges_def list_all_iff range_wf_def codes_def range_codes_def)
  ultimately show ?thesis
    using c by (fastforce simp: list_all_iff range_valid_def)
qed

lemma rule_segments_tokens:
  assumes "list_all range_valid rs"
  shows "rule_segments (trim (join (js '','') (map range_token rs))) = map range_token rs"
proof (cases "rs = []")
  case True
  then show ?thesis
    by (simp add: rule_segments_def replace_unit_def split_str_def split_acc_Nil)
next
  case False
  let ?s = "join [44] (map range_token rs)"
  have chars: "is_digit c \<or> c = 45 \<or> c = 44" if "c \<in> set ?s" for c
    using that set_join_subset [of "[44]" "map range_token rs"] assms range_token_chars
    by (fastforce simp: list_all_iff)
  have ne: "range_token r \<noteq> []" if "r \<in> set rs" for r
    using assms that dec_digits [of "sr_start r"]
    by (auto simp: list_all_iff range_token_def range_valid_def)
  have "trim ?s = ?s"
    by (rule trim_id_all) (use chars in \<open>fastforce simp: is_ws_def is_digit_def\<close>)
  moreover have "replace_unit 65292 44 ?s = ?s"
    unfolding replace_unit_def by (rule map_idI) (use chars in \<open>fastforce simp: is_digit_def\<close>)
  moreover have "split_str [44] ?s = map range_token rs"
    using False assms range_token_chars
    by (intro split_join_unit) (fastforce simp: list_all_iff is_digit_def)+
  moreover have "map trim (map range_token rs) = map range_token rs"
    using assms by (auto simp: list_all_iff intro!: map_idI trim_id_all range_token_no_ws)
  ultimately show ?thesis
    using ne by (auto simp: rule_segments_def filter_id_conv)
qed

lemma parse_normalized:
  assumes "list_all range_valid rs" and "normal_ranges rs"
  shows "parseHttpStatusCodeRules (Some (join (js '','') (map range_token rs))) =
    \<lparr>ok = True, ranges = rs, tokens = map range_token rs,
     normalized = join (js '','') (map range_token rs), invalidTokens = []\<rparr>"
proof -
  have pt: "parseToken (range_token r) = Some r" if "r \<in> set rs" for r
    using assms that by (simp add: list_all_iff parseToken_range_token)
  have "List.map_filter parseToken (map range_token rs) = rs"
    using pt by (induction rs) (auto simp: List.map_filter_simps)
  moreover have "filter (\<lambda>s. parseToken s = None) (map range_token rs) = []"
    using pt by (auto simp: filter_empty_conv)
  ultimately show ?thesis
    using rule_segments_tokens [OF assms(1)] mr.merge_fixes_normal [OF assms(2)]
    by (simp add: parse_unfold input_text_def Let_def)
qed

lemma accepted_facts:
  assumes "ok (parseHttpStatusCodeRules input)"
  shows "codes (ranges (parseHttpStatusCodeRules input)) =
      (\<Union>seg\<in>set (rule_segments (input_text input)). range_codes (the (parseToken seg))) \<and>
    codes (ranges (parseHttpStatusCodeRules input)) \<subseteq> {100..599} \<and>
    normal_ranges (ranges (parseHttpStatusCodeRules input)) \<and>
    tokens (parseHttpStatusCodeRules input) =
      map range_token (ranges (parseHttpStatusCodeRules input)) \<and>
    normalized (parseHttpStatusCodeRules input) =
      join (js '','') (map range_token (ranges (parseHttpStatusCodeRules input))) \<and>
    list_all range_valid (ranges (parseHttpStatusCodeRules input))"
proof -
  let ?segs = "rule_segments (input_text input)"
  let ?rs = "List.map_filter parseToken ?segs"
  have good: "\<forall>seg\<in>set ?segs. parseToken seg \<noteq> None"
    using assms by (auto simp: parse_unfold Let_def filter_empty_conv split: if_splits)
  then have eq: "parseHttpStatusCodeRules input =
    \<lparr>ok = True, ranges = mergeRanges ?rs, tokens = map range_token (mergeRanges ?rs),
     normalized = join (js '','') (map range_token (mergeRanges ?rs)), invalidTokens = []\<rparr>"
    by (simp add: parse_unfold Let_def filter_empty_conv)
  have valid: "list_all range_valid ?rs" by (rule map_filter_valid)
  then have wf: "list_all range_wf ?rs" by (auto simp: list_all_iff range_valid_wf)
  have "codes ?rs = (\<Union>seg\<in>set ?segs. range_codes (the (parseToken seg)))"
    using good by (fastforce simp: codes_def List.map_filter_def)
  moreover have "codes ?rs \<subseteq> {100..599}"
    using valid by (auto simp: codes_def range_codes_def range_valid_def list_all_iff)
  ultimately show ?thesis
    using wf merged_valid [OF valid] by (simp add: eq mr.merge_codes mr.merge_normal)
qed

section \<open>Properties\<close>

text \<open>C4. On every list of non-empty ranges, \<open>mergeRanges\<close> returns ranges that denote the
  same set of codes, in ascending order, with at least one code missing between neighbours;
  and it returns the same list for every other list of ranges with the same codes.\<close>

theorem mergeRanges_canonical:
  assumes "list_all range_wf rs" and "list_all range_wf qs" and "codes rs = codes qs"
  shows "codes (mergeRanges rs) = codes rs \<and> normal_ranges (mergeRanges rs) \<and>
    mergeRanges rs = mergeRanges qs"
  using assms mr.merge_codes mr.merge_normal mr.merge_extensional by blast

theorem mergeRanges_canonical_witness:
  "mergeRanges [\<lparr>sr_start = 401, sr_end = 404\<rparr>, \<lparr>sr_start = 400, sr_end = 400\<rparr>] =
   mergeRanges [\<lparr>sr_start = 400, sr_end = 402\<rparr>, \<lparr>sr_start = 402, sr_end = 404\<rparr>]"
proof -
  have "codes [\<lparr>sr_start = 401, sr_end = 404\<rparr>, \<lparr>sr_start = 400, sr_end = 400\<rparr>] =
      codes [\<lparr>sr_start = 400, sr_end = 402\<rparr>, \<lparr>sr_start = 402, sr_end = 404\<rparr>]"
    by (auto simp: codes_def range_codes_def)
  then show ?thesis
    using mergeRanges_canonical by (simp add: range_wf_def)
qed

text \<open>C22. An accepted rule text denotes exactly the codes of its tokens, all of them between
  100 and 599; the ranges of the result are in normal form, and the tokens and the
  normalized text print these ranges.\<close>

theorem parse_accepted:
  assumes "ok (parseHttpStatusCodeRules input)"
  shows "codes (ranges (parseHttpStatusCodeRules input)) =
      (\<Union>seg\<in>set (rule_segments (input_text input)). range_codes (the (parseToken seg))) \<and>
    codes (ranges (parseHttpStatusCodeRules input)) \<subseteq> {100..599} \<and>
    normal_ranges (ranges (parseHttpStatusCodeRules input)) \<and>
    tokens (parseHttpStatusCodeRules input) =
      map range_token (ranges (parseHttpStatusCodeRules input)) \<and>
    normalized (parseHttpStatusCodeRules input) =
      join (js '','') (map range_token (ranges (parseHttpStatusCodeRules input)))"
  using accepted_facts [OF assms] by blast

theorem parse_accepted_witness:
  "ranges (parseHttpStatusCodeRules (Some (js ''404, 400 - 403,500''))) =
     [\<lparr>sr_start = 400, sr_end = 404\<rparr>, \<lparr>sr_start = 500, sr_end = 500\<rparr>] \<and>
   normalized (parseHttpStatusCodeRules (Some (js ''404, 400 - 403,500''))) = js ''400-404,500''"
proof -
  have "ok (parseHttpStatusCodeRules (Some (js ''404, 400 - 403,500'')))" by code_simp
  moreover have "ranges (parseHttpStatusCodeRules (Some (js ''404, 400 - 403,500''))) =
     [\<lparr>sr_start = 400, sr_end = 404\<rparr>, \<lparr>sr_start = 500, sr_end = 500\<rparr>]" by code_simp
  ultimately show ?thesis
    using parse_accepted [of "Some (js ''404, 400 - 403,500'')"]
    by (simp add: range_token_def dec_def dec_pos_small dec_pos_step)
qed

text \<open>A rule text is rejected exactly when one of its tokens does not parse. Then no
  ranges are returned, the text is handed back trimmed, and the reported tokens are the ones
  that do not parse, in their order.\<close>

theorem parse_rejected:
  "(\<not> ok (parseHttpStatusCodeRules input)) =
     (\<exists>seg\<in>set (rule_segments (input_text input)). parseToken seg = None) \<and>
   invalidTokens (parseHttpStatusCodeRules input) =
     filter (\<lambda>seg. parseToken seg = None) (rule_segments (input_text input)) \<and>
   (if ok (parseHttpStatusCodeRules input) then True
    else ranges (parseHttpStatusCodeRules input) = [] \<and>
      tokens (parseHttpStatusCodeRules input) = [] \<and>
      normalized (parseHttpStatusCodeRules input) = input_text input)"
  by (auto simp: parse_unfold Let_def filter_empty_conv)

text \<open>C23. The normalized text is a fixed point: parsing it again gives the same ranges, tokens
  and text.\<close>

theorem parse_normalized_roundtrip:
  assumes "ok (parseHttpStatusCodeRules input)"
  shows "parseHttpStatusCodeRules (Some (normalized (parseHttpStatusCodeRules input))) =
    parseHttpStatusCodeRules input"
proof -
  let ?rs = "List.map_filter parseToken (rule_segments (input_text input))"
  have eq: "parseHttpStatusCodeRules input =
    \<lparr>ok = True, ranges = mergeRanges ?rs, tokens = map range_token (mergeRanges ?rs),
     normalized = join (js '','') (map range_token (mergeRanges ?rs)), invalidTokens = []\<rparr>"
    using assms by (auto simp: parse_unfold Let_def filter_empty_conv split: if_splits)
  have valid: "list_all range_valid ?rs" by (rule map_filter_valid)
  then have "list_all range_wf ?rs" by (auto simp: list_all_iff range_valid_wf)
  then show ?thesis
    using parse_normalized [OF merged_valid [OF valid] mr.merge_normal] by (simp add: eq)
qed

theorem parse_normalized_roundtrip_witness:
  "parseHttpStatusCodeRules (Some (normalized (parseHttpStatusCodeRules (Some (js ''503,500-502''))))) =
   parseHttpStatusCodeRules (Some (js ''503,500-502''))"
proof -
  have "ok (parseHttpStatusCodeRules (Some (js ''503,500-502'')))" by code_simp
  then show ?thesis by (rule parse_normalized_roundtrip)
qed

end
