(* ===== verification/Js_Number.thy ===== *)
theory Js_Number
  imports Js_String Complex_Main
begin

text \<open>
  The Number type of ECMAScript: IEEE 754 binary64.  A finite number is the rational it
  stands for; \<open>to_double\<close> rounds a rational to the nearest double, ties to even, with
  gradual underflow and overflow to infinity, so that arithmetic of the source is rational
  arithmetic followed by \<open>to_double\<close>.  The sign of zero is not kept: no part of the
  program modelled here divides by zero or tells 0 from -0.

  \<open>num_to_string\<close> is \<open>Number::toString\<close> for radix 10: the shortest decimal that
  rounds to the number, in plain or exponent form.  \<open>decimal_value\<close> is the value of a
  decimal literal, \<open>to_number\<close> is \<open>Number(s)\<close> on the decimal strings the program
  converts.
\<close>

section \<open>Definitions\<close>

datatype jnum = NaN | Inf | NegInf | Fin rat

function bit_len :: "int \<Rightarrow> int" where
  "bit_len n = (if n \<le> 0 then 0 else 1 + bit_len (n div 2))"
  by pat_completeness auto
termination
  by (relation "measure nat") auto

declare bit_len.simps [simp del]

definition pow2 :: "int \<Rightarrow> rat" where
  "pow2 e = (if 0 \<le> e then 2 ^ nat e else 1 / 2 ^ nat (- e))"

definition pow10 :: "int \<Rightarrow> rat" where
  "pow10 e = (if 0 \<le> e then 10 ^ nat e else 1 / 10 ^ nat (- e))"

text \<open>The integer \<open>e\<close> with \<open>2^e \<le> x < 2^(e+1)\<close>, for positive \<open>x\<close>.\<close>

definition rat_log2 :: "rat \<Rightarrow> int" where
  "rat_log2 x =
     (let (n, d) = quotient_of x; e = bit_len n - bit_len d in if pow2 e \<le> x then e else e - 1)"

definition round_half_even :: "rat \<Rightarrow> int" where
  "round_half_even x =
     (let f = floor x; r = x - of_int f in
      if r < 1 / 2 then f else if 1 / 2 < r then f + 1 else if even f then f else f + 1)"

definition to_double_pos :: "rat \<Rightarrow> jnum" where
  "to_double_pos x =
     (let q = max (rat_log2 x - 52) (- 1074); v = of_int (round_half_even (x / pow2 q)) * pow2 q in
      if pow2 1024 \<le> v then Inf else Fin v)"

definition to_double :: "rat \<Rightarrow> jnum" where
  "to_double x =
     (if x = 0 then Fin 0
      else if 0 < x then to_double_pos x
      else (case to_double_pos (- x) of Fin v \<Rightarrow> Fin (- v) | _ \<Rightarrow> NegInf))"

definition num_truthy :: "jnum \<Rightarrow> bool" where
  "num_truthy x \<longleftrightarrow> x \<noteq> NaN \<and> x \<noteq> Fin 0"

definition num_is_integer :: "jnum \<Rightarrow> bool" where
  "num_is_integer x = (case x of Fin v \<Rightarrow> of_int (floor v) = v | _ \<Rightarrow> False)"

text \<open>\<open>a <= b\<close> and \<open>a < b\<close>; a comparison with NaN is false.\<close>

fun num_le :: "jnum \<Rightarrow> jnum \<Rightarrow> bool" where
  "num_le NaN _ = False"
| "num_le _ NaN = False"
| "num_le NegInf _ = True"
| "num_le _ Inf = True"
| "num_le (Fin a) (Fin b) = (a \<le> b)"
| "num_le _ _ = False"

definition num_lt :: "jnum \<Rightarrow> jnum \<Rightarrow> bool" where
  "num_lt a b \<longleftrightarrow> num_le a b \<and> a \<noteq> b"

section \<open>Printing\<close>

text \<open>The decimal exponent \<open>n\<close> with \<open>10^(n-1) \<le> x < 10^n\<close>: from an estimate by the
  binary exponent, corrected by at most a few steps (\<open>fuel\<close> bounds them).\<close>

fun dec_exp_up :: "nat \<Rightarrow> rat \<Rightarrow> int \<Rightarrow> int" where
  "dec_exp_up 0 x n = n"
| "dec_exp_up (Suc f) x n = (if x < pow10 n then n else dec_exp_up f x (n + 1))"

definition dec_exp :: "rat \<Rightarrow> int" where
  "dec_exp x = dec_exp_up 4 x ((rat_log2 x * 30103) div 100000 - 1)"

text \<open>The shortest decimal: the least number of digits \<open>k\<close> such that the nearest
  \<open>k\<close>-digit decimal rounds to the number. The result is the digits as an integer,
  their number and the exponent.\<close>

fun shortest_from :: "nat \<Rightarrow> rat \<Rightarrow> int \<Rightarrow> int \<Rightarrow> int \<times> int \<times> int" where
  "shortest_from 0 x n k = (round_half_even (x / pow10 (n - k)), k, n)"
| "shortest_from (Suc f) x n k =
     (let s = round_half_even (x / pow10 (n - k)) in
      if to_double (of_int s * pow10 (n - k)) = Fin x
      then (if of_int s = pow10 k then (s div 10, k, n + 1) else (s, k, n))
      else shortest_from f x n (k + 1))"

definition zeros :: "int \<Rightarrow> jstr" where
  "zeros n = replicate (nat n) 48"

definition pos_to_string :: "rat \<Rightarrow> jstr" where
  "pos_to_string x =
     (let (s, k, n) = shortest_from 16 x (dec_exp x) 1; ds = dec s in
      if k \<le> n \<and> n \<le> 21 then ds @ zeros (n - k)
      else if 0 < n \<and> n \<le> 21 then take (nat n) ds @ js ''.'' @ drop (nat n) ds
      else if - 6 < n \<and> n \<le> 0 then js ''0.'' @ zeros (- n) @ ds
      else
        let e = n - 1; es = (if 0 < e then js ''e+'' @ dec e else js ''e-'' @ dec (- e)) in
        if k = 1 then ds @ es else take 1 ds @ js ''.'' @ drop 1 ds @ es)"

fun num_to_string :: "jnum \<Rightarrow> jstr" where
  "num_to_string NaN = js ''NaN''"
| "num_to_string Inf = js ''Infinity''"
| "num_to_string NegInf = js ''-Infinity''"
| "num_to_string (Fin x) =
     (if x = 0 then js ''0'' else if 0 < x then pos_to_string x else js ''-'' @ pos_to_string (- x))"

section \<open>Reading\<close>

text \<open>The value of the parts of a decimal literal: integer digits, fraction digits and
  exponent.\<close>

definition decimal_value :: "jstr \<Rightarrow> jstr \<Rightarrow> int \<Rightarrow> rat" where
  "decimal_value ip fp e = of_int (digits_value (ip @ fp)) * pow10 (e - int (length fp))"

text \<open>\<open>Number(s)\<close>: white space around the literal is skipped, the empty string is 0, a text
  that is no literal is NaN.\<close>

definition dec_exponent :: "jstr \<Rightarrow> int option" where
  "dec_exponent s =
     (case s of
        [] \<Rightarrow> Some 0
      | x # t \<Rightarrow>
          if x = 101 \<or> x = 69 then
            (let sg = (if t \<noteq> [] \<and> hd t = 45 then - 1 else 1);
                 u = (if t \<noteq> [] \<and> (hd t = 43 \<or> hd t = 45) then tl t else t) in
             if u = [] \<or> \<not> list_all is_digit u then None else Some (sg * digits_value u))
          else None)"

definition unsigned_decimal :: "jstr \<Rightarrow> rat option" where
  "unsigned_decimal s =
     (let ip = takeWhile is_digit s; r = dropWhile is_digit s;
          dot = (r \<noteq> [] \<and> hd r = 46);
          fp = (if dot then takeWhile is_digit (tl r) else []);
          r' = (if dot then dropWhile is_digit (tl r) else r) in
      if ip = [] \<and> fp = [] then None
      else map_option (decimal_value ip fp) (dec_exponent r'))"

definition radix_digit :: "int \<Rightarrow> jchar \<Rightarrow> int option" where
  "radix_digit radix c =
     (let v = (if is_digit c then c - 48
               else if 97 \<le> c \<and> c \<le> 102 then c - 87
               else if 65 \<le> c \<and> c \<le> 70 then c - 55 else radix) in
      if v < radix then Some v else None)"

definition radix_number :: "int \<Rightarrow> jstr \<Rightarrow> jnum" where
  "radix_number radix s =
     (case map_opt (radix_digit radix) s of
        None \<Rightarrow> NaN
      | Some ds \<Rightarrow> if ds = [] then NaN else to_double (of_int (foldl (\<lambda>a d. radix * a + d) 0 ds)))"

definition unsigned_number :: "jstr \<Rightarrow> jnum" where
  "unsigned_number s =
     (if s = js ''Infinity'' then Inf
      else case unsigned_decimal s of None \<Rightarrow> NaN | Some x \<Rightarrow> to_double x)"

definition num_neg :: "jnum \<Rightarrow> jnum" where
  "num_neg x = (case x of NaN \<Rightarrow> NaN | Inf \<Rightarrow> NegInf | NegInf \<Rightarrow> Inf | Fin v \<Rightarrow> Fin (- v))"

definition to_number :: "jstr \<Rightarrow> jnum" where
  "to_number str =
     (let s = trim str; p = take 2 s in
      if s = [] then Fin 0
      else if p = js ''0x'' \<or> p = js ''0X'' then radix_number 16 (drop 2 s)
      else if p = js ''0o'' \<or> p = js ''0O'' then radix_number 8 (drop 2 s)
      else if p = js ''0b'' \<or> p = js ''0B'' then radix_number 2 (drop 2 s)
      else if hd s = 43 then unsigned_number (tl s)
      else if hd s = 45 then num_neg (unsigned_number (tl s))
      else unsigned_number s)"

section \<open>Integers are exact\<close>

lemma bit_len_pos: "0 < n \<Longrightarrow> bit_len n = 1 + bit_len (n div 2)"
  by (subst bit_len.simps) simp

lemma bit_len_nonpos: "n \<le> 0 \<Longrightarrow> bit_len n = 0"
  by (subst bit_len.simps) simp

lemma bit_len_bounds: "0 < n \<Longrightarrow> 1 \<le> bit_len n \<and> 2 ^ nat (bit_len n - 1) \<le> n \<and> n < 2 ^ nat (bit_len n)"
proof (induction n rule: bit_len.induct)
  case (1 n)
  show ?case
  proof (cases "n = 1")
    case True
    then show ?thesis by (simp add: bit_len_pos bit_len_nonpos)
  next
    case False
    with 1 have h: "0 < n div 2" by simp
    define k where "k = bit_len (n div 2)"
    have k: "1 \<le> k" "2 ^ nat (k - 1) \<le> n div 2" "n div 2 < 2 ^ nat k" using 1 h by (auto simp: k_def)
    have e: "bit_len n = 1 + k" using 1 by (simp add: bit_len_pos k_def)
    have p: "(2::int) ^ nat k = 2 * 2 ^ nat (k - 1)" "(2::int) ^ nat (1 + k) = 2 * 2 ^ nat k"
      using k(1) by (simp_all flip: power_Suc add: Suc_nat_eq_nat_zadd1 add.commute)
    have "n = 2 * (n div 2) + n mod 2" "0 \<le> n mod 2" "n mod 2 < 2" by simp_all
    with k p have "2 ^ nat k \<le> n" "n < 2 ^ nat (1 + k)" by linarith+
    with k show ?thesis unfolding e by simp
  qed
qed

lemma pow2_nonneg: "0 \<le> e \<Longrightarrow> pow2 e = 2 ^ nat e"
  by (simp add: pow2_def)

lemma rat_log2_int: "0 < n \<Longrightarrow> rat_log2 (of_int n) = bit_len n - 1"
proof -
  assume n: "0 < n"
  have "pow2 (bit_len n - 1) = of_int (2 ^ nat (bit_len n - 1))"
    using bit_len_bounds [OF n] by (simp add: pow2_nonneg)
  also have "\<dots> \<le> (of_int n :: rat)" using bit_len_bounds [OF n] by (simp only: of_int_le_iff)
  finally show ?thesis
    by (simp add: rat_log2_def bit_len_pos bit_len_nonpos)
qed

lemma round_half_even_int [simp]: "round_half_even (of_int n) = n"
  by (simp add: round_half_even_def)

lemma to_double_pos_int:
  assumes "0 < n" and "n < 2 ^ 53"
  shows "to_double_pos (of_int n) = Fin (of_int n)"
proof -
  define q where "q = max (rat_log2 (of_int n) - 52) (- 1074)"
  have b: "1 \<le> bit_len n" "2 ^ nat (bit_len n - 1) \<le> n" using bit_len_bounds [OF assms(1)] by auto
  have "bit_len n \<le> 53"
  proof (rule ccontr)
    assume "\<not> bit_len n \<le> 53"
    then have "53 \<le> nat (bit_len n - 1)" by linarith
    then have "(2::int) ^ 53 \<le> 2 ^ nat (bit_len n - 1)" by (intro power_increasing) auto
    with b assms(2) show False by linarith
  qed
  then have q: "q \<le> 0" using b by (simp add: q_def rat_log2_int [OF assms(1)])
  have p: "pow2 q = 1 / 2 ^ nat (- q)" using q by (cases "q = 0") (simp_all add: pow2_def)
  have "(of_int n :: rat) / pow2 q = of_int (n * 2 ^ nat (- q))" by (simp add: p)
  then have "round_half_even (of_int n / pow2 q) = n * 2 ^ nat (- q)" by (simp only: round_half_even_int)
  then have v: "of_int (round_half_even (of_int n / pow2 q)) * pow2 q = (of_int n :: rat)"
    by (simp add: p)
  have "(of_int n :: rat) < of_int (2 ^ 53)" using assms(2) by (simp only: of_int_less_iff)
  also have "\<dots> \<le> 2 ^ 1024" by simp
  finally have "\<not> pow2 1024 \<le> (of_int n :: rat)" by (simp add: pow2_nonneg not_le)
  then show ?thesis unfolding to_double_pos_def Let_def q_def [symmetric] v by simp
qed

lemma to_double_int:
  assumes "\<bar>n\<bar> < 2 ^ 53"
  shows "to_double (of_int n) = Fin (of_int n)"
proof (cases "n < 0")
  case True
  then have "to_double_pos (of_int (- n)) = Fin (of_int (- n))" using assms by (intro to_double_pos_int) auto
  with True show ?thesis by (simp add: to_double_def)
next
  case False
  with to_double_pos_int [of n] assms show ?thesis by (auto simp: to_double_def)
qed

end
