(* ===== verification/Js_Json.thy ===== *)
theory Js_Json
  imports Js_Number
begin

text \<open>
  JSON as the program uses it: \<open>JSON.parse\<close> on a text, \<open>JSON.stringify\<close> on a
  string, the order in which an object lists its keys, and the conversion of a parsed value
  to a string or a boolean.

  \<open>json_parse\<close> is total: \<open>None\<close> is the \<open>SyntaxError\<close> the callers
  catch.  An object keeps its properties in insertion order; a repeated key overwrites the
  value in place, and \<open>own_entries\<close> lists array-index keys first, in ascending
  order, as \<open>Object.keys\<close>, \<open>Object.values\<close> and \<open>Object.entries\<close> do.
\<close>

section \<open>Values\<close>

text \<open>The exceptions of the language that the code modelled here can raise.\<close>

datatype js_error = SyntaxError | RangeError | TypeError

datatype json =
    JNull
  | JBool bool
  | JNum jnum
  | JStr jstr
  | JArr "json list"
  | JObj "(jstr \<times> json) list"

type_synonym props = "(jstr \<times> json) list"

text \<open>Setting a property of an object.\<close>

fun prop_set :: "jstr \<Rightarrow> 'v \<Rightarrow> (jstr \<times> 'v) list \<Rightarrow> (jstr \<times> 'v) list" where
  "prop_set k v [] = [(k, v)]"
| "prop_set k v ((k', v') # ps) = (if k = k' then (k, v) # ps else (k', v') # prop_set k v ps)"

definition is_index_key :: "jstr \<Rightarrow> bool" where
  "is_index_key k \<longleftrightarrow> k \<noteq> [] \<and> list_all is_digit k \<and> (k = js ''0'' \<or> hd k \<noteq> 48) \<and>
     digits_value k < 4294967295"

definition own_entries :: "(jstr \<times> 'v) list \<Rightarrow> (jstr \<times> 'v) list" where
  "own_entries ps =
     sort_key (\<lambda>(k, v). digits_value k) (filter (\<lambda>(k, v). is_index_key k) ps) @
     filter (\<lambda>(k, v). \<not> is_index_key k) ps"

definition own_keys :: "(jstr \<times> 'v) list \<Rightarrow> jstr list" where
  "own_keys ps = map fst (own_entries ps)"

definition own_values :: "(jstr \<times> 'v) list \<Rightarrow> 'v list" where
  "own_values ps = map snd (own_entries ps)"

fun json_truthy :: "json \<Rightarrow> bool" where
  "json_truthy JNull = False"
| "json_truthy (JBool b) = b"
| "json_truthy (JNum x) = num_truthy x"
| "json_truthy (JStr s) = (s \<noteq> [])"
| "json_truthy _ = True"

text \<open>\<open>String(v)\<close>. The elements of an array are joined with commas, \<open>null\<close> as
  the empty string.\<close>

fun json_to_string :: "json \<Rightarrow> jstr" where
  "json_to_string JNull = js ''null''"
| "json_to_string (JBool b) = (if b then js ''true'' else js ''false'')"
| "json_to_string (JNum x) = num_to_string x"
| "json_to_string (JStr s) = s"
| "json_to_string (JArr vs) =
     join (js '','') (map (\<lambda>v. if v = JNull then [] else json_to_string v) vs)"
| "json_to_string (JObj ps) = js ''[object Object]''"

section \<open>JSON.stringify of a string\<close>

definition hex_digit :: "int \<Rightarrow> jchar" where
  "hex_digit n = (if n < 10 then 48 + n else 87 + n)"

definition unicode_escape :: "jchar \<Rightarrow> jstr" where
  "unicode_escape c =
     js [CHR 0x5C] @ js ''u'' @ [hex_digit (c div 4096 mod 16), hex_digit (c div 256 mod 16),
       hex_digit (c div 16 mod 16), hex_digit (c mod 16)]"

definition is_high_surrogate :: "jchar \<Rightarrow> bool" where
  "is_high_surrogate c \<longleftrightarrow> 55296 \<le> c \<and> c \<le> 56319"

definition is_low_surrogate :: "jchar \<Rightarrow> bool" where
  "is_low_surrogate c \<longleftrightarrow> 56320 \<le> c \<and> c \<le> 57343"

definition json_esc :: "jchar \<Rightarrow> jstr" where
  "json_esc c =
     (if c = 34 then [92, 34] else if c = 92 then [92, 92]
      else if c = 8 then [92, 98] else if c = 9 then [92, 116] else if c = 10 then [92, 110]
      else if c = 12 then [92, 102] else if c = 13 then [92, 114]
      else if c < 32 then unicode_escape c
      else [c])"

fun json_esc_str :: "jstr \<Rightarrow> jstr" where
  "json_esc_str [] = []"
| "json_esc_str [c] =
     (if is_high_surrogate c \<or> is_low_surrogate c then unicode_escape c else json_esc c)"
| "json_esc_str (c # d # s) =
     (if is_high_surrogate c \<and> is_low_surrogate d then c # d # json_esc_str s
      else if is_high_surrogate c \<or> is_low_surrogate c then unicode_escape c @ json_esc_str (d # s)
      else json_esc c @ json_esc_str (d # s))"

definition json_quote :: "jstr \<Rightarrow> jstr" where
  "json_quote s = [34] @ json_esc_str s @ [34]"

section \<open>JSON.parse\<close>

definition is_json_ws :: "jchar \<Rightarrow> bool" where
  "is_json_ws c \<longleftrightarrow> c = 32 \<or> c = 9 \<or> c = 10 \<or> c = 13"

definition skip_ws :: "jstr \<Rightarrow> jstr" where
  "skip_ws s = dropWhile is_json_ws s"

text \<open>The text after a given first code unit.\<close>

definition after :: "jchar \<Rightarrow> jstr \<Rightarrow> jstr option" where
  "after c s = (case s of [] \<Rightarrow> None | x # t \<Rightarrow> if x = c then Some t else None)"

definition hex_value :: "jchar \<Rightarrow> int option" where
  "hex_value c =
     (if is_digit c then Some (c - 48)
      else if 97 \<le> c \<and> c \<le> 102 then Some (c - 87)
      else if 65 \<le> c \<and> c \<le> 70 then Some (c - 55)
      else None)"

definition hex4 :: "jchar \<Rightarrow> jchar \<Rightarrow> jchar \<Rightarrow> jchar \<Rightarrow> int option" where
  "hex4 a b c d =
     (case (hex_value a, hex_value b, hex_value c, hex_value d) of
        (Some w, Some x, Some y, Some z) \<Rightarrow> Some (w * 4096 + x * 256 + y * 16 + z)
      | _ \<Rightarrow> None)"

definition simple_escape :: "jchar \<Rightarrow> jchar option" where
  "simple_escape c =
     (if c = 34 \<or> c = 92 \<or> c = 47 then Some c
      else if c = 98 then Some 8 else if c = 102 then Some 12 else if c = 110 then Some 10
      else if c = 114 then Some 13 else if c = 116 then Some 9
      else None)"

text \<open>The rest of a string after the opening quote.\<close>

fun json_string :: "jstr \<Rightarrow> (jstr \<times> jstr) option" where
  "json_string [] = None"
| "json_string (x # s) =
     (if x = 34 then Some ([], s)
      else if x = 92 then
        (case s of
           e # t \<Rightarrow>
             if e = 117 then
               (case t of
                  a # b # c # d # u \<Rightarrow>
                    (case hex4 a b c d of
                       None \<Rightarrow> None
                     | Some v \<Rightarrow> map_option (\<lambda>(r, z). (v # r, z)) (json_string u))
                | _ \<Rightarrow> None)
             else
               (case simple_escape e of
                  None \<Rightarrow> None
                | Some v \<Rightarrow> map_option (\<lambda>(r, z). (v # r, z)) (json_string t))
         | [] \<Rightarrow> None)
      else if x < 32 then None
      else map_option (\<lambda>(r, z). (x # r, z)) (json_string s))"

text \<open>A number: sign, integer part without leading zeros, fraction, exponent.\<close>

definition json_frac :: "jstr \<Rightarrow> (jstr \<times> jstr) option" where
  "json_frac s =
     (case after 46 s of
        Some t \<Rightarrow>
          (let fp = takeWhile is_digit t in if fp = [] then None else Some (fp, dropWhile is_digit t))
      | None \<Rightarrow> Some ([], s))"

definition json_exp :: "jstr \<Rightarrow> (int \<times> jstr) option" where
  "json_exp s =
     (case s of
        x # t \<Rightarrow>
          if x = 101 \<or> x = 69 then
            (let (sg, u) =
                   (case (after 43 t, after 45 t) of
                      (Some u, _) \<Rightarrow> (1, u) | (None, Some u) \<Rightarrow> (- 1, u) | (None, None) \<Rightarrow> (1, t));
                 ep = takeWhile is_digit u in
             if ep = [] then None else Some (sg * digits_value ep, dropWhile is_digit u))
          else Some (0, s)
      | [] \<Rightarrow> Some (0, s))"

definition json_int :: "jstr \<Rightarrow> (jstr \<times> jstr) option" where
  "json_int s =
     (case s of
        x # t \<Rightarrow>
          if x = 48 then Some ([48], t)
          else if is_digit x then Some (takeWhile is_digit s, dropWhile is_digit s)
          else None
      | [] \<Rightarrow> None)"

definition json_unsigned :: "jstr \<Rightarrow> (rat \<times> jstr) option" where
  "json_unsigned s =
     (case json_int s of
        None \<Rightarrow> None
      | Some (ip, t) \<Rightarrow>
          (case json_frac t of
             None \<Rightarrow> None
           | Some (fp, u) \<Rightarrow>
               map_option (\<lambda>(e, v). (decimal_value ip fp e, v)) (json_exp u)))"

definition json_number :: "jstr \<Rightarrow> (jnum \<times> jstr) option" where
  "json_number s =
     (case after 45 s of
        Some t \<Rightarrow> map_option (\<lambda>(x, r). (to_double (- x), r)) (json_unsigned t)
      | None \<Rightarrow> map_option (\<lambda>(x, r). (to_double x, r)) (json_unsigned s))"

definition json_keyword :: "jstr \<Rightarrow> (json \<times> jstr) option" where
  "json_keyword s =
     (if starts_with (js ''true'') s then Some (JBool True, drop 4 s)
      else if starts_with (js ''false'') s then Some (JBool False, drop 5 s)
      else if starts_with (js ''null'') s then Some (JNull, drop 4 s)
      else None)"

text \<open>Values, the elements of a non-empty array and the members of a non-empty object. Every
  call works on a shorter text; the tests on lengths are implied by the parses before them
  and are there for the termination proof.\<close>

function (sequential) json_value :: "jstr \<Rightarrow> (json \<times> jstr) option"
  and json_elems :: "jstr \<Rightarrow> (json list \<times> jstr) option"
  and json_members :: "jstr \<Rightarrow> (props \<times> jstr) option"
where
  "json_value s =
     (case skip_ws s of
        [] \<Rightarrow> None
      | x # t \<Rightarrow>
          if x = 123 then
            (case after 125 (skip_ws t) of
               Some u \<Rightarrow> Some (JObj [], u)
             | None \<Rightarrow>
                 if length t < length s
                 then map_option (\<lambda>(ps, r). (JObj (foldl (\<lambda>o1 (k, v). prop_set k v o1) [] ps), r)) (json_members t)
                 else None)
          else if x = 91 then
            (case after 93 (skip_ws t) of
               Some u \<Rightarrow> Some (JArr [], u)
             | None \<Rightarrow>
                 if length t < length s then map_option (\<lambda>(vs, r). (JArr vs, r)) (json_elems t)
                 else None)
          else if x = 34 then map_option (\<lambda>(v, r). (JStr v, r)) (json_string t)
          else if x = 45 \<or> is_digit x then map_option (\<lambda>(v, r). (JNum v, r)) (json_number (x # t))
          else json_keyword (x # t))"
| "json_elems s =
     (case json_value s of
        None \<Rightarrow> None
      | Some (v, r) \<Rightarrow>
          (case (after 93 (skip_ws r), after 44 (skip_ws r)) of
             (Some u, _) \<Rightarrow> Some ([v], u)
           | (None, Some u) \<Rightarrow>
               if length u < length s
               then map_option (\<lambda>(vs, z). (v # vs, z)) (json_elems u) else None
           | (None, None) \<Rightarrow> None))"
| "json_members s =
     (case after 34 (skip_ws s) of
        None \<Rightarrow> None
      | Some t \<Rightarrow>
          (case json_string t of
             None \<Rightarrow> None
           | Some (k, r) \<Rightarrow>
               (case after 58 (skip_ws r) of
                  None \<Rightarrow> None
                | Some u \<Rightarrow>
                    if length u < length s then
                      (case json_value u of
                         None \<Rightarrow> None
                       | Some (v, w) \<Rightarrow>
                           (case (after 125 (skip_ws w), after 44 (skip_ws w)) of
                              (Some z, _) \<Rightarrow> Some ([(k, v)], z)
                            | (None, Some z) \<Rightarrow>
                                if length z < length s
                                then map_option (\<lambda>(ps, q). ((k, v) # ps, q)) (json_members z)
                                else None
                            | (None, None) \<Rightarrow> None))
                    else None)))"
  by pat_completeness auto
termination
  by (relation "measure (\<lambda>x. case x of Inl s \<Rightarrow> 2 * length s
        | Inr (Inl s) \<Rightarrow> 2 * length s + 1 | Inr (Inr s) \<Rightarrow> 2 * length s + 1)") auto

declare json_value.simps [simp del] json_elems.simps [simp del] json_members.simps [simp del]

definition json_parse :: "jstr \<Rightarrow> json option" where
  "json_parse s =
     (case json_value s of
        None \<Rightarrow> None
      | Some (v, r) \<Rightarrow> if skip_ws r = [] then Some v else None)"

definition code_units :: "jstr \<Rightarrow> bool" where
  "code_units s \<longleftrightarrow> (\<forall>c\<in>set s. 0 \<le> c \<and> c < 65536)"

section \<open>Reading a quoted string back\<close>

lemma hex_value_digit: "0 \<le> d \<Longrightarrow> d < 16 \<Longrightarrow> hex_value (hex_digit d) = Some d"
  by (auto simp: hex_value_def hex_digit_def is_digit_def)

lemma div_numeral_twice:
  "(c::int) div 256 = c div 16 div 16" "c div 4096 = c div 16 div 16 div 16"
proof -
  have e: "(256::int) = 16 * 16" "(4096::int) = 16 * 16 * 16" by simp_all
  show "c div 256 = c div 16 div 16" "c div 4096 = c div 16 div 16 div 16"
    unfolding e by (simp_all only: zdiv_zmult2_eq zero_le_numeral)
qed

lemma nibbles:
  assumes "0 \<le> (c::int)" and "c < 65536"
  shows "c div 4096 mod 16 * 4096 + c div 256 mod 16 * 256 + c div 16 mod 16 * 16 + c mod 16 = c"
proof -
  define q1 where "q1 = c div 16"
  define q2 where "q2 = q1 div 16"
  define q3 where "q3 = q2 div 16"
  define r0 where "r0 = c mod 16"
  define r1 where "r1 = q1 mod 16"
  define r2 where "r2 = q2 mod 16"
  have eqs: "16 * q1 + r0 = c" "16 * q2 + r1 = q1" "16 * q3 + r2 = q2"
    unfolding q1_def q2_def q3_def r0_def r1_def r2_def by (rule mult_div_mod_eq)+
  have nn: "0 \<le> r0" "0 \<le> r1" "0 \<le> r2"
    unfolding r0_def r1_def r2_def by (rule pos_mod_sign, simp)+
  have "0 \<le> q3"
    unfolding q1_def q2_def q3_def using assms(1) by (simp only: pos_imp_zdiv_nonneg_iff zero_less_numeral)
  moreover have "q3 < 16" using eqs nn assms(2) by linarith
  ultimately have "q3 mod 16 = q3" by (rule mod_pos_pos_trivial)
  moreover have "c = q3 * 4096 + r2 * 256 + r1 * 16 + r0" using eqs by linarith
  moreover have "c div 4096 mod 16 * 4096 + c div 256 mod 16 * 256 + c div 16 mod 16 * 16 + c mod 16
      = q3 mod 16 * 4096 + r2 * 256 + r1 * 16 + r0"
    by (simp only: div_numeral_twice q1_def q2_def q3_def r0_def r1_def r2_def)
  ultimately show ?thesis by (simp only:)
qed

lemma hex4_value:
  assumes "0 \<le> c" and "c < 65536"
  shows "hex4 (hex_digit (c div 4096 mod 16)) (hex_digit (c div 256 mod 16))
    (hex_digit (c div 16 mod 16)) (hex_digit (c mod 16)) = Some c"
proof -
  have digits: "hex4 (hex_digit w) (hex_digit x) (hex_digit y) (hex_digit z) =
      Some (w * 4096 + x * 256 + y * 16 + z)"
    if "0 \<le> w" "w < 16" "0 \<le> x" "x < 16" "0 \<le> y" "y < 16" "0 \<le> z" "z < 16" for w x y z
    using that by (simp add: hex4_def hex_value_digit)
  show ?thesis
    by (subst digits) (simp_all only: pos_mod_sign pos_mod_bound zero_less_numeral nibbles assms)
qed

lemma json_string_unicode_escape:
  assumes "0 \<le> c" and "c < 65536"
  shows "json_string (unicode_escape c @ s) = map_option (\<lambda>(r, z). (c # r, z)) (json_string s)"
  using hex4_value [OF assms] by (simp add: unicode_escape_def)

lemma json_string_esc:
  assumes "0 \<le> c" and "c < 65536"
  shows "json_string (json_esc c @ s) = map_option (\<lambda>(r, z). (c # r, z)) (json_string s)"
proof (cases "c < 32 \<or> c = 34 \<or> c = 92")
  case True
  then show ?thesis
    using json_string_unicode_escape [OF assms]
    by (simp add: json_esc_def simple_escape_def)
next
  case False
  then show ?thesis by (simp add: json_esc_def)
qed

lemma json_string_esc_str:
  "code_units s \<Longrightarrow> json_string (json_esc_str s @ 34 # r) = Some (s, r)"
proof (induction s rule: json_esc_str.induct)
  case (3 c d s)
  then have "0 \<le> c" "c < 65536" "0 \<le> d" "d < 65536" "code_units (d # s)" "code_units s"
    by (auto simp: code_units_def)
  with 3 show ?case
    by (auto simp: json_string_unicode_escape json_string_esc is_high_surrogate_def
        is_low_surrogate_def)
qed (auto simp: code_units_def json_string_unicode_escape json_string_esc)

lemma json_value_quote:
  "code_units s \<Longrightarrow> json_value (json_quote s @ r) = Some (JStr s, r)"
  by (subst json_value.simps)
     (simp add: json_quote_def skip_ws_def is_json_ws_def json_string_esc_str)

lemma json_parse_quote: "code_units s \<Longrightarrow> json_parse (json_quote s) = Some (JStr s)"
  using json_value_quote [of s "[]"] by (simp add: json_parse_def skip_ws_def)

section \<open>Objects\<close>

lemma set_own_entries [simp]: "set (own_entries ps) = set ps"
  by (auto simp: own_entries_def)

lemma own_entries_named: "\<forall>p\<in>set ps. \<not> is_index_key (fst p) \<Longrightarrow> own_entries ps = ps"
proof -
  assume a: "\<forall>p\<in>set ps. \<not> is_index_key (fst p)"
  then have "filter (\<lambda>(k, v). is_index_key k) ps = []" "filter (\<lambda>(k, v). \<not> is_index_key k) ps = ps"
    by (auto simp: filter_empty_conv filter_id_conv)
  then show ?thesis by (simp add: own_entries_def)
qed

lemma prop_set_keys: "fst ` set (prop_set k v ps) = insert k (fst ` set ps)"
  by (induction k v ps rule: prop_set.induct) auto

lemma map_of_prop_set: "map_of (prop_set k v ps) = (map_of ps)(k \<mapsto> v)"
  by (induction k v ps rule: prop_set.induct) auto

lemma distinct_prop_set: "distinct (map fst ps) \<Longrightarrow> distinct (map fst (prop_set k v ps))"
proof (induction k v ps rule: prop_set.induct)
  case (2 k v k' v' ps)
  then show ?case using prop_set_keys [of k v ps] by (auto simp: image_iff)
qed simp

end
