(* ===== verification/Billing_Expr.thy ===== *)
theory Billing_Expr
  imports Js_RegExp Js_Json
begin

text \<open>
  Billing expressions,
  \<^verbatim>\<open>src/web/default/src/features/pricing/lib/billing-expr.ts\<close>: the variable
  registry, the parser of tiered prices, the parser of request rules, the splitting of an
  expression into its price part and its rule part, and the editor's normalization and
  printing of rules.

  Every regular expression of the source is the same pattern over the matcher of
  \<open>Js_RegExp\<close>.  \<open>JSON.parse\<close> may throw inside \<open>tryParseRequestCondition\<close>
  and nothing in this file catches it there, so the rule parsers return a sum: \<open>Inl\<close> is
  the exception, \<open>Inr None\<close> the \<open>null\<close> of the source.
\<close>

section \<open>Variable registry\<close>

datatype billing_side = SideInput | SideOutput | SideCondition

record BillingVar =
  bv_key :: jstr
  bv_field :: "jstr option"
  bv_tierField :: "jstr option"
  bv_label :: jstr
  bv_shortLabel :: jstr
  bv_side :: billing_side
  bv_isBase :: bool
  bv_isConditionOnly :: bool
  bv_group :: "jstr option"

definition billing_var ::
  "string \<Rightarrow> string \<Rightarrow> string \<Rightarrow> string \<Rightarrow> string \<Rightarrow> billing_side \<Rightarrow> bool \<Rightarrow> jstr option \<Rightarrow> BillingVar" where
  "billing_var key field tier label short side base grp =
     \<lparr>bv_key = js key, bv_field = Some (js field), bv_tierField = Some (js tier),
      bv_label = js label, bv_shortLabel = js short, bv_side = side,
      bv_isBase = base, bv_isConditionOnly = False, bv_group = grp\<rparr>"

definition BILLING_VARS :: "BillingVar list" where
  "BILLING_VARS =
     [billing_var ''p'' ''inputPrice'' ''input_unit_cost'' ''Input price'' ''Input'' SideInput True None,
      billing_var ''c'' ''outputPrice'' ''output_unit_cost'' ''Completion price'' ''Output''
        SideOutput True None,
      \<lparr>bv_key = js ''len'', bv_field = None, bv_tierField = None, bv_label = js ''Input length'',
       bv_shortLabel = js ''Length'', bv_side = SideCondition, bv_isBase = False,
       bv_isConditionOnly = True, bv_group = None\<rparr>,
      billing_var ''cr'' ''cacheReadPrice'' ''cache_read_unit_cost'' ''Cache read price'' ''Cache Read''
        SideInput False (Some (js ''cache'')),
      billing_var ''cc'' ''cacheCreatePrice'' ''cache_create_unit_cost'' ''Cache create price''
        ''Cache Write'' SideInput False (Some (js ''cache'')),
      billing_var ''cc1h'' ''cacheCreate1hPrice'' ''cache_create_1h_unit_cost'' ''Cache create (1h) price''
        ''Cache Write (1h)'' SideInput False (Some (js ''cache'')),
      billing_var ''img'' ''imagePrice'' ''image_unit_cost'' ''Image input price'' ''Image In''
        SideInput False (Some (js ''media'')),
      billing_var ''img_o'' ''imageOutputPrice'' ''image_output_unit_cost'' ''Image output price''
        ''Image Out'' SideOutput False (Some (js ''media'')),
      billing_var ''ai'' ''audioInputPrice'' ''audio_input_unit_cost'' ''Audio input price'' ''Audio In''
        SideInput False (Some (js ''media'')),
      billing_var ''ao'' ''audioOutputPrice'' ''audio_output_unit_cost'' ''Audio output price''
        ''Audio Out'' SideOutput False (Some (js ''media''))]"

definition BILLING_PRICING_VARS :: "BillingVar list" where
  "BILLING_PRICING_VARS = filter (\<lambda>v. \<not> bv_isConditionOnly v) BILLING_VARS"

definition BILLING_CONDITION_VARS :: "jstr list" where
  "BILLING_CONDITION_VARS =
     map bv_key (filter (\<lambda>v. bv_isBase v \<or> bv_isConditionOnly v) BILLING_VARS)"

definition BILLING_VAR_KEY_TO_FIELD :: "(jstr \<times> jstr) list" where
  "BILLING_VAR_KEY_TO_FIELD =
     map (\<lambda>v. (bv_key v, case bv_field v of None \<Rightarrow> [] | Some f \<Rightarrow> f)) BILLING_PRICING_VARS"

definition BILLING_EXTRA_VARS :: "BillingVar list" where
  "BILLING_EXTRA_VARS = filter (\<lambda>v. \<not> bv_isBase v \<and> \<not> bv_isConditionOnly v) BILLING_VARS"

definition BILLING_CACHE_VAR_MAP :: "(jstr \<times> jstr) list" where
  "BILLING_CACHE_VAR_MAP =
     map (\<lambda>v. (case bv_tierField v of None \<Rightarrow> [] | Some f \<Rightarrow> f, bv_key v)) BILLING_EXTRA_VARS"

section \<open>Pattern pieces\<close>

text \<open>The classes \<open>[\d.eE+-]\<close>, \<open>[\d.eE+]\<close>, \<open>[^"]\<close>, \<open>\s\<close> and \<open>.\<close>.\<close>

definition num_char :: "jchar \<Rightarrow> bool" where
  "num_char c \<longleftrightarrow> is_digit c \<or> c = 46 \<or> c = 101 \<or> c = 69 \<or> c = 43 \<or> c = 45"

definition unum_char :: "jchar \<Rightarrow> bool" where
  "unum_char c \<longleftrightarrow> is_digit c \<or> c = 46 \<or> c = 101 \<or> c = 69 \<or> c = 43"

definition not_quote :: "jchar \<Rightarrow> bool" where
  "not_quote c \<longleftrightarrow> c \<noteq> 34"

definition dot_char :: "jchar \<Rightarrow> bool" where
  "dot_char c \<longleftrightarrow> c \<noteq> 10 \<and> c \<noteq> 13 \<and> c \<noteq> 8232 \<and> c \<noteq> 8233"

definition rx_ws :: rx where
  "rx_ws = RStar (RCls is_ws)"

definition BILLING_VAR_REGEX :: rx where
  "BILLING_VAR_REGEX =
     rx_seq [RWordB, RGroup 1 (rx_alt (map (\<lambda>v. rx_lit (bv_key v)) BILLING_PRICING_VARS)), rx_ws,
       rx_lit (js ''*''), rx_ws, RGroup 2 (rx_plus (RCls num_char))]"

section \<open>Request rule constants and types\<close>

abbreviation "SOURCE_PARAM \<equiv> js ''param''"
abbreviation "SOURCE_HEADER \<equiv> js ''header''"
abbreviation "SOURCE_TIME \<equiv> js ''time''"
abbreviation "MATCH_EQ \<equiv> js ''eq''"
abbreviation "MATCH_CONTAINS \<equiv> js ''contains''"
abbreviation "MATCH_GT \<equiv> js ''gt''"
abbreviation "MATCH_GTE \<equiv> js ''gte''"
abbreviation "MATCH_LT \<equiv> js ''lt''"
abbreviation "MATCH_LTE \<equiv> js ''lte''"
abbreviation "MATCH_EXISTS \<equiv> js ''exists''"
abbreviation "MATCH_RANGE \<equiv> js ''range''"

definition TIME_FUNCS :: "jstr list" where
  "TIME_FUNCS = [js ''hour'', js ''minute'', js ''weekday'', js ''month'', js ''day'']"

definition NUMERIC_LITERAL_REGEX :: rx where
  "NUMERIC_LITERAL_REGEX =
     rx_seq [RStart, ROpt (rx_lit (js ''-'')),
       rx_alt [rx_seq [rx_plus (RCls is_digit), ROpt (rx_lit (js ''.'')), RStar (RCls is_digit)],
         rx_seq [rx_lit (js ''.''), rx_plus (RCls is_digit)]],
       ROpt (rx_seq [RCls (\<lambda>c. c = 101 \<or> c = 69), ROpt (RCls (\<lambda>c. c = 43 \<or> c = 45)),
         rx_plus (RCls is_digit)]),
       REnd]"

datatype ph_source = SrcParam | SrcHeader

record ParamHeaderCondition =
  ph_source :: ph_source
  ph_path :: jstr
  ph_mode :: jstr
  ph_value :: jstr

record TimeCondition =
  tc_timeFunc :: jstr
  tc_timezone :: jstr
  tc_mode :: jstr
  tc_value :: jstr
  tc_rangeStart :: jstr
  tc_rangeEnd :: jstr

datatype RequestCondition = CondTime TimeCondition | CondPH ParamHeaderCondition

record RequestRuleGroup =
  rg_conditions :: "RequestCondition list"
  rg_multiplier :: jstr

record TierCondition =
  tr_var :: jstr
  tr_op :: jstr
  tr_value :: jnum

record ParsedTier =
  pt_label :: jstr
  pt_conditions :: "TierCondition list"
  pt_fields :: "(jstr \<times> jnum) list"

section \<open>Tier parser\<close>

record ExprVersion =
  ev_version :: jnum
  ev_body :: jstr

definition stripExprVersion :: "jstr \<Rightarrow> ExprVersion" where
  "stripExprVersion exprStr =
     (if exprStr = [] then \<lparr>ev_version = Fin 1, ev_body = []\<rparr>
      else
        case rx_match (rx_seq [RStart, rx_lit (js ''v''), RGroup 1 (rx_plus (RCls is_digit)),
               rx_lit (js '':''), RGroup 2 (RStar (RCls (\<lambda>_. True))), REnd]) exprStr of
          Some m \<Rightarrow> \<lparr>ev_version = to_number (cap_str m 1), ev_body = cap_str m 2\<rparr>
        | None \<Rightarrow> \<lparr>ev_version = Fin 1, ev_body = exprStr\<rparr>)"

text \<open>The first coefficient of every variable: later matches of the same variable are ignored.\<close>

fun collect_coeffs :: "caps list \<Rightarrow> (jstr \<times> jnum) list \<Rightarrow> (jstr \<times> jnum) list" where
  "collect_coeffs [] coeffs = coeffs"
| "collect_coeffs (m # ms) coeffs =
     (if map_of coeffs (cap_str m 1) = None
      then collect_coeffs ms (coeffs @ [(cap_str m 1, to_number (cap_str m 2))])
      else collect_coeffs ms coeffs)"

definition parseTierBody :: "jstr \<Rightarrow> (jstr \<times> jnum) list" where
  "parseTierBody bodyStr =
     (let coeffs = collect_coeffs (rx_all BILLING_VAR_REGEX [] bodyStr) [] in
      map (\<lambda>(varName, field).
             (field, case map_of coeffs varName of
                       Some x \<Rightarrow> if num_truthy x then x else Fin 0
                     | None \<Rightarrow> Fin 0)) BILLING_VAR_KEY_TO_FIELD)"

definition tier_var_rx :: rx where
  "tier_var_rx = rx_alt [rx_lit (js ''p''), rx_lit (js ''c''), rx_lit (js ''len'')]"

definition tier_op_rx :: rx where
  "tier_op_rx = rx_alt [rx_lit (js ''<''), rx_lit (js ''<=''), rx_lit (js ''>''), rx_lit (js ''>='')]"

definition tier_cond_rx :: rx where
  "tier_cond_rx = rx_seq [tier_var_rx, rx_ws, tier_op_rx, rx_ws, rx_plus (RCls unum_char)]"

definition tier_rx :: rx where
  "tier_rx =
     rx_seq [
       ROpt (rx_seq [
         RGroup 1 (rx_seq [tier_cond_rx, RStar (rx_seq [rx_ws, rx_lit (js ''&&''), rx_ws, tier_cond_rx])]),
         rx_ws, rx_lit (js ''?''), rx_ws]),
       rx_lit (js ''tier('' @ [34]), RGroup 2 (RStar (RCls not_quote)), rx_lit ([34] @ js '',''), rx_ws,
       RGroup 3 (rx_plus (RCls (\<lambda>c. c \<noteq> 41))), rx_lit (js '')'')]"

definition and_sep_rx :: rx where
  "and_sep_rx = rx_seq [rx_ws, rx_lit (js ''&&''), rx_ws]"

definition parseTierCondition :: "jstr \<Rightarrow> TierCondition option" where
  "parseTierCondition cp =
     map_option (\<lambda>cm. \<lparr>tr_var = cap_str cm 1, tr_op = cap_str cm 2, tr_value = to_number (cap_str cm 3)\<rparr>)
       (rx_match (rx_seq [RStart, RGroup 1 tier_var_rx, rx_ws, RGroup 2 tier_op_rx, rx_ws,
          RGroup 3 (rx_plus (RCls unum_char)), REnd]) (trim cp))"

definition tier_of_match :: "caps \<Rightarrow> ParsedTier" where
  "tier_of_match m =
     \<lparr>pt_label = cap_str m 2,
      pt_conditions =
        (if cap_str m 1 = [] then []
         else List.map_filter parseTierCondition (rx_split and_sep_rx (cap_str m 1))),
      pt_fields = parseTierBody (cap_str m 3)\<rparr>"

definition parseTiersFromExpr :: "jstr \<Rightarrow> ParsedTier list" where
  "parseTiersFromExpr exprStr =
     (if exprStr = [] then []
      else map tier_of_match (rx_all tier_rx [] (ev_body (stripExprVersion exprStr))))"

section \<open>Request rule parser\<close>

definition paren_delta :: "jchar \<Rightarrow> int" where
  "paren_delta c = (if c = 40 then 1 else if c = 41 then - 1 else 0)"

text \<open>The loop of \<open>splitTopLevelMultiply\<close> and \<open>splitTopLevelAnd\<close>, which differ in the
  separator: \<open>acc\<close> is the text from \<open>start\<close> to the index, reversed.\<close>

function top_split :: "jstr \<Rightarrow> int \<Rightarrow> jstr \<Rightarrow> jstr \<Rightarrow> jstr list" where
  "top_split sep depth acc s =
     (case s of
        [] \<Rightarrow> [trim (rev acc)]
      | c # t \<Rightarrow>
          (let d = depth + paren_delta c in
           if d = 0 \<and> starts_with sep (c # t)
           then trim (rev acc) # top_split sep d [] (drop (length sep - 1) t)
           else top_split sep d (c # acc) t))"
  by pat_completeness auto
termination
  by (relation "measure (\<lambda>(sep, depth, acc, s). length s)") auto

declare top_split.simps [simp del]

definition splitTopLevelMultiply :: "jstr \<Rightarrow> jstr list" where
  "splitTopLevelMultiply expr = filter (\<lambda>p. p \<noteq> []) (top_split (js '' * '') 0 [] expr)"

definition splitTopLevelAnd :: "jstr \<Rightarrow> jstr list" where
  "splitTopLevelAnd expr = filter (\<lambda>p. p \<noteq> []) (top_split (js '' && '') 0 [] expr)"

definition parseExprLiteral :: "jstr \<Rightarrow> json option" where
  "parseExprLiteral raw =
     (let t = trim raw in
      if t = js ''true'' \<or> t = js ''false'' then Some (JStr t)
      else if rx_test NUMERIC_LITERAL_REGEX t then Some (JStr t)
      else (case json_parse t of Some JNull \<Rightarrow> None | r \<Rightarrow> r))"

definition time_func_rx :: rx where
  "time_func_rx = rx_alt (map rx_lit TIME_FUNCS)"

text \<open>The part \<open>f("tz") >= a || f("tz") < b\<close> of the two range patterns.\<close>

definition time_range_parts :: "rx list" where
  "time_range_parts =
     [RGroup 1 time_func_rx, rx_lit [40, 34], RGroup 2 (rx_plus (RCls not_quote)),
      rx_lit ([34] @ js '') >= ''), RGroup 3 (rx_plus (RCls num_char)), rx_lit (js '' || ''), RRef 1,
      rx_lit [40, 34], RRef 2, rx_lit ([34] @ js '') < ''), RGroup 4 (rx_plus (RCls num_char))]"

definition time_range_rx :: rx where
  "time_range_rx = rx_seq ([RStart] @ time_range_parts @ [REnd])"

definition time_range_paren_rx :: rx where
  "time_range_paren_rx =
     rx_seq ([RStart, rx_lit (js ''('')] @ time_range_parts @ [rx_lit (js '')''), REnd])"

definition time_cmp_rx :: rx where
  "time_cmp_rx =
     rx_seq [RStart, RGroup 1 time_func_rx, rx_lit [40, 34], RGroup 2 (rx_plus (RCls not_quote)),
       rx_lit ([34] @ js '') ''), RGroup 3 (rx_alt [rx_lit (js ''==''), rx_lit (js ''>=''), rx_lit (js ''<'')]),
       rx_lit (js '' ''), RGroup 4 (rx_plus (RCls num_char)), REnd]"

definition time_range_cond :: "caps \<Rightarrow> TimeCondition" where
  "time_range_cond m =
     \<lparr>tc_timeFunc = cap_str m 1, tc_timezone = cap_str m 2, tc_mode = MATCH_RANGE, tc_value = [],
      tc_rangeStart = cap_str m 3, tc_rangeEnd = cap_str m 4\<rparr>"

definition time_op_mode :: "jstr \<Rightarrow> jstr" where
  "time_op_mode op1 =
     (if op1 = js ''=='' then MATCH_EQ else if op1 = js ''>='' then MATCH_GTE
      else if op1 = js ''<'' then MATCH_LT else MATCH_EQ)"

definition tryParseTimeCondition :: "jstr \<Rightarrow> TimeCondition option" where
  "tryParseTimeCondition expr =
     (case rx_match time_range_rx expr of
        Some m \<Rightarrow> Some (time_range_cond m)
      | None \<Rightarrow>
          (case rx_match time_range_paren_rx expr of
             Some m \<Rightarrow> Some (time_range_cond m)
           | None \<Rightarrow>
               (case rx_match time_cmp_rx expr of
                  Some m \<Rightarrow>
                    Some \<lparr>tc_timeFunc = cap_str m 1, tc_timezone = cap_str m 2,
                      tc_mode = time_op_mode (cap_str m 3), tc_value = cap_str m 4,
                      tc_rangeStart = [], tc_rangeEnd = []\<rparr>
                | None \<Rightarrow> None)))"

text \<open>\<open>"(?:[^"\\]|\\.)*"\<close>\<close>

definition quoted_rx :: rx where
  "quoted_rx =
     rx_seq [rx_lit [34],
       RStar (RAlt (RCls (\<lambda>c. c \<noteq> 34 \<and> c \<noteq> 92)) (RSeq (rx_lit [92]) (RCls dot_char))), rx_lit [34]]"

definition header_exists_rx :: rx where
  "header_exists_rx =
     rx_seq [RStart, rx_lit (js ''header('' @ [34]), RGroup 1 (rx_plus (RCls not_quote)),
       rx_lit ([34] @ js '') != '' @ [34, 34]), REnd]"

definition param_exists_rx :: rx where
  "param_exists_rx =
     rx_seq [RStart, rx_lit (js ''param('' @ [34]), RGroup 1 (rx_plus (RCls not_quote)),
       rx_lit ([34] @ js '') != nil''), REnd]"

definition header_contains_rx :: rx where
  "header_contains_rx =
     rx_seq [RStart, rx_lit (js ''has(header('' @ [34]), RGroup 1 (rx_plus (RCls not_quote)),
       rx_lit ([34] @ js ''), ''), RGroup 2 quoted_rx, rx_lit (js '')''), REnd]"

definition param_contains_rx :: rx where
  "param_contains_rx =
     rx_seq [RStart, rx_lit (js ''param('' @ [34]), RGroup 1 (rx_plus (RCls not_quote)),
       rx_lit ([34] @ js '') != nil && has(param('' @ [34]), RGroup 2 (rx_plus (RCls not_quote)),
       rx_lit ([34] @ js ''), ''), RGroup 3 quoted_rx, rx_lit (js '')''), REnd]"

definition param_cmp_rx :: rx where
  "param_cmp_rx =
     rx_seq [RStart, rx_lit (js ''param('' @ [34]), RGroup 1 (rx_plus (RCls not_quote)),
       rx_lit ([34] @ js '') != nil && param('' @ [34]), RGroup 2 (rx_plus (RCls not_quote)),
       rx_lit ([34] @ js '') ''),
       RGroup 3 (rx_alt [rx_lit (js ''>''), rx_lit (js ''>=''), rx_lit (js ''<''), rx_lit (js ''<='')]),
       rx_lit (js '' ''), RGroup 4 (rx_plus (RCls num_char)), REnd]"

definition eq_rx :: rx where
  "eq_rx =
     rx_seq [RStart, RGroup 1 (rx_alt [rx_lit (js ''param''), rx_lit (js ''header'')]),
       rx_lit [40, 34], RGroup 2 (rx_plus (RCls not_quote)), rx_lit ([34] @ js '') == ''),
       RGroup 3 (rx_plus (RCls dot_char)), REnd]"

definition cmp_op_mode :: "jstr \<Rightarrow> jstr" where
  "cmp_op_mode op1 =
     (if op1 = js ''>'' then MATCH_GT else if op1 = js ''>='' then MATCH_GTE
      else if op1 = js ''<'' then MATCH_LT else MATCH_LTE)"

definition ph_cond :: "ph_source \<Rightarrow> jstr \<Rightarrow> jstr \<Rightarrow> jstr \<Rightarrow> RequestCondition" where
  "ph_cond src path mode val =
     CondPH \<lparr>ph_source = src, ph_path = path, ph_mode = mode, ph_value = val\<rparr>"

text \<open>\<open>JSON.parse(m[i]) as string\<close>: throws on a bad escape.\<close>

definition json_parse_throw :: "jstr \<Rightarrow> js_error + jstr" where
  "json_parse_throw s =
     (case json_parse s of None \<Rightarrow> Inl SyntaxError | Some v \<Rightarrow> Inr (json_to_string v))"

definition parse_contains :: "ph_source \<Rightarrow> jstr \<Rightarrow> jstr \<Rightarrow> js_error + RequestCondition option" where
  "parse_contains src path lit =
     (case json_parse_throw lit of
        Inl e \<Rightarrow> Inl e
      | Inr v \<Rightarrow> Inr (Some (ph_cond src path MATCH_CONTAINS v)))"

definition parse_eq :: "caps \<Rightarrow> RequestCondition option" where
  "parse_eq m =
     (case parseExprLiteral (cap_str m 3) of
        None \<Rightarrow> None
      | Some v \<Rightarrow>
          Some (ph_cond (if cap_str m 1 = SOURCE_PARAM then SrcParam else SrcHeader) (cap_str m 2)
            MATCH_EQ (json_to_string v)))"

text \<open>A match whose two path groups agree: \<open>m && m[1] === m[2]\<close>.\<close>

definition match_same_path :: "rx \<Rightarrow> jstr \<Rightarrow> caps option" where
  "match_same_path r s =
     (case rx_match r s of
        None \<Rightarrow> None
      | Some m \<Rightarrow> if cap_str m 1 = cap_str m 2 then Some m else None)"

text \<open>The last three patterns of \<open>tryParseRequestCondition\<close>, then all of it.\<close>

definition try_param_conditions :: "jstr \<Rightarrow> js_error + RequestCondition option" where
  "try_param_conditions expr =
     (case match_same_path param_contains_rx expr of
        Some m \<Rightarrow> parse_contains SrcParam (cap_str m 1) (cap_str m 3)
      | None \<Rightarrow>
          (case match_same_path param_cmp_rx expr of
             Some m \<Rightarrow>
               Inr (Some (ph_cond SrcParam (cap_str m 1) (cmp_op_mode (cap_str m 3)) (cap_str m 4)))
           | None \<Rightarrow>
               (case rx_match eq_rx expr of Some m \<Rightarrow> Inr (parse_eq m) | None \<Rightarrow> Inr None)))"

definition tryParseRequestCondition :: "jstr \<Rightarrow> js_error + RequestCondition option" where
  "tryParseRequestCondition expr =
     (case tryParseTimeCondition expr of
        Some tc \<Rightarrow> Inr (Some (CondTime tc))
      | None \<Rightarrow>
          (case rx_match header_exists_rx expr of
             Some m \<Rightarrow> Inr (Some (ph_cond SrcHeader (cap_str m 1) MATCH_EXISTS []))
           | None \<Rightarrow>
               (case rx_match param_exists_rx expr of
                  Some m \<Rightarrow> Inr (Some (ph_cond SrcParam (cap_str m 1) MATCH_EXISTS []))
                | None \<Rightarrow>
                    (case rx_match header_contains_rx expr of
                       Some m \<Rightarrow> parse_contains SrcHeader (cap_str m 1) (cap_str m 2)
                     | None \<Rightarrow> try_param_conditions expr))))"

fun parse_conditions :: "jstr list \<Rightarrow> js_error + RequestCondition list option" where
  "parse_conditions [] = Inr (Some [])"
| "parse_conditions (ap # aps) =
     (case tryParseRequestCondition (trim ap) of
        Inl e \<Rightarrow> Inl e
      | Inr None \<Rightarrow> Inr None
      | Inr (Some c) \<Rightarrow>
          (case parse_conditions aps of
             Inl e \<Rightarrow> Inl e
           | Inr None \<Rightarrow> Inr None
           | Inr (Some cs) \<Rightarrow> Inr (Some (c # cs))))"

definition group_rx :: rx where
  "group_rx =
     rx_seq [RStart, rx_lit (js ''(''), RGroup 1 (rx_plus (RCls (\<lambda>_. True))), rx_lit (js '' ? ''),
       RGroup 2 (rx_plus (RCls num_char)), rx_lit (js '' : 1)''), REnd]"

definition tryParseRuleGroupFactor :: "jstr \<Rightarrow> js_error + RequestRuleGroup option" where
  "tryParseRuleGroupFactor part =
     (case rx_match group_rx part of
        None \<Rightarrow> Inr None
      | Some m \<Rightarrow>
          (case parse_conditions (splitTopLevelAnd (cap_str m 1)) of
             Inl e \<Rightarrow> Inl e
           | Inr None \<Rightarrow> Inr None
           | Inr (Some cs) \<Rightarrow>
               if cs = [] then Inr None
               else Inr (Some \<lparr>rg_conditions = cs, rg_multiplier = cap_str m 2\<rparr>)))"

fun parse_groups :: "jstr list \<Rightarrow> js_error + RequestRuleGroup list option" where
  "parse_groups [] = Inr (Some [])"
| "parse_groups (p # ps) =
     (case tryParseRuleGroupFactor p of
        Inl e \<Rightarrow> Inl e
      | Inr None \<Rightarrow> Inr None
      | Inr (Some g) \<Rightarrow>
          (case parse_groups ps of
             Inl e \<Rightarrow> Inl e
           | Inr None \<Rightarrow> Inr None
           | Inr (Some gs) \<Rightarrow> Inr (Some (g # gs))))"

definition tryParseRequestRuleExpr :: "jstr \<Rightarrow> js_error + RequestRuleGroup list option" where
  "tryParseRequestRuleExpr expr =
     (let trimmed = trim expr in
      if trimmed = [] then Inr (Some []) else parse_groups (splitTopLevelMultiply trimmed))"

section \<open>Combining and splitting\<close>

text \<open>The loop of \<open>hasFullOuterParens\<close>: \<open>None\<close> is the early \<open>return false\<close>.\<close>

fun outer_scan :: "int \<Rightarrow> jstr \<Rightarrow> int option" where
  "outer_scan depth [] = Some depth"
| "outer_scan depth (c # s) =
     (let d = depth + paren_delta c in if d = 0 \<and> s \<noteq> [] then None else outer_scan d s)"

definition hasFullOuterParens :: "jstr \<Rightarrow> bool" where
  "hasFullOuterParens expr =
     (if \<not> starts_with (js ''('') expr \<or> \<not> ends_with (js '')'') expr then False
      else outer_scan 0 expr = Some 0)"

lemma trim_length: "length (trim s) \<le> length s"
  by (simp add: trim_def trim_end_def trim_start_def)
     (metis length_dropWhile_le length_rev order_trans)

function unwrap_loop :: "jstr \<Rightarrow> jstr" where
  "unwrap_loop current =
     (if hasFullOuterParens current then unwrap_loop (trim (butlast (tl current))) else current)"
  by pat_completeness auto
termination
proof (relation "measure length")
  fix current
  assume "hasFullOuterParens current"
  then have "current \<noteq> []" by (auto simp: hasFullOuterParens_def split: if_splits)
  then have "length (butlast (tl current)) < length current" by (cases current) auto
  then show "(trim (butlast (tl current)), current) \<in> measure length"
    using trim_length [of "butlast (tl current)"] by simp
qed simp

declare unwrap_loop.simps [simp del]

definition unwrapOuterParens :: "jstr \<Rightarrow> jstr" where
  "unwrapOuterParens expr = unwrap_loop (trim expr)"

record BillingSplit =
  bs_billingExpr :: jstr
  bs_requestRuleExpr :: jstr

text \<open>The parts that parse as request rules, and the others.\<close>

fun classify_parts :: "jstr list \<Rightarrow> js_error + (jstr list \<times> jstr list)" where
  "classify_parts [] = Inr ([], [])"
| "classify_parts (p # ps) =
     (case tryParseRequestRuleExpr p of
        Inl e \<Rightarrow> Inl e
      | Inr parsed \<Rightarrow>
          (case classify_parts ps of
             Inl e \<Rightarrow> Inl e
           | Inr (rules, bases) \<Rightarrow>
               if parsed \<noteq> None \<and> parsed \<noteq> Some [] then Inr (p # rules, bases)
               else Inr (rules, p # bases)))"

definition splitBillingExprAndRequestRules :: "jstr \<Rightarrow> js_error + BillingSplit" where
  "splitBillingExprAndRequestRules expr =
     (let trimmed = trim expr; whole = \<lparr>bs_billingExpr = trimmed, bs_requestRuleExpr = []\<rparr> in
      if trimmed = [] then Inr \<lparr>bs_billingExpr = [], bs_requestRuleExpr = []\<rparr>
      else
        let parts = splitTopLevelMultiply trimmed in
        if length parts \<le> 1 then Inr whole
        else
          (case classify_parts parts of
             Inl e \<Rightarrow> Inl e
           | Inr (rules, bases) \<Rightarrow>
               if rules = [] \<or> length bases \<noteq> 1 then Inr whole
               else Inr \<lparr>bs_billingExpr = unwrapOuterParens (hd bases),
                         bs_requestRuleExpr = join (js '' * '') rules\<rparr>))"

definition combineBillingExpr :: "jstr \<Rightarrow> jstr \<Rightarrow> jstr" where
  "combineBillingExpr baseExpr requestRuleExpr =
     (let base = trim baseExpr; rules = trim requestRuleExpr in
      if base = [] then []
      else if rules = [] then base
      else js ''('' @ base @ js '') * '' @ rules)"

section \<open>Editor\<close>

definition createEmptyCondition :: ParamHeaderCondition where
  "createEmptyCondition = \<lparr>ph_source = SrcParam, ph_path = [], ph_mode = MATCH_EQ, ph_value = []\<rparr>"

definition createEmptyTimeCondition :: TimeCondition where
  "createEmptyTimeCondition =
     \<lparr>tc_timeFunc = js ''hour'', tc_timezone = js ''Asia/Shanghai'', tc_mode = MATCH_GTE,
      tc_value = [], tc_rangeStart = [], tc_rangeEnd = []\<rparr>"

definition createEmptyRuleGroup :: RequestRuleGroup where
  "createEmptyRuleGroup = \<lparr>rg_conditions = [CondPH createEmptyCondition], rg_multiplier = []\<rparr>"

definition createEmptyTimeRuleGroup :: RequestRuleGroup where
  "createEmptyTimeRuleGroup =
     \<lparr>rg_conditions = [CondTime createEmptyTimeCondition], rg_multiplier = []\<rparr>"

type_synonym match_option = "jstr \<times> jstr"

definition getRequestRuleMatchOptions :: "jstr \<Rightarrow> match_option list" where
  "getRequestRuleMatchOptions source =
     (let base = [(MATCH_EQ, js ''Equals''), (MATCH_CONTAINS, js ''Contains''), (MATCH_EXISTS, js ''Exists'')] in
      if source = SOURCE_TIME then
        [(MATCH_EQ, js ''Equals''), (MATCH_GTE, js ''Greater than or equal''), (MATCH_LT, js ''Less than''),
         (MATCH_RANGE, js ''Overnight range'')]
      else if source = SOURCE_HEADER then base
      else base @
        [(MATCH_GT, js ''Greater than''), (MATCH_GTE, js ''Greater than or equal''),
         (MATCH_LT, js ''Less than''), (MATCH_LTE, js ''Less than or equal'')])"

text \<open>A partial condition: every field may be missing. \<open>None\<close> is \<open>undefined\<close> or
  \<open>null\<close>.\<close>

record PartialCondition =
  pc_source :: "jstr option"
  pc_timeFunc :: "jstr option"
  pc_timezone :: "jstr option"
  pc_path :: "jstr option"
  pc_mode :: "jstr option"
  pc_value :: "jstr option"
  pc_rangeStart :: "jstr option"
  pc_rangeEnd :: "jstr option"

definition or_else :: "jstr option \<Rightarrow> jstr \<Rightarrow> jstr" where
  "or_else x d = (case x of None \<Rightarrow> d | Some s \<Rightarrow> if s = [] then d else s)"

definition or_empty :: "jstr option \<Rightarrow> jstr" where
  "or_empty x = (case x of None \<Rightarrow> [] | Some s \<Rightarrow> s)"

definition allowed_mode :: "jstr \<Rightarrow> jstr option \<Rightarrow> jstr \<Rightarrow> jstr" where
  "allowed_mode source m d =
     (case m of
        None \<Rightarrow> d
      | Some x \<Rightarrow> if x \<in> set (map fst (getRequestRuleMatchOptions source)) then x else d)"

definition normalizeCondition :: "PartialCondition option \<Rightarrow> RequestCondition" where
  "normalizeCondition cond =
     (case cond of
        None \<Rightarrow> ph_cond SrcParam [] MATCH_EQ []
      | Some c \<Rightarrow>
          if pc_source c = Some SOURCE_TIME then
            CondTime
              \<lparr>tc_timeFunc =
                 (case pc_timeFunc c of
                    Some f \<Rightarrow> if f \<in> set TIME_FUNCS then f else js ''hour''
                  | None \<Rightarrow> js ''hour''),
               tc_timezone = or_else (pc_timezone c) (js ''Asia/Shanghai''),
               tc_mode = allowed_mode SOURCE_TIME (pc_mode c) MATCH_GTE,
               tc_value = or_empty (pc_value c),
               tc_rangeStart = or_empty (pc_rangeStart c),
               tc_rangeEnd = or_empty (pc_rangeEnd c)\<rparr>
          else
            let header = (pc_source c = Some SOURCE_HEADER) in
            ph_cond (if header then SrcHeader else SrcParam)
              (or_else (pc_path c) [])
              (allowed_mode (if header then SOURCE_HEADER else SOURCE_PARAM) (pc_mode c) MATCH_EQ)
              (or_empty (pc_value c)))"

text \<open>A condition as the partial object that is handed to \<open>normalizeCondition\<close>.\<close>

fun partial_of :: "RequestCondition \<Rightarrow> PartialCondition" where
  "partial_of (CondTime c) =
     \<lparr>pc_source = Some SOURCE_TIME, pc_timeFunc = Some (tc_timeFunc c),
      pc_timezone = Some (tc_timezone c), pc_path = None, pc_mode = Some (tc_mode c),
      pc_value = Some (tc_value c), pc_rangeStart = Some (tc_rangeStart c),
      pc_rangeEnd = Some (tc_rangeEnd c)\<rparr>"
| "partial_of (CondPH c) =
     \<lparr>pc_source = Some (case ph_source c of SrcParam \<Rightarrow> SOURCE_PARAM | SrcHeader \<Rightarrow> SOURCE_HEADER),
      pc_timeFunc = None, pc_timezone = None, pc_path = Some (ph_path c), pc_mode = Some (ph_mode c),
      pc_value = Some (ph_value c), pc_rangeStart = None, pc_rangeEnd = None\<rparr>"

definition buildExprLiteral :: "jstr \<Rightarrow> jstr \<Rightarrow> jstr" where
  "buildExprLiteral mode val =
     (let t = trim val in
      if mode = MATCH_CONTAINS then json_quote t
      else if t = js ''true'' \<or> t = js ''false'' then t
      else if rx_test NUMERIC_LITERAL_REGEX t then t
      else json_quote t)"

definition time_op :: "jstr \<Rightarrow> jstr" where
  "time_op mode =
     (if mode = MATCH_EQ then js ''=='' else if mode = MATCH_GTE then js ''>=''
      else if mode = MATCH_LT then js ''<'' else js ''=='')"

text \<open>The printing of a normalized time condition and of a normalized parameter or header
  condition; \<open>buildTimeConditionExpr\<close> and \<open>buildRequestConditionExpr\<close> normalize first.\<close>

definition print_time :: "TimeCondition \<Rightarrow> jstr" where
  "print_time c =
     (let fn = tc_timeFunc c @ js ''('' @ json_quote (tc_timezone c) @ js '')'' in
      if tc_mode c = MATCH_RANGE then
        let s = trim (tc_rangeStart c); e = trim (tc_rangeEnd c) in
        if \<not> rx_test NUMERIC_LITERAL_REGEX s \<or> \<not> rx_test NUMERIC_LITERAL_REGEX e then []
        else fn @ js '' >= '' @ s @ js '' || '' @ fn @ js '' < '' @ e
      else
        let v = trim (tc_value c) in
        if \<not> rx_test NUMERIC_LITERAL_REGEX v then []
        else
          fn @ js '' '' @ time_op (tc_mode c) @ js '' '' @ v)"

definition cmp_op :: "jstr \<Rightarrow> jstr" where
  "cmp_op mode =
     (if mode = MATCH_GT then js ''>'' else if mode = MATCH_GTE then js ''>=''
      else if mode = MATCH_LT then js ''<'' else js ''<='')"

definition print_ph :: "ParamHeaderCondition \<Rightarrow> jstr" where
  "print_ph c =
     (let path = trim (ph_path c); mode = ph_mode c; header = (ph_source c = SrcHeader);
          src = (if header then js ''header('' else js ''param('') @ json_quote path @ js '')'' in
      if path = [] then []
      else if mode = MATCH_EXISTS then src @ (if header then js '' != '' @ [34, 34] else js '' != nil'')
      else if mode = MATCH_CONTAINS then
        (if header then js ''has('' @ src @ js '', '' @ buildExprLiteral mode (ph_value c) @ js '')''
         else src @ js '' != nil && has('' @ src @ js '', '' @ buildExprLiteral mode (ph_value c) @ js '')'')
      else if mode = MATCH_GT \<or> mode = MATCH_GTE \<or> mode = MATCH_LT \<or> mode = MATCH_LTE then
        (let numText = trim (ph_value c) in
         if \<not> rx_test NUMERIC_LITERAL_REGEX numText then []
         else src @ js '' != nil && '' @ src @ js '' '' @ cmp_op mode @ js '' '' @ numText)
      else src @ js '' == '' @ buildExprLiteral mode (ph_value c))"

definition buildRequestConditionExpr :: "RequestCondition \<Rightarrow> jstr" where
  "buildRequestConditionExpr cond =
     (case normalizeCondition (Some (partial_of cond)) of
        CondTime c \<Rightarrow> print_time c
      | CondPH c \<Rightarrow> print_ph c)"

definition paren_or :: "jstr \<Rightarrow> jstr" where
  "paren_or e = (if str_includes (js '' || '') e then js ''('' @ e @ js '')'' else e)"

definition buildRuleGroupFactor :: "RequestRuleGroup \<Rightarrow> jstr" where
  "buildRuleGroupFactor g =
     (let multiplier = trim (rg_multiplier g);
          condExprs = filter (\<lambda>e. e \<noteq> []) (map buildRequestConditionExpr (rg_conditions g)) in
      if \<not> rx_test NUMERIC_LITERAL_REGEX multiplier then []
      else if condExprs = [] then []
      else
        js ''('' @
          (if length condExprs = 1 then hd condExprs else join (js '' && '') (map paren_or condExprs)) @
          js '' ? '' @ multiplier @ js '' : 1)'')"

definition buildRequestRuleExpr :: "RequestRuleGroup list \<Rightarrow> jstr" where
  "buildRequestRuleExpr groups =
     join (js '' * '') (filter (\<lambda>f. f \<noteq> []) (map buildRuleGroupFactor groups))"

end
