(* ===== verification/Billing_Rules.thy ===== *)
theory Billing_Rules
  imports Billing_Expr
begin

text \<open>
  Correctness of the request rules of \<open>Billing_Expr\<close>: the editor's printer
  (\<open>buildRequestRuleExpr\<close>) against the parser (\<open>tryParseRequestRuleExpr\<close>), the
  splitting of a combined expression, and the normalization of conditions.

  The locale \<open>top_separator\<close> states what the parser relies on of the two splitting
  functions; it is interpreted for both separators.  A rule is \<open>faithful\<close> when its
  strings are free of quotes, backslashes, parentheses, \<open>&\<close>, \<open>|\<close>, control
  characters and surrogates, its numbers are numeric literals, and its parameter conditions
  compare for equality or existence.
\<close>

section \<open>Definitions\<close>

abbreviation "numeric \<equiv> rx_test NUMERIC_LITERAL_REGEX"

definition plain_char :: "jchar \<Rightarrow> bool" where
  "plain_char c \<longleftrightarrow> 32 \<le> c \<and> c < 65536 \<and> c \<noteq> 34 \<and> c \<noteq> 38 \<and> c \<noteq> 40 \<and> c \<noteq> 41 \<and> c \<noteq> 92 \<and>
     c \<noteq> 124 \<and> c \<noteq> 8232 \<and> c \<noteq> 8233 \<and> \<not> is_high_surrogate c \<and> \<not> is_low_surrogate c"

definition plain_text :: "jstr \<Rightarrow> bool" where
  "plain_text s \<longleftrightarrow> list_all plain_char s \<and> trim s = s"

definition faithful_time :: "TimeCondition \<Rightarrow> bool" where
  "faithful_time c \<longleftrightarrow>
     tc_timeFunc c \<in> set TIME_FUNCS \<and> tc_timezone c \<noteq> [] \<and> list_all plain_char (tc_timezone c) \<and>
     (if tc_mode c = MATCH_RANGE
      then tc_value c = [] \<and> numeric (tc_rangeStart c) \<and> numeric (tc_rangeEnd c)
      else tc_mode c \<in> {MATCH_EQ, MATCH_GTE, MATCH_LT} \<and> numeric (tc_value c) \<and>
        tc_rangeStart c = [] \<and> tc_rangeEnd c = [])"

definition faithful_ph :: "ParamHeaderCondition \<Rightarrow> bool" where
  "faithful_ph c \<longleftrightarrow>
     ph_path c \<noteq> [] \<and> plain_text (ph_path c) \<and> plain_text (ph_value c) \<and>
     (ph_mode c = MATCH_EQ \<or> ph_mode c = MATCH_EXISTS \<and> ph_value c = [] \<or>
      ph_mode c = MATCH_CONTAINS \<and> ph_source c = SrcHeader)"

fun faithful_cond :: "RequestCondition \<Rightarrow> bool" where
  "faithful_cond (CondTime c) = faithful_time c"
| "faithful_cond (CondPH c) = faithful_ph c"

definition faithful_group :: "RequestRuleGroup \<Rightarrow> bool" where
  "faithful_group g \<longleftrightarrow>
     rg_conditions g \<noteq> [] \<and> list_all faithful_cond (rg_conditions g) \<and> numeric (rg_multiplier g)"

text \<open>Two texts are comparable when one is a prefix of the other. \<open>quiet sep d s\<close> scans
  \<open>s\<close> from depth \<open>d\<close>: it is the depth at the end, or \<open>None\<close> if a separator could
  start inside \<open>s\<close> at depth 0, whatever follows \<open>s\<close>.\<close>

definition comparable :: "jstr \<Rightarrow> jstr \<Rightarrow> bool" where
  "comparable u v \<longleftrightarrow> starts_with u v \<or> starts_with v u"

fun quiet :: "jstr \<Rightarrow> int \<Rightarrow> jstr \<Rightarrow> int option" where
  "quiet sep d [] = Some d"
| "quiet sep d (c # s) =
     (let d' = d + paren_delta c in if d' = 0 \<and> comparable sep (c # s) then None else quiet sep d' s)"

inductive balanced :: "jstr \<Rightarrow> bool" where
  bal_flat: "\<forall>c\<in>set s. paren_delta c = 0 \<Longrightarrow> balanced s"
| bal_paren: "balanced s \<Longrightarrow> balanced (40 # s @ [41])"
| bal_append: "balanced s \<Longrightarrow> balanced t \<Longrightarrow> balanced (s @ t)"

definition flat_text :: "jstr \<Rightarrow> bool" where
  "flat_text s \<longleftrightarrow> (\<forall>c\<in>set s. paren_delta c = 0 \<and> c \<noteq> 38) \<and> (s = [] \<or> last s \<noteq> 32)"

text \<open>What is needed of the text of a condition to find it again in a group.\<close>

definition reads_back :: "jstr \<Rightarrow> RequestCondition \<Rightarrow> bool" where
  "reads_back e c \<longleftrightarrow>
     e \<noteq> [] \<and> trim e = e \<and> balanced e \<and> quiet (js '' && '') 0 e = Some 0 \<and>
     tryParseRequestCondition e = Inr (Some c)"

text \<open>The name before the path, the texts a group is joined from, and a sample.\<close>

definition ph_name :: "ph_source \<Rightarrow> jstr" where
  "ph_name src = (case src of SrcHeader \<Rightarrow> js ''header'' | SrcParam \<Rightarrow> js ''param'')"

definition group_conditions :: "RequestRuleGroup \<Rightarrow> jstr list" where
  "group_conditions g =
     (let es = map buildRequestConditionExpr (rg_conditions g) in if length es = 1 then es else map paren_or es)"

definition sample_groups :: "RequestRuleGroup list" where
  "sample_groups =
     [\<lparr>rg_conditions =
         [CondTime \<lparr>tc_timeFunc = js ''hour'', tc_timezone = js ''Asia/Shanghai'', tc_mode = MATCH_RANGE,
            tc_value = [], tc_rangeStart = js ''21'', tc_rangeEnd = js ''6''\<rparr>,
          CondPH \<lparr>ph_source = SrcHeader, ph_path = js ''x-tier'', ph_mode = MATCH_CONTAINS, ph_value = js ''fast lane''\<rparr>],
       rg_multiplier = js ''0.5''\<rparr>,
      \<lparr>rg_conditions =
         [CondPH \<lparr>ph_source = SrcParam, ph_path = js ''stream'', ph_mode = MATCH_EQ, ph_value = js ''true''\<rparr>],
       rg_multiplier = js ''2''\<rparr>]"

section \<open>Splitting at the top level\<close>

lemma comparable_append: "comparable sep (s @ t) \<Longrightarrow> comparable sep s"
  by (auto simp: comparable_def starts_with_iff append_eq_append_conv2)

lemma comparable_starts: "starts_with sep (s @ t) \<Longrightarrow> comparable sep s"
  using comparable_append [of sep s t] by (simp add: comparable_def)

lemma quiet_append:
  "quiet sep d s = Some d1 \<Longrightarrow> quiet sep d (s @ t) = quiet sep d1 t"
proof (induction s arbitrary: d)
  case (Cons c s)
  then show ?case
    using comparable_append [of sep "c # s" t] by (auto simp: Let_def split: if_splits)
qed simp

lemma top_split_quiet:
  "quiet sep d s = Some d1 \<Longrightarrow> top_split sep d acc (s @ t) = top_split sep d1 (rev s @ acc) t"
proof (induction s arbitrary: d acc)
  case (Cons c s)
  let ?d = "d + paren_delta c"
  from Cons.prems have q: "quiet sep ?d s = Some d1" and n: "\<not> (?d = 0 \<and> comparable sep (c # s))"
    by (auto simp: Let_def split: if_splits)
  from n have "\<not> (?d = 0 \<and> starts_with sep (c # s @ t))"
    using comparable_starts [of sep "c # s" t] by auto
  then have "top_split sep d acc (c # s @ t) = top_split sep ?d (c # acc) (s @ t)"
    by (subst top_split.simps) (auto simp: Let_def)
  with Cons.IH [OF q] show ?case by simp
qed simp

lemma top_split_Nil: "top_split sep d acc [] = [trim (rev acc)]"
  by (subst top_split.simps) simp

lemma top_split_one: "quiet sep 0 s = Some d \<Longrightarrow> top_split sep 0 [] s = [trim s]"
  using top_split_quiet [of sep 0 s d "[]" "[]"] by (simp add: top_split_Nil)

text \<open>What the parser relies on: a separator without parentheses that splits a joined list of
  balanced pieces into these pieces.\<close>

locale top_separator =
  fixes sep :: jstr
  assumes sep_nonempty: "sep \<noteq> []"
    and sep_flat: "\<forall>c\<in>set sep. paren_delta c = 0"
begin

lemma split_at_sep: "top_split sep 0 acc (sep @ s) = trim (rev acc) # top_split sep 0 [] s"
proof -
  obtain c t where sep: "sep = c # t" using sep_nonempty by (cases sep) auto
  with sep_flat have "paren_delta c = 0" by simp
  moreover have "starts_with sep (c # t @ s)" using sep by (metis append_Cons starts_with_append)
  moreover have "drop (length sep - 1) (t @ s) = s" using sep by simp
  ultimately show ?thesis
    using sep by (subst top_split.simps) (simp add: Let_def)
qed

lemma split_join:
  "ps \<noteq> [] \<Longrightarrow> \<forall>p\<in>set ps. quiet sep 0 p = Some 0 \<Longrightarrow> top_split sep 0 [] (join sep ps) = map trim ps"
proof (induction ps)
  case (Cons p ps)
  show ?case
  proof (cases "ps = []")
    case True
    with Cons.prems show ?thesis by (simp add: top_split_one)
  next
    case False
    with Cons have "top_split sep 0 [] (join sep ps) = map trim ps" by simp
    moreover from Cons.prems have "quiet sep 0 p = Some 0" by simp
    ultimately show ?thesis
      using top_split_quiet [of sep 0 p 0 "[]" "sep @ join sep ps"] split_at_sep [of "rev p" "join sep ps"]
      by (simp add: join_Cons [OF False])
  qed
qed simp

end

interpretation mul: top_separator "js '' * ''"
  by unfold_locales (simp_all add: paren_delta_def)

interpretation conj: top_separator "js '' && ''"
  by unfold_locales (simp_all add: paren_delta_def)

text \<open>Scanning inside parentheses, and scanning text without parentheses.\<close>

lemma quiet_inside:
  "d \<noteq> 0 \<Longrightarrow> \<forall>c\<in>set s. paren_delta c = 0 \<Longrightarrow> quiet sep d s = Some d"
  by (induction s) auto

lemma quiet_flat:
  assumes "\<forall>c\<in>set s. paren_delta c = 0 \<and> c \<noteq> last sep \<and> c \<noteq> hd sep" and "sep \<noteq> []"
  shows "quiet sep d s = Some d"
  using assms
proof (induction s)
  case (Cons c s)
  moreover have "\<not> comparable sep (c # s)"
    using Cons.prems by (cases sep) (auto simp: comparable_def)
  ultimately show ?case by simp
qed simp

lemma quiet_balanced: "balanced s \<Longrightarrow> 1 \<le> d \<Longrightarrow> quiet sep d s = Some d"
proof (induction arbitrary: d rule: balanced.induct)
  case (bal_flat s)
  then show ?case by (intro quiet_inside) auto
next
  case (bal_paren s)
  then show ?case
    using quiet_append [of sep "d + 1" s "d + 1" "[41]"] by (simp add: paren_delta_def)
next
  case (bal_append s t)
  then show ?case using quiet_append [of sep d s d t] by simp
qed

lemma quiet_paren:
  assumes "balanced s" and "hd sep \<noteq> 41" and "sep \<noteq> []"
  shows "quiet sep 0 (40 # s @ 41 # t) = quiet sep 0 t"
proof -
  have "\<not> comparable sep (41 # t)" using assms(2,3) by (cases sep) (auto simp: comparable_def)
  then show ?thesis
    using quiet_append [OF quiet_balanced [OF assms(1), of 1 sep], of "41 # t"] by (simp add: paren_delta_def)
qed

lemma quiet_amp_free:
  "flat_text s \<Longrightarrow> quiet (js '' && '') d s = Some d"
  unfolding flat_text_def
proof (induction s)
  case (Cons c s)
  have "\<not> comparable (js '' && '') (c # s)"
    using Cons.prems by (cases s) (auto simp: comparable_def)
  with Cons show ?case by (auto split: if_splits)
qed simp

text \<open>A call \<open>h(x)\<close> followed by \<open>t\<close>.\<close>

lemma quiet_call:
  assumes "flat_text h" and "balanced x"
  shows "quiet (js '' && '') 0 (h @ 40 # x @ 41 # t) = quiet (js '' && '') 0 t"
  using quiet_append [OF quiet_amp_free [OF assms(1), of 0]] quiet_paren [OF assms(2), of "js '' && ''" t]
  by simp

lemma balanced_flat: "flat_text s \<Longrightarrow> balanced s"
  by (rule bal_flat) (simp add: flat_text_def)

lemma flat_text_append: "flat_text s \<Longrightarrow> flat_text t \<Longrightarrow> flat_text (s @ t)"
  by (auto simp: flat_text_def last_append)

lemma flat_text_Cons: "paren_delta c = 0 \<Longrightarrow> c \<noteq> 38 \<Longrightarrow> t \<noteq> [] \<Longrightarrow> flat_text t \<Longrightarrow> flat_text (c # t)"
  by (auto simp: flat_text_def)

lemma balanced_call:
  assumes "flat_text h" and "balanced x" and "balanced t"
  shows "balanced (h @ 40 # x @ 41 # t)"
  using bal_append [OF balanced_flat [OF assms(1)] bal_append [OF bal_paren [OF assms(2)] assms(3)]] by simp

section \<open>Literals\<close>

lemma numeric_chars: "numeric s \<Longrightarrow> s \<noteq> [] \<and> (\<forall>c\<in>set s. num_char c)"
proof -
  assume num: "numeric s"
  let ?body = "rx_seq [ROpt (rx_lit (js ''-'')),
       rx_alt [rx_seq [rx_plus (RCls is_digit), ROpt (rx_lit (js ''.'')), RStar (RCls is_digit)],
         rx_seq [rx_lit (js ''.''), rx_plus (RCls is_digit)]],
       ROpt (rx_seq [RCls (\<lambda>c. c = 101 \<or> c = 69), ROpt (RCls (\<lambda>c. c = 43 \<or> c = 45)),
         rx_plus (RCls is_digit)])]"
  let ?k = "rx_m REnd (\<lambda>b' a' c'. Some c')"
  have "rx_match NUMERIC_LITERAL_REGEX s = rx_m ?body ?k [] s []"
    by (simp add: NUMERIC_LITERAL_REGEX_def rx_match_start)
  with num obtain x where x: "rx_m ?body ?k [] s [] = Some x" by (auto simp: rx_test_def)
  have "rx_over num_char ?body" by (simp add: num_char_def rx_plus_def)
  from rx_m_consumes [OF this x] obtain p a' c' where "s = p @ a'" "\<forall>y\<in>set p. num_char y"
    "?k (rev p @ []) a' c' = Some x" by (elim exE conjE)
  then have "\<forall>c\<in>set s. num_char c" by (simp split: if_splits)
  moreover have "s \<noteq> []" using num
    by (auto simp: rx_test_def NUMERIC_LITERAL_REGEX_def rx_match_start rx_plus_def rx_m.simps(5))
  ultimately show ?thesis by simp
qed

lemma num_char_facts:
  assumes "num_char c"
  shows "paren_delta c = 0" "\<not> is_ws c" "c \<noteq> 32" "c \<noteq> 34" "c \<noteq> 38" "c \<noteq> 124" "c \<noteq> 63" "c \<noteq> 41" "c \<noteq> 42"
  using assms by (auto simp: num_char_def is_digit_def paren_delta_def is_ws_def)

lemma numeric_trim: "numeric s \<Longrightarrow> trim s = s"
  by (rule trim_id_all) (use numeric_chars num_char_facts(2) in blast)

lemma plain_char_facts:
  assumes "plain_char c"
  shows "paren_delta c = 0" "c \<noteq> 34" "c \<noteq> 92" "c \<noteq> 38" "c \<noteq> 124" "dot_char c" "0 \<le> c" "c < 65536"
  using assms by (auto simp: plain_char_def paren_delta_def dot_char_def)

lemma plain_char_esc:
  assumes "plain_char c"
  shows "json_esc c = [c]" "\<not> is_high_surrogate c" "\<not> is_low_surrogate c"
  using assms by (auto simp: plain_char_def json_esc_def)

lemma json_esc_plain: "list_all plain_char s \<Longrightarrow> json_esc_str s = s"
  by (induction s rule: json_esc_str.induct) (simp_all add: plain_char_esc)

lemma json_quote_plain: "list_all plain_char s \<Longrightarrow> json_quote s = 34 # s @ [34]"
  by (simp add: json_quote_def json_esc_plain)

lemma code_units_plain: "list_all plain_char s \<Longrightarrow> code_units s"
  using plain_char_facts(7,8) by (auto simp: list_all_iff code_units_def)

lemma parse_quoted_plain: "list_all plain_char s \<Longrightarrow> json_parse (34 # s @ [34]) = Some (JStr s)"
  using json_parse_quote [OF code_units_plain] by (simp add: json_quote_plain)

section \<open>Conditions are read back\<close>

lemma not_quote_34 [simp]: "\<not> not_quote 34" "x \<noteq> 34 \<Longrightarrow> not_quote x"
  by (simp_all add: not_quote_def)

lemma num_char_32 [simp]: "\<not> num_char 32" "\<not> num_char 41"
  by (simp_all add: num_char_def is_digit_def)

lemma quoted_star:
  assumes "\<forall>c\<in>set v. c \<noteq> 34 \<and> c \<noteq> 92" and "\<And>b x a c. x \<noteq> 34 \<Longrightarrow> k b (x # a) c = None"
  shows "rx_m (RStar (RAlt (RCls (\<lambda>c. c \<noteq> 34 \<and> c \<noteq> 92)) (RSeq (rx_lit [92]) (RCls dot_char)))) k b
    (v @ 34 # rest) c = k (rev v @ b) (34 # rest) c"
  using assms(1)
proof (induction v arbitrary: b)
  case Nil
  show ?case by (subst star_unfold) simp
next
  case (Cons x v)
  then have "x \<noteq> 34" "x \<noteq> 92" by auto
  with Cons show ?case
    using assms(2) [of x b "v @ 34 # rest" c] by (subst star_unfold) (simp split: option.split)
qed

lemma quoted_group:
  assumes "\<forall>x\<in>set v. x \<noteq> 34 \<and> x \<noteq> 92"
  shows "rx_m (RGroup n quoted_rx) k b (34 # v @ 34 # rest) c =
    k (34 # rev v @ 34 # b) rest ((n, 34 # v @ [34]) # c)"
  using assms by (simp add: quoted_rx_def rx_m.simps(7) quoted_star)

lemma time_none [simp]:
  "tryParseTimeCondition (104 # 101 # s) = None"
  "tryParseTimeCondition (104 # 97 # s) = None"
  "tryParseTimeCondition (112 # s) = None"
  by (simp_all add: tryParseTimeCondition_def time_range_rx_def time_range_paren_rx_def time_cmp_rx_def
      time_range_parts_def time_func_rx_def TIME_FUNCS_def rx_match_start)

text \<open>The printed conditions, over a path without quotes.\<close>

lemma parse_header_exists:
  assumes "p \<noteq> []" and "\<forall>c\<in>set p. not_quote c"
  shows "tryParseRequestCondition (js ''header('' @ 34 # p @ 34 # js '') != '' @ [34, 34]) =
    Inr (Some (ph_cond SrcHeader p MATCH_EXISTS []))"
  using assms
  by (simp add: tryParseRequestCondition_def header_exists_rx_def rx_match_start group_plus_needs cap_str_def)

lemma parse_param_exists:
  assumes "p \<noteq> []" and "\<forall>c\<in>set p. not_quote c"
  shows "tryParseRequestCondition (js ''param('' @ 34 # p @ 34 # js '') != nil'') =
    Inr (Some (ph_cond SrcParam p MATCH_EXISTS []))"
  using assms
  by (simp add: tryParseRequestCondition_def header_exists_rx_def param_exists_rx_def rx_match_start
      group_plus_needs cap_str_def)

lemma parse_header_contains:
  assumes "p \<noteq> []" and "\<forall>c\<in>set p. not_quote c" and "list_all plain_char v"
  shows "tryParseRequestCondition (js ''has(header('' @ 34 # p @ 34 # js ''), '' @ 34 # v @ 34 # js '')'') =
    Inr (Some (ph_cond SrcHeader p MATCH_CONTAINS v))"
proof -
  have "\<forall>x\<in>set v. x \<noteq> 34 \<and> x \<noteq> 92" using assms(3) plain_char_facts(2,3) by (auto simp: list_all_iff)
  with assms show ?thesis
    by (simp add: tryParseRequestCondition_def header_exists_rx_def param_exists_rx_def
        header_contains_rx_def rx_match_start group_plus_needs quoted_group cap_str_def
        parse_contains_def json_parse_throw_def parse_quoted_plain)
qed

lemma literal_readback:
  assumes "plain_text v"
  shows "buildExprLiteral MATCH_EQ v \<noteq> []"
    and "\<forall>c\<in>set (buildExprLiteral MATCH_EQ v). dot_char c"
    and "parseExprLiteral (buildExprLiteral MATCH_EQ v) = Some (JStr v)"
proof -
  have pl: "list_all plain_char v" and tr: "trim v = v" using assms by (auto simp: plain_text_def)
  have dots: "\<forall>c\<in>set v. dot_char c" using pl plain_char_facts(6) by (auto simp: list_all_iff)
  let ?q = "34 # v @ [34]"
  have q: "\<not> numeric ?q"
    using numeric_chars [of ?q] num_char_facts(4) [of 34] by auto
  have tq: "trim ?q = ?q" by (rule trim_id) (simp_all add: is_ws_def)
  have d34: "dot_char 34" by (simp add: dot_char_def)
  consider (word) "v = js ''true'' \<or> v = js ''false''"
    | (num) "v \<noteq> js ''true''" "v \<noteq> js ''false''" "numeric v"
    | (str) "v \<noteq> js ''true''" "v \<noteq> js ''false''" "\<not> numeric v" by blast
  then have "buildExprLiteral MATCH_EQ v \<noteq> [] \<and>
    (\<forall>c\<in>set (buildExprLiteral MATCH_EQ v). dot_char c) \<and>
    parseExprLiteral (buildExprLiteral MATCH_EQ v) = Some (JStr v)"
  proof cases
    case word
    then have "buildExprLiteral MATCH_EQ v = v" "parseExprLiteral v = Some (JStr v)" "v \<noteq> []"
      using tr unfolding buildExprLiteral_def parseExprLiteral_def Let_def by auto
    with dots show ?thesis by simp
  next
    case num
    then have "v \<noteq> []" using numeric_chars by blast
    with num dots tr show ?thesis
      by (simp add: buildExprLiteral_def parseExprLiteral_def Let_def)
  next
    case str
    with dots tr q tq d34 pl show ?thesis
      by (simp add: buildExprLiteral_def parseExprLiteral_def Let_def json_quote_plain
          parse_quoted_plain)
  qed
  then show "buildExprLiteral MATCH_EQ v \<noteq> []"
    and "\<forall>c\<in>set (buildExprLiteral MATCH_EQ v). dot_char c"
    and "parseExprLiteral (buildExprLiteral MATCH_EQ v) = Some (JStr v)" by blast+
qed

lemma parse_header_eq:
  assumes "p \<noteq> []" and "\<forall>c\<in>set p. not_quote c" and "plain_text v"
  shows "tryParseRequestCondition (js ''header('' @ 34 # p @ 34 # js '') == '' @ buildExprLiteral MATCH_EQ v) =
    Inr (Some (ph_cond SrcHeader p MATCH_EQ v))"
  using assms literal_readback [OF assms(3)]
  by (simp add: tryParseRequestCondition_def header_exists_rx_def param_exists_rx_def
      header_contains_rx_def try_param_conditions_def match_same_path_def param_contains_rx_def
      param_cmp_rx_def eq_rx_def rx_match_start group_plus_needs group_plus_end cap_str_def parse_eq_def)

lemma parse_param_eq:
  assumes "p \<noteq> []" and "\<forall>c\<in>set p. not_quote c" and "plain_text v"
  shows "tryParseRequestCondition (js ''param('' @ 34 # p @ 34 # js '') == '' @ buildExprLiteral MATCH_EQ v) =
    Inr (Some (ph_cond SrcParam p MATCH_EQ v))"
  using assms literal_readback [OF assms(3)]
  by (simp add: tryParseRequestCondition_def header_exists_rx_def param_exists_rx_def
      header_contains_rx_def try_param_conditions_def match_same_path_def param_contains_rx_def
      param_cmp_rx_def eq_rx_def rx_match_start group_plus_needs group_plus_end cap_str_def parse_eq_def)

lemma time_func_group:
  assumes "f \<in> set TIME_FUNCS" and "\<And>b x a c. x \<noteq> 40 \<Longrightarrow> k b (x # a) c = None"
  shows "rx_m (RGroup n time_func_rx) k b (f @ 40 # t) c = k (rev f @ b) (40 # t) ((n, f) # c)"
proof -
  consider "f = js ''hour''" | "f = js ''minute''" | "f = js ''weekday''" | "f = js ''month''" | "f = js ''day''"
    using assms(1) by (auto simp: TIME_FUNCS_def)
  then show ?thesis
    by cases (simp_all add: time_func_rx_def TIME_FUNCS_def split: option.split)
qed

lemma parse_time_range:
  assumes "f \<in> set TIME_FUNCS" and "p \<noteq> []" and "\<forall>c\<in>set p. not_quote c" and "numeric s" and "numeric e"
  shows "tryParseTimeCondition (f @ 40 # 34 # p @ 34 # js '') >= '' @ s @ js '' || '' @ f @ 40 # 34 # p @
      34 # js '') < '' @ e) =
    Some \<lparr>tc_timeFunc = f, tc_timezone = p, tc_mode = MATCH_RANGE, tc_value = [],
      tc_rangeStart = s, tc_rangeEnd = e\<rparr>"
  using assms(1-3) numeric_chars [OF assms(4)] numeric_chars [OF assms(5)]
  by (simp add: tryParseTimeCondition_def time_range_rx_def time_range_parts_def
      time_func_group rx_match_start group_plus_needs group_plus_end time_range_cond_def cap_str_def)

lemma paren_range_none [simp]:
  assumes "f \<in> set TIME_FUNCS"
  shows "rx_match time_range_paren_rx (f @ t) = None"
proof -
  have "f \<noteq> [] \<and> hd f \<noteq> 40" using assms by (auto simp: TIME_FUNCS_def)
  then show ?thesis by (cases f) (simp_all add: time_range_paren_rx_def time_range_parts_def rx_match_start)
qed

lemma parse_time_range_paren:
  assumes "f \<in> set TIME_FUNCS" and "p \<noteq> []" and "\<forall>c\<in>set p. not_quote c" and "numeric s" and "numeric e"
  shows "tryParseTimeCondition (40 # f @ 40 # 34 # p @ 34 # js '') >= '' @ s @ js '' || '' @ f @ 40 # 34 # p @
      34 # js '') < '' @ e @ [41]) =
    Some \<lparr>tc_timeFunc = f, tc_timezone = p, tc_mode = MATCH_RANGE, tc_value = [],
      tc_rangeStart = s, tc_rangeEnd = e\<rparr>"
proof -
  have "rx_match time_range_rx (40 # t) = None" for t
    by (simp add: time_range_rx_def time_range_parts_def time_func_rx_def TIME_FUNCS_def rx_match_start)
  then show ?thesis
    using assms(1-3) numeric_chars [OF assms(4)] numeric_chars [OF assms(5)]
    by (simp add: tryParseTimeCondition_def time_range_paren_rx_def time_range_parts_def
        time_func_group rx_match_start group_plus_needs time_range_cond_def cap_str_def)
qed

lemma parse_time_cmp:
  assumes "f \<in> set TIME_FUNCS" and "p \<noteq> []" and "\<forall>c\<in>set p. not_quote c" and "numeric v"
    and "m \<in> {MATCH_EQ, MATCH_GTE, MATCH_LT}"
  shows "tryParseTimeCondition (f @ 40 # 34 # p @ 34 # js '') '' @ time_op m @ js '' '' @ v) =
    Some \<lparr>tc_timeFunc = f, tc_timezone = p, tc_mode = m, tc_value = v, tc_rangeStart = [], tc_rangeEnd = []\<rparr>"
proof -
  have num: "v \<noteq> []" "\<forall>c\<in>set v. num_char c" using numeric_chars [OF assms(4)] by auto
  consider "m = MATCH_EQ" | "m = MATCH_GTE" | "m = MATCH_LT" using assms(5) by auto
  then show ?thesis
  proof cases
    case 2
    have "rx_match time_range_rx (f @ 40 # 34 # p @ 34 # js '') '' @ time_op m @ js '' '' @ v) = None"
      using assms(1-3) num 2
      by (simp add: time_range_rx_def time_range_parts_def time_func_group rx_match_start group_plus_needs
          time_op_def group_plus_needs_None [where d = 32])
    with assms(1-3) num 2 show ?thesis
      by (simp add: tryParseTimeCondition_def time_cmp_rx_def time_func_group rx_match_start
          group_plus_needs group_plus_end cap_str_def time_op_mode_def time_op_def)
  qed (use assms(1-3) num in \<open>simp_all add: tryParseTimeCondition_def time_range_rx_def
      time_range_parts_def time_cmp_rx_def time_func_group rx_match_start group_plus_needs group_plus_end
      cap_str_def time_op_mode_def time_op_def\<close>)
qed

section \<open>Printed conditions\<close>

lemma normalize_faithful: "faithful_cond c \<Longrightarrow> normalizeCondition (Some (partial_of c)) = c"
proof (cases c)
  case (CondTime t)
  assume "faithful_cond c"
  with CondTime have "faithful_time t" by simp
  then show ?thesis
    by (cases t) (auto simp: CondTime normalizeCondition_def faithful_time_def or_else_def or_empty_def
        allowed_mode_def getRequestRuleMatchOptions_def split: if_splits)
next
  case (CondPH p)
  assume "faithful_cond c"
  with CondPH have "faithful_ph p" by simp
  then show ?thesis
    by (cases p) (auto simp: CondPH normalizeCondition_def faithful_ph_def or_else_def or_empty_def
        allowed_mode_def getRequestRuleMatchOptions_def ph_cond_def Let_def split: ph_source.splits)
qed

lemma numeric_ends:
  assumes "numeric v"
  shows "v \<noteq> []" "\<not> is_ws (last v)" "124 \<notin> set v" "flat_text v"
proof -
  have v: "v \<noteq> []" "\<forall>c\<in>set v. num_char c" using numeric_chars [OF assms] by auto
  then have l: "num_char (last v)" by simp
  from v(1) show "v \<noteq> []" .
  from l show "\<not> is_ws (last v)" by (rule num_char_facts)
  show "124 \<notin> set v" using v(2) num_char_facts(6) [of 124] by auto
  show "flat_text v" using v(2) num_char_facts(1,5) num_char_facts(3) [OF l] by (simp add: flat_text_def)
qed

lemma plain_set:
  assumes "list_all plain_char p"
  shows "\<forall>c\<in>set p. not_quote c" "\<forall>c\<in>set p. paren_delta c = 0" "124 \<notin> set p"
    "balanced (34 # p @ [34])"
proof -
  show np: "\<forall>c\<in>set p. paren_delta c = 0" using assms plain_char_facts(1) by (auto simp: list_all_iff)
  show "\<forall>c\<in>set p. not_quote c" using assms plain_char_facts(2) by (auto simp: list_all_iff not_quote_def)
  show "124 \<notin> set p" using assms plain_char_facts(5) by (auto simp: list_all_iff)
  show "balanced (34 # p @ [34])" using np by (intro bal_flat) (simp add: paren_delta_def)
qed

lemma time_func_facts:
  assumes "f \<in> set TIME_FUNCS"
  shows "f \<noteq> []" "\<not> is_ws (hd f)" "124 \<notin> set f" "flat_text f"
  using assms by (auto simp: TIME_FUNCS_def is_ws_def paren_delta_def flat_text_def)

lemma time_cmp_reads_back:
  assumes "f \<in> set TIME_FUNCS" and "p \<noteq> []" and "list_all plain_char p" and "numeric v"
    and "m \<in> {MATCH_EQ, MATCH_GTE, MATCH_LT}"
  shows "reads_back (f @ 40 # (34 # p @ [34]) @ 41 # js '' '' @ time_op m @ js '' '' @ v)
    (CondTime \<lparr>tc_timeFunc = f, tc_timezone = p, tc_mode = m, tc_value = v, tc_rangeStart = [], tc_rangeEnd = []\<rparr>)"
proof -
  note f = time_func_facts [OF assms(1)] and v = numeric_ends [OF assms(4)] and p = plain_set [OF assms(3)]
  let ?t = "js '' '' @ time_op m @ js '' '' @ v"
  have t: "flat_text ?t"
    using v by (simp add: time_op_def flat_text_Cons paren_delta_def)
  have "quiet (js '' && '') 0 (f @ 40 # (34 # p @ [34]) @ 41 # ?t) = Some 0"
    using f p t by (simp only: quiet_call quiet_amp_free)
  moreover have "balanced (f @ 40 # (34 # p @ [34]) @ 41 # ?t)"
    by (intro balanced_call f(4) p(4) balanced_flat t)
  moreover have "trim (f @ 40 # (34 # p @ [34]) @ 41 # ?t) = f @ 40 # (34 # p @ [34]) @ 41 # ?t"
    using f v by (intro trim_id) auto
  ultimately show ?thesis
    using parse_time_cmp [OF assms(1,2) p(1) assms(4,5)]
    by (simp add: reads_back_def tryParseRequestCondition_def)
qed

lemma time_range_reads_back:
  assumes "f \<in> set TIME_FUNCS" and "p \<noteq> []" and "list_all plain_char p" and "numeric s" and "numeric e"
  defines "x \<equiv> f @ 40 # (34 # p @ [34]) @ 41 # js '' >= '' @ s @ js '' || '' @ f @ 40 # (34 # p @ [34]) @
      41 # js '' < '' @ e"
    and "c \<equiv> CondTime \<lparr>tc_timeFunc = f, tc_timezone = p, tc_mode = MATCH_RANGE, tc_value = [],
      tc_rangeStart = s, tc_rangeEnd = e\<rparr>"
  shows "reads_back x c" and "reads_back (40 # x @ [41]) c"
proof -
  note f = time_func_facts [OF assms(1)] and p = plain_set [OF assms(3)]
  note s = numeric_ends [OF assms(4)] and e = numeric_ends [OF assms(5)]
  let ?q = "34 # p @ [34]"
  let ?t = "js '' < '' @ e" and ?u = "js '' >= '' @ s @ js '' || '' @ f"
  have t: "flat_text ?t" using e by (simp add: flat_text_Cons paren_delta_def)
  have u: "flat_text ?u" using s f by (simp add: flat_text_Cons flat_text_append paren_delta_def)
  have x: "x = f @ 40 # ?q @ 41 # ?u @ 40 # ?q @ 41 # ?t" by (simp add: x_def)
  have "quiet (js '' && '') 0 x = Some 0"
    unfolding x using f p t u by (simp only: quiet_call quiet_amp_free)
  moreover have bal: "balanced x"
    unfolding x by (intro balanced_call f(4) p(4) u balanced_flat t)
  moreover have "trim x = x"
    using f e by (intro trim_id) (simp_all add: x_def)
  moreover have "x \<noteq> []" using f by (simp add: x_def)
  ultimately show "reads_back x c"
    using parse_time_range [OF assms(1,2) p(1) assms(4,5)]
    by (simp add: reads_back_def tryParseRequestCondition_def x_def c_def)
  have "quiet (js '' && '') 0 (40 # x @ [41]) = Some 0"
    using quiet_paren [OF bal, of "js '' && ''" "[]"] by simp
  moreover have "trim (40 # x @ [41]) = 40 # x @ [41]"
    by (rule trim_id) (simp_all add: is_ws_def)
  ultimately show "reads_back (40 # x @ [41]) c"
    using parse_time_range_paren [OF assms(1,2) p(1) assms(4,5)] bal_paren [OF bal]
    by (simp add: reads_back_def tryParseRequestCondition_def x_def c_def)
qed

lemma quoted_flat:
  assumes "list_all plain_char v"
  shows "flat_text (34 # v @ [34])"
  using assms plain_char_facts(1,4) by (auto simp: flat_text_def list_all_iff paren_delta_def)

lemma literal_text:
  assumes "plain_text v"
  defines "l \<equiv> buildExprLiteral MATCH_EQ v"
  shows "l \<noteq> []" "flat_text l" "124 \<notin> set l" "\<not> is_ws (last l)"
proof -
  have pl: "list_all plain_char v" and tr: "trim v = v" using assms(1) by (auto simp: plain_text_def)
  have "l = (if v = js ''true'' \<or> v = js ''false'' \<or> numeric v then v else 34 # v @ [34])"
    using tr pl by (simp add: l_def buildExprLiteral_def Let_def json_quote_plain)
  then consider "v = js ''true'' \<or> v = js ''false''" "l = v" | "numeric v" "l = v" | "l = 34 # v @ [34]"
    by metis
  then have "l \<noteq> [] \<and> flat_text l \<and> 124 \<notin> set l \<and> \<not> is_ws (last l)"
  proof cases
    case 1
    then show ?thesis by (auto simp: flat_text_def paren_delta_def is_ws_def)
  next
    case 2
    then show ?thesis using numeric_ends [of v] by simp
  next
    case 3
    then show ?thesis using quoted_flat [OF pl] plain_set(3) [OF pl] by (simp add: is_ws_def)
  qed
  then show "l \<noteq> []" "flat_text l" "124 \<notin> set l" "\<not> is_ws (last l)" by blast+
qed

lemma call_reads_back:
  assumes "flat_text h" and "h \<noteq> []" and "\<not> is_ws (hd h)" and "balanced x" and "flat_text t"
    and "t = [] \<or> \<not> is_ws (last t)" and "tryParseRequestCondition (h @ 40 # x @ 41 # t) = Inr (Some c)"
  shows "reads_back (h @ 40 # x @ 41 # t) c"
proof -
  have "trim (h @ 40 # x @ 41 # t) = h @ 40 # x @ 41 # t"
    using assms(2,3,6) by (intro trim_id) (auto simp: is_ws_def)
  then show ?thesis
    using assms balanced_call [OF assms(1,4) balanced_flat] quiet_call [OF assms(1,4)] quiet_amp_free [of t 0]
    by (simp add: reads_back_def)
qed

lemma ph_name_facts:
  "flat_text (ph_name src)" "ph_name src \<noteq> []" "\<not> is_ws (hd (ph_name src))" "124 \<notin> set (ph_name src)"
  by (cases src; simp add: ph_name_def flat_text_def paren_delta_def is_ws_def)+

lemma exists_reads_back:
  assumes "p \<noteq> []" and "list_all plain_char p"
  shows "reads_back (ph_name src @ 40 # (34 # p @ [34]) @
      41 # (if src = SrcHeader then js '' != '' @ [34, 34] else js '' != nil'')) (ph_cond src p MATCH_EXISTS [])"
proof -
  note q = plain_set [OF assms(2)]
  show ?thesis
    by (rule call_reads_back [OF ph_name_facts(1-3) q(4)])
      (use parse_header_exists [OF assms(1) q(1)] parse_param_exists [OF assms(1) q(1)] in
        \<open>cases src; simp add: ph_name_def flat_text_def paren_delta_def is_ws_def\<close>)+
qed

lemma contains_reads_back:
  assumes "p \<noteq> []" and "list_all plain_char p" and "list_all plain_char v"
  shows "reads_back (js ''has'' @ 40 # (js ''header'' @ 40 # (34 # p @ [34]) @ 41 # js '', '' @ 34 # v @ [34]) @ 41 # [])
    (ph_cond SrcHeader p MATCH_CONTAINS v)"
proof -
  note q = plain_set [OF assms(2)]
  have names: "flat_text (js ''header'')" "flat_text (js ''has'')"
    by (simp_all add: flat_text_def paren_delta_def)
  have "flat_text (js '', '' @ 34 # v @ [34])"
    using quoted_flat [OF assms(3)] by (simp add: flat_text_Cons paren_delta_def)
  then have bal: "balanced (js ''header'' @ 40 # (34 # p @ [34]) @ 41 # js '', '' @ 34 # v @ [34])"
    by (intro balanced_call names q(4) balanced_flat)
  show ?thesis
    by (rule call_reads_back [OF names(2) _ _ bal])
      (use parse_header_contains [OF assms(1) q(1) assms(3)] in \<open>simp_all add: flat_text_def is_ws_def\<close>)
qed

lemma eq_reads_back:
  assumes "p \<noteq> []" and "list_all plain_char p" and "plain_text v"
  shows "reads_back (ph_name src @ 40 # (34 # p @ [34]) @ 41 # js '' == '' @ buildExprLiteral MATCH_EQ v)
    (ph_cond src p MATCH_EQ v)"
proof -
  note q = plain_set [OF assms(2)] and l = literal_text [OF assms(3)]
  have "flat_text (js '' == '' @ buildExprLiteral MATCH_EQ v)"
    using l by (simp add: flat_text_Cons paren_delta_def)
  then show ?thesis
    by (rule call_reads_back [OF ph_name_facts(1-3) q(4)])
      (use parse_header_eq [OF assms(1) q(1) assms(3)] parse_param_eq [OF assms(1) q(1) assms(3)] l in
        \<open>cases src; simp add: ph_name_def\<close>)+
qed

lemma ph_reads_back:
  assumes "faithful_ph c"
  shows "reads_back (print_ph c) (CondPH c)" and "124 \<notin> set (print_ph c)"
proof -
  let ?p = "ph_path c" and ?v = "ph_value c" and ?s = "ph_source c"
  have p: "?p \<noteq> []" "list_all plain_char ?p" "trim ?p = ?p"
    and v: "plain_text ?v" "list_all plain_char ?v" "trim ?v = ?v"
    using assms by (auto simp: faithful_ph_def plain_text_def)
  note q = plain_set(3) [OF p(2)] and l = literal_text [OF v(1)] and w = plain_set(3) [OF v(2)]
  have c: "CondPH c = ph_cond ?s ?p (ph_mode c) ?v" by (simp add: ph_cond_def)
  consider (ex) "ph_mode c = MATCH_EXISTS" "?v = []"
    | (has) "ph_mode c = MATCH_CONTAINS" "?s = SrcHeader" | (eq) "ph_mode c = MATCH_EQ"
    using assms by (auto simp: faithful_ph_def)
  then have "reads_back (print_ph c) (CondPH c) \<and> 124 \<notin> set (print_ph c)"
  proof cases
    case ex
    with exists_reads_back [OF p(1,2), of ?s] p q show ?thesis
      unfolding c by (cases ?s) (simp_all add: print_ph_def Let_def json_quote_plain ph_name_def)
  next
    case has
    with contains_reads_back [OF p(1,2) v(2)] p q v w show ?thesis
      unfolding c by (simp add: print_ph_def Let_def json_quote_plain buildExprLiteral_def)
  next
    case eq
    with eq_reads_back [OF p(1,2) v(1), of ?s] p q l show ?thesis
      unfolding c by (cases ?s) (simp_all add: print_ph_def Let_def json_quote_plain ph_name_def)
  qed
  then show "reads_back (print_ph c) (CondPH c)" and "124 \<notin> set (print_ph c)" by blast+
qed

lemma paren_or_id: "124 \<notin> set e \<Longrightarrow> paren_or e = e"
  by (auto simp: paren_or_def str_includes_iff)

lemma time_reads_back:
  assumes "faithful_time c"
  shows "reads_back (print_time c) (CondTime c)" and "reads_back (paren_or (print_time c)) (CondTime c)"
proof -
  let ?f = "tc_timeFunc c" and ?p = "tc_timezone c"
  have f: "?f \<in> set TIME_FUNCS" and p: "?p \<noteq> []" "list_all plain_char ?p"
    using assms by (auto simp: faithful_time_def)
  note tf = time_func_facts [OF f] and tp = plain_set(3) [OF p(2)]
  have "reads_back (print_time c) (CondTime c) \<and> reads_back (paren_or (print_time c)) (CondTime c)"
  proof (cases "tc_mode c = MATCH_RANGE")
    case True
    let ?s = "tc_rangeStart c" and ?e = "tc_rangeEnd c"
    have n: "numeric ?s" "numeric ?e" and "tc_value c = []" using True assms by (auto simp: faithful_time_def)
    with True have c: "c = \<lparr>tc_timeFunc = ?f, tc_timezone = ?p, tc_mode = MATCH_RANGE, tc_value = [],
        tc_rangeStart = ?s, tc_rangeEnd = ?e\<rparr>" by simp
    let ?a = "?f @ 40 # (34 # ?p @ [34]) @ 41 # js '' >= '' @ ?s"
      and ?b = "?f @ 40 # (34 # ?p @ [34]) @ 41 # js '' < '' @ ?e"
    have x: "print_time c = ?a @ js '' || '' @ ?b"
      using True n p by (simp add: print_time_def Let_def numeric_trim json_quote_plain)
    then have "str_includes (js '' || '') (print_time c)" unfolding str_includes_iff by blast
    then have "paren_or (print_time c) = 40 # print_time c @ [41]" by (simp add: paren_or_def)
    with x c time_range_reads_back [OF f p n] show ?thesis by (metis append.assoc append_Cons)
  next
    case False
    let ?v = "tc_value c"
    have n: "numeric ?v" and m: "tc_mode c \<in> {MATCH_EQ, MATCH_GTE, MATCH_LT}"
      and "tc_rangeStart c = []" "tc_rangeEnd c = []" using False assms by (auto simp: faithful_time_def)
    then have c: "c = \<lparr>tc_timeFunc = ?f, tc_timezone = ?p, tc_mode = tc_mode c, tc_value = ?v,
        tc_rangeStart = [], tc_rangeEnd = []\<rparr>" by simp
    have x: "print_time c = ?f @ 40 # (34 # ?p @ [34]) @ 41 # js '' '' @ time_op (tc_mode c) @ js '' '' @ ?v"
      using False n p by (simp add: print_time_def Let_def numeric_trim json_quote_plain)
    have "124 \<notin> set (print_time c)"
      using tf tp numeric_ends(3) [OF n] by (simp add: x time_op_def)
    moreover have "reads_back (print_time c) (CondTime c)"
      using time_cmp_reads_back [OF f p n m] unfolding x [symmetric] c [symmetric] .
    ultimately show ?thesis by (simp add: paren_or_id)
  qed
  then show "reads_back (print_time c) (CondTime c)" and "reads_back (paren_or (print_time c)) (CondTime c)"
    by blast+
qed

lemma cond_reads_back:
  assumes "faithful_cond c"
  shows "reads_back (buildRequestConditionExpr c) c" and "reads_back (paren_or (buildRequestConditionExpr c)) c"
proof -
  have "reads_back (buildRequestConditionExpr c) c \<and> reads_back (paren_or (buildRequestConditionExpr c)) c"
  proof (cases c)
    case (CondTime t)
    have "buildRequestConditionExpr c = print_time t"
      unfolding buildRequestConditionExpr_def normalize_faithful [OF assms] by (simp add: CondTime)
    with CondTime assms time_reads_back show ?thesis by simp
  next
    case (CondPH p)
    have "buildRequestConditionExpr c = print_ph p"
      unfolding buildRequestConditionExpr_def normalize_faithful [OF assms] by (simp add: CondPH)
    moreover have "faithful_ph p" using CondPH assms by simp
    ultimately show ?thesis
      using CondPH ph_reads_back paren_or_id [of "print_ph p"] by simp
  qed
  then show "reads_back (buildRequestConditionExpr c) c" and "reads_back (paren_or (buildRequestConditionExpr c)) c"
    by blast+
qed

section \<open>Groups are read back\<close>

lemma parse_conditions_reads_back:
  "list_all2 reads_back es cs \<Longrightarrow> parse_conditions es = Inr (Some cs)"
  by (induction es cs rule: list_all2_induct) (simp_all add: reads_back_def)

lemma split_and_reads_back:
  assumes "list_all2 reads_back es cs" and "es \<noteq> []"
  shows "splitTopLevelAnd (join (js '' && '') es) = es"
proof -
  have rb: "\<forall>e\<in>set es. e \<noteq> [] \<and> trim e = e \<and> quiet (js '' && '') 0 e = Some 0"
    using assms(1) by (induction es cs rule: list_all2_induct) (auto simp: reads_back_def)
  then have "map trim es = es" "filter (\<lambda>p. p \<noteq> []) es = es" by (auto simp: map_idI)
  with conj.split_join [OF assms(2)] rb show ?thesis by (simp add: splitTopLevelAnd_def)
qed

lemma balanced_join:
  assumes "\<forall>e\<in>set es. balanced e" and "\<forall>c\<in>set sep. paren_delta c = 0"
  shows "balanced (join sep es)"
  using assms(1)
proof (induction es)
  case Nil
  then show ?case by (simp add: bal_flat)
next
  case (Cons e es)
  then show ?case
    by (cases "es = []") (simp_all add: join_Cons bal_append bal_flat assms(2))
qed

lemma question_last:
  assumes "63 \<notin> set r" and "32 # 63 # 32 # r = q1 @ q2" and "q1 \<noteq> []"
  shows "\<not> starts_with (js '' ? '') q2"
proof
  assume "starts_with (js '' ? '') q2"
  then obtain t where q2: "q2 = 32 # 63 # 32 # t" by (auto simp: starts_with_iff)
  with assms show False
    by (cases q1; cases "tl q1") (auto simp: Cons_eq_append_conv)
qed

lemma group_match:
  assumes "x \<noteq> []" and "numeric m"
  shows "rx_match group_rx (40 # x @ js '' ? '' @ m @ js '' : 1)'') = Some [(2, m), (1, x)]"
proof -
  have m: "m \<noteq> []" "\<forall>c\<in>set m. num_char c" "63 \<notin> set m"
    using numeric_chars [OF assms(2)] num_char_facts(7) [of 63] by auto
  obtain y z where x: "x = y # z" using assms(1) by (cases x) auto
  let ?r = "m @ js '' : 1)''"
  let ?k = "rx_m (rx_seq [rx_lit (js '' ? ''), RGroup 2 (rx_plus (RCls num_char)), rx_lit (js '' : 1)''), REnd])
    (\<lambda>b' a' c'. Some c')"
  let ?k' = "\<lambda>b' a' c'. ?k b' a' ((1, take (length (x @ js '' ? '' @ ?r) - length a') (x @ js '' ? '' @ ?r)) # c')"
  have "rx_m (RStar (RCls (\<lambda>_. True))) ?k' [y, 40] (z @ js '' ? '' @ ?r) [] = Some [(2, m), (1, x)]"
  proof (rule star_cls_last)
    show "?k' (rev z @ [y, 40]) (js '' ? '' @ ?r) [] = Some [(2, m), (1, x)]"
      using m(1,2) by (simp add: group_plus_needs)
    fix q1 q2
    assume q: "js '' ? '' @ ?r = q1 @ q2" "q1 \<noteq> []"
    then have "\<not> starts_with (js '' ? '') q2"
      using m(3) by (intro question_last [of ?r q1]) simp_all
    then show "?k' (rev q1 @ rev z @ [y, 40]) q2 [] = None" by simp
  qed simp
  then show ?thesis by (simp add: group_rx_def rx_match_start x rx_m_group_plus)
qed

lemma balanced_multiplier:
  assumes "numeric m"
  shows "balanced (js '' ? '' @ m @ js '' : 1'')"
proof (rule bal_flat)
  show "\<forall>c\<in>set (js '' ? '' @ m @ js '' : 1''). paren_delta c = 0"
    using numeric_ends(4) [OF assms] by (auto simp: flat_text_def paren_delta_def)
qed

lemma group_conditions_reads_back:
  assumes "faithful_group g"
  shows "list_all2 reads_back (group_conditions g) (rg_conditions g)" "group_conditions g \<noteq> []"
proof -
  have "list_all faithful_cond (rg_conditions g)" "rg_conditions g \<noteq> []"
    using assms by (simp_all add: faithful_group_def)
  with cond_reads_back show "list_all2 reads_back (group_conditions g) (rg_conditions g)" "group_conditions g \<noteq> []"
    by (simp_all add: group_conditions_def Let_def list_all2_map1 list.rel_map list_all2_same list_all_iff)
qed

lemma group_factor_text:
  assumes "faithful_group g"
  shows "buildRuleGroupFactor g =
    40 # join (js '' && '') (group_conditions g) @ js '' ? '' @ rg_multiplier g @ js '' : 1)''"
proof -
  have c: "list_all faithful_cond (rg_conditions g)" "rg_conditions g \<noteq> []" and m: "numeric (rg_multiplier g)"
    using assms by (simp_all add: faithful_group_def)
  let ?es = "map buildRequestConditionExpr (rg_conditions g)"
  have "\<forall>e\<in>set ?es. e \<noteq> []" using c(1) cond_reads_back(1) by (auto simp: list_all_iff reads_back_def)
  then have "filter (\<lambda>e. e \<noteq> []) ?es = ?es" by (rule filter_True)
  moreover have "length ?es = 1 \<Longrightarrow> join (js '' && '') ?es = hd ?es" by (cases ?es) auto
  ultimately show ?thesis
    using c(2) m by (simp add: buildRuleGroupFactor_def group_conditions_def Let_def numeric_trim)
qed

lemma group_reads_back:
  assumes "faithful_group g"
  defines "t \<equiv> buildRuleGroupFactor g"
  shows "t \<noteq> []" "trim t = t" "quiet (js '' * '') 0 t = Some 0" "tryParseRuleGroupFactor t = Inr (Some g)"
proof -
  let ?x = "join (js '' && '') (group_conditions g)"
  note rb = group_conditions_reads_back [OF assms(1)]
  have m: "numeric (rg_multiplier g)" and ne: "rg_conditions g \<noteq> []" using assms(1) by (simp_all add: faithful_group_def)
  have t: "t = 40 # ?x @ js '' ? '' @ rg_multiplier g @ js '' : 1)''" unfolding t_def by (rule group_factor_text [OF assms(1)])
  have split: "splitTopLevelAnd ?x = group_conditions g" by (rule split_and_reads_back [OF rb])
  then have x: "?x \<noteq> []" using rb(2) by (auto simp: splitTopLevelAnd_def top_split_Nil)
  have "\<forall>e\<in>set (group_conditions g). balanced e"
    using rb(1) by (auto simp: list_all2_conv_all_nth in_set_conv_nth reads_back_def)
  then have "balanced ?x" by (rule balanced_join) (simp add: paren_delta_def)
  then have "balanced (?x @ js '' ? '' @ rg_multiplier g @ js '' : 1'')"
    by (rule bal_append [OF _ balanced_multiplier [OF m]])
  from quiet_paren [OF this, of "js '' * ''" "[]"] show "quiet (js '' * '') 0 t = Some 0" by (simp add: t)
  show "t \<noteq> []" by (simp add: t)
  show "trim t = t" by (rule trim_id) (simp_all add: t is_ws_def)
  show "tryParseRuleGroupFactor t = Inr (Some g)"
    using group_match [OF x m] parse_conditions_reads_back [OF rb(1)] ne split
    by (simp add: t tryParseRuleGroupFactor_def cap_str_def)
qed

lemma parse_groups_reads_back:
  "list_all faithful_group gs \<Longrightarrow> parse_groups (map buildRuleGroupFactor gs) = Inr (Some gs)"
  by (induction gs) (simp_all add: group_reads_back)

lemma factors_id: "list_all faithful_group gs \<Longrightarrow>
    filter (\<lambda>f. f \<noteq> []) (map buildRuleGroupFactor gs) = map buildRuleGroupFactor gs"
  using group_reads_back(1) by (auto simp: list_all_iff intro!: filter_True)

lemma split_factors:
  assumes "list_all faithful_group gs" and "gs \<noteq> []"
  shows "splitTopLevelMultiply (buildRequestRuleExpr gs) = map buildRuleGroupFactor gs"
proof -
  let ?fs = "map buildRuleGroupFactor gs"
  have "map trim ?fs = ?fs" using assms(1) group_reads_back(2) by (simp add: list_all_iff)
  moreover have "\<forall>f\<in>set ?fs. quiet (js '' * '') 0 f = Some 0"
    using assms(1) group_reads_back(3) by (auto simp: list_all_iff)
  then have "top_split (js '' * '') 0 [] (join (js '' * '') ?fs) = map trim ?fs"
    using assms(2) by (intro mul.split_join) auto
  ultimately show ?thesis
    unfolding splitTopLevelMultiply_def buildRequestRuleExpr_def factors_id [OF assms(1)]
    by (simp only: factors_id [OF assms(1)])
qed

lemma join_ends:
  "ps \<noteq> [] \<Longrightarrow> \<forall>p\<in>set ps. p \<noteq> [] \<Longrightarrow>
   join sep ps \<noteq> [] \<and> hd (join sep ps) = hd (hd ps) \<and> last (join sep ps) = last (last ps)"
proof (induction ps)
  case (Cons p ps)
  then show ?case by (cases "ps = []") (simp_all add: join_Cons)
qed simp

lemma rule_expr_trim:
  assumes "list_all faithful_group gs" and "gs \<noteq> []"
  shows "trim (buildRequestRuleExpr gs) = buildRequestRuleExpr gs" "buildRequestRuleExpr gs \<noteq> []"
proof -
  let ?fs = "map buildRuleGroupFactor gs"
  have fs: "\<forall>f\<in>set ?fs. f \<noteq> [] \<and> hd f = 40 \<and> last f = 41"
    using assms(1) group_factor_text by (auto simp: list_all_iff)
  then have "hd (hd ?fs) = 40" "last (last ?fs) = 41" using assms(2) by (simp_all add: hd_map last_map)
  then show "trim (buildRequestRuleExpr gs) = buildRequestRuleExpr gs" "buildRequestRuleExpr gs \<noteq> []"
    using join_ends [of ?fs "js '' * ''"] fs assms
    by (simp_all add: buildRequestRuleExpr_def factors_id trim_id is_ws_def)
qed

lemma rule_expr_reads_back:
  assumes "list_all faithful_group gs"
  shows "tryParseRequestRuleExpr (buildRequestRuleExpr gs) = Inr (Some gs)"
proof (cases "gs = []")
  case True
  then show ?thesis by (simp add: tryParseRequestRuleExpr_def buildRequestRuleExpr_def)
next
  case False
  note t = rule_expr_trim [OF assms False]
  show ?thesis
    unfolding tryParseRequestRuleExpr_def Let_def t(1) split_factors [OF assms False]
      parse_groups_reads_back [OF assms] using t(2) by simp
qed

section \<open>Base expression and rules\<close>

lemma outer_scan_balanced:
  "balanced s \<Longrightarrow> 1 \<le> d \<Longrightarrow> t \<noteq> [] \<Longrightarrow> outer_scan d (s @ t) = outer_scan d t"
proof (induction arbitrary: d t rule: balanced.induct)
  case (bal_flat s)
  then show ?case by (induction s) auto
next
  case (bal_paren s)
  then show ?case by (simp add: paren_delta_def)
next
  case (bal_append s u)
  then show ?case by simp
qed

lemma full_outer_parens: "balanced s \<Longrightarrow> hasFullOuterParens (40 # s @ [41])"
  by (simp add: hasFullOuterParens_def outer_scan_balanced paren_delta_def ends_with_def starts_with_def)

lemma unwrap_once:
  assumes "balanced s" and "trim s = s" and "\<not> hasFullOuterParens s"
  shows "unwrapOuterParens (40 # s @ [41]) = s"
proof -
  have "trim (40 # s @ [41]) = 40 # s @ [41]" by (rule trim_id) (simp_all add: is_ws_def)
  moreover have "unwrap_loop (40 # s @ [41]) = unwrap_loop s"
    using full_outer_parens [OF assms(1)] assms(2) by (subst unwrap_loop.simps) simp
  ultimately show ?thesis
    using assms(3) by (simp add: unwrapOuterParens_def unwrap_loop.simps [of s])
qed

lemma unwrap_loop_not_full: "\<not> hasFullOuterParens (unwrap_loop s)"
  by (induction s rule: unwrap_loop.induct) (subst unwrap_loop.simps, simp)

lemma unwrap_loop_trim: "trim s = s \<Longrightarrow> trim (unwrap_loop s) = unwrap_loop s"
proof (induction s rule: unwrap_loop.induct)
  case (1 s)
  then show ?case by (subst (1 2) unwrap_loop.simps) simp
qed

lemma factor_is_rule:
  assumes "faithful_group g"
  shows "tryParseRequestRuleExpr (buildRuleGroupFactor g) = Inr (Some [g])"
  using rule_expr_reads_back [of "[g]"] assms group_reads_back(1) [OF assms]
  by (simp add: buildRequestRuleExpr_def)

lemma classify_factors:
  "list_all faithful_group gs \<Longrightarrow>
   classify_parts (map buildRuleGroupFactor gs) = Inr (map buildRuleGroupFactor gs, [])"
  by (induction gs) (simp_all add: factor_is_rule)

lemma parenthesised_part:
  assumes "balanced s" and "tryParseRuleGroupFactor (40 # s @ [41]) = Inr None"
  shows "tryParseRequestRuleExpr (40 # s @ [41]) = Inr None"
proof -
  have t: "trim (40 # s @ [41]) = 40 # s @ [41]" by (rule trim_id) (simp_all add: is_ws_def)
  have "quiet (js '' * '') 0 (40 # s @ [41]) = Some 0"
    using quiet_paren [OF assms(1), of "js '' * ''" "[]"] by simp
  then have "splitTopLevelMultiply (40 # s @ [41]) = [40 # s @ [41]]"
    unfolding splitTopLevelMultiply_def by (simp only: top_split_one t) simp
  with t assms(2) show ?thesis by (simp add: tryParseRequestRuleExpr_def)
qed

lemma split_combined:
  assumes "balanced s" and "list_all faithful_group gs" and "gs \<noteq> []"
  shows "splitTopLevelMultiply (40 # s @ js '') * '' @ buildRequestRuleExpr gs) =
    (40 # s @ [41]) # map buildRuleGroupFactor gs"
proof -
  let ?fs = "map buildRuleGroupFactor gs" and ?b = "40 # s @ [41]"
  have b: "trim ?b = ?b" by (rule trim_id) (simp_all add: is_ws_def)
  have fs: "\<forall>f\<in>set ?fs. quiet (js '' * '') 0 f = Some 0 \<and> trim f = f \<and> f \<noteq> []"
    using assms(2) group_reads_back(1-3) by (auto simp: list_all_iff)
  have "quiet (js '' * '') 0 ?b = Some 0" using quiet_paren [OF assms(1), of "js '' * ''" "[]"] by simp
  then have "top_split (js '' * '') 0 [] (join (js '' * '') (?b # ?fs)) = map trim (?b # ?fs)"
    using fs by (intro mul.split_join) auto
  moreover have "join (js '' * '') (?b # ?fs) = 40 # s @ js '') * '' @ buildRequestRuleExpr gs"
    using assms(2,3) by (simp add: join_Cons buildRequestRuleExpr_def factors_id)
  moreover have "map trim (?b # ?fs) = ?b # ?fs" using b fs by simp
  moreover have "filter (\<lambda>p. p \<noteq> []) (?b # ?fs) = ?b # ?fs" using fs by simp
  ultimately show ?thesis unfolding splitTopLevelMultiply_def by metis
qed

section \<open>Conditions the parser loses\<close>

lemma guarded_rest_unread:
  assumes "p \<noteq> []" and "\<forall>c\<in>set p. not_quote c"
  shows "tryParseRequestCondition (js ''param('' @ 34 # p @ 34 # 41 # 32 # cmp_op m @ js '' '' @ v) = Inr None"
    and "tryParseRequestCondition (js ''has(param('' @ t) = Inr None"
  using assms
  by (simp_all add: tryParseRequestCondition_def header_exists_rx_def param_exists_rx_def
      header_contains_rx_def try_param_conditions_def match_same_path_def param_contains_rx_def
      param_cmp_rx_def eq_rx_def rx_match_start group_plus_needs cmp_op_def)

lemma top_split_two:
  assumes "quiet (js '' && '') 0 a = Some 0" and "quiet (js '' && '') 0 b = Some 0"
  shows "top_split (js '' && '') 0 [] (a @ js '' && '' @ b) = [trim a, trim b]"
  using conj.split_join [of "[a, b]"] assms by simp

lemma two_part_factor_lost:
  assumes "quiet (js '' && '') 0 b = Some 0" and "trim b = b" and "b \<noteq> []"
    and "p \<noteq> []" and "list_all plain_char p" and "numeric m" and "tryParseRequestCondition b = Inr None"
  defines "a \<equiv> ph_name SrcParam @ 40 # (34 # p @ [34]) @ 41 # js '' != nil''"
  shows "tryParseRuleGroupFactor (40 # (a @ js '' && '' @ b) @ js '' ? '' @ m @ js '' : 1)'') = Inr None"
proof -
  have a: "reads_back a (ph_cond SrcParam p MATCH_EXISTS [])"
    using exists_reads_back [OF assms(4,5), of SrcParam] by (simp add: a_def)
  then have "splitTopLevelAnd (a @ js '' && '' @ b) = [a, b]"
    using assms(1-3) by (simp only: splitTopLevelAnd_def top_split_two reads_back_def) simp
  moreover have "rx_match group_rx (40 # (a @ js '' && '' @ b) @ js '' ? '' @ m @ js '' : 1)'') =
      Some [(2, m), (1, a @ js '' && '' @ b)]"
    using a assms(6) by (intro group_match) (simp_all add: reads_back_def)
  ultimately show ?thesis
    using a assms(2,7) by (simp add: tryParseRuleGroupFactor_def cap_str_def reads_back_def)
qed

lemma two_part_rule_lost:
  assumes "flat_text h" "h \<noteq> []" "\<not> is_ws (hd h)" "balanced x" "flat_text t" "t = [] \<or> \<not> is_ws (last t)"
    and "p \<noteq> []" and "list_all plain_char p" and "numeric m"
    and "tryParseRequestCondition (h @ 40 # x @ 41 # t) = Inr None"
  shows "tryParseRequestRuleExpr (40 # (ph_name SrcParam @ 40 # (34 # p @ [34]) @ 41 # js '' != nil && '' @
      h @ 40 # x @ 41 # t) @ js '' ? '' @ m @ js '' : 1)'') = Inr None"
proof -
  let ?b = "h @ 40 # x @ 41 # t" and ?a = "ph_name SrcParam @ 40 # (34 # p @ [34]) @ 41 # js '' != nil''"
  have "trim ?b = ?b" using assms(2,3,6) by (intro trim_id) (auto simp: is_ws_def)
  moreover have "quiet (js '' && '') 0 ?b = Some 0"
    using quiet_call [OF assms(1,4)] quiet_amp_free [OF assms(5)] by simp
  ultimately have f: "tryParseRuleGroupFactor (40 # (?a @ js '' && '' @ ?b) @ js '' ? '' @ m @ js '' : 1)'') = Inr None"
    using assms(2,7-10) by (intro two_part_factor_lost) simp_all
  have "balanced ?a" using exists_reads_back [OF assms(7,8), of SrcParam] by (simp add: reads_back_def)
  moreover have "balanced ?b" by (intro balanced_call assms(1,4) balanced_flat assms(5))
  moreover have "balanced (js '' && '')" by (rule bal_flat) (simp add: paren_delta_def)
  ultimately have "balanced ((?a @ js '' && '' @ ?b) @ js '' ? '' @ m @ js '' : 1'')"
    by (intro bal_append [OF _ balanced_multiplier [OF assms(9)]] bal_append [OF _ bal_append])
  from parenthesised_part [OF this] f show ?thesis by simp
qed

lemma json_quote_trim:
  assumes "plain_text v"
  shows "buildExprLiteral MATCH_CONTAINS v = 34 # v @ [34]"
  using assms by (simp add: buildExprLiteral_def plain_text_def json_quote_plain)

lemma bad_escape_literal:
  "rx_m (RGroup n quoted_rx) k b (34 # 92 # 113 # 34 # rest) c =
    k (34 # 113 # 92 # 34 # b) rest ((n, [34, 92, 113, 34]) # c)"
  "json_parse [34, 92, 113, 34] = None"
proof -
  show "json_parse [34, 92, 113, 34] = None" by code_simp
  let ?s = "RStar (RAlt (RCls (\<lambda>c. c \<noteq> 34 \<and> c \<noteq> 92)) (RSeq (rx_lit [92]) (RCls dot_char)))"
  have "dot_char 113" by (simp add: dot_char_def)
  then show "rx_m (RGroup n quoted_rx) k b (34 # 92 # 113 # 34 # rest) c =
      k (34 # 113 # 92 # 34 # b) rest ((n, [34, 92, 113, 34]) # c)"
    by (simp add: quoted_rx_def rx_m.simps(7) star_unfold [of _ _ _ "92 # _"] star_unfold [of _ _ _ "34 # _"]
        split: option.split)
qed

section \<open>Properties\<close>

text \<open>C5. The request rules printed by the editor are read back: for every list of faithful
  rule groups, parsing the text of \<open>buildRequestRuleExpr\<close> gives exactly these groups, with
  their conditions, modes, values and multipliers.\<close>

theorem rule_roundtrip:
  assumes "list_all faithful_group gs"
  shows "tryParseRequestRuleExpr (buildRequestRuleExpr gs) = Inr (Some gs)"
  using assms by (rule rule_expr_reads_back)

lemma sample_faithful: "list_all faithful_group sample_groups"
  by code_simp

theorem rule_roundtrip_witness:
  "list_all faithful_group sample_groups \<and>
   tryParseRequestRuleExpr (buildRequestRuleExpr sample_groups) = Inr (Some sample_groups)"
  using rule_roundtrip [OF sample_faithful] sample_faithful by simp

text \<open>C24. Splitting undoes combining: a balanced, trimmed base expression without outer
  parentheses that is not itself a rule factor, combined with printed rules, is split into the
  same base expression and the same rules.\<close>

theorem split_combine:
  assumes "balanced base" and "trim base = base" and "base \<noteq> []" and "\<not> hasFullOuterParens base"
    and "tryParseRuleGroupFactor (js ''('' @ base @ js '')'') = Inr None"
    and "list_all faithful_group gs" and "gs \<noteq> []"
  shows "splitBillingExprAndRequestRules (combineBillingExpr base (buildRequestRuleExpr gs)) =
    Inr \<lparr>bs_billingExpr = base, bs_requestRuleExpr = buildRequestRuleExpr gs\<rparr>"
proof -
  let ?r = "buildRequestRuleExpr gs" and ?fs = "map buildRuleGroupFactor gs" and ?b = "40 # base @ [41]"
  note r = rule_expr_trim [OF assms(6,7)]
  let ?e = "40 # base @ js '') * '' @ ?r"
  have e: "combineBillingExpr base ?r = ?e"
    using assms(2,3) r by (simp add: combineBillingExpr_def Let_def)
  have "last ?r = last (trim ?r)" "trim ?r \<noteq> []" using r by simp_all
  then have "\<not> is_ws (last ?r)" using trim_hd_last by metis
  then have t: "trim ?e = ?e" using r(2) by (intro trim_id) (simp_all add: is_ws_def)
  have "classify_parts (?b # ?fs) = Inr (?fs, [?b])"
    using parenthesised_part [OF assms(1)] assms(5) classify_factors [OF assms(6)] by simp
  moreover have "join (js '' * '') ?fs = ?r" by (simp add: buildRequestRuleExpr_def factors_id assms(6))
  ultimately show ?thesis
    unfolding e splitBillingExprAndRequestRules_def Let_def t split_combined [OF assms(1,6,7)]
    using assms(7) unwrap_once [OF assms(1,2,4)] by simp
qed

lemma sample_base: "balanced (js ''tier('' @ [34] @ js ''base'' @ [34] @ js '', p * 1.5 + c * 6)'')"
  using balanced_call [of "js ''tier''" "34 # js ''base'' @ 34 # js '', p * 1.5 + c * 6''" "[]"]
  by (simp add: flat_text_def paren_delta_def bal_flat)

theorem split_combine_witness:
  "splitBillingExprAndRequestRules
     (combineBillingExpr (js ''tier('' @ [34] @ js ''base'' @ [34] @ js '', p * 1.5 + c * 6)'')
       (buildRequestRuleExpr sample_groups)) =
   Inr \<lparr>bs_billingExpr = js ''tier('' @ [34] @ js ''base'' @ [34] @ js '', p * 1.5 + c * 6)'',
     bs_requestRuleExpr = buildRequestRuleExpr sample_groups\<rparr>"
proof (rule split_combine [OF sample_base _ _ _ _ sample_faithful])
  let ?b = "js ''tier('' @ [34] @ js ''base'' @ [34] @ js '', p * 1.5 + c * 6)''"
  show "trim ?b = ?b" by (rule trim_id) (simp_all add: is_ws_def)
  show "\<not> hasFullOuterParens ?b" by (simp add: hasFullOuterParens_def starts_with_def)
  show "tryParseRuleGroupFactor (js ''('' @ ?b @ js '')'') = Inr None" by code_simp
  show "sample_groups \<noteq> []" by (simp add: sample_groups_def)
qed simp

text \<open>C25. A rule with a single parameter condition of a mode other than equality and existence
  is lost: its printed text contains \<open> && \<close> at the top level, where the parser cuts it, so the
  patterns for guarded parameter conditions are never reached and the text is not a rule for
  \<open>tryParseRequestRuleExpr\<close>.\<close>

theorem guarded_param_rule_lost:
  assumes "p \<noteq> []" and "plain_text p" and "plain_text v" and "numeric m"
    and "mode = MATCH_CONTAINS \<or> mode \<in> {MATCH_GT, MATCH_GTE, MATCH_LT, MATCH_LTE} \<and> numeric v"
  shows "tryParseRequestRuleExpr (buildRequestRuleExpr
    [\<lparr>rg_conditions = [ph_cond SrcParam p mode v], rg_multiplier = m\<rparr>]) = Inr None"
proof -
  have pl: "list_all plain_char p" "trim p = p" and vl: "list_all plain_char v" "trim v = v"
    using assms(2,3) by (simp_all add: plain_text_def)
  let ?q = "34 # p @ [34]"
  have names: "flat_text (js ''param'')" "flat_text (js ''has'')" by (simp_all add: flat_text_def paren_delta_def)
  note q = plain_set [OF pl(1)]
  have cond: "buildRequestConditionExpr (ph_cond SrcParam p mode v) =
      print_ph \<lparr>ph_source = SrcParam, ph_path = p, ph_mode = mode, ph_value = v\<rparr>"
    using assms(1,5)
    by (auto simp: buildRequestConditionExpr_def ph_cond_def normalizeCondition_def or_else_def or_empty_def
        allowed_mode_def getRequestRuleMatchOptions_def Let_def)
  show ?thesis
  proof (cases "mode = MATCH_CONTAINS")
    case True
    have "flat_text (js '', '' @ 34 # v @ [34])"
      using quoted_flat [OF vl(1)] by (simp add: flat_text_Cons paren_delta_def)
    then have bal: "balanced (js ''param'' @ 40 # ?q @ 41 # js '', '' @ 34 # v @ [34])"
      by (intro balanced_call names q(4) balanced_flat)
    from two_part_rule_lost [OF names(2) _ _ bal _ _ assms(1) pl(1) assms(4), of "[]"] show ?thesis
      using True cond assms(1,4) pl json_quote_trim [OF assms(3)] guarded_rest_unread(2) [OF assms(1) q(1)]
      by (simp add: buildRequestRuleExpr_def buildRuleGroupFactor_def print_ph_def Let_def json_quote_plain
          numeric_trim ph_name_def flat_text_def is_ws_def)
  next
    case False
    then have n: "numeric v" using assms(5) by simp
    let ?t = "32 # cmp_op mode @ js '' '' @ v"
    have "flat_text ?t" using numeric_ends [OF n] by (simp add: cmp_op_def flat_text_Cons paren_delta_def)
    from two_part_rule_lost [OF names(1) _ _ q(4) this _ assms(1) pl(1) assms(4)] show ?thesis
      using False cond assms(1,4,5) pl n guarded_rest_unread(1) [OF assms(1) q(1)] numeric_ends [OF n]
      by (auto simp: buildRequestRuleExpr_def buildRuleGroupFactor_def print_ph_def Let_def json_quote_plain
          numeric_trim ph_name_def is_ws_def)
  qed
qed

theorem guarded_param_rule_lost_witness:
  "tryParseRequestRuleExpr (buildRequestRuleExpr
    [\<lparr>rg_conditions = [ph_cond SrcParam (js ''max_tokens'') MATCH_GT (js ''1000'')], rg_multiplier = js ''2''\<rparr>]) =
   Inr None"
proof (rule guarded_param_rule_lost)
  show "plain_text (js ''max_tokens'')" "plain_text (js ''1000'')" by code_simp+
  show "numeric (js ''2'')" by code_simp
  have "numeric (js ''1000'')" by code_simp
  then show "MATCH_GT = MATCH_CONTAINS \<or> MATCH_GT \<in> {MATCH_GT, MATCH_GTE, MATCH_LT, MATCH_LTE} \<and> numeric (js ''1000'')"
    by simp
qed simp

text \<open>A quoted literal with a bad escape makes the rule parser throw: the text
  \<open>(has(header("..."), "\q") ? 2 : 1)\<close> matches the pattern of a header condition, and
  \<open>JSON.parse\<close> raises an uncaught \<open>SyntaxError\<close>, for every header name without quotes.\<close>

theorem bad_escape_throws:
  assumes "p \<noteq> []" and "plain_text p"
  shows "tryParseRequestRuleExpr (js ''(has(header('' @ [34] @ p @ [34] @ js ''), '' @ [34, 92, 113, 34] @ js '') ? 2 : 1)'') =
    Inl SyntaxError"
proof -
  have pl: "list_all plain_char p" using assms(2) by (simp add: plain_text_def)
  note q = plain_set [OF pl]
  let ?c = "js ''has'' @ 40 # (js ''header'' @ 40 # (34 # p @ [34]) @ 41 # js '', '' @ [34, 92, 113, 34]) @ 41 # []"
  let ?e = "40 # ?c @ js '' ? '' @ js ''2'' @ js '' : 1)''"
  have names: "flat_text (js ''header'')" "flat_text (js ''has'')" "flat_text (js '', '' @ [34, 92, 113, 34])" "flat_text []"
    by (simp_all add: flat_text_def paren_delta_def)
  have bal: "balanced (js ''header'' @ 40 # (34 # p @ [34]) @ 41 # js '', '' @ [34, 92, 113, 34])"
    by (intro balanced_call names q(4) balanced_flat)
  have num: "numeric (js ''2'')" by code_simp
  have cond: "tryParseRequestCondition ?c = Inl SyntaxError"
    using assms(1) q(1)
    by (simp add: bad_escape_literal tryParseRequestCondition_def header_exists_rx_def param_exists_rx_def header_contains_rx_def
        rx_match_start group_plus_needs cap_str_def parse_contains_def json_parse_throw_def)
  have "splitTopLevelAnd ?c = [?c]"
    using quiet_call [OF names(2) bal, of "[]"] trim_id [of ?c]
    by (simp add: splitTopLevelAnd_def top_split_one is_ws_def)
  then have "tryParseRuleGroupFactor ?e = Inl SyntaxError"
    using group_match [OF _ num, of ?c] cond trim_id [of ?c]
    by (simp add: tryParseRuleGroupFactor_def cap_str_def is_ws_def)
  moreover have "splitTopLevelMultiply ?e = [?e]"
    using quiet_paren [OF bal_append [OF balanced_call [OF names(2) bal balanced_flat [OF names(4)]]
        balanced_multiplier [OF num]], of "js '' * ''" "[]"] trim_id [of ?e]
    by (simp add: splitTopLevelMultiply_def top_split_one is_ws_def)
  ultimately show ?thesis
    using trim_id [of ?e] by (simp add: tryParseRequestRuleExpr_def is_ws_def)
qed

theorem bad_escape_throws_witness:
  "tryParseRequestRuleExpr (js ''(has(header('' @ [34] @ js ''x-tier'' @ [34] @ js ''), '' @ [34, 92, 113, 34] @ js '') ? 2 : 1)'') =
    Inl SyntaxError"
proof (rule bad_escape_throws)
  show "plain_text (js ''x-tier'')" by code_simp
qed simp

text \<open>Unwrapping removes all outer parentheses: the result is trimmed, has no full outer
  pair, and unwrapping it again changes nothing.\<close>

theorem unwrapOuterParens_done:
  "trim (unwrapOuterParens e) = unwrapOuterParens e \<and> \<not> hasFullOuterParens (unwrapOuterParens e) \<and>
   unwrapOuterParens (unwrapOuterParens e) = unwrapOuterParens e"
  using unwrap_loop_trim [of "trim e"] unwrap_loop_not_full [of "trim e"] unwrap_loop.simps [of "unwrap_loop (trim e)"]
  by (simp add: unwrapOuterParens_def)

text \<open>Normalizing a condition gives a mode that its source offers, and normalizing the
  result again changes nothing.\<close>

theorem normalizeCondition_stable:
  "normalizeCondition (Some (partial_of (normalizeCondition c))) = normalizeCondition c \<and>
   (case normalizeCondition c of
      CondTime t \<Rightarrow> tc_mode t \<in> set (map fst (getRequestRuleMatchOptions SOURCE_TIME)) \<and> tc_timeFunc t \<in> set TIME_FUNCS
    | CondPH p \<Rightarrow> ph_mode p \<in> set (map fst (getRequestRuleMatchOptions
          (if ph_source p = SrcHeader then SOURCE_HEADER else SOURCE_PARAM))))"
proof (cases c)
  case None
  then show ?thesis
    by (simp add: normalizeCondition_def ph_cond_def or_else_def or_empty_def allowed_mode_def
        getRequestRuleMatchOptions_def)
next
  case (Some d)
  have m: "allowed_mode s (Some (allowed_mode s x e)) e = allowed_mode s x e" for s x e
    by (simp add: allowed_mode_def split: option.split)
  have a: "e \<in> set (map fst (getRequestRuleMatchOptions s)) \<Longrightarrow>
      allowed_mode s x e \<in> set (map fst (getRequestRuleMatchOptions s))" for s x e
    by (simp add: allowed_mode_def split: option.split)
  have offered: "MATCH_GTE \<in> set (map fst (getRequestRuleMatchOptions SOURCE_TIME))"
    "MATCH_EQ \<in> set (map fst (getRequestRuleMatchOptions s))" for s
    by (simp_all add: getRequestRuleMatchOptions_def Let_def)
  have o: "or_else (Some (or_else x e)) e = or_else x e" for x e
    by (simp add: or_else_def split: option.split)
  have f: "(case pc_timeFunc d of None \<Rightarrow> js ''hour'' | Some f \<Rightarrow> if f \<in> set TIME_FUNCS then f else js ''hour'')
      \<in> set TIME_FUNCS"
    by (auto simp: TIME_FUNCS_def split: option.split)
  show ?thesis
    using Some m o f a offered
    by (cases "pc_source d = Some SOURCE_TIME") (simp_all add: normalizeCondition_def ph_cond_def or_empty_def Let_def)
qed

end
