(* ===== verification/Playground_Messages.thy ===== *)
theory Playground_Messages
  imports Js_Json
begin

text \<open>
  The message model of the playground (\<open>features/playground\<close>: \<open>types.ts\<close>,
  \<open>constants.ts\<close>, \<open>lib/message-utils.ts\<close> and the text block of
  \<open>lib/attachment-text.ts\<close>).

  A message is a record with the optional fields of the interface as options.
  \<open>nanoid()\<close> is an external generator: the constructors take the identifiers it
  returned as arguments.  \<open>toLocaleString\<close> depends on the locale of the host and is
  the parameter \<open>locale_num\<close> of the two functions that call it.

  The lemmas show what the splitting of \<open><think>\<close> sections computes, that the
  content of a streamed message does not depend on how it was cut into chunks, what finalizing
  and sanitizing do, and the contract of \<open>updateLastAssistantMessage\<close> as the locale
  \<open>last_updater\<close>.
\<close>

section \<open>Types and constants\<close>

datatype MessageRole = RoleUser | RoleAssistant | RoleSystem

datatype MessageStatus = StLoading | StStreaming | StComplete | StError

record MessageVersion =
  mv_id :: jstr
  mv_content :: jstr

datatype attachment_kind = KindImage | KindFile

datatype extraction_status = ExReady | ExUnsupported | ExFailed

record PlaygroundAttachment =
  pa_id :: jstr
  pa_name :: jstr
  pa_type :: jstr
  pa_size :: int
  pa_data :: jstr
  pa_base64 :: jstr
  pa_kind :: attachment_kind
  pa_extractedText :: "jstr option"
  pa_extractionStatus :: "extraction_status option"
  pa_extractionError :: "jstr option"

record Reasoning =
  rs_content :: jstr
  rs_duration :: int

text \<open>\<open>errorCode?: string | null\<close>: \<open>None\<close> is undefined, \<open>Some None\<close> is null.
  The code is stored as it was in the server's JSON.\<close>

record Message =
  msg_key :: jstr
  msg_from :: MessageRole
  msg_versions :: "MessageVersion list"
  msg_attachments :: "PlaygroundAttachment list option"
  msg_sources :: "(jstr \<times> jstr) list option"
  msg_reasoning :: "Reasoning option"
  msg_isReasoningStreaming :: "bool option"
  msg_isReasoningComplete :: "bool option"
  msg_isContentComplete :: "bool option"
  msg_status :: "MessageStatus option"
  msg_errorCode :: "json option option"

datatype ContentPart =
    TextPart "jstr option"
  | ImageUrlPart jstr
  | FilePart "jstr option" "jstr option" "jstr option"

datatype message_content = TextContent jstr | PartsContent "ContentPart list"

record ChatCompletionMessage =
  ccm_role :: MessageRole
  ccm_content :: message_content

definition API_REQUEST_ERROR :: jstr where "API_REQUEST_ERROR = js ''Request error occurred''"
definition PARSE_ERROR :: jstr where "PARSE_ERROR = js ''Error parsing response data''"
definition STREAM_START_ERROR :: jstr where "STREAM_START_ERROR = js ''Error establishing connection''"
definition CONNECTION_CLOSED :: jstr where "CONNECTION_CLOSED = js ''Connection closed''"
definition INTERRUPTED :: jstr where "INTERRUPTED = js ''Generation was interrupted''"

section \<open>Attachment text\<close>

definition MAX_EXTRACTED_TEXT_CHARS :: nat where "MAX_EXTRACTED_TEXT_CHARS = 40000"
definition MAX_ATTACHMENT_TEXT_BLOCK_CHARS :: nat where "MAX_ATTACHMENT_TEXT_BLOCK_CHARS = 80000"

text \<open>The Chinese literals of the source, as code units.\<close>

definition zh_attachment :: jstr where "zh_attachment = [38468, 20214, 32]"
definition zh_type :: jstr where "zh_type = [31867, 22411, 58, 32]"
definition zh_content :: jstr where "zh_content = [20869, 23481, 58]"
definition zh_unsupported :: jstr where
  "zh_unsupported =
     [26242, 19981, 25903, 25345, 30452, 25509, 35299, 26512, 35813, 31867, 22411, 65292, 35831, 29992,
      25143, 25913, 20256, 32, 80, 68, 70, 12289, 87, 111, 114, 100, 12289, 69, 120, 99, 101, 108, 12289,
      67, 83, 86, 12289, 84, 88, 84, 12289, 77, 97, 114, 107, 100, 111, 119, 110, 12289, 74, 83, 79, 78,
      32, 25110, 20195, 30721, 25991, 26412, 12290]"
definition zh_failed :: jstr where "zh_failed = [35299, 26512, 22833, 36133, 65306]"
definition zh_unknown_error :: jstr where "zh_unknown_error = [26410, 30693, 38169, 35823]"
definition zh_no_text :: jstr where
  "zh_no_text = [26410, 25552, 21462, 21040, 21487, 35835, 25991, 26412, 12290]"
definition zh_block_cut :: jstr where
  "zh_block_cut =
     [10, 10, 46, 46, 46, 38468, 20214, 21512, 24182, 20869, 23481, 36807, 38271, 65292, 24050, 25130,
      26029, 21069, 32]"
definition zh_text_cut :: jstr where
  "zh_text_cut =
     [10, 10, 46, 46, 46, 38468, 20214, 20869, 23481, 36807, 38271, 65292, 24050, 25130, 26029, 21069, 32]"
definition zh_chars :: jstr where "zh_chars = [32, 23383, 31526, 12290]"
definition zh_intro :: jstr where
  "zh_intro =
     [20197, 19979, 26159, 29992, 25143, 19978, 20256, 30340, 25991, 26723, 38468, 20214, 20869, 23481,
      65292, 35831, 22312, 22238, 31572, 26102, 32467, 21512, 36825, 20123, 20869, 23481, 65307, 22914,
      26524, 38468, 20214, 20869, 23481, 19981, 36275, 25110, 35299, 26512, 22833, 36133, 65292, 35831,
      26126, 30830, 35828, 26126, 12290]"

definition attachment_block :: "nat \<Rightarrow> PlaygroundAttachment \<Rightarrow> jstr" where
  "attachment_block index item =
     (let head = [zh_attachment @ dec (int (index + 1)) @ js '': '' @ pa_name item,
                  zh_type @ (if pa_type item = [] then js ''application/octet-stream'' else pa_type item)];
          text = (case pa_extractedText item of None \<Rightarrow> [] | Some t \<Rightarrow> trim t) in
      if text \<noteq> [] then join [10] (head @ [zh_content, text])
      else
        let reason =
              (if pa_extractionStatus item = Some ExUnsupported then zh_unsupported
               else if pa_extractionStatus item = Some ExFailed then
                 zh_failed @ (case pa_extractionError item of
                                None \<Rightarrow> zh_unknown_error
                              | Some e \<Rightarrow> if e = [] then zh_unknown_error else e)
               else zh_no_text) in
        join [10] (head @ [reason]))"

definition buildAttachmentTextBlock :: "(int \<Rightarrow> jstr) \<Rightarrow> PlaygroundAttachment list \<Rightarrow> jstr" where
  "buildAttachmentTextBlock locale_num attachments =
     (let files = filter (\<lambda>item. pa_kind item = KindFile) attachments;
          blocks = map (\<lambda>(index, item). attachment_block index item) (enumerate 0 files) in
      if blocks = [] then []
      else
        let content = join (js [CHR 0x0A, CHR 0x0A, CHR ''-'', CHR ''-'', CHR ''-'', CHR 0x0A, CHR 0x0A]) blocks;
            limitedContent =
              (if length content \<le> MAX_ATTACHMENT_TEXT_BLOCK_CHARS then content
               else take MAX_ATTACHMENT_TEXT_BLOCK_CHARS content @ zh_block_cut @
                 locale_num (int MAX_ATTACHMENT_TEXT_BLOCK_CHARS) @ zh_chars) in
        join [10] [[], js ''---'', zh_intro, limitedContent])"

text \<open>\<open>.replace(/\r\n/g, '\n').replace(/\u0000/g, '')\<close>, then the limit.\<close>

fun crlf_to_lf :: "jstr \<Rightarrow> jstr" where
  "crlf_to_lf [] = []"
| "crlf_to_lf [c] = [c]"
| "crlf_to_lf (c # d # s) = (if c = 13 \<and> d = 10 then 10 # crlf_to_lf s else c # crlf_to_lf (d # s))"

definition limitExtractedText :: "(int \<Rightarrow> jstr) \<Rightarrow> jstr \<Rightarrow> jstr" where
  "limitExtractedText locale_num text =
     (let normalized = trim (filter (\<lambda>c. c \<noteq> 0) (crlf_to_lf text)) in
      if length normalized \<le> MAX_EXTRACTED_TEXT_CHARS then normalized
      else take MAX_EXTRACTED_TEXT_CHARS normalized @ zh_text_cut @
        locale_num (int MAX_EXTRACTED_TEXT_CHARS) @ zh_chars)"

section \<open>Messages\<close>

definition createMessageVersion :: "jstr \<Rightarrow> jstr \<Rightarrow> MessageVersion" where
  "createMessageVersion nanoid content = \<lparr>mv_id = nanoid, mv_content = content\<rparr>"

definition getCurrentVersion :: "Message \<Rightarrow> MessageVersion" where
  "getCurrentVersion message =
     (case msg_versions message of [] \<Rightarrow> \<lparr>mv_id = js ''default'', mv_content = []\<rparr> | v # _ \<Rightarrow> v)"

definition updateCurrentVersionContent :: "Message \<Rightarrow> jstr \<Rightarrow> Message" where
  "updateCurrentVersionContent message content =
     message\<lparr>msg_versions := [(getCurrentVersion message)\<lparr>mv_content := content\<rparr>]\<rparr>"

definition blank_message :: "jstr \<Rightarrow> MessageRole \<Rightarrow> MessageVersion list \<Rightarrow> Message" where
  "blank_message key role versions =
     \<lparr>msg_key = key, msg_from = role, msg_versions = versions, msg_attachments = None, msg_sources = None,
      msg_reasoning = None, msg_isReasoningStreaming = None, msg_isReasoningComplete = None,
      msg_isContentComplete = None, msg_status = None, msg_errorCode = None\<rparr>"

definition createUserMessage :: "jstr \<Rightarrow> jstr \<Rightarrow> jstr \<Rightarrow> Message" where
  "createUserMessage nanoid1 nanoid2 content =
     blank_message nanoid1 RoleUser [createMessageVersion nanoid2 content]"

definition createUserMessageWithAttachments ::
    "jstr \<Rightarrow> jstr \<Rightarrow> jstr \<Rightarrow> PlaygroundAttachment list \<Rightarrow> Message" where
  "createUserMessageWithAttachments nanoid1 nanoid2 content attachments =
     (let message = createUserMessage nanoid1 nanoid2 content in
      if attachments = [] then message else message\<lparr>msg_attachments := Some attachments\<rparr>)"

definition createLoadingAssistantMessage :: "jstr \<Rightarrow> jstr \<Rightarrow> Message" where
  "createLoadingAssistantMessage nanoid1 nanoid2 =
     (blank_message nanoid1 RoleAssistant [createMessageVersion nanoid2 []])
       \<lparr>msg_isReasoningComplete := Some False, msg_isContentComplete := Some False,
        msg_isReasoningStreaming := Some False, msg_status := Some StLoading\<rparr>"

definition buildMessageContent :: "jstr \<Rightarrow> jstr list \<Rightarrow> message_content" where
  "buildMessageContent text imageUrls =
     (let validImages = filter (\<lambda>url. trim url \<noteq> []) imageUrls in
      if validImages = [] then TextContent text
      else PartsContent (TextPart (Some text) # map (\<lambda>url. ImageUrlPart (trim url)) validImages))"

fun is_text_part :: "ContentPart \<Rightarrow> bool" where
  "is_text_part (TextPart _) = True"
| "is_text_part _ = False"

fun getTextContent :: "message_content \<Rightarrow> jstr" where
  "getTextContent (TextContent s) = s"
| "getTextContent (PartsContent ps) =
     (case find is_text_part ps of Some (TextPart (Some t)) \<Rightarrow> t | _ \<Rightarrow> [])"

definition formatMessageForAPI :: "(int \<Rightarrow> jstr) \<Rightarrow> Message \<Rightarrow> ChatCompletionMessage" where
  "formatMessageForAPI locale_num message =
     (let attachments = (case msg_attachments message of None \<Rightarrow> [] | Some xs \<Rightarrow> xs);
          imageUrls = map pa_data (filter (\<lambda>item. pa_kind item = KindImage) attachments);
          textWithAttachments =
            mv_content (getCurrentVersion message) @ buildAttachmentTextBlock locale_num attachments in
      \<lparr>ccm_role = msg_from message, ccm_content = buildMessageContent textWithAttachments imageUrls\<rparr>)"

definition isValidMessage :: "Message \<Rightarrow> bool" where
  "isValidMessage message =
     (case msg_versions message of
        [] \<Rightarrow> False
      | v # _ \<Rightarrow>
          if msg_status message = Some StError then False
          else \<not> (msg_from message = RoleAssistant \<and> trim (mv_content v) = []))"

section \<open>Think tags\<close>

definition think_open :: jstr where "think_open = js ''<think>''"
definition think_close :: jstr where "think_close = js ''</think>''"

lemma think_tag_length: "length think_open = 7" "length think_close = 8"
  by (simp_all add: think_open_def think_close_def)

record ThinkTags =
  tt_visibleContent :: jstr
  tt_reasoning :: jstr
  tt_hasUnclosedTag :: bool

lemma index_of_from_bounds:
  assumes "index_of_from p s from = Some i"
  shows "from \<le> i \<and> i + length p \<le> max from (length s)"
proof -
  obtain j where "index_of p (drop from s) = Some j" "i = from + j"
    using assms by (auto simp: index_of_from_def)
  then show ?thesis using index_of_Some [of p "drop from s" j] by auto
qed

text \<open>The loop of \<open>parseThinkTags\<close> from \<open>currentPos\<close>: the parts pushed from
  there on, and \<open>hasUnclosed\<close>.\<close>

function think_loop :: "jstr \<Rightarrow> nat \<Rightarrow> jstr list \<times> jstr list \<times> bool" where
  "think_loop content currentPos =
     (case index_of_from think_open content currentPos of
        None \<Rightarrow> (if currentPos < length content then [drop currentPos content] else [], [], False)
      | Some openPos \<Rightarrow>
          (let before = (if openPos > currentPos then [substring content currentPos openPos] else []) in
           case index_of_from think_close content (openPos + 7) of
             None \<Rightarrow> (before, [drop (openPos + 7) content], True)
           | Some closePos \<Rightarrow>
               (case think_loop content (closePos + 8) of
                  (visibleParts, reasoningParts, hasUnclosed) \<Rightarrow>
                    (before @ visibleParts, substring content (openPos + 7) closePos # reasoningParts,
                     hasUnclosed))))"
  by pat_completeness auto
termination
proof (relation "measure (\<lambda>(content, pos). length content - pos)")
  fix content currentPos openPos before closePos
  assume o: "index_of_from think_open content currentPos = Some openPos"
    and c: "index_of_from think_close content (openPos + 7) = Some closePos"
  show "((content, closePos + 8), content, currentPos) \<in> measure (\<lambda>(content, pos). length content - pos)"
    using index_of_from_bounds [OF o] index_of_from_bounds [OF c] by (auto simp: think_tag_length)
qed simp

declare think_loop.simps [simp del]

definition parseThinkTags :: "jstr \<Rightarrow> ThinkTags" where
  "parseThinkTags content =
     (if \<not> str_includes think_open content
      then \<lparr>tt_visibleContent = content, tt_reasoning = [], tt_hasUnclosedTag = False\<rparr>
      else
        (case think_loop content 0 of
           (visibleParts, reasoningParts, hasUnclosed) \<Rightarrow>
             \<lparr>tt_visibleContent = trim (concat visibleParts), tt_reasoning = trim (join [10, 10] reasoningParts),
              tt_hasUnclosedTag = hasUnclosed\<rparr>))"

section \<open>Updating and finalizing\<close>

definition updateLastAssistantMessage :: "Message list \<Rightarrow> (Message \<Rightarrow> Message) \<Rightarrow> Message list" where
  "updateLastAssistantMessage messages updater =
     (if messages = [] then messages
      else if msg_from (last messages) \<noteq> RoleAssistant then messages
      else messages[length messages - 1 := updater (last messages)])"

definition error_message :: "jstr \<Rightarrow> json option \<Rightarrow> Message \<Rightarrow> Message" where
  "error_message errorMessage errorCode message =
     (updateCurrentVersionContent message (API_REQUEST_ERROR @ js '': '' @ errorMessage))
       \<lparr>msg_status := Some StError, msg_isReasoningStreaming := Some False,
        msg_errorCode := Some (case errorCode of None \<Rightarrow> None | Some c \<Rightarrow> if json_truthy c then Some c else None)\<rparr>"

definition updateAssistantMessageWithError :: "Message list \<Rightarrow> jstr \<Rightarrow> json option \<Rightarrow> Message list" where
  "updateAssistantMessageWithError messages errorMessage errorCode =
     updateLastAssistantMessage messages (error_message errorMessage errorCode)"

definition processStreamingContent :: "Message \<Rightarrow> jstr option \<Rightarrow> Message" where
  "processStreamingContent message contentChunk =
     (let current = mv_content (getCurrentVersion message);
          fullContent = (case contentChunk of None \<Rightarrow> current | Some c \<Rightarrow> current @ c);
          tags = parseThinkTags fullContent;
          finalReasoning =
            (if tt_reasoning tags \<noteq> [] then Some \<lparr>rs_content = tt_reasoning tags, rs_duration = 0\<rparr>
             else msg_reasoning message) in
      (updateCurrentVersionContent message fullContent)
        \<lparr>msg_reasoning := finalReasoning, msg_isReasoningStreaming := Some (tt_hasUnclosedTag tags)\<rparr>)"

definition reasoning_text :: "Message \<Rightarrow> jstr" where
  "reasoning_text message = (case msg_reasoning message of None \<Rightarrow> [] | Some r \<Rightarrow> rs_content r)"

definition or_str :: "jstr \<Rightarrow> jstr \<Rightarrow> jstr" where
  "or_str a b = (if a \<noteq> [] then a else b)"

definition finalizeMessage :: "Message \<Rightarrow> jstr option \<Rightarrow> Message" where
  "finalizeMessage message apiReasoningContent =
     (let tags = parseThinkTags (mv_content (getCurrentVersion message));
          finalReasoning =
            or_str (case apiReasoningContent of None \<Rightarrow> [] | Some r \<Rightarrow> r)
              (or_str (reasoning_text message) (tt_reasoning tags)) in
      (updateCurrentVersionContent message (tt_visibleContent tags))
        \<lparr>msg_reasoning :=
           (if finalReasoning \<noteq> []
            then Some \<lparr>rs_content = finalReasoning,
                   rs_duration = (case msg_reasoning message of None \<Rightarrow> 0 | Some r \<Rightarrow> rs_duration r)\<rparr>
            else None),
         msg_isReasoningStreaming := Some False\<rparr>)"

definition pending :: "Message \<Rightarrow> bool" where
  "pending m \<longleftrightarrow> msg_status m = Some StLoading \<or> msg_status m = Some StStreaming"

definition stuck :: "Message \<Rightarrow> bool" where
  "stuck m \<longleftrightarrow> msg_from m = RoleAssistant \<and> pending m"

text \<open>The loop over \<open>i\<close> from \<open>messages.length - 1\<close> down to 0.\<close>

fun last_stuck :: "Message list \<Rightarrow> nat \<Rightarrow> nat option" where
  "last_stuck messages 0 = None"
| "last_stuck messages (Suc i) = (if stuck (messages ! i) then Some i else last_stuck messages i)"

definition sanitize_message :: "Message \<Rightarrow> Message" where
  "sanitize_message m =
     (let finalized = finalizeMessage m None;
          hasContent = trim (mv_content (getCurrentVersion finalized)) \<noteq> [];
          hasReasoning = trim (reasoning_text finalized) \<noteq> [] in
      if hasContent \<or> hasReasoning
      then finalized\<lparr>msg_status := Some StComplete, msg_isReasoningStreaming := Some False\<rparr>
      else (updateCurrentVersionContent finalized (API_REQUEST_ERROR @ js '': '' @ INTERRUPTED))
             \<lparr>msg_status := Some StError, msg_isReasoningStreaming := Some False\<rparr>)"

definition sanitizeMessagesOnLoad :: "Message list \<Rightarrow> Message list" where
  "sanitizeMessagesOnLoad messages =
     (case last_stuck messages (length messages) of
        None \<Rightarrow> messages
      | Some targetIndex \<Rightarrow> messages[targetIndex := sanitize_message (messages ! targetIndex)])"

text \<open>A content made of visible texts and reasoning sections, and what the parser pushes for it.\<close>

fun think_text :: "(jstr \<times> jstr) list \<Rightarrow> jstr \<Rightarrow> jstr" where
  "think_text [] tail = tail"
| "think_text ((v, r) # segs) tail = v @ think_open @ r @ think_close @ think_text segs tail"

definition plain_segs :: "(jstr \<times> jstr) list \<Rightarrow> bool" where
  "plain_segs segs \<longleftrightarrow> list_all (\<lambda>(v, r). \<not> str_includes think_open v \<and> \<not> str_includes think_close r) segs"

definition pushed :: "jstr \<Rightarrow> jstr list" where
  "pushed v = (if v = [] then [] else [v])"

definition pushed_segs :: "(jstr \<times> jstr) list \<Rightarrow> jstr list" where
  "pushed_segs segs = concat (map (\<lambda>(v, r). pushed v) segs)"

definition content_of :: "Message \<Rightarrow> jstr" where
  "content_of m = mv_content (getCurrentVersion m)"

text \<open>The chunks of a stream, processed one after the other.\<close>

definition stream_chunks :: "Message \<Rightarrow> jstr list \<Rightarrow> Message" where
  "stream_chunks m cs = foldl (\<lambda>m c. processStreamingContent m (Some c)) m cs"

definition stuck_sample :: "Message list" where
  "stuck_sample =
     [createLoadingAssistantMessage (js ''k1'') (js ''v1''), createUserMessage (js ''k2'') (js ''v2'') (js ''hello''),
      createLoadingAssistantMessage (js ''k3'') (js ''v3'')]"

section \<open>Searching for a tag\<close>

text \<open>A pattern whose first unit does not occur again in it is found at the end of a text that
  does not contain it.\<close>

lemma index_of_after:
  assumes "a \<notin> set q" and "\<not> str_includes (a # q) v"
  shows "index_of (a # q) (v @ (a # q) @ t) = Some (length v)"
  using assms(2)
proof (induction v)
  case Nil
  have "starts_with (a # q) ((a # q) @ t)" by (rule starts_with_append)
  then show ?case by simp
next
  case (Cons c v)
  have "\<not> starts_with (a # q) (c # v @ (a # q) @ t)"
  proof
    assume "starts_with (a # q) (c # v @ (a # q) @ t)"
    then obtain w where w: "(c # v) @ (a # q) @ t = (a # q) @ w" by (auto simp: starts_with_iff)
    then obtain us where us: "c # v = (a # q) @ us \<or> (c # v) @ us = a # q \<and> (a # q) @ t = us @ w"
      unfolding append_eq_append_conv2 by blast
    moreover have "c # v \<noteq> (a # q) @ us'" for us'
      using Cons.prems unfolding str_includes_iff by (metis append_Nil)
    ultimately have e: "(c # v) @ us = a # q" and t: "(a # q) @ t = us @ w" and "us \<noteq> []"
      by (metis append_Nil2)+
    from t \<open>us \<noteq> []\<close> have "hd us = a" by (cases us) auto
    moreover have "set us \<subseteq> set q" using e by auto
    ultimately show False using assms(1) hd_in_set [OF \<open>us \<noteq> []\<close>] by blast
  qed
  moreover have "\<not> str_includes (a # q) v"
    using Cons.prems unfolding str_includes_iff by (metis append_Cons)
  ultimately show ?case using Cons.IH by simp
qed

lemma open_found: "\<not> str_includes think_open v \<Longrightarrow> index_of think_open (v @ think_open @ t) = Some (length v)"
  using index_of_after [of 60 "js ''think>''" v t]
  by (simp add: think_open_def)

lemma close_found: "\<not> str_includes think_close v \<Longrightarrow> index_of think_close (v @ think_close @ t) = Some (length v)"
  using index_of_after [of 60 "js ''/think>''" v t] by (simp add: think_close_def)

lemma not_found: "\<not> str_includes p s \<Longrightarrow> index_of p s = None"
  by (simp add: str_includes_def)

lemma drop_later: "drop pos s = v @ w \<Longrightarrow> drop (pos + length v) s = w"
  by (metis add.commute append_eq_conv_conj drop_drop)

lemma drop_nonempty: "drop pos s = v \<Longrightarrow> (pos < length s) = (v \<noteq> [])"
  by auto

lemma substring_at: "drop pos s = v @ w \<Longrightarrow> substring s pos (pos + length v) = v"
  by (simp add: substring_def)

lemma loop_tail:
  assumes "drop pos s = tail" and "\<not> str_includes think_open tail"
  shows "think_loop s pos = (pushed tail, [], False)"
  using assms drop_nonempty [OF assms(1)] not_found [OF assms(2)]
  by (subst think_loop.simps) (simp add: index_of_from_def pushed_def)

lemma loop_open:
  assumes "drop pos s = v @ think_open @ t" and "\<not> str_includes think_open v"
  shows "index_of_from think_open s pos = Some (pos + length v)"
    and "drop (pos + length v + 7) s = t"
    and "(if pos + length v > pos then [substring s pos (pos + length v)] else []) = pushed v"
  using assms open_found [OF assms(2), of t] drop_later [OF assms(1)] drop_later [of "pos + length v" s think_open t]
    substring_at [OF assms(1)]
  by (simp_all add: index_of_from_def pushed_def think_tag_length)

lemma loop_unclosed:
  assumes "drop pos s = v @ think_open @ r" and "\<not> str_includes think_open v" and "\<not> str_includes think_close r"
  shows "think_loop s pos = (pushed v, [r], True)"
  using loop_open [OF assms(1,2)] not_found [OF assms(3)]
  by (subst think_loop.simps) (simp add: index_of_from_def Let_def)

lemma loop_segment:
  assumes "drop pos s = v @ think_open @ r @ think_close @ t"
    and "\<not> str_includes think_open v" and "\<not> str_includes think_close r"
    and "think_loop s (pos + length v + 7 + length r + 8) = (vs, rs, u)"
  shows "think_loop s pos = (pushed v @ vs, r # rs, u)"
proof -
  note o = loop_open [OF assms(1,2)]
  have "index_of_from think_close s (pos + length v + 7) = Some (pos + length v + 7 + length r)"
    using o(2) close_found [OF assms(3), of t] by (simp add: index_of_from_def)
  moreover have "substring s (pos + length v + 7) (pos + length v + 7 + length r) = r"
    using substring_at [OF o(2)] .
  ultimately show ?thesis
    using o assms(4) by (subst think_loop.simps) (simp add: Let_def)
qed

lemma loop_text:
  assumes "plain_segs segs" and "drop pos s = think_text segs tail"
    and "\<And>pos'. drop pos' s = tail \<Longrightarrow> think_loop s pos' = (vs, rs, u)"
  shows "think_loop s pos = (pushed_segs segs @ vs, map snd segs @ rs, u)"
  using assms(1,2)
proof (induction segs arbitrary: pos)
  case Nil
  then show ?case using assms(3) by (simp add: pushed_segs_def)
next
  case (Cons vr segs)
  obtain v r where vr: "vr = (v, r)" by (cases vr)
  have p: "plain_segs segs" "\<not> str_includes think_open v" "\<not> str_includes think_close r"
    using Cons.prems(1) by (simp_all add: plain_segs_def vr)
  have d: "drop pos s = v @ think_open @ r @ think_close @ think_text segs tail"
    using Cons.prems(2) by (simp add: vr)
  have "drop (pos + length v + 7 + length r) s = think_close @ think_text segs tail"
    using drop_later [OF loop_open(2) [OF d p(2)]] .
  then have "drop (pos + length v + 7 + length r + 8) s = think_text segs tail"
    using drop_later [of "pos + length v + 7 + length r" s think_close] by (simp add: think_tag_length)
  from loop_segment [OF d p(2,3) Cons.IH [OF p(1) this]] show ?case
    by (simp add: vr pushed_segs_def)
qed

lemma concat_pushed: "concat (pushed v) = v"
  by (simp add: pushed_def)

lemma concat_pushed_segs: "concat (pushed_segs segs) = concat (map fst segs)"
  by (induction segs) (auto simp: pushed_segs_def concat_pushed)

lemma think_text_append: "think_text segs (t @ u) = think_text segs t @ u"
  by (induction segs) auto

lemma think_text_opens: "segs \<noteq> [] \<Longrightarrow> str_includes think_open (think_text segs tail)"
  unfolding str_includes_iff by (cases segs) (simp, force)

lemma first_occurrence:
  assumes "str_includes p s" and "p \<noteq> []"
  shows "\<exists>v t. s = v @ p @ t \<and> \<not> str_includes p v"
proof -
  let ?P = "\<lambda>v. \<exists>t. s = v @ p @ t"
  obtain v0 where "?P v0" using assms(1) by (auto simp: str_includes_iff)
  then obtain v where v: "?P v" and least: "\<And>w. ?P w \<Longrightarrow> length v \<le> length w"
    using ex_has_least_nat [of ?P v0 length] by blast
  have "\<not> str_includes p v"
  proof
    assume "str_includes p v"
    then obtain a b where "v = a @ p @ b" by (auto simp: str_includes_iff)
    with v have "?P a" by auto
    from least [OF this] \<open>v = a @ p @ b\<close> assms(2) show False by simp
  qed
  with v show ?thesis by blast
qed

lemma think_tags_nonempty: "think_open \<noteq> []" "think_close \<noteq> []"
  by (simp_all add: think_open_def think_close_def)

lemma think_decomposition:
  "\<exists>segs v r. plain_segs segs \<and> \<not> str_includes think_open v \<and> \<not> str_includes think_close r \<and>
     (s = think_text segs v \<or> s = think_text segs (v @ think_open @ r))"
proof (induction "length s" arbitrary: s rule: less_induct)
  case less
  have empty: "\<not> str_includes think_close []" by (simp add: str_includes_iff think_tags_nonempty)
  show ?case
  proof (cases "str_includes think_open s")
    case False
    then show ?thesis using empty by (intro exI [of _ "[]"] exI [of _ s]) (auto simp: plain_segs_def)
  next
    case True
    then obtain v t where s: "s = v @ think_open @ t" and v: "\<not> str_includes think_open v"
      using first_occurrence think_tags_nonempty by blast
    show ?thesis
    proof (cases "str_includes think_close t")
      case False
      with s v show ?thesis by (intro exI [of _ "[]"] exI [of _ v] exI [of _ t]) (simp add: plain_segs_def)
    next
      case True
      then obtain r u where t: "t = r @ think_close @ u" and r: "\<not> str_includes think_close r"
        using first_occurrence think_tags_nonempty by blast
      have "length u < length s" using think_tags_nonempty by (simp add: s t)
      from less [OF this] obtain segs v' r' where "plain_segs segs" "\<not> str_includes think_open v'"
        "\<not> str_includes think_close r'" "u = think_text segs v' \<or> u = think_text segs (v' @ think_open @ r')" by blast
      with v r show ?thesis
        by (intro exI [of _ "(v, r) # segs"] exI [of _ v'] exI [of _ r']) (auto simp: s t plain_segs_def)
    qed
  qed
qed

lemma parse_closed:
  assumes "plain_segs segs" and "\<not> str_includes think_open v"
  shows "parseThinkTags (think_text segs v) =
    \<lparr>tt_visibleContent = (if segs = [] then v else trim (concat (map fst segs) @ v)),
     tt_reasoning = trim (join [10, 10] (map snd segs)), tt_hasUnclosedTag = False\<rparr>"
proof (cases "segs = []")
  case True
  with assms(2) show ?thesis by (simp add: parseThinkTags_def trim_def trim_start_def trim_end_def)
next
  case False
  have "think_loop (think_text segs v) 0 = (pushed_segs segs @ pushed v, map snd segs @ [], False)"
    by (rule loop_text [OF assms(1)]) (simp, erule loop_tail [OF _ assms(2)])
  with False think_text_opens [OF False] show ?thesis
    by (simp add: parseThinkTags_def concat_pushed_segs concat_pushed)
qed

lemma parse_unclosed:
  assumes "plain_segs segs" and "\<not> str_includes think_open v" and "\<not> str_includes think_close r"
  shows "parseThinkTags (think_text segs (v @ think_open @ r)) =
    \<lparr>tt_visibleContent = trim (concat (map fst segs) @ v),
     tt_reasoning = trim (join [10, 10] (map snd segs @ [r])), tt_hasUnclosedTag = True\<rparr>"
proof -
  have "think_loop (think_text segs (v @ think_open @ r)) 0 = (pushed_segs segs @ pushed v, map snd segs @ [r], True)"
    by (rule loop_text [OF assms(1)]) (simp, erule loop_unclosed [OF _ assms(2,3)])
  moreover have "str_includes think_open (think_text segs (v @ think_open @ r))"
    unfolding think_text_append str_includes_iff
    by (metis append.assoc think_text_append)
  ultimately show ?thesis
    by (simp add: parseThinkTags_def concat_pushed_segs concat_pushed)
qed

section \<open>The contract of the last-message updater\<close>

locale last_updater =
  fixes upd :: "'m list \<Rightarrow> ('m \<Rightarrow> 'm) \<Rightarrow> 'm list" and mine :: "'m \<Rightarrow> bool"
  assumes upd_hit: "ms \<noteq> [] \<Longrightarrow> mine (last ms) \<Longrightarrow> upd ms f = butlast ms @ [f (last ms)]"
    and upd_miss: "ms = [] \<or> \<not> mine (last ms) \<Longrightarrow> upd ms f = ms"
begin

lemma upd_cases:
  obtains (hit) "ms \<noteq> []" "mine (last ms)" "upd ms f = butlast ms @ [f (last ms)]"
    | (miss) "upd ms f = ms" "ms = [] \<or> \<not> mine (last ms)"
  using upd_hit upd_miss by blast

lemma upd_length: "length (upd ms f) = length ms"
  by (cases rule: upd_cases [of ms f]) (cases ms; simp)+

lemma upd_butlast: "butlast (upd ms f) = butlast ms"
  by (cases rule: upd_cases [of ms f]) simp_all

lemma upd_id: "(ms \<noteq> [] \<Longrightarrow> mine (last ms) \<Longrightarrow> f (last ms) = last ms) \<Longrightarrow> upd ms f = ms"
  by (cases rule: upd_cases [of ms f]) simp_all

lemma upd_upd:
  assumes "\<And>m. mine m \<Longrightarrow> mine (f m)"
  shows "upd (upd ms f) g = upd ms (\<lambda>m. g (f m))"
proof (cases rule: upd_cases [of ms f])
  case hit
  with assms show ?thesis by (simp add: upd_hit)
next
  case miss
  then show ?thesis by (simp add: upd_miss)
qed

lemma upd_all:
  assumes "\<forall>m\<in>set ms. P m" and "\<And>m. P m \<Longrightarrow> mine m \<Longrightarrow> P (f m)"
  shows "\<forall>m\<in>set (upd ms f). P m"
  using assms by (cases rule: upd_cases [of ms f]) (auto dest: in_set_butlastD)

lemma upd_foldl:
  assumes "\<And>m c. mine m \<Longrightarrow> mine (f m c)"
  shows "foldl (\<lambda>ms c. upd ms (\<lambda>m. f m c)) ms cs = upd ms (\<lambda>m. foldl f m cs)"
proof (induction cs arbitrary: ms)
  case Nil
  show ?case by (simp add: upd_id)
next
  case (Cons c cs)
  then show ?case using assms by (simp add: upd_upd)
qed

end

interpretation last_msg: last_updater updateLastAssistantMessage "\<lambda>m. msg_from m = RoleAssistant"
proof unfold_locales
  fix ms :: "Message list" and f
  assume ms: "ms \<noteq> []" "msg_from (last ms) = RoleAssistant"
  then show "updateLastAssistantMessage ms f = butlast ms @ [f (last ms)]"
    by (cases ms rule: rev_cases) (simp_all add: updateLastAssistantMessage_def)
next
  fix ms :: "Message list" and f
  assume "ms = [] \<or> msg_from (last ms) \<noteq> RoleAssistant"
  then show "updateLastAssistantMessage ms f = ms" by (auto simp: updateLastAssistantMessage_def)
qed

section \<open>Streaming\<close>

lemma content_update [simp]: "content_of (updateCurrentVersionContent m c) = c"
  by (simp add: content_of_def updateCurrentVersionContent_def getCurrentVersion_def)

lemma content_of_fields [simp]:
  "content_of (m\<lparr>msg_reasoning := r\<rparr>) = content_of m"
  "content_of (m\<lparr>msg_isReasoningStreaming := b\<rparr>) = content_of m"
  "content_of (m\<lparr>msg_status := s\<rparr>) = content_of m"
  "content_of (m\<lparr>msg_errorCode := e\<rparr>) = content_of m"
  by (simp_all add: content_of_def getCurrentVersion_def)

lemma update_fields [simp]:
  "msg_key (updateCurrentVersionContent m c) = msg_key m"
  "msg_from (updateCurrentVersionContent m c) = msg_from m"
  "msg_attachments (updateCurrentVersionContent m c) = msg_attachments m"
  "msg_reasoning (updateCurrentVersionContent m c) = msg_reasoning m"
  "msg_status (updateCurrentVersionContent m c) = msg_status m"
  by (simp_all add: updateCurrentVersionContent_def)

lemma loading_fields:
  "content_of (createLoadingAssistantMessage k v) = []"
  "msg_reasoning (createLoadingAssistantMessage k v) = None"
  "msg_from (createLoadingAssistantMessage k v) = RoleAssistant"
  "msg_key (createLoadingAssistantMessage k v) = k"
  "msg_status (createLoadingAssistantMessage k v) = Some StLoading"
  by (simp_all add: content_of_def createLoadingAssistantMessage_def getCurrentVersion_def blank_message_def
      createMessageVersion_def)

lemma process_fields:
  "content_of (processStreamingContent m (Some c)) = content_of m @ c"
  "msg_key (processStreamingContent m (Some c)) = msg_key m"
  "msg_from (processStreamingContent m (Some c)) = msg_from m"
  "msg_status (processStreamingContent m (Some c)) = msg_status m"
  "msg_isReasoningStreaming (processStreamingContent m (Some c)) =
     Some (tt_hasUnclosedTag (parseThinkTags (content_of m @ c)))"
  "msg_reasoning (processStreamingContent m (Some c)) =
     (let r = tt_reasoning (parseThinkTags (content_of m @ c)) in
      if r \<noteq> [] then Some \<lparr>rs_content = r, rs_duration = 0\<rparr> else msg_reasoning m)"
  by (simp_all add: processStreamingContent_def Let_def content_of_def [symmetric])

lemma stream_snoc: "stream_chunks m (cs @ [c]) = processStreamingContent (stream_chunks m cs) (Some c)"
  by (simp add: stream_chunks_def)

lemma stream_content: "content_of (stream_chunks m cs) = content_of m @ concat cs"
  by (induction cs rule: rev_induct) (simp_all add: stream_snoc process_fields stream_chunks_def [of _ "[]"])

lemma finalize_fields:
  "content_of (finalizeMessage m api) = tt_visibleContent (parseThinkTags (content_of m))"
  "msg_key (finalizeMessage m api) = msg_key m"
  "msg_from (finalizeMessage m api) = msg_from m"
  "msg_status (finalizeMessage m api) = msg_status m"
  "msg_isReasoningStreaming (finalizeMessage m api) = Some False"
  "reasoning_text (finalizeMessage m api) =
     or_str (case api of None \<Rightarrow> [] | Some r \<Rightarrow> r)
       (or_str (reasoning_text m) (tt_reasoning (parseThinkTags (content_of m))))"
  by (simp_all add: finalizeMessage_def Let_def content_of_def [symmetric] reasoning_text_def)

section \<open>Sanitizing\<close>

lemma last_stuck_Some:
  "last_stuck ms n = Some i \<Longrightarrow> i < n \<and> stuck (ms ! i) \<and> (\<forall>j. i < j \<and> j < n \<longrightarrow> \<not> stuck (ms ! j))"
  by (induction n) (auto simp: less_Suc_eq split: if_splits)

lemma last_stuck_None: "last_stuck ms n = None \<Longrightarrow> \<forall>j<n. \<not> stuck (ms ! j)"
  by (induction n) (auto simp: less_Suc_eq split: if_splits)

lemma sanitize_message_stable:
  "msg_status (sanitize_message m) \<in> {Some StComplete, Some StError} \<and> msg_from (sanitize_message m) = msg_from m
   \<and> msg_key (sanitize_message m) = msg_key m \<and> \<not> stuck (sanitize_message m)"
  by (simp add: sanitize_message_def Let_def stuck_def pending_def finalize_fields)

lemma filter_update:
  assumes "i < length xs" and "P (xs ! i)" and "\<not> P y"
  shows "length (filter P (xs[i := y])) = length (filter P xs) - 1"
proof -
  have "filter P xs = filter P (take i xs) @ xs ! i # filter P (drop (Suc i) xs)"
    using assms(1,2) by (subst id_take_nth_drop [OF assms(1)]) simp
  then show ?thesis using assms(1,3) by (simp add: upd_conv_take_nth_drop)
qed

section \<open>Properties\<close>

text \<open>C26. What the tag parser computes, for every content: the content is a sequence of
  visible texts and closed reasoning sections followed by a rest, which is a visible text or, if
  a tag is left open, a visible text and an open section.  The visible texts are joined and
  trimmed (a content without tags is returned as it is), the sections are joined with blank
  lines and trimmed, and the flag says whether a tag is open.\<close>

theorem parseThinkTags_characterization:
  "\<exists>segs v r. plain_segs segs \<and> \<not> str_includes think_open v \<and> \<not> str_includes think_close r \<and>
     (if tt_hasUnclosedTag (parseThinkTags s)
      then s = think_text segs (v @ think_open @ r) \<and>
        tt_visibleContent (parseThinkTags s) = trim (concat (map fst segs) @ v) \<and>
        tt_reasoning (parseThinkTags s) = trim (join [10, 10] (map snd segs @ [r]))
      else s = think_text segs v \<and>
        tt_visibleContent (parseThinkTags s) = (if segs = [] then s else trim (concat (map fst segs) @ v)) \<and>
        tt_reasoning (parseThinkTags s) = trim (join [10, 10] (map snd segs)))"
proof -
  obtain segs v r where d: "plain_segs segs" "\<not> str_includes think_open v" "\<not> str_includes think_close r"
    and s: "s = think_text segs v \<or> s = think_text segs (v @ think_open @ r)"
    using think_decomposition [of s] by blast
  from s parse_closed [OF d(1,2)] parse_unclosed [OF d] d show ?thesis
    by (intro exI [of _ segs] exI [of _ v] exI [of _ r]) auto
qed

text \<open>C27. Streaming does not depend on the chunk boundaries: after any non-empty list of chunks
  the content of the message is its former content followed by all chunks, the open-tag flag is that of
  the whole content, the reasoning is that of the whole content whenever this has one, and
  finalizing shows the visible part of the whole content.\<close>

theorem stream_chunks_whole:
  assumes "cs \<noteq> []"
  shows "let whole = content_of m @ concat cs; m' = stream_chunks m cs; tags = parseThinkTags whole in
    content_of m' = whole \<and> msg_isReasoningStreaming m' = Some (tt_hasUnclosedTag tags) \<and>
    (if tt_reasoning tags \<noteq> [] then msg_reasoning m' = Some \<lparr>rs_content = tt_reasoning tags, rs_duration = 0\<rparr>
     else True) \<and>
    content_of (finalizeMessage m' None) = tt_visibleContent tags"
proof -
  obtain ds c where cs: "cs = ds @ [c]" using assms by (cases cs rule: rev_cases) auto
  show ?thesis
    unfolding cs stream_snoc Let_def
    by (simp add: process_fields finalize_fields stream_content Let_def)
qed

theorem stream_chunks_whole_witness:
  "content_of (stream_chunks (createLoadingAssistantMessage (js ''k'') (js ''v'')) [js ''<think>a</th'', js ''ink>b'']) =
     js ''<think>a</think>b''"
  using stream_chunks_whole [of "[js ''<think>a</th'', js ''ink>b'']" "createLoadingAssistantMessage (js ''k'') (js ''v'')"]
  by (simp add: Let_def loading_fields)

text \<open>Reasoning shown while a closing tag was incomplete is not withdrawn: when an empty
  section is cut inside its closing tag, the final message keeps the fragment of the tag as its
  reasoning although the whole content has none, whatever text without a tag follows.\<close>

theorem stale_reasoning_fragment:
  assumes "\<not> str_includes think_open t"
  shows "let m = stream_chunks (createLoadingAssistantMessage k v) [js ''<think><'', js ''/think>'' @ t] in
    tt_reasoning (parseThinkTags (content_of m)) = [] \<and> reasoning_text (finalizeMessage m None) = js ''<''"
proof -
  define m where "m = stream_chunks (createLoadingAssistantMessage k v) [js ''<think><'', js ''/think>'' @ t]"
  let ?m0 = "createLoadingAssistantMessage k v" and ?a = "js ''<think><''" and ?b = "js ''/think>'' @ t"
  let ?m1 = "processStreamingContent ?m0 (Some ?a)"
  have plain: "\<not> str_includes think_open []" "\<not> str_includes think_close []" "\<not> str_includes think_close (js ''<'')"
    by (simp_all add: str_includes_def think_open_def think_close_def starts_with_def)
  note m0 = loading_fields [of k v]
  have "trim (js ''<'') = js ''<''" by (rule trim_id) (simp_all add: is_ws_def)
  then have a: "tt_reasoning (parseThinkTags ?a) = js ''<''"
    using parse_unclosed [of "[]" "[]" "js ''<''"] plain by (simp add: plain_segs_def think_open_def)
  have "think_text [([], [])] t = ?a @ ?b" by (simp add: think_open_def think_close_def)
  moreover have "tt_reasoning (parseThinkTags (think_text [([], [])] t)) = []"
    using plain assms(1) by (subst parse_closed) (simp_all add: plain_segs_def trim_def trim_start_def trim_end_def)
  ultimately have b: "tt_reasoning (parseThinkTags (?a @ ?b)) = []" by (simp only:)
  have m: "m = processStreamingContent ?m1 (Some ?b)" by (simp add: m_def stream_chunks_def)
  have c1: "content_of ?m1 = ?a" using m0 by (simp add: process_fields)
  then have c: "content_of m = ?a @ ?b" by (simp only: m process_fields)
  have r: "msg_reasoning m = Some \<lparr>rs_content = js ''<'', rs_duration = 0\<rparr>"
    using a b c1 m0 by (simp only: m process_fields Let_def) simp
  have "reasoning_text m = js ''<''" using r by (simp add: reasoning_text_def)
  with b c show ?thesis
    unfolding Let_def m_def [symmetric] by (simp only: finalize_fields option.case or_str_def) simp
qed

theorem stale_reasoning_fragment_witness:
  "\<not> str_includes think_open (js ''Hi'') \<and>
   reasoning_text (finalizeMessage (stream_chunks (createLoadingAssistantMessage (js ''k'') (js ''v''))
     [js ''<think><'', js ''/think>'' @ js ''Hi'']) None) = js ''<''"
proof -
  have "\<not> str_includes think_open (js ''Hi'')"
    by (simp add: str_includes_def think_open_def starts_with_def)
  with stale_reasoning_fragment [of "js ''Hi''" "js ''k''" "js ''v''"] show ?thesis
    unfolding Let_def by blast
qed

text \<open>Sanitizing on load changes exactly one message, the last stuck one, if there is one:
  the number of stuck messages drops by one, the list keeps its length, and a message that
  changed was the last assistant message in a loading or streaming state and is now complete or
  in error.\<close>

theorem sanitize_last_stuck:
  assumes "ms' = sanitizeMessagesOnLoad ms"
  shows "length ms' = length ms \<and> length (filter stuck ms') = length (filter stuck ms) - 1 \<and>
    (\<forall>i<length ms. ms' ! i \<noteq> ms ! i \<longrightarrow>
       stuck (ms ! i) \<and> msg_status (ms' ! i) \<in> {Some StComplete, Some StError} \<and>
       (\<forall>j. i < j \<and> j < length ms \<longrightarrow> \<not> stuck (ms ! j)))"
proof (cases "last_stuck ms (length ms)")
  case None
  from last_stuck_None [OF None] have "filter stuck ms = []" by (auto simp: filter_empty_conv in_set_conv_nth)
  with None assms show ?thesis by (simp add: sanitizeMessagesOnLoad_def)
next
  case (Some i)
  note i = last_stuck_Some [OF Some]
  have ms': "ms' = ms[i := sanitize_message (ms ! i)]" using Some assms by (simp add: sanitizeMessagesOnLoad_def)
  have "length (filter stuck ms') = length (filter stuck ms) - 1"
    unfolding ms' using i sanitize_message_stable by (intro filter_update) auto
  moreover have "msg_status (sanitize_message (ms ! i)) \<in> {Some StComplete, Some StError}"
    using sanitize_message_stable by blast
  ultimately show ?thesis using i by (auto simp: ms' nth_list_update)
qed

theorem sanitize_last_stuck_witness:
  "length (filter stuck stuck_sample) = 2 \<and> length (filter stuck (sanitizeMessagesOnLoad stuck_sample)) = 1"
proof -
  have "length (filter stuck stuck_sample) = 2"
    by (simp add: stuck_sample_def stuck_def pending_def createLoadingAssistantMessage_def createUserMessage_def
        blank_message_def)
  with sanitize_last_stuck [OF refl, of stuck_sample] show ?thesis by simp
qed

end
