(* ===== verification/Playground_Chat.thy ===== *)
theory Playground_Chat
  imports Playground_Messages
begin

text \<open>
  The chat of the playground (\<open>features/playground\<close>: \<open>lib/payload-builder.ts\<close>,
  \<open>hooks/use-stream-request.ts\<close>, the chat part of \<open>hooks/use-chat-handler.ts\<close> and
  the handlers of \<open>index.tsx\<close>) as a state machine.

  The state holds the messages, the two references of the stream hook and the requests handed
  to the network.  A source of server-sent events is a number; the library that delivers its
  events is outside the program, so every handler is a function of the event, and the step
  relation \<open>chat_step\<close> says which handler may run when.  The guards of the step relation
  are those of the interface: the actions of the user are disabled while a generation runs,
  and \<open>isGenerating\<close> is \<open>sseSourceRef.current !== null\<close>.  Toasts, the refresh of
  the account and the generation of images are not part of the state; sending a message for
  an image model hands the messages to the image generator and is recorded as such.
\<close>

section \<open>Request payload\<close>

record PlaygroundConfig =
  cf_model :: jstr
  cf_group :: jstr
  cf_temperature :: jnum
  cf_top_p :: jnum
  cf_max_tokens :: jnum
  cf_frequency_penalty :: jnum
  cf_presence_penalty :: jnum
  cf_seed :: "jnum option"
  cf_stream :: bool
  cf_web_search :: bool

record ParameterEnabled =
  pe_temperature :: bool
  pe_top_p :: bool
  pe_max_tokens :: bool
  pe_frequency_penalty :: bool
  pe_presence_penalty :: bool
  pe_seed :: bool

record web_search_flags =
  ws_enable :: bool
  ws_enable_citation :: bool
  ws_enable_trace :: bool
  ws_enable_status :: bool

record ChatCompletionRequest =
  rq_model :: jstr
  rq_group :: jstr
  rq_messages :: "ChatCompletionMessage list"
  rq_stream :: bool
  rq_web_search_options :: "jstr option"
  rq_search_parameters :: "jstr option"
  rq_enable_search :: "bool option"
  rq_web_search :: "web_search_flags option"
  rq_parameters :: "(jstr \<times> jnum) list"

text \<open>The value of an enabled parameter: \<open>seed\<close> may be null.\<close>

definition parameter_table :: "PlaygroundConfig \<Rightarrow> ParameterEnabled \<Rightarrow> (jstr \<times> bool \<times> jnum option) list" where
  "parameter_table config enabled =
     [(js ''temperature'', pe_temperature enabled, Some (cf_temperature config)),
      (js ''top_p'', pe_top_p enabled, Some (cf_top_p config)),
      (js ''max_tokens'', pe_max_tokens enabled, Some (cf_max_tokens config)),
      (js ''frequency_penalty'', pe_frequency_penalty enabled, Some (cf_frequency_penalty config)),
      (js ''presence_penalty'', pe_presence_penalty enabled, Some (cf_presence_penalty config)),
      (js ''seed'', pe_seed enabled, cf_seed config)]"

definition enabled_parameters :: "PlaygroundConfig \<Rightarrow> ParameterEnabled \<Rightarrow> (jstr \<times> jnum) list" where
  "enabled_parameters config enabled =
     List.map_filter (\<lambda>(key, on, val). if on then map_option (\<lambda>x. (key, x)) val else None)
       (parameter_table config enabled)"

definition buildChatCompletionPayload ::
    "(int \<Rightarrow> jstr) \<Rightarrow> Message list \<Rightarrow> PlaygroundConfig \<Rightarrow> ParameterEnabled \<Rightarrow> ChatCompletionRequest" where
  "buildChatCompletionPayload locale_num messages config enabled =
     (let search = cf_web_search config in
      \<lparr>rq_model = cf_model config, rq_group = cf_group config,
       rq_messages = map (formatMessageForAPI locale_num) (filter isValidMessage messages),
       rq_stream = cf_stream config,
       rq_web_search_options = (if search then Some (js ''medium'') else None),
       rq_search_parameters = (if search then Some (js ''on'') else None),
       rq_enable_search = (if search then Some True else None),
       rq_web_search =
         (if search
          then Some \<lparr>ws_enable = True, ws_enable_citation = True, ws_enable_trace = True, ws_enable_status = False\<rparr>
          else None),
       rq_parameters = enabled_parameters config enabled\<rparr>)"

section \<open>State\<close>

record ChatEnv =
  en_config :: PlaygroundConfig
  en_enabled :: ParameterEnabled
  en_locale_num :: "int \<Rightarrow> jstr"

record ChatState =
  cs_messages :: "Message list"
  cs_source :: "nat option"
  cs_complete :: bool
  cs_opened :: nat
  cs_closed :: "nat list"
  cs_sent :: "ChatCompletionRequest list"
  cs_images :: "Message list list"
  cs_editing :: "jstr option"

definition onMessageUpdate :: "(Message list \<Rightarrow> Message list) \<Rightarrow> ChatState \<Rightarrow> ChatState" where
  "onMessageUpdate updater st = st\<lparr>cs_messages := updater (cs_messages st)\<rparr>"

section \<open>Handlers of a generation\<close>

datatype update_type = UpdReasoning | UpdContent

definition stream_update :: "update_type \<Rightarrow> jstr \<Rightarrow> Message \<Rightarrow> Message" where
  "stream_update type chunk message =
     (if msg_status message = Some StError then message
      else case type of
        UpdReasoning \<Rightarrow>
          message\<lparr>msg_reasoning := Some \<lparr>rs_content = reasoning_text message @ chunk, rs_duration = 0\<rparr>,
                  msg_isReasoningStreaming := Some True, msg_status := Some StStreaming\<rparr>
      | UpdContent \<Rightarrow> (processStreamingContent message (Some chunk))\<lparr>msg_status := Some StStreaming\<rparr>)"

definition handleStreamUpdate :: "update_type \<Rightarrow> jstr \<Rightarrow> ChatState \<Rightarrow> ChatState" where
  "handleStreamUpdate type chunk =
     onMessageUpdate (\<lambda>prev. updateLastAssistantMessage prev (stream_update type chunk))"

definition stream_complete :: "Message \<Rightarrow> Message" where
  "stream_complete message =
     (if msg_status message = Some StComplete \<or> msg_status message = Some StError then message
      else (finalizeMessage message None)\<lparr>msg_status := Some StComplete\<rparr>)"

definition handleStreamComplete :: "ChatState \<Rightarrow> ChatState" where
  "handleStreamComplete = onMessageUpdate (\<lambda>prev. updateLastAssistantMessage prev stream_complete)"

definition handleStreamError :: "jstr \<Rightarrow> json option \<Rightarrow> ChatState \<Rightarrow> ChatState" where
  "handleStreamError error errorCode =
     onMessageUpdate (\<lambda>prev. updateAssistantMessageWithError prev error errorCode)"

section \<open>Stream hook\<close>

definition closeSource :: "nat \<Rightarrow> ChatState \<Rightarrow> ChatState" where
  "closeSource source st = st\<lparr>cs_closed := source # cs_closed st, cs_source := None\<rparr>"

definition handleError :: "nat \<Rightarrow> jstr \<Rightarrow> json option \<Rightarrow> ChatState \<Rightarrow> ChatState" where
  "handleError source errorMessage errorCode st =
     (if \<not> cs_complete st then closeSource source (handleStreamError errorMessage errorCode st) else st)"

text \<open>Reading a property and the element 0 of a parsed value; \<open>None\<close> is undefined.\<close>

fun json_prop :: "jstr \<Rightarrow> json \<Rightarrow> json option" where
  "json_prop k (JObj ps) = map_of ps k"
| "json_prop k _ = None"

fun json_elem0 :: "json \<Rightarrow> json option" where
  "json_elem0 (JObj ps) = map_of ps (js ''0'')"
| "json_elem0 (JArr (v # _)) = Some v"
| "json_elem0 (JStr (c # _)) = Some (JStr [c])"
| "json_elem0 _ = None"

text \<open>\<open>v?.p\<close>: undefined also for null and undefined.\<close>

definition opt_prop :: "jstr \<Rightarrow> json option \<Rightarrow> json option" where
  "opt_prop k v = (case v of None \<Rightarrow> None | Some w \<Rightarrow> json_prop k w)"

definition chunk_delta :: "json \<Rightarrow> json option" where
  "chunk_delta chunk =
     opt_prop (js ''delta'')
       (case json_prop (js ''choices'') chunk of None \<Rightarrow> None | Some choices \<Rightarrow> json_elem0 choices)"

definition truthy_prop :: "jstr \<Rightarrow> json \<Rightarrow> json option" where
  "truthy_prop k v = (case json_prop k v of Some x \<Rightarrow> if json_truthy x then Some x else None | None \<Rightarrow> None)"

definition apply_delta :: "json option \<Rightarrow> ChatState \<Rightarrow> ChatState" where
  "apply_delta delta st =
     (case delta of
        None \<Rightarrow> st
      | Some d \<Rightarrow>
          if \<not> json_truthy d then st
          else
            let st1 = (case truthy_prop (js ''reasoning_content'') d of
                         Some r \<Rightarrow> handleStreamUpdate UpdReasoning (json_to_string r) st | None \<Rightarrow> st) in
            (case truthy_prop (js ''content'') d of
               Some c \<Rightarrow> handleStreamUpdate UpdContent (json_to_string c) st1 | None \<Rightarrow> st1))"

text \<open>The listener of \<open>message\<close>. Reading \<open>choices\<close> of a null chunk throws and is
  caught like a syntax error.\<close>

definition on_message :: "nat \<Rightarrow> jstr \<Rightarrow> ChatState \<Rightarrow> ChatState" where
  "on_message source data st =
     (if data = js ''[DONE]'' then handleStreamComplete (closeSource source (st\<lparr>cs_complete := True\<rparr>))
      else
        case json_parse data of
          None \<Rightarrow> handleError source PARSE_ERROR None st
        | Some JNull \<Rightarrow> handleError source PARSE_ERROR None st
        | Some chunk \<Rightarrow> apply_delta (chunk_delta chunk) st)"

definition error_details :: "jstr \<Rightarrow> jstr \<times> json option" where
  "error_details data =
     (let fallback = (if data \<noteq> [] then data else API_REQUEST_ERROR) in
      if data = [] then (fallback, None)
      else
        case json_parse data of
          None \<Rightarrow> (fallback, None)
        | Some parsed \<Rightarrow>
            (case truthy_prop (js ''error'') parsed of
               None \<Rightarrow> (fallback, None)
             | Some err \<Rightarrow>
                 (case truthy_prop (js ''message'') err of Some m \<Rightarrow> json_to_string m | None \<Rightarrow> fallback,
                  truthy_prop (js ''code'') err)))"

text \<open>The listener of \<open>error\<close>; an absent \<open>e.data\<close> is the empty string.\<close>

definition on_error :: "nat \<Rightarrow> nat \<Rightarrow> jstr \<Rightarrow> ChatState \<Rightarrow> ChatState" where
  "on_error source readyState data st =
     (if readyState \<noteq> 2 then
        (case error_details data of (errorMessage, errorCode) \<Rightarrow> handleError source errorMessage errorCode st)
      else st)"

definition on_readystatechange :: "nat \<Rightarrow> nat option \<Rightarrow> int option \<Rightarrow> ChatState \<Rightarrow> ChatState" where
  "on_readystatechange source readyState status st =
     (case (readyState, status) of
        (Some rs, Some s) \<Rightarrow>
          if rs \<ge> 2 \<and> s \<noteq> 200
          then handleError source (js ''HTTP '' @ dec s @ js '': '' @ CONNECTION_CLOSED) None st
          else st
      | _ \<Rightarrow> st)"

text \<open>\<open>starts\<close> is false when \<open>source.stream()\<close> throws; \<open>cs_opened\<close> counts the
  sources that started.\<close>

definition sendStreamRequest :: "bool \<Rightarrow> ChatCompletionRequest \<Rightarrow> ChatState \<Rightarrow> ChatState" where
  "sendStreamRequest starts payload st =
     (let st1 = st\<lparr>cs_source := Some (cs_opened st), cs_complete := False, cs_sent := cs_sent st @ [payload]\<rparr> in
      if starts then st1\<lparr>cs_opened := cs_opened st + 1\<rparr>
      else (handleStreamError STREAM_START_ERROR None st1)\<lparr>cs_source := None\<rparr>)"

definition stopStream :: "ChatState \<Rightarrow> ChatState" where
  "stopStream st =
     (case cs_source st of
        Some source \<Rightarrow> st\<lparr>cs_closed := source # cs_closed st, cs_source := None\<rparr>
      | None \<Rightarrow> st)"

definition isStreaming :: "ChatState \<Rightarrow> bool" where
  "isStreaming st \<longleftrightarrow> cs_source st \<noteq> None"

section \<open>Sending\<close>

definition sendStreamingChat :: "ChatEnv \<Rightarrow> bool \<Rightarrow> Message list \<Rightarrow> ChatState \<Rightarrow> ChatState" where
  "sendStreamingChat e starts messages st =
     sendStreamRequest starts (buildChatCompletionPayload (en_locale_num e) messages (en_config e) (en_enabled e)) st"

text \<open>A request without streaming is sent at once; its response or failure is handled later.\<close>

definition sendNonStreamingChat :: "ChatEnv \<Rightarrow> Message list \<Rightarrow> ChatState \<Rightarrow> ChatState" where
  "sendNonStreamingChat e messages st =
     st\<lparr>cs_sent := cs_sent st @ [buildChatCompletionPayload (en_locale_num e) messages (en_config e) (en_enabled e)]\<rparr>"

record response_message =
  rm_content :: "jstr option"
  rm_reasoning_content :: "jstr option"

record response_choice =
  rc_message :: "response_message option"

definition or_nil :: "jstr option \<Rightarrow> jstr" where
  "or_nil x = (case x of None \<Rightarrow> [] | Some s \<Rightarrow> s)"

text \<open>\<open>[{ ...message.versions[0], content }]\<close>; an absent id is the empty string.\<close>

definition replace_first_version :: "jstr \<Rightarrow> Message \<Rightarrow> Message" where
  "replace_first_version content message =
     message\<lparr>msg_versions :=
       [(case msg_versions message of [] \<Rightarrow> \<lparr>mv_id = [], mv_content = []\<rparr> | v # _ \<Rightarrow> v)\<lparr>mv_content := content\<rparr>]\<rparr>"

definition response_update :: "response_choice \<Rightarrow> Message \<Rightarrow> Message" where
  "response_update choice message =
     (finalizeMessage
       (replace_first_version (case rc_message choice of None \<Rightarrow> [] | Some m \<Rightarrow> or_nil (rm_content m)) message)
       (case rc_message choice of None \<Rightarrow> None | Some m \<Rightarrow> rm_reasoning_content m))\<lparr>msg_status := Some StComplete\<rparr>"

definition on_chat_response :: "response_choice list option \<Rightarrow> ChatState \<Rightarrow> ChatState" where
  "on_chat_response choices st =
     (case choices of
        Some (choice # _) \<Rightarrow>
          onMessageUpdate (\<lambda>prev. updateLastAssistantMessage prev (response_update choice)) st
      | _ \<Rightarrow> st)"

record chat_failure =
  fl_response_message :: "jstr option"
  fl_response_code :: "json option"
  fl_message :: "jstr option"

definition on_chat_failure :: "chat_failure \<Rightarrow> ChatState \<Rightarrow> ChatState" where
  "on_chat_failure err st =
     handleStreamError
       (or_str (or_nil (fl_response_message err)) (or_str (or_nil (fl_message err)) API_REQUEST_ERROR))
       (fl_response_code err) st"

definition sendChat :: "ChatEnv \<Rightarrow> bool \<Rightarrow> Message list \<Rightarrow> ChatState \<Rightarrow> ChatState" where
  "sendChat e starts messages st =
     (if cf_stream (en_config e) then sendStreamingChat e starts messages st
      else sendNonStreamingChat e messages st)"

definition stop_update :: "Message \<Rightarrow> Message" where
  "stop_update message =
     (if msg_status message = Some StLoading \<or> msg_status message = Some StStreaming
      then (finalizeMessage message None)\<lparr>msg_status := Some StComplete\<rparr> else message)"

definition stopGeneration :: "ChatState \<Rightarrow> ChatState" where
  "stopGeneration st =
     onMessageUpdate (\<lambda>prev. updateLastAssistantMessage prev stop_update) (stopStream st)"

section \<open>Page\<close>

definition updateMessages :: "Message list \<Rightarrow> ChatState \<Rightarrow> ChatState" where
  "updateMessages messages st = st\<lparr>cs_messages := messages\<rparr>"

definition sendImageGeneration :: "Message list \<Rightarrow> ChatState \<Rightarrow> ChatState" where
  "sendImageGeneration messages st = st\<lparr>cs_images := cs_images st @ [messages]\<rparr>"

record nanoids =
  id_user :: jstr
  id_user_version :: jstr
  id_assistant :: jstr
  id_assistant_version :: jstr

definition user_message :: "nanoids \<Rightarrow> jstr \<Rightarrow> PlaygroundAttachment list \<Rightarrow> Message" where
  "user_message ids text attachments =
     (if attachments \<noteq> []
      then createUserMessageWithAttachments (id_user ids) (id_user_version ids) text attachments
      else createUserMessage (id_user ids) (id_user_version ids) text)"

definition loading_message :: "nanoids \<Rightarrow> Message" where
  "loading_message ids = createLoadingAssistantMessage (id_assistant ids) (id_assistant_version ids)"

definition handleSendMessage ::
    "ChatEnv \<Rightarrow> bool \<Rightarrow> bool \<Rightarrow> nanoids \<Rightarrow> jstr \<Rightarrow> PlaygroundAttachment list \<Rightarrow> ChatState \<Rightarrow> ChatState" where
  "handleSendMessage e starts img ids text attachments st =
     (let newMessages = cs_messages st @ [user_message ids text attachments, loading_message ids];
          st1 = updateMessages newMessages st in
      if img then sendImageGeneration newMessages st1 else sendChat e starts newMessages st1)"

text \<open>\<open>messages.findIndex((m) => m.key === key)\<close>\<close>

fun find_key :: "jstr \<Rightarrow> Message list \<Rightarrow> nat option" where
  "find_key key [] = None"
| "find_key key (m # ms) = (if msg_key m = key then Some 0 else map_option Suc (find_key key ms))"

definition handleRegenerateMessage :: "ChatEnv \<Rightarrow> bool \<Rightarrow> nanoids \<Rightarrow> jstr \<Rightarrow> ChatState \<Rightarrow> ChatState" where
  "handleRegenerateMessage e starts ids key st =
     (case find_key key (cs_messages st) of
        None \<Rightarrow> st
      | Some messageIndex \<Rightarrow>
          (let newMessages = take messageIndex (cs_messages st) @ [loading_message ids] in
           sendChat e starts newMessages (updateMessages newMessages st)))"

definition handleEditMessage :: "jstr \<Rightarrow> ChatState \<Rightarrow> ChatState" where
  "handleEditMessage key st = st\<lparr>cs_editing := Some key\<rparr>"

definition handleEditOpenChange :: "bool \<Rightarrow> ChatState \<Rightarrow> ChatState" where
  "handleEditOpenChange opened st = (if \<not> opened then st\<lparr>cs_editing := None\<rparr> else st)"

definition applyEdit ::
    "ChatEnv \<Rightarrow> bool \<Rightarrow> bool \<Rightarrow> nanoids \<Rightarrow> jstr \<Rightarrow> bool \<Rightarrow> ChatState \<Rightarrow> ChatState" where
  "applyEdit e starts img ids newContent submit st =
     (case cs_editing st of
        None \<Rightarrow> st
      | Some key \<Rightarrow>
          if key = [] then st
          else
            (case find_key key (cs_messages st) of
               None \<Rightarrow> st
             | Some index \<Rightarrow>
                 (let updated = map (\<lambda>m. if msg_key m = key then replace_first_version newContent m else m)
                                  (cs_messages st);
                      st1 = st\<lparr>cs_editing := None\<rparr> in
                  if \<not> submit \<or> msg_from (updated ! index) \<noteq> RoleUser then updateMessages updated st1
                  else
                    (let toSubmit = take (index + 1) updated @ [loading_message ids];
                         st2 = updateMessages toSubmit st1 in
                     if img then sendImageGeneration toSubmit st2 else sendChat e starts toSubmit st2))))"

definition handleDeleteMessage :: "jstr \<Rightarrow> ChatState \<Rightarrow> ChatState" where
  "handleDeleteMessage key st =
     updateMessages (filter (\<lambda>m. msg_key m \<noteq> key) (cs_messages st)) st"

definition handleClearMessages :: "ChatState \<Rightarrow> ChatState" where
  "handleClearMessages st = (if isStreaming st then st else updateMessages [] st)"

section \<open>Steps\<close>

text \<open>The steps of streamed chats.  A source delivers messages and errors until it is closed; a
  change of its ready state may also be reported later.  \<open>orderly\<close> says that an edit is
  saved only while no generation runs, and that a closed source reports nothing.  The program
  guards the other actions of the user, but not the saving of an edit: its steps are those
  with \<open>orderly = False\<close>.\<close>

definition open_source :: "ChatState \<Rightarrow> nat \<Rightarrow> bool" where
  "open_source st i \<longleftrightarrow> i < cs_opened st \<and> i \<notin> set (cs_closed st)"

inductive chat_step :: "bool \<Rightarrow> ChatState \<Rightarrow> ChatState \<Rightarrow> bool" for orderly where
  Send: "\<not> isStreaming st \<Longrightarrow> cf_stream (en_config e) \<Longrightarrow>
    chat_step orderly st (handleSendMessage e starts False ids text attachments st)"
| Regenerate: "\<not> isStreaming st \<Longrightarrow> cf_stream (en_config e) \<Longrightarrow>
    chat_step orderly st (handleRegenerateMessage e starts ids key st)"
| BeginEdit: "\<not> isStreaming st \<Longrightarrow> chat_step orderly st (handleEditMessage key st)"
| CancelEdit: "chat_step orderly st (handleEditOpenChange opened st)"
| SaveEdit: "orderly \<longrightarrow> \<not> isStreaming st \<Longrightarrow> cf_stream (en_config e) \<Longrightarrow>
    chat_step orderly st (applyEdit e starts False ids newContent submit st)"
| Delete: "\<not> isStreaming st \<Longrightarrow> chat_step orderly st (handleDeleteMessage key st)"
| Clear: "chat_step orderly st (handleClearMessages st)"
| Event_message: "open_source st i \<Longrightarrow> chat_step orderly st (on_message i data st)"
| Event_error: "open_source st i \<Longrightarrow> chat_step orderly st (on_error i rs data st)"
| Event_ready: "i < cs_opened st \<Longrightarrow> orderly \<longrightarrow> open_source st i \<Longrightarrow>
    chat_step orderly st (on_readystatechange i rdy status st)"
| Stop: "chat_step orderly st (stopGeneration st)"

definition initial_chat :: "Message list \<Rightarrow> ChatState" where
  "initial_chat messages =
     \<lparr>cs_messages = messages, cs_source = None, cs_complete = False, cs_opened = 0, cs_closed = [], cs_sent = [],
      cs_images = [], cs_editing = None\<rparr>"

inductive chat_reach :: "bool \<Rightarrow> Message list \<Rightarrow> ChatState \<Rightarrow> bool" for orderly messages where
  Start: "chat_reach orderly messages (initial_chat messages)"
| Next: "chat_reach orderly messages st \<Longrightarrow> chat_step orderly st st' \<Longrightarrow> chat_reach orderly messages st'"

text \<open>What holds of an orderly chat between two steps.\<close>

definition chat_inv :: "ChatState \<Rightarrow> bool" where
  "chat_inv st \<longleftrightarrow>
     (\<forall>m\<in>set (butlast (cs_messages st)). \<not> stuck m) \<and>
     (\<forall>i\<in>set (cs_closed st). i < cs_opened st) \<and>
     (case cs_source st of
        None \<Rightarrow> (\<forall>m\<in>set (cs_messages st). \<not> stuck m) \<and> (\<forall>i. \<not> open_source st i)
      | Some i \<Rightarrow>
          cs_messages st \<noteq> [] \<and> msg_from (last (cs_messages st)) = RoleAssistant \<and> \<not> cs_complete st \<and>
          (\<forall>j. open_source st j \<longleftrightarrow> j = i))"

text \<open>A chunk that adds \<open>c\<close> to the content.\<close>

definition content_chunk :: "jstr \<Rightarrow> json" where
  "content_chunk c =
     JObj [(js ''choices'', JArr [JObj [(js ''delta'', JObj [(js ''content'', JStr c)])]])]"

text \<open>A sample environment, and a run in which an edit is saved during a generation.\<close>

definition sample_env :: ChatEnv where
  "sample_env =
     \<lparr>en_config = \<lparr>cf_model = js ''gpt-4o'', cf_group = js ''default'', cf_temperature = Fin 1, cf_top_p = Fin 1,
        cf_max_tokens = Fin 4096, cf_frequency_penalty = Fin 0, cf_presence_penalty = Fin 0, cf_seed = None,
        cf_stream = True, cf_web_search = False\<rparr>,
      en_enabled = \<lparr>pe_temperature = True, pe_top_p = True, pe_max_tokens = False, pe_frequency_penalty = True,
        pe_presence_penalty = True, pe_seed = False\<rparr>,
      en_locale_num = dec\<rparr>"

definition sample_ids :: "string \<Rightarrow> nanoids" where
  "sample_ids s =
     \<lparr>id_user = js (s @ ''u''), id_user_version = js (s @ ''uv''), id_assistant = js (s @ ''a''),
      id_assistant_version = js (s @ ''av'')\<rparr>"

definition sample_chunk :: jstr where
  "sample_chunk =
     js ''{'' @ [34] @ js ''choices'' @ [34] @ js '':[{'' @ [34] @ js ''delta'' @ [34] @ js '':{'' @ [34] @ js ''content'' @
       [34] @ js '':'' @ [34] @ js ''Hi'' @ [34] @ js ''}}]}''"

definition first_sent :: ChatState where
  "first_sent = handleSendMessage sample_env True False (sample_ids ''1'') (js ''Hello'') [] (initial_chat [])"

definition overlap_run :: ChatState where
  "overlap_run =
     (let st1 = on_message 0 (js ''[DONE]'') first_sent;
          st2 = handleEditMessage (js ''1u'') st1;
          st3 = handleSendMessage sample_env True False (sample_ids ''2'') (js ''Again'') [] st2;
          st4 = applyEdit sample_env True False (sample_ids ''3'') (js ''Hello there'') True st3;
          st5 = on_message 1 (js ''[DONE]'') st4 in
      on_message 2 sample_chunk st5)"

inductive_cases chat_stepE: "chat_step orderly st st'"

section \<open>The handlers keep the invariant\<close>

lemma settled:
  "\<not> stuck (error_message err code m)" "\<not> stuck (stream_complete m)" "\<not> stuck (stop_update m)"
  by (simp_all add: stuck_def pending_def error_message_def stream_complete_def stop_update_def)

lemma from_kept:
  "msg_from (error_message err code m) = msg_from m" "msg_from (stream_complete m) = msg_from m"
  "msg_from (stop_update m) = msg_from m" "msg_from (stream_update type c m) = msg_from m"
  by (simp_all add: error_message_def stream_complete_def stop_update_def stream_update_def finalize_fields
      process_fields split: update_type.split)

lemma upd_settled:
  assumes "\<forall>m\<in>set (butlast ms). \<not> stuck m" and "\<And>m. \<not> stuck (f m)"
  shows "\<forall>m\<in>set (updateLastAssistantMessage ms f). \<not> stuck m"
proof (cases rule: last_msg.upd_cases [of ms f])
  case hit
  with assms show ?thesis by auto
next
  case miss
  have "\<not> stuck (last ms)" if "ms \<noteq> []" using miss that by (auto simp: stuck_def)
  with assms(1) miss(1) show ?thesis by (cases ms rule: rev_cases) auto
qed

lemma last_from:
  assumes "\<And>m. msg_from (f m) = msg_from m" and "ms \<noteq> []"
  shows "updateLastAssistantMessage ms f \<noteq> [] \<and>
    msg_from (last (updateLastAssistantMessage ms f)) = msg_from (last ms)"
  using assms by (cases rule: last_msg.upd_cases [of ms f]) simp_all

lemmas handler_defs = onMessageUpdate_def handleStreamUpdate_def handleStreamComplete_def handleStreamError_def
  closeSource_def updateAssistantMessageWithError_def

lemma inv_settle:
  assumes "chat_inv st" and "\<And>m. \<not> stuck (f m)" and "\<And>j. open_source st j \<Longrightarrow> j = i" and "i < cs_opened st"
    and "cs_messages st' = updateLastAssistantMessage (cs_messages st) f" and "cs_source st' = None"
    and "cs_closed st' = i # cs_closed st" and "cs_opened st' = cs_opened st"
  shows "chat_inv st'"
  using assms upd_settled [of "cs_messages st" f]
  by (auto simp: chat_inv_def last_msg.upd_butlast open_source_def)

lemma inv_handleError:
  assumes "chat_inv st" and "open_source st i"
  shows "chat_inv (handleError i msg code st)"
proof (cases "cs_complete st")
  case True
  with assms show ?thesis by (simp add: handleError_def)
next
  case False
  have only: "open_source st j \<Longrightarrow> j = i" for j
    using assms by (auto simp: chat_inv_def split: option.splits)
  have "i < cs_opened st" using assms(2) by (simp add: open_source_def)
  from inv_settle [OF assms(1) settled(1) only this] False show ?thesis
    by (simp add: handleError_def handler_defs)
qed

lemma inv_stream_update:
  assumes "chat_inv st" and "open_source st i"
  shows "chat_inv (handleStreamUpdate type c st) \<and> open_source (handleStreamUpdate type c st) i"
proof -
  have s: "cs_source st = Some i" using assms by (auto simp: chat_inv_def split: option.splits)
  with assms last_from [of "stream_update type c" "cs_messages st"] show ?thesis
    by (auto simp: chat_inv_def handler_defs last_msg.upd_butlast from_kept open_source_def)
qed

lemma inv_apply_delta:
  assumes "chat_inv st" and "open_source st i"
  shows "chat_inv (apply_delta delta st)"
proof -
  have one: "chat_inv (handleStreamUpdate t c st)" "open_source (handleStreamUpdate t c st) i" for t c
    using inv_stream_update [OF assms] by blast+
  have "chat_inv (handleStreamUpdate t' c' (handleStreamUpdate t c st))" for t c t' c'
    using inv_stream_update [OF one] by blast
  with one(1) assms(1) show ?thesis by (simp add: apply_delta_def Let_def split: option.split)
qed

lemma inv_done:
  assumes "chat_inv st" and "open_source st i"
  shows "chat_inv (handleStreamComplete (closeSource i (st\<lparr>cs_complete := True\<rparr>)))"
proof -
  have only: "open_source st j \<Longrightarrow> j = i" for j
    using assms by (auto simp: chat_inv_def split: option.splits)
  have "i < cs_opened st" using assms(2) by (simp add: open_source_def)
  from inv_settle [OF assms(1) settled(2) only this] show ?thesis by (simp add: handler_defs)
qed

lemma inv_on_message: "chat_inv st \<Longrightarrow> open_source st i \<Longrightarrow> chat_inv (on_message i data st)"
  by (auto simp: on_message_def inv_done inv_handleError inv_apply_delta split: option.split json.split)

lemma inv_on_error: "chat_inv st \<Longrightarrow> open_source st i \<Longrightarrow> chat_inv (on_error i rs data st)"
  by (simp add: on_error_def inv_handleError split: prod.split)

lemma inv_on_ready: "chat_inv st \<Longrightarrow> open_source st i \<Longrightarrow> chat_inv (on_readystatechange i rdy status st)"
  by (simp add: on_readystatechange_def inv_handleError split: option.split)

lemma inv_stop:
  assumes "chat_inv st"
  shows "chat_inv (stopGeneration st)"
proof (cases "cs_source st")
  case None
  with assms upd_settled [of "cs_messages st" stop_update] settled show ?thesis
    by (simp add: chat_inv_def stopGeneration_def stopStream_def handler_defs last_msg.upd_butlast open_source_def)
next
  case (Some i)
  have only: "open_source st j \<Longrightarrow> j = i" for j using assms Some by (simp add: chat_inv_def)
  have "open_source st i" using assms Some by (simp add: chat_inv_def)
  then have "i < cs_opened st" by (simp add: open_source_def)
  from inv_settle [OF assms settled(3) only this] Some show ?thesis
    by (simp add: stopGeneration_def stopStream_def handler_defs)
qed

lemma stuck_made:
  "\<not> stuck (user_message ids text atts)" "msg_from (loading_message ids) = RoleAssistant"
  by (simp_all add: user_message_def stuck_def pending_def createUserMessageWithAttachments_def Let_def
      createUserMessage_def blank_message_def loading_message_def loading_fields)

text \<open>Opening a stream for a list that ends in a fresh placeholder.\<close>

lemma inv_start:
  assumes "chat_inv st" and "\<not> isStreaming st" and "cf_stream (en_config e)"
    and "\<forall>m\<in>set ms. \<not> stuck m"
    and "cs_closed st1 = cs_closed st" and "cs_opened st1 = cs_opened st" and "cs_messages st1 = ms @ [loading_message ids]"
  shows "chat_inv (sendChat e starts msgs st1)"
proof -
  have c: "\<forall>i\<in>set (cs_closed st). i < cs_opened st" and none: "\<And>i. \<not> open_source st i"
    using assms(1,2) by (auto simp: chat_inv_def isStreaming_def)
  have o: "i < cs_opened st \<and> i \<notin> set (cs_closed st) \<longleftrightarrow> False" for i
    using none by (auto simp: open_source_def)
  show ?thesis
  proof (cases starts)
    case True
    have "i < Suc (cs_opened st) \<and> i \<notin> set (cs_closed st) \<longleftrightarrow> i = cs_opened st" for i
      using c o [of i] by (auto simp: less_Suc_eq)
    with True assms(3-7) c show ?thesis
      by (auto simp: sendChat_def sendStreamingChat_def sendStreamRequest_def chat_inv_def open_source_def stuck_made)
  next
    case False
    have "\<forall>m\<in>set (updateLastAssistantMessage (ms @ [loading_message ids]) (error_message STREAM_START_ERROR None)). \<not> stuck m"
      using assms(4) settled(1) by (intro upd_settled) simp_all
    with False assms(3-7) c o show ?thesis
      by (auto simp: sendChat_def sendStreamingChat_def sendStreamRequest_def chat_inv_def open_source_def handler_defs
          last_msg.upd_butlast)
  qed
qed

lemma inv_messages:
  assumes "chat_inv st" and "\<not> isStreaming st" and "\<forall>m\<in>set ms. \<not> stuck m"
    and "cs_messages st' = ms" and "cs_source st' = cs_source st" and "cs_closed st' = cs_closed st"
    and "cs_opened st' = cs_opened st"
  shows "chat_inv st'"
  using assms by (auto simp: chat_inv_def isStreaming_def open_source_def dest: in_set_butlastD)

lemma stuck_replace [simp]: "stuck (replace_first_version c m) = stuck m"
  by (simp add: replace_first_version_def stuck_def pending_def)

lemma inv_idle: "chat_inv st \<Longrightarrow> \<not> isStreaming st \<Longrightarrow> \<forall>m\<in>set (cs_messages st). \<not> stuck m"
  by (auto simp: chat_inv_def isStreaming_def)

lemma inv_edit:
  assumes "chat_inv st" and "\<not> isStreaming st" and "cf_stream (en_config e)"
  shows "chat_inv (applyEdit e starts False ids c submit st)"
proof -
  note idle = inv_idle [OF assms(1,2)]
  have edited: "\<forall>m\<in>set (map (\<lambda>m. if msg_key m = key then replace_first_version c m else m) (cs_messages st)). \<not> stuck m"
    for key using idle by auto
  have cut: "\<forall>m\<in>set (take n (map (\<lambda>m. if msg_key m = key then replace_first_version c m else m) (cs_messages st))). \<not> stuck m"
    for key n using edited [of key] by (meson in_set_takeD)
  have upd: "chat_inv (updateMessages (map (\<lambda>m. if msg_key m = key then replace_first_version c m else m) (cs_messages st))
      (st\<lparr>cs_editing := None\<rparr>))" for key
    by (rule inv_messages [OF assms(1,2) edited [where key = key]]) (simp_all add: updateMessages_def)
  have send: "chat_inv (sendChat e starts msgs (updateMessages (take n (map (\<lambda>m. if msg_key m = key
      then replace_first_version c m else m) (cs_messages st)) @ [loading_message ids]) (st\<lparr>cs_editing := None\<rparr>)))" for key n msgs
    by (rule inv_start [OF assms cut [where key = key and n = n]]) (simp_all add: updateMessages_def)
  show ?thesis using assms(1) upd send by (simp add: applyEdit_def Let_def split: option.split)
qed

lemma inv_editing: "chat_inv (st\<lparr>cs_editing := k\<rparr>) = chat_inv st"
  by (simp add: chat_inv_def open_source_def split: option.split)

lemma inv_step: "chat_inv st \<Longrightarrow> chat_step True st st' \<Longrightarrow> chat_inv st'"
proof (erule chat_stepE, goal_cases)
  case (1 e starts ids body attachments)
  have "chat_inv (sendChat e starts msgs (updateMessages ((cs_messages st @ [user_message ids body attachments]) @
      [loading_message ids]) st))" for msgs
    by (rule inv_start [OF 1(1,3,4)]) (use inv_idle [OF 1(1,3)] stuck_made in \<open>auto simp: updateMessages_def\<close>)
  then show ?case by (simp add: 1 handleSendMessage_def Let_def)
next
  case (2 e starts ids key)
  have "\<forall>m\<in>set (take n (cs_messages st)). \<not> stuck m" for n
    using inv_idle [OF 2(1,3)] by (meson in_set_takeD)
  then have "chat_inv (sendChat e starts msgs (updateMessages (take n (cs_messages st) @ [loading_message ids]) st))" for msgs n
    by (rule inv_start [OF 2(1,3,4)]) (simp_all add: updateMessages_def)
  with 2 show ?case by (simp add: handleRegenerateMessage_def Let_def split: option.split)
next
  case (3 key)
  then show ?case by (simp add: handleEditMessage_def inv_editing)
next
  case (4 opened)
  then show ?case by (simp add: handleEditOpenChange_def inv_editing)
next
  case (5 e starts ids newContent submit)
  then show ?case by (simp add: inv_edit)
next
  case (6 key)
  show ?case unfolding 6
    by (rule inv_messages [OF 6(1,3)]) (use inv_idle [OF 6(1,3)] in \<open>auto simp: handleDeleteMessage_def updateMessages_def\<close>)
next
  case 7
  then show ?case using inv_messages [of st "[]"] by (simp add: handleClearMessages_def updateMessages_def)
qed (simp_all add: inv_on_message inv_on_error inv_on_ready inv_stop)

lemma inv_reach: "chat_reach True messages st \<Longrightarrow> \<forall>m\<in>set messages. \<not> stuck m \<Longrightarrow> chat_inv st"
proof (induction rule: chat_reach.induct)
  case Start
  then show ?case by (auto simp: chat_inv_def initial_chat_def open_source_def dest: in_set_butlastD)
next
  case (Next st st')
  then show ?case using inv_step by blast
qed

section \<open>A whole stream\<close>

lemma process_status:
  "processStreamingContent (m\<lparr>msg_status := s\<rparr>) c = (processStreamingContent m c)\<lparr>msg_status := s\<rparr>"
  by (simp add: processStreamingContent_def Let_def updateCurrentVersionContent_def getCurrentVersion_def)

lemma stream_update_chunks:
  assumes "cs \<noteq> []" and "msg_status m \<noteq> Some StError"
  shows "foldl (\<lambda>m c. stream_update UpdContent c m) m cs = (stream_chunks m cs)\<lparr>msg_status := Some StStreaming\<rparr>"
  using assms
proof (induction cs rule: rev_induct)
  case (snoc c cs)
  show ?case
  proof (cases "cs = []")
    case True
    with snoc.prems show ?thesis by (simp add: stream_chunks_def stream_update_def)
  next
    case False
    with snoc show ?thesis by (simp add: stream_snoc stream_update_def process_status)
  qed
qed simp

lemma content_event:
  assumes "json_parse d = Some (content_chunk c)" and "c \<noteq> []"
  shows "on_message i d st = handleStreamUpdate UpdContent c st"
proof -
  have "json_parse (js ''[DONE]'') = None" by code_simp
  with assms(1) have "d \<noteq> js ''[DONE]''" by auto
  with assms show ?thesis
    by (simp add: on_message_def content_chunk_def chunk_delta_def opt_prop_def apply_delta_def truthy_prop_def Let_def)
qed

lemma content_events:
  assumes "list_all2 (\<lambda>d c. json_parse d = Some (content_chunk c) \<and> c \<noteq> []) ds cs"
  shows "foldl (\<lambda>st d. on_message i d st) st ds =
    st\<lparr>cs_messages := updateLastAssistantMessage (cs_messages st) (\<lambda>m. foldl (\<lambda>m c. stream_update UpdContent c m) m cs)\<rparr>"
proof -
  have "foldl (\<lambda>st d. on_message i d st) st ds = foldl (\<lambda>st c. handleStreamUpdate UpdContent c st) st cs"
    using assms by (induction ds cs arbitrary: st rule: list_all2_induct) (simp_all add: content_event)
  also have "\<dots> = st\<lparr>cs_messages := foldl (\<lambda>ms c. updateLastAssistantMessage ms (\<lambda>m. stream_update UpdContent c m)) (cs_messages st) cs\<rparr>"
    by (induction cs arbitrary: st) (simp_all add: handler_defs)
  also have "foldl (\<lambda>ms c. updateLastAssistantMessage ms (\<lambda>m. stream_update UpdContent c m)) (cs_messages st) cs =
      updateLastAssistantMessage (cs_messages st) (\<lambda>m. foldl (\<lambda>m c. stream_update UpdContent c m) m cs)"
    by (rule last_msg.upd_foldl) (simp add: from_kept)
  finally show ?thesis .
qed

lemma stream_fields:
  "msg_from (stream_chunks m cs) = msg_from m" "msg_key (stream_chunks m cs) = msg_key m"
  by (induction cs rule: rev_induct) (simp_all add: stream_chunks_def process_fields)

lemma complete_streaming:
  "stream_complete (m\<lparr>msg_status := Some StStreaming\<rparr>) = (finalizeMessage (m\<lparr>msg_status := Some StStreaming\<rparr>) None)\<lparr>msg_status := Some StComplete\<rparr>"
  by (simp add: stream_complete_def)

lemma map_of_enabled:
  "distinct (map fst xs) \<Longrightarrow>
   map_of (List.map_filter (\<lambda>(key, on, val). if on then map_option (\<lambda>x. (key, x)) val else None) xs) k =
     (case map_of xs k of Some (on, val) \<Rightarrow> if on then val else None | None \<Rightarrow> None)"
proof (induction xs)
  case (Cons p xs)
  obtain key on val where p: "p = (key, on, val)" by (cases p)
  have "map_of xs key = None" using Cons.prems by (simp add: p map_of_eq_None_iff)
  with Cons p show ?case by (cases val) (auto simp: List.map_filter_simps)
qed (simp add: List.map_filter_simps)

section \<open>Properties\<close>




lemma first_sent_reach: "chat_reach orderly [] first_sent"
  unfolding first_sent_def
  by (rule chat_reach.Next [OF chat_reach.Start chat_step.Send]) (simp_all add: isStreaming_def initial_chat_def sample_env_def)


text \<open>Saving an edit during a generation breaks this: a chat is reachable that shows a
  message in the streaming state although no generation is active, so that the stop button is
  gone.  The source of the replaced answer is still open, its end mark clears the reference to
  the new source, and the chunks of the new source keep arriving.\<close>

theorem overlapping_streams:
  "\<exists>st. chat_reach False [] st \<and> \<not> isStreaming st \<and> (\<exists>m\<in>set (cs_messages st). stuck m)"
proof -
  let ?s1 = "on_message 0 (js ''[DONE]'') first_sent"
  let ?s2 = "handleEditMessage (js ''1u'') ?s1"
  let ?s3 = "handleSendMessage sample_env True False (sample_ids ''2'') (js ''Again'') [] ?s2"
  let ?s4 = "applyEdit sample_env True False (sample_ids ''3'') (js ''Hello there'') True ?s3"
  let ?s5 = "on_message 1 (js ''[DONE]'') ?s4"
  have env: "cf_stream (en_config sample_env)" by (simp add: sample_env_def)
  have "chat_reach False [] ?s1"
    by (rule chat_reach.Next [OF first_sent_reach chat_step.Event_message]) code_simp
  then have "chat_reach False [] ?s2"
    by (rule chat_reach.Next [OF _ chat_step.BeginEdit]) code_simp
  then have "chat_reach False [] ?s3"
    by (rule chat_reach.Next [OF _ chat_step.Send [OF _ env]]) code_simp
  then have "chat_reach False [] ?s4"
    by (rule chat_reach.Next [OF _ chat_step.SaveEdit [OF _ env]]) simp
  then have "chat_reach False [] ?s5"
    by (rule chat_reach.Next [OF _ chat_step.Event_message]) code_simp
  then have "chat_reach False [] (on_message 2 sample_chunk ?s5)"
    by (rule chat_reach.Next [OF _ chat_step.Event_message]) code_simp
  then have "chat_reach False [] overlap_run" by (simp only: overlap_run_def Let_def)
  moreover have "\<not> isStreaming overlap_run" by code_simp
  moreover have "list_ex stuck (cs_messages overlap_run)" by code_simp
  ultimately show ?thesis by (auto simp: list_ex_iff)
qed

text \<open>An error is final for its answer: once the last message is in the error state, an end
  mark or a readable chunk leaves the messages as they are.\<close>

theorem error_absorbs_stream:
  assumes "msg_status (last (cs_messages st)) = Some StError"
    and "data = js ''[DONE]'' \<or> (\<exists>v. json_parse data = Some v \<and> v \<noteq> JNull)"
  shows "cs_messages (on_message i data st) = cs_messages st"
proof -
  let ?ms = "cs_messages st"
  have u: "updateLastAssistantMessage ?ms (stream_update type c) = ?ms" for type c
    using assms(1) by (intro last_msg.upd_id) (simp add: stream_update_def)
  have d: "updateLastAssistantMessage ?ms stream_complete = ?ms"
    using assms(1) by (intro last_msg.upd_id) (simp add: stream_complete_def)
  have "cs_messages (apply_delta delta st) = ?ms" for delta
    by (simp add: apply_delta_def handler_defs u Let_def split: option.split)
  with d assms(2) show ?thesis
    by (auto simp: on_message_def handler_defs split: option.split json.split)
qed

theorem error_absorbs_stream_witness:
  "cs_messages (on_message 0 sample_chunk (on_error 0 1 [] first_sent)) = cs_messages (on_error 0 1 [] first_sent)"
proof (rule error_absorbs_stream)
  show "msg_status (last (cs_messages (on_error 0 1 [] first_sent))) = Some StError" by code_simp
  have "json_parse sample_chunk = Some (content_chunk (js ''Hi''))" by code_simp
  then show "sample_chunk = js ''[DONE]'' \<or> (\<exists>v. json_parse sample_chunk = Some v \<and> v \<noteq> JNull)"
    by (simp add: content_chunk_def)
qed

text \<open>Sending a message issues exactly one request: it carries the valid earlier messages
  in their order followed by the new message, never the placeholder of the answer, the model,
  group and stream flag of the configuration, and exactly the enabled parameters that have a
  value.\<close>

theorem send_request:
  "\<exists>rq. cs_sent (handleSendMessage e starts False ids body atts st) = cs_sent st @ [rq] \<and>
     rq_messages rq = map (formatMessageForAPI (en_locale_num e))
       (filter isValidMessage (cs_messages st) @ [user_message ids body atts]) \<and>
     rq_model rq = cf_model (en_config e) \<and> rq_group rq = cf_group (en_config e) \<and>
     rq_stream rq = cf_stream (en_config e) \<and>
     map_of (rq_parameters rq) =
       (\<lambda>k. case map_of (parameter_table (en_config e) (en_enabled e)) k of
              Some (on, val) \<Rightarrow> if on then val else None | None \<Rightarrow> None)"
proof -
  let ?ms = "cs_messages st @ [user_message ids body atts, loading_message ids]"
  let ?rq = "buildChatCompletionPayload (en_locale_num e) ?ms (en_config e) (en_enabled e)"
  have valid: "isValidMessage (user_message ids body atts)" "\<not> isValidMessage (loading_message ids)"
    by (simp_all add: isValidMessage_def user_message_def createUserMessageWithAttachments_def Let_def
        createUserMessage_def blank_message_def loading_message_def createLoadingAssistantMessage_def
        createMessageVersion_def trim_def trim_start_def trim_end_def)
  have "map_of (enabled_parameters (en_config e) (en_enabled e)) k =
      (case map_of (parameter_table (en_config e) (en_enabled e)) k of
         Some (on, val) \<Rightarrow> if on then val else None | None \<Rightarrow> None)" for k
    unfolding enabled_parameters_def by (rule map_of_enabled) (simp add: parameter_table_def)
  with valid show ?thesis
    by (intro exI [of _ ?rq]) (auto simp: handleSendMessage_def Let_def sendChat_def sendStreamingChat_def
        sendNonStreamingChat_def sendStreamRequest_def updateMessages_def handler_defs buildChatCompletionPayload_def)
qed

end
