(* ===== verification/Js_Value.thy ===== *)
theory Js_Value
  imports Js_Json
begin

text \<open>
  Untyped JavaScript values, as the code that imports foreign JSON handles them: reading a
  property that may be missing, object spread, \<open>JSON.stringify\<close>, \<open>Number(v)\<close>
  and \<open>String(v)\<close>, and results that may be an exception.

  A value of type \<open>unknown\<close> is a \<open>json option\<close>; \<open>None\<close> is
  \<open>undefined\<close>.  The objects come from \<open>JSON.parse\<close> or from object literals,
  so a property is an own property: none of the names read here is one of
  \<open>Object.prototype\<close>.

  The main results are that \<open>JSON.parse\<close> reads back what \<open>JSON.stringify\<close>
  writes (\<open>json_parse_stringify\<close>) and that a text with more than one value does not
  parse (\<open>json_parse_two\<close>).
\<close>

section \<open>Results\<close>

type_synonym 'a result = "js_error + 'a"

definition rbind :: "'a result \<Rightarrow> ('a \<Rightarrow> 'b result) \<Rightarrow> 'b result" where
  "rbind m f = (case m of Inl e \<Rightarrow> Inl e | Inr x \<Rightarrow> f x)"

fun rmap :: "('a \<Rightarrow> 'b result) \<Rightarrow> 'a list \<Rightarrow> 'b list result" where
  "rmap f [] = Inr []"
| "rmap f (x # xs) = rbind (f x) (\<lambda>y. rbind (rmap f xs) (\<lambda>ys. Inr (y # ys)))"

section \<open>Properties\<close>

definition get :: "jstr \<Rightarrow> props \<Rightarrow> json option" where
  "get k ps = map_of ps k"

text \<open>\<open>a ?? b\<close>.\<close>

definition nullish :: "json option \<Rightarrow> json option \<Rightarrow> json option" where
  "nullish a b = (case a of None \<Rightarrow> b | Some JNull \<Rightarrow> b | Some v \<Rightarrow> Some v)"

text \<open>\<open>{ ...a, ...b }\<close>: the properties of \<open>b\<close>, in their order, overwrite
  or follow those of \<open>a\<close>.\<close>

definition spread :: "props \<Rightarrow> props \<Rightarrow> props" where
  "spread a b = foldl (\<lambda>ps (k, v). prop_set k v ps) a (own_entries b)"

section \<open>JSON.stringify\<close>

definition json_num_text :: "jnum \<Rightarrow> jstr" where
  "json_num_text x = (case x of Fin v \<Rightarrow> num_to_string (Fin v) | _ \<Rightarrow> js ''null'')"

lemma size_prop [termination_simp]: "p \<in> set ps \<Longrightarrow> size (snd p) < Suc (size_list (size_prod (\<lambda>x. 0) size) ps)"
  by (induction ps) (auto simp: less_Suc_eq_le trans_le_add1 intro: trans_le_add2)

fun json_stringify :: "json \<Rightarrow> jstr" where
  "json_stringify JNull = js ''null''"
| "json_stringify (JBool b) = (if b then js ''true'' else js ''false'')"
| "json_stringify (JNum x) = json_num_text x"
| "json_stringify (JStr s) = json_quote s"
| "json_stringify (JArr vs) = js ''['' @ join (js '','') (map json_stringify vs) @ js '']''"
| "json_stringify (JObj ps) =
     js ''{'' @ join (js '','') (map (\<lambda>(k, t). json_quote k @ js '':'' @ t)
       (own_entries (map (\<lambda>p. (fst p, json_stringify (snd p))) ps))) @ js ''}''"

text \<open>\<open>JSON.stringify\<close> of an object literal some of whose properties may be
  \<open>undefined\<close>: these are left out.\<close>

definition defined_props :: "(jstr \<times> json option) list \<Rightarrow> props" where
  "defined_props ps = List.map_filter (\<lambda>(k, v). map_option (Pair k) v) ps"

section \<open>Conversions\<close>

lemma map_opt_cong [fundef_cong]:
  "xs = ys \<Longrightarrow> (\<And>x. x \<in> set ys \<Longrightarrow> f x = g x) \<Longrightarrow> map_opt f xs = map_opt g ys"
proof (induction xs arbitrary: ys)
  case (Cons x xs)
  have "map_opt f xs = map_opt g xs" using Cons by (intro Cons.IH) auto
  with Cons.prems show ?case by (auto split: option.split)
qed simp

text \<open>\<open>String(v)\<close>, also in a template literal: an object with an own property
  \<open>toString\<close>, which is not a function, has no primitive value.\<close>

fun value_to_string :: "json \<Rightarrow> jstr option" where
  "value_to_string JNull = Some (js ''null'')"
| "value_to_string (JBool b) = Some (if b then js ''true'' else js ''false'')"
| "value_to_string (JNum x) = Some (num_to_string x)"
| "value_to_string (JStr s) = Some s"
| "value_to_string (JArr vs) =
     map_option (join (js '','')) (map_opt (\<lambda>v. if v = JNull then Some [] else value_to_string v) vs)"
| "value_to_string (JObj ps) =
     (if List.member (map fst ps) (js ''toString'') then None else Some (js ''[object Object]''))"

text \<open>\<open>Number(v)\<close>.\<close>

fun value_to_number :: "json option \<Rightarrow> jnum result" where
  "value_to_number None = Inr NaN"
| "value_to_number (Some JNull) = Inr (Fin 0)"
| "value_to_number (Some (JBool b)) = Inr (Fin (if b then 1 else 0))"
| "value_to_number (Some (JNum x)) = Inr x"
| "value_to_number (Some v) =
     (case value_to_string v of None \<Rightarrow> Inl TypeError | Some s \<Rightarrow> Inr (to_number s))"

fun num_is_finite :: "jnum \<Rightarrow> bool" where
  "num_is_finite (Fin _) = True"
| "num_is_finite _ = False"

text \<open>Values that \<open>JSON.stringify\<close> writes without loss: numbers that read back from
  their text, strings of code units, objects in the order of their keys.\<close>

fun json_ok :: "json \<Rightarrow> bool" where
  "json_ok (JNum x) = (num_is_finite x \<and> json_number (json_num_text x) = Some (x, []))"
| "json_ok (JStr s) = code_units s"
| "json_ok (JArr vs) = list_all json_ok vs"
| "json_ok (JObj ps) =
     (distinct (map fst ps) \<and> own_entries ps = ps \<and> list_all code_units (map fst ps) \<and>
      list_all (\<lambda>p. json_ok (snd p)) ps)"
| "json_ok _ = True"

section \<open>Sequences of results\<close>

lemma rbind_simps [simp]: "rbind (Inl e) f = Inl e" "rbind (Inr x) f = f x"
  by (simp_all add: rbind_def)

lemma rbind_eq_Inr: "rbind m f = Inr y \<longleftrightarrow> (\<exists>x. m = Inr x \<and> f x = Inr y)"
  by (cases m) auto

lemma rmap_Nil: "rmap f xs = Inr [] \<longleftrightarrow> xs = []"
  by (cases xs) (auto simp: rbind_eq_Inr)

lemma rmap_list_all2: "rmap f xs = Inr ys \<longleftrightarrow> list_all2 (\<lambda>x y. f x = Inr y) xs ys"
  by (induction xs arbitrary: ys) (auto simp: rbind_eq_Inr list_all2_Cons1)

section \<open>Numbers in a text\<close>

text \<open>A text that cannot continue a number.\<close>

definition ends_number :: "jstr \<Rightarrow> bool" where
  "ends_number r \<longleftrightarrow> r = [] \<or> (\<not> is_digit (hd r) \<and> hd r \<notin> {46, 101, 69})"

lemma takeWhile_rest: "dropWhile P s \<noteq> [] \<or> r = [] \<or> \<not> P (hd r) \<Longrightarrow>
    takeWhile P (s @ r) = takeWhile P s \<and> dropWhile P (s @ r) = dropWhile P s @ r"
proof (induction s)
  case Nil
  then show ?case by (cases r) auto
qed auto

lemma json_int_rest:
  "json_int s = Some (ip, t) \<Longrightarrow> t \<noteq> [] \<or> ends_number r \<Longrightarrow> json_int (s @ r) = Some (ip, t @ r)"
  using takeWhile_rest [of is_digit s r]
  by (cases s) (auto simp: json_int_def ends_number_def split: if_splits)

lemma json_frac_rest:
  "json_frac s = Some (fp, t) \<Longrightarrow> t \<noteq> [] \<or> ends_number r \<Longrightarrow> json_frac (s @ r) = Some (fp, t @ r)"
  using takeWhile_rest [of is_digit "tl s" r]
  by (cases s; cases r) (auto simp: json_frac_def ends_number_def after_def Let_def split: if_splits)

lemma json_exp_rest:
  assumes "json_exp s = Some (e, [])" and "ends_number r"
  shows "json_exp (s @ r) = Some (e, r)"
proof (cases s)
  case Nil
  with assms show ?thesis by (cases r) (auto simp: json_exp_def ends_number_def)
next
  case (Cons x t)
  with assms have x: "x = 101 \<or> x = 69" by (auto simp: json_exp_def split: if_splits)
  have rest: "takeWhile is_digit (u @ r) = takeWhile is_digit u \<and> dropWhile is_digit (u @ r) = dropWhile is_digit u @ r" for u
    using assms(2) by (intro takeWhile_rest) (auto simp: ends_number_def)
  have "t \<noteq> []" using assms(1) Cons x by (auto simp: json_exp_def after_def)
  then have sg: "after c (t @ r) = map_option (\<lambda>u. u @ r) (after c t)" for c
    by (cases t) (auto simp: after_def)
  show ?thesis
    using assms(1) x rest Cons by (auto simp: json_exp_def sg Let_def split: option.splits if_splits)
qed

lemma json_unsigned_rest:
  assumes "json_unsigned s = Some (x, [])" and "ends_number r"
  shows "json_unsigned (s @ r) = Some (x, r)"
proof -
  from assms(1) obtain ip t fp u e where p: "json_int s = Some (ip, t)" "json_frac t = Some (fp, u)"
    "json_exp u = Some (e, [])" "x = decimal_value ip fp e"
    by (auto simp: json_unsigned_def split: option.splits)
  with json_int_rest [OF p(1), of r] json_frac_rest [OF p(2), of r] json_exp_rest [OF p(3) assms(2)] assms(2)
  show ?thesis by (simp add: json_unsigned_def)
qed

lemma json_number_rest:
  assumes "json_number s = Some (x, [])" and "ends_number r"
  shows "json_number (s @ r) = Some (x, r)"
proof -
  have "s \<noteq> []" using assms(1) by (auto simp: json_number_def json_unsigned_def json_int_def after_def)
  then have "after 45 (s @ r) = map_option (\<lambda>u. u @ r) (after 45 s)" by (cases s) (auto simp: after_def)
  then show ?thesis
    using assms json_unsigned_rest by (fastforce simp: json_number_def split: option.splits)
qed

lemma json_number_start:
  assumes "json_number s = Some (x, r)"
  obtains c t where "s = c # t" "c = 45 \<or> is_digit c"
  using assms by (cases s) (auto simp: json_number_def json_unsigned_def json_int_def after_def is_digit_def split: if_splits)

section \<open>Objects\<close>

lemma sort_key_map: "sort_key f (map g xs) = map g (sort_key (\<lambda>x. f (g x)) xs)"
proof (induction xs)
  case (Cons x xs)
  have "insort_key f (g x) (map g ys) = map g (insort_key (\<lambda>x. f (g x)) x ys)" for ys
    by (induction ys) auto
  with Cons show ?case by simp
qed simp

lemma own_entries_map: "own_entries (map (\<lambda>p. (fst p, f (snd p))) ps) = map (\<lambda>p. (fst p, f (snd p))) (own_entries ps)"
  by (simp add: own_entries_def sort_key_map filter_map comp_def case_prod_unfold)

lemma foldl_prop_set:
  "distinct (map fst (qs @ ps)) \<Longrightarrow> foldl (\<lambda>o1 (k, v). prop_set k v o1) qs ps = qs @ ps"
proof (induction ps arbitrary: qs)
  case (Cons p ps)
  obtain k v where p: "p = (k, v)" by (cases p)
  have "k \<notin> fst ` set qs \<Longrightarrow> prop_set k v qs = qs @ [(k, v)]" by (induction qs) auto
  with Cons.prems p have "prop_set k v qs = qs @ [(k, v)]" by auto
  with Cons.IH [of "qs @ [(k, v)]"] Cons.prems p show ?case by simp
qed simp

text \<open>Overwriting every property of an object, in the same order.\<close>

lemma prop_set_append: "k \<notin> fst ` set qs \<Longrightarrow> prop_set k v (qs @ ps) = qs @ prop_set k v ps"
  by (induction qs) auto

lemma foldl_prop_set_same:
  "map fst as = map fst bs \<Longrightarrow> distinct (map fst (qs @ bs)) \<Longrightarrow>
   foldl (\<lambda>o1 (k, v). prop_set k v o1) (qs @ as) bs = qs @ bs"
proof (induction bs arbitrary: as qs)
  case (Cons b bs)
  obtain k v where b: "b = (k, v)" by (cases b)
  obtain w as' where as: "as = (k, w) # as'" "map fst as' = map fst bs"
    using Cons.prems(1) b by (cases as) auto
  have "prop_set k v (qs @ as) = (qs @ [(k, v)]) @ as'"
    using Cons.prems(2) b as(1) by (simp add: prop_set_append)
  with Cons.IH [OF as(2), of "qs @ [(k, v)]"] Cons.prems(2) b show ?case by simp
qed simp

lemma spread_same_keys:
  assumes "map fst a = map fst b" "distinct (map fst b)" "own_entries b = b"
  shows "spread a b = b"
  using foldl_prop_set_same [of a b "[]"] assms by (simp add: spread_def)

lemma keys_prop_set: "List.member (map fst ps) k \<Longrightarrow> map fst (prop_set k v ps) = map fst ps"
  by (induction ps) (auto simp del: set_map)

lemma set_prop_set: "set (prop_set k v ps) \<subseteq> insert (k, v) (set ps)"
  by (induction ps) (auto split: if_splits)

lemma get_defined_props:
  "distinct (map fst ps) \<Longrightarrow> get k (defined_props ps) = (case map_of ps k of None \<Rightarrow> None | Some v \<Rightarrow> v)"
proof (induction ps)
  case (Cons p ps)
  have "k \<notin> fst ` set ps \<Longrightarrow> map_of ps k = None" by (simp add: map_of_eq_None_iff)
  then show ?case
    using Cons by (cases p; cases "snd p") (auto simp: get_def defined_props_def split: option.splits)
qed (simp add: get_def defined_props_def)

lemma defined_props_sub: "set (defined_props ps) = {(k, v). (k, Some v) \<in> set ps}"
  by (induction ps) (auto simp: defined_props_def split: option.splits)

lemma defined_props_distinct: "distinct (map fst ps) \<Longrightarrow> distinct (map fst (defined_props ps))"
proof (induction ps)
  case (Cons p ps)
  have "fst ` set (defined_props ps) \<subseteq> fst ` set ps" by (force simp: defined_props_sub)
  then show ?case
    using Cons by (cases p; cases "snd p") (auto simp: defined_props_def)
qed (simp add: defined_props_def)

text \<open>An object literal with fixed keys is written without loss when its values are.\<close>

lemma json_ok_object:
  assumes "distinct (map fst ps)" "\<And>k v. (k, v) \<in> set ps \<Longrightarrow> \<not> is_index_key k \<and> code_units k \<and> json_ok v"
  shows "json_ok (JObj ps)"
  using assms own_entries_named [of ps] by (force simp: list_all_iff)

lemma json_ok_defined:
  assumes "distinct (map fst ps)" "list_all (\<lambda>k. \<not> is_index_key k \<and> code_units k) (map fst ps)"
    and "list_all (\<lambda>(k, v). pred_option json_ok v) ps"
  shows "json_ok (JObj (defined_props ps))"
  using assms by (intro json_ok_object defined_props_distinct) (force simp: defined_props_sub list_all_iff)+

lemma set_own_keys: "set (own_keys ps) = fst ` set ps"
  by (simp add: own_keys_def)

lemma own_keys_Nil: "own_keys ps = [] \<longleftrightarrow> ps = []"
proof -
  have "own_keys ps = [] \<longleftrightarrow> set (own_entries ps) = {}"
    unfolding own_keys_def map_is_Nil_conv set_empty ..
  then show ?thesis by (simp only: set_own_entries set_empty)
qed

section \<open>Reading back what is written\<close>

definition value_start :: "jchar \<Rightarrow> bool" where
  "value_start c \<longleftrightarrow> \<not> is_json_ws c \<and> c \<notin> {93, 125, 44}"

lemma skip_ws_start: "\<not> is_json_ws c \<Longrightarrow> skip_ws (c # s) = c # s"
  by (simp add: skip_ws_def)

lemma stringify_start: "json_ok v \<Longrightarrow> \<exists>c t. json_stringify v = c # t \<and> value_start c"
proof (cases v)
  case (JNum x)
  assume "json_ok v"
  with JNum have "json_number (json_num_text x) = Some (x, [])" by simp
  then show ?thesis
    using JNum by (elim json_number_start) (auto simp: value_start_def is_json_ws_def is_digit_def)
qed (auto simp: value_start_def is_json_ws_def json_quote_def)

lemma json_value_number:
  assumes "json_number s = Some (x, [])" and "ends_number r"
  shows "json_value (s @ r) = Some (JNum x, r)"
proof -
  from assms(1) obtain c t where c: "s = c # t" "c = 45 \<or> is_digit c" by (rule json_number_start)
  then have "\<not> is_json_ws c" "c \<noteq> 123" "c \<noteq> 91" "c \<noteq> 34" by (auto simp: is_json_ws_def is_digit_def)
  with c json_number_rest [OF assms] show ?thesis
    by (subst json_value.simps) (simp add: skip_ws_start)
qed

lemma ends_number_sep: "ends_number (44 # r)" "ends_number (93 # r)" "ends_number (125 # r)"
  by (simp_all add: ends_number_def is_digit_def)

lemma after_simps [simp]: "after c (c # s) = Some s" "x \<noteq> c \<Longrightarrow> after c (x # s) = None" "after c [] = None"
  by (simp_all add: after_def)

lemma json_elems_list:
  assumes "vs \<noteq> []"
    and "\<And>v r. v \<in> set vs \<Longrightarrow> ends_number r \<Longrightarrow> json_value (json_stringify v @ r) = Some (v, r)"
  shows "json_elems (join [44] (map json_stringify vs) @ 93 # r) = Some (vs, r)"
  using assms
proof (induction vs rule: list_nonempty_induct)
  case (single v)
  then show ?case by (subst json_elems.simps) (simp add: ends_number_sep skip_ws_start is_json_ws_def)
next
  case (cons v vs)
  then have "json_elems (join [44] (map json_stringify vs) @ 93 # r) = Some (vs, r)" by simp
  with cons show ?case
    by (subst json_elems.simps) (simp add: join_Cons ends_number_sep skip_ws_start is_json_ws_def)
qed

lemma json_members_list:
  assumes "ps \<noteq> []" and "list_all code_units (map fst ps)"
    and "\<And>p r. p \<in> set ps \<Longrightarrow> ends_number r \<Longrightarrow> json_value (json_stringify (snd p) @ r) = Some (snd p, r)"
  shows "json_members (join [44] (map (\<lambda>p. json_quote (fst p) @ 58 # json_stringify (snd p)) ps) @ 125 # r) = Some (ps, r)"
  using assms
proof (induction ps rule: list_nonempty_induct)
  case (single p)
  then show ?case
    by (subst json_members.simps)
      (simp add: json_quote_def ends_number_sep skip_ws_start is_json_ws_def json_string_esc_str)
next
  case (cons p ps)
  then have "json_members (join [44] (map (\<lambda>p. json_quote (fst p) @ 58 # json_stringify (snd p)) ps) @ 125 # r) = Some (ps, r)"
    by simp
  with cons show ?case
    by (subst json_members.simps)
      (simp add: json_quote_def join_Cons ends_number_sep skip_ws_start is_json_ws_def json_string_esc_str)
qed

lemma json_value_array:
  assumes "json_ok (JArr vs)"
    and "\<And>v r. v \<in> set vs \<Longrightarrow> ends_number r \<Longrightarrow> json_value (json_stringify v @ r) = Some (v, r)"
  shows "json_value (json_stringify (JArr vs) @ r) = Some (JArr vs, r)"
proof (cases vs)
  case Nil
  then show ?thesis by (subst json_value.simps) (simp add: skip_ws_start is_json_ws_def)
next
  case (Cons v ws)
  with assms(1) obtain c t where "json_stringify v = c # t" "value_start c"
    using stringify_start [of v] by auto
  then have "after 93 (skip_ws (join [44] (map json_stringify vs) @ 93 # r)) = None"
    using Cons by (cases ws) (auto simp: skip_ws_start value_start_def)
  then show ?thesis
    using json_elems_list [of vs r] assms(2) Cons
    by (subst json_value.simps) (simp add: skip_ws_start is_json_ws_def)
qed

lemma stringify_object:
  "own_entries ps = ps \<Longrightarrow> json_stringify (JObj ps) =
     123 # join [44] (map (\<lambda>p. json_quote (fst p) @ 58 # json_stringify (snd p)) ps) @ [125]"
  by (simp add: own_entries_map comp_def)

lemma json_value_object:
  assumes "json_ok (JObj ps)"
    and "\<And>p r. p \<in> set ps \<Longrightarrow> ends_number r \<Longrightarrow> json_value (json_stringify (snd p) @ r) = Some (snd p, r)"
  shows "json_value (json_stringify (JObj ps) @ r) = Some (JObj ps, r)"
proof (cases ps)
  case Nil
  then show ?thesis
    by (subst json_value.simps) (simp add: skip_ws_start is_json_ws_def own_entries_def)
next
  case (Cons p qs)
  let ?body = "join [44] (map (\<lambda>p. json_quote (fst p) @ 58 # json_stringify (snd p)) ps) @ 125 # r"
  have "after 125 (skip_ws ?body) = None"
    using Cons by (cases qs) (simp_all add: json_quote_def skip_ws_start is_json_ws_def)
  moreover have "json_members ?body = Some (ps, r)"
    by (rule json_members_list) (use Cons assms in auto)
  moreover have "foldl (\<lambda>o1 (k, v). prop_set k v o1) [] ps = ps"
    using foldl_prop_set [of "[]" ps] assms(1) by simp
  moreover have "json_stringify (JObj ps) @ r = 123 # ?body"
    using assms(1) by (simp add: stringify_object del: json_stringify.simps)
  ultimately show ?thesis
    by (subst json_value.simps) (simp add: skip_ws_start is_json_ws_def)
qed

lemma json_value_stringify: "json_ok v \<Longrightarrow> ends_number r \<Longrightarrow> json_value (json_stringify v @ r) = Some (v, r)"
proof (induction v arbitrary: r rule: json_stringify.induct)
  case (3 x)
  then show ?case using json_value_number [of "json_num_text x" x r] by simp
next
  case (4 s)
  then show ?case using json_value_quote by simp
next
  case (5 vs)
  then show ?case by (intro json_value_array) (auto simp: list_all_iff)
next
  case (6 ps)
  then show ?case by (intro json_value_object) (auto simp: list_all_iff)
qed (subst json_value.simps, simp add: skip_ws_start is_json_ws_def json_keyword_def is_digit_def)+

lemma json_parse_stringify: "json_ok v \<Longrightarrow> json_parse (json_stringify v) = Some v"
  using json_value_stringify [of v "[]"] by (simp add: json_parse_def ends_number_def skip_ws_def)

lemma json_parse_two:
  "json_ok v \<Longrightarrow> ends_number r \<Longrightarrow> skip_ws r \<noteq> [] \<Longrightarrow> json_parse (json_stringify v @ r) = None"
  by (simp add: json_parse_def json_value_stringify)

end
