(* ===== verification/Js_Integer.thy ===== *)
theory Js_Integer
  imports Js_Value
begin

text \<open>
  Integers as JavaScript numbers: the text of an integer below \<open>10^15\<close> is its decimal numeral,
  and the numeral reads back as the integer.  Identifiers, counters and times are such numbers.
  So does 0.7, the default temperature of the playground.
\<close>

section \<open>The decimal exponent\<close>

lemma dec_exp_up_bounds:
  assumes "pow10 (m - 1) \<le> x" and "x < pow10 (m + int f)"
  shows "pow10 (dec_exp_up f x m - 1) \<le> x \<and> x < pow10 (dec_exp_up f x m)"
  using assms
proof (induction f arbitrary: m)
  case (Suc f)
  show ?case
  proof (cases "x < pow10 m")
    case False
    then have "pow10 (m + 1 - 1) \<le> x" "x < pow10 (m + 1 + int f)" using Suc.prems by (simp_all add: algebra_simps)
    from Suc.IH [OF this] False show ?thesis by simp
  qed (use Suc in simp)
qed simp

lemma pow10_nonneg: "0 \<le> e \<Longrightarrow> pow10 e = of_int (10 ^ nat e)"
  by (simp add: pow10_def)

lemma pow10_neg: "e \<le> 0 \<Longrightarrow> pow10 e \<le> 1"
  by (cases "e = 0") (simp_all add: pow10_def)

text \<open>The estimate of the decimal exponent by the binary one, for numbers of up to 50 bits.\<close>

lemma exp_estimate:
  assumes "e < 50"
  shows "(10::int) ^ (e * 30103 div 100000) \<le> 2 ^ e \<and> (2::int) ^ (e + 1) \<le> 10 ^ (e * 30103 div 100000 + 2)"
proof -
  have "list_all (\<lambda>e. (10::int) ^ (e * 30103 div 100000) \<le> 2 ^ e \<and>
      (2::int) ^ (e + 1) \<le> 10 ^ (e * 30103 div 100000 + 2)) [0..<50]"
    by (simp add: upt_rec)
  with assms show ?thesis by (simp add: list_all_iff)
qed

lemma dec_exp_int:
  assumes "0 < n" and "n < 10 ^ 15"
  obtains D where "dec_exp (of_int n) = int D" and "1 \<le> D" and "D \<le> 15"
    and "10 ^ (D - 1) \<le> n" and "n < 10 ^ D"
proof -
  define e where "e = nat (bit_len n - 1)"
  have b: "1 \<le> bit_len n" "2 ^ e \<le> n" "n < 2 ^ (e + 1)"
  proof -
    have "1 \<le> bit_len n" using bit_len_bounds [OF assms(1)] by (rule conjunct1)
    then have "nat (bit_len n) = e + 1" unfolding e_def by linarith
    then show "1 \<le> bit_len n" "2 ^ e \<le> n" "n < 2 ^ (e + 1)"
      using bit_len_bounds [OF assms(1)] by (simp_all only: e_def)
  qed
  have "e < 50"
  proof (rule ccontr)
    assume "\<not> e < 50"
    then have "(2::int) ^ 50 \<le> 2 ^ e" by (intro power_increasing) auto
    with b assms(2) show False by simp
  qed
  note est = exp_estimate [OF this]
  define q where "q = e * 30103 div 100000"
  have l: "rat_log2 (of_int n) = int e" using b(1) by (simp add: rat_log2_int [OF assms(1)] e_def)
  have "int e * 30103 div 100000 = int q" by (simp add: q_def zdiv_int)
  then have d: "dec_exp (of_int n) = dec_exp_up 4 (of_int n) (int q - 1)" by (simp add: dec_exp_def l)
  have lo: "pow10 (int q - 1 - 1) \<le> of_int n"
  proof (cases "2 \<le> q")
    case True
    then have "(10::int) ^ (q - 2) \<le> 10 ^ q" by (intro power_increasing) auto
    also have "\<dots> \<le> n" using est b(2) unfolding q_def by linarith
    finally have "(of_int (10 ^ (q - 2)) :: rat) \<le> of_int n" by (simp only: of_int_le_iff)
    moreover have "nat (int q - 1 - 1) = q - 2" by simp
    ultimately show ?thesis using True by (simp add: pow10_def)
  next
    case False
    then have "pow10 (int q - 1 - 1) \<le> 1" by (intro pow10_neg) simp
    also have "\<dots> \<le> of_int n" using assms(1) by simp
    finally show ?thesis .
  qed
  have "n < 10 ^ (q + 2)" using est b(3) unfolding q_def by linarith
  also have "(10::int) ^ (q + 2) \<le> 10 ^ (q + 3)" by (intro power_increasing) auto
  finally have "(of_int n :: rat) < of_int (10 ^ (q + 3))" by (simp only: of_int_less_iff)
  then have hi: "of_int n < pow10 (int q - 1 + int 4)" by (simp add: pow10_nonneg nat_add_distrib add.commute)
  define r where "r = dec_exp (of_int n)"
  have r: "pow10 (r - 1) \<le> of_int n" "of_int n < pow10 r"
    using dec_exp_up_bounds [OF lo hi] by (simp_all add: r_def d)
  have "0 < r"
  proof (rule ccontr)
    assume "\<not> 0 < r"
    then have "pow10 r \<le> 1" by (intro pow10_neg) simp
    with r(2) assms(1) show False by simp
  qed
  define D where "D = nat r"
  have D: "r = int D" "1 \<le> D" using \<open>0 < r\<close> by (simp_all add: D_def)
  have "(of_int (10 ^ (D - 1)) :: rat) \<le> of_int n" "(of_int n :: rat) < of_int (10 ^ D)"
    using r D by (simp_all add: pow10_nonneg nat_diff_distrib)
  then have n: "10 ^ (D - 1) \<le> n" "n < 10 ^ D" by (simp_all only: of_int_le_iff of_int_less_iff)
  have "D \<le> 15"
  proof (rule ccontr)
    assume "\<not> D \<le> 15"
    then have "(10::int) ^ 15 \<le> 10 ^ (D - 1)" by (intro power_increasing) auto
    with n(1) assms(2) show False by simp
  qed
  with D n show thesis by (intro that) (simp_all add: r_def [symmetric])
qed

section \<open>The shortest numeral\<close>

lemma round_half_even_bounds: "floor y \<le> round_half_even y \<and> round_half_even y \<le> floor y + 1"
  by (simp add: round_half_even_def Let_def)

lemma shortest_step:
  assumes "0 < n" and "n < 10 ^ 15" and "10 ^ (D - 1) \<le> n" and "n < 10 ^ D" and "1 \<le> k" and "k \<le> D"
  obtains s where "k = D \<Longrightarrow> s * 10 ^ (D - k) = n"
    and "shortest_from (Suc f) (of_int n) (int D) (int k) =
      (if s * 10 ^ (D - k) = n then (s, int k, int D) else shortest_from f (of_int n) (int D) (int (Suc k)))"
proof -
  define P where "P = (10::int) ^ (D - k)"
  have P: "0 < P" by (simp add: P_def)
  have pow: "pow10 (int D - int k) = of_int P" using assms(6) by (simp add: pow10_nonneg P_def nat_diff_distrib)
  define s where "s = round_half_even ((of_int n :: rat) / of_int P)"
  have s: "n div P \<le> s" "s \<le> n div P + 1"
    using round_half_even_bounds [of "(of_int n :: rat) / of_int P"] by (simp_all add: s_def floor_divide_of_int_eq)
  have "0 \<le> n div P" using assms(1) P by (simp add: pos_imp_zdiv_nonneg_iff)
  then have s0: "0 \<le> s * P" using s(1) P by simp
  have "s * P \<le> (n div P + 1) * P" using s(2) P by (intro mult_right_mono) auto
  also have "\<dots> = (n div P) * P + P" by (simp add: algebra_simps)
  also have "\<dots> \<le> n + P" using div_mult_mod_eq [of n P] pos_mod_sign [OF P, of n] by linarith
  also have "P \<le> 10 ^ (D - 1)" unfolding P_def using assms(5) by (intro power_increasing) auto
  also have "n + 10 ^ (D - 1) \<le> n + n" using assms(3) by simp
  finally have "\<bar>s * P\<bar> < 2 ^ 53" using assms(2) s0 by simp
  then have d: "to_double (of_int s * of_int P) = Fin (of_int (s * P))"
    using to_double_int [of "s * P"] by simp
  have t: "to_double (of_int s * pow10 (int D - int k)) = Fin (of_int n) \<longleftrightarrow> s * P = n"
    unfolding pow d by (simp only: jnum.inject of_int_eq_iff)
  have "of_int s \<noteq> pow10 (int k)" if "s * P = n"
  proof
    assume "of_int s = pow10 (int k)"
    then have "s = 10 ^ k" by (simp add: pow10_def)
    then have "n = 10 ^ D" using that assms(6) by (simp add: P_def flip: power_add)
    with assms(4) show False by simp
  qed
  then have "shortest_from (Suc f) (of_int n) (int D) (int k) =
      (if s * P = n then (s, int k, int D) else shortest_from f (of_int n) (int D) (int (Suc k)))"
    using t by (simp add: Let_def pow s_def add.commute)
  moreover have "s * P = n" if "k = D" using that by (simp add: s_def P_def)
  ultimately show thesis by (intro that [of s]) (simp_all only: P_def)
qed

lemma shortest_int:
  assumes "0 < n" and "n < 10 ^ 15" and "10 ^ (D - 1) \<le> n" and "n < 10 ^ D"
    and "1 \<le> k" and "k \<le> D" and "D \<le> k + f"
  shows "\<exists>s k'. k' \<le> D \<and> shortest_from (Suc f) (of_int n) (int D) (int k) = (s, int k', int D) \<and>
    s * 10 ^ (D - k') = n"
  using assms(5-)
proof (induction f arbitrary: k)
  case 0
  obtain s where s: "k = D \<Longrightarrow> s * 10 ^ (D - k) = n" "shortest_from (Suc 0) (of_int n) (int D) (int k) =
      (if s * 10 ^ (D - k) = n then (s, int k, int D) else shortest_from 0 (of_int n) (int D) (int (Suc k)))"
    using shortest_step [OF assms(1-4) 0(1, 2), of 0 thesis] by blast
  with 0 show ?case by (intro exI [of _ s] exI [of _ k]) simp
next
  case (Suc f)
  obtain s where s: "k = D \<Longrightarrow> s * 10 ^ (D - k) = n" "shortest_from (Suc (Suc f)) (of_int n) (int D) (int k) =
      (if s * 10 ^ (D - k) = n then (s, int k, int D) else shortest_from (Suc f) (of_int n) (int D) (int (Suc k)))"
    using shortest_step [OF assms(1-4) Suc.prems(1, 2), of "Suc f" thesis] by blast
  show ?case
  proof (cases "s * 10 ^ (D - k) = n")
    case True
    with s(2) Suc.prems show ?thesis by (intro exI [of _ s] exI [of _ k]) simp
  next
    case False
    then have "k \<noteq> D" using s(1) by blast
    with Suc.prems have "1 \<le> Suc k" "Suc k \<le> D" "D \<le> Suc k + f" by simp_all
    from Suc.IH [OF this] False s(2) show ?thesis by (simp only: if_False)
  qed
qed

lemma dec_times_power: "0 < s \<Longrightarrow> dec (s * 10 ^ j) = dec s @ replicate j 48"
proof (induction j)
  case (Suc j)
  have "10 * 1 \<le> 10 * (s * 10 ^ j)" using Suc.prems by (intro mult_left_mono) (simp_all add: int_one_le_iff_zero_less)
  then have "dec_pos (10 * (s * 10 ^ j)) = dec_pos (s * 10 ^ j) @ [48]" by (subst dec_pos_step) simp_all
  moreover have "0 < s * 10 ^ j" using Suc.prems by simp
  ultimately have "dec (s * 10 ^ Suc j) = dec (s * 10 ^ j) @ [48]"
    by (simp add: dec_def algebra_simps not_less)
  with Suc show ?case by (simp add: replicate_append_same)
qed simp

lemma num_to_string_int:
  assumes "0 \<le> n" and "n < 10 ^ 15"
  shows "num_to_string (Fin (of_int n)) = dec n"
proof (cases "n = 0")
  case True
  then show ?thesis by (simp add: dec_def dec_pos_small)
next
  case False
  then have n: "0 < n" using assms by simp
  from dec_exp_int [OF n assms(2)] obtain D where D: "dec_exp (of_int n) = int D" "1 \<le> D" "D \<le> 15"
    "10 ^ (D - 1) \<le> n" "n < 10 ^ D" by blast
  have "D \<le> 1 + 15" using D(3) by simp
  from shortest_int [OF n assms(2) D(4, 5) order_refl D(2) this] obtain s k where
    s: "k \<le> D" "shortest_from (Suc 15) (of_int n) (int D) (int 1) = (s, int k, int D)" "s * 10 ^ (D - k) = n"
    by blast
  have e: "shortest_from 16 (of_int n) (dec_exp (of_int n)) 1 = (s, int k, int D)"
    using s(2) by (simp add: D(1) numeral_eq_Suc)
  have "0 < s" using s(3) n by (simp add: zero_less_mult_iff flip: s(3))
  from dec_times_power [OF this, of "D - k"] s(1, 3) have "dec s @ zeros (int D - int k) = dec n"
    by (simp add: zeros_def nat_diff_distrib)
  then have "pos_to_string (of_int n) = dec n"
    using s(1) D(3) by (simp add: pos_to_string_def e)
  with n show ?thesis by simp
qed

section \<open>Reading a numeral\<close>

lemma hd_dec: "0 < n \<Longrightarrow> hd (dec n) \<noteq> 48"
proof -
  have "0 < n \<Longrightarrow> dec_pos n \<noteq> [] \<and> hd (dec_pos n) \<noteq> 48" for n
  proof (induction n rule: dec_pos.induct)
    case (1 n)
    show ?case
    proof (cases "n < 10")
      case True
      with 1 show ?thesis by (simp add: dec_pos_small)
    next
      case False
      then have "0 < n div 10" by (simp add: pos_imp_zdiv_pos_iff)
      with 1 False show ?thesis by (simp add: dec_pos_step)
    qed
  qed
  then show "0 < n \<Longrightarrow> hd (dec n) \<noteq> 48" by (simp add: dec_def)
qed

lemma json_number_dec:
  assumes "0 \<le> n" and "n < 2 ^ 53"
  shows "json_number (dec n) = Some (Fin (of_int n), [])"
proof -
  have d: "dec n \<noteq> []" "\<forall>c\<in>set (dec n). is_digit c" using dec_digits [OF assms(1)] by auto
  then have w: "takeWhile is_digit (dec n) = dec n" "dropWhile is_digit (dec n) = []" by (simp_all add: takeWhile_eq_all_conv)
  have h: "is_digit (hd (dec n))" using d by (cases "dec n") auto
  have "json_int (dec n) = Some (dec n, [])"
  proof (cases "n = 0")
    case True
    then show ?thesis by (simp add: dec_def dec_pos_small json_int_def)
  next
    case False
    then have "hd (dec n) \<noteq> 48" using assms(1) by (intro hd_dec) simp
    with d h w show ?thesis by (cases "dec n") (simp_all add: json_int_def)
  qed
  then have "json_unsigned (dec n) = Some (of_int n, [])"
    using assms(1) by (simp add: json_unsigned_def json_frac_def json_exp_def after_def decimal_value_def pow10_def)
  moreover have "after 45 (dec n) = None" using h d(1) by (cases "dec n") (auto simp: after_def is_digit_def)
  moreover have "to_double (of_int n) = Fin (of_int n)" using assms by (intro to_double_int) simp
  ultimately show ?thesis by (simp add: json_number_def)
qed

lemma json_ok_int:
  assumes "0 \<le> n" and "n < 10 ^ 15"
  shows "json_ok (JNum (Fin (of_int n)))"
proof -
  have "json_num_text (Fin (of_int n)) = dec n"
    using num_to_string_int [OF assms] by (simp only: json_num_text_def jnum.case)
  with json_number_dec [of n] assms show ?thesis by simp
qed

lemma json_ok_numeral:
  "json_ok (JNum (Fin 0))" "json_ok (JNum (Fin 1))"
  "(numeral k :: int) < 10 ^ 15 \<Longrightarrow> json_ok (JNum (Fin (numeral k)))"
  using json_ok_int [of 0] json_ok_int [of 1] json_ok_int [of "numeral k"] by simp_all

text \<open>The texts of two such integers are equal only when the integers are.\<close>

lemma num_to_string_inj:
  assumes "0 \<le> m" "m < 10 ^ 15" "0 \<le> n" "n < 10 ^ 15"
  shows "num_to_string (Fin (of_int m)) = num_to_string (Fin (of_int n)) \<longleftrightarrow> m = n"
  unfolding num_to_string_int [OF assms(1, 2)] num_to_string_int [OF assms(3, 4)] by (rule dec_inj [OF assms(1, 3)])

section \<open>The number 0.7\<close>

lemma quotient_of_coprime: "0 < b \<Longrightarrow> coprime a b \<Longrightarrow> quotient_of (of_int a / of_int b) = (a, b)"
  by (simp add: Fract_of_int_quotient [symmetric] quotient_of_Fract)

lemma log2_seven_tenths: "rat_log2 (7 / 10) = - 1"
proof -
  have "coprime (7::int) 10" unfolding coprime_iff_gcd_eq_1 by code_simp
  then have "quotient_of (7 / 10) = (7, 10)" using quotient_of_coprime [of 10 7] by simp
  then show ?thesis by (simp add: rat_log2_def bit_len.simps pow2_def)
qed

lemma seven_tenths: "to_double (7 / 10) = Fin (3152519739159347 / 4503599627370496)"
proof -
  have "\<lfloor>31525197391593472 / 5 :: rat\<rfloor> = 6305039478318694"
    using floor_divide_of_int_eq [of 31525197391593472 5, where ?'a = rat] by simp
  then have "round_half_even (31525197391593472 / 5) = 6305039478318694"
    by (simp add: round_half_even_def)
  then show ?thesis by (simp add: to_double_def to_double_pos_def log2_seven_tenths pow2_def)
qed

lemma dec_exp_seven_tenths: "dec_exp (3152519739159347 / 4503599627370496) = 0"
proof -
  have "coprime (3152519739159347::int) 4503599627370496"
    unfolding coprime_iff_gcd_eq_1 by code_simp
  then have "quotient_of (3152519739159347 / 4503599627370496) = (3152519739159347, 4503599627370496)"
    using quotient_of_coprime [of 4503599627370496 3152519739159347] by simp
  then have "rat_log2 (3152519739159347 / 4503599627370496) = - 1"
    by (simp add: rat_log2_def bit_len.simps pow2_def)
  then show ?thesis by (simp add: dec_exp_def pow10_def numeral_eq_Suc)
qed

lemma shortest_seven_tenths:
  "shortest_from (Suc f) (3152519739159347 / 4503599627370496) 0 1 = (7, 1, 0)"
proof -
  have "\<lfloor>15762598695796735 / 2251799813685248 :: rat\<rfloor> = 6"
    using floor_divide_of_int_eq [of 15762598695796735 2251799813685248, where ?'a = rat] by simp
  then have "round_half_even (15762598695796735 / 2251799813685248) = 7"
    by (simp add: round_half_even_def)
  then show ?thesis by (simp add: pow10_def seven_tenths Let_def)
qed

lemma json_ok_seven_tenths: "json_ok (JNum (to_double (7 / 10)))"
proof -
  have "shortest_from 16 (3152519739159347 / 4503599627370496) 0 1 = (7, 1, 0)"
    using shortest_seven_tenths [of 15] by simp
  then have "num_to_string (to_double (7 / 10)) = js ''0.7''"
    by (simp add: seven_tenths pos_to_string_def dec_exp_seven_tenths dec_def dec_pos.simps zeros_def)
  moreover have "json_number (js ''0.7'') = Some (to_double (7 / 10), [])"
    by (simp add: json_number_def after_def json_unsigned_def json_int_def json_frac_def json_exp_def
        is_digit_def decimal_value_def digits_value_def pow10_def)
  ultimately show ?thesis by (simp add: json_num_text_def seven_tenths)
qed

end
