(* ===== verification/Playground_Storage.thy ===== *)
theory Playground_Storage
  imports Playground_Chat Js_Integer "HOL-Library.Monad_Syntax"
begin

text \<open>
  What the playground keeps between visits (\<open>features/playground/lib/storage.ts\<close>) and
  the state hook that loads and saves it (\<open>hooks/use-playground-state.ts\<close>).

  The local storage is a map from keys to texts; \<open>full\<close> says that writing fails, which the
  source catches and logs.  The configuration and the enabled parameters are objects, as they
  are spread and written as a whole.  A message is written as the object of its properties
  without the attachments; properties that are \<open>undefined\<close> are left out.  The code casts the
  stored array to messages; \<open>message_of\<close> reads the objects that the code writes, and an array
  with anything else is \<open>Untyped\<close>, for which nothing is claimed.

  The main results: what is saved is what is loaded, with stuck messages settled; a
  reload during an orderly chat leaves no message waiting; and the configuration survives any
  sequence of updates and reloads.
\<close>

section \<open>Storage\<close>

type_synonym storage = "jstr \<Rightarrow> jstr option"

definition STORAGE_CONFIG :: jstr where "STORAGE_CONFIG = js ''playground_config''"
definition STORAGE_MESSAGES :: jstr where "STORAGE_MESSAGES = js ''playground_messages''"
definition STORAGE_PARAMETER_ENABLED :: jstr where
  "STORAGE_PARAMETER_ENABLED = js ''playground_parameter_enabled''"

definition setItem :: "bool \<Rightarrow> jstr \<Rightarrow> jstr \<Rightarrow> storage \<Rightarrow> storage" where
  "setItem full key text st = (if full then st else st(key := Some text))"

text \<open>The saved text, unless it is missing or empty.\<close>

definition saved :: "jstr \<Rightarrow> storage \<Rightarrow> jstr option" where
  "saved key st = (case st key of None \<Rightarrow> None | Some t \<Rightarrow> if t = [] then None else Some t)"

definition load_value :: "jstr \<Rightarrow> storage \<Rightarrow> json" where
  "load_value key st =
     (case saved key st of
        None \<Rightarrow> JObj []
      | Some t \<Rightarrow> (case json_parse t of None \<Rightarrow> JObj [] | Some v \<Rightarrow> v))"

definition loadConfig :: "storage \<Rightarrow> json" where
  "loadConfig st = load_value STORAGE_CONFIG st"

definition saveConfig :: "bool \<Rightarrow> props \<Rightarrow> storage \<Rightarrow> storage" where
  "saveConfig full config st = setItem full STORAGE_CONFIG (json_stringify (JObj config)) st"

definition loadParameterEnabled :: "storage \<Rightarrow> json" where
  "loadParameterEnabled st = load_value STORAGE_PARAMETER_ENABLED st"

definition saveParameterEnabled :: "bool \<Rightarrow> props \<Rightarrow> storage \<Rightarrow> storage" where
  "saveParameterEnabled full enabled st =
     setItem full STORAGE_PARAMETER_ENABLED (json_stringify (JObj enabled)) st"

section \<open>Messages as objects\<close>

definition role_name :: "MessageRole \<Rightarrow> jstr" where
  "role_name r = (case r of RoleUser \<Rightarrow> js ''user'' | RoleAssistant \<Rightarrow> js ''assistant'' | RoleSystem \<Rightarrow> js ''system'')"

definition message_status_name :: "MessageStatus \<Rightarrow> jstr" where
  "message_status_name s =
     (case s of StLoading \<Rightarrow> js ''loading'' | StStreaming \<Rightarrow> js ''streaming''
      | StComplete \<Rightarrow> js ''complete'' | StError \<Rightarrow> js ''error'')"

definition version_json :: "MessageVersion \<Rightarrow> json" where
  "version_json v = JObj [(js ''id'', JStr (mv_id v)), (js ''content'', JStr (mv_content v))]"

definition source_json :: "jstr \<times> jstr \<Rightarrow> json" where
  "source_json s = JObj [(js ''href'', JStr (fst s)), (js ''title'', JStr (snd s))]"

definition reasoning_json :: "Reasoning \<Rightarrow> json" where
  "reasoning_json r = JObj [(js ''content'', JStr (rs_content r)), (js ''duration'', JNum (Fin (of_int (rs_duration r))))]"

text \<open>The properties of \<open>{ attachments, ...message }\<close> but the attachments, as far as they are
  defined.\<close>

definition message_fields :: "Message \<Rightarrow> (jstr \<times> json option) list" where
  "message_fields m =
     [(js ''key'', Some (JStr (msg_key m))),
      (js ''from'', Some (JStr (role_name (msg_from m)))),
      (js ''versions'', Some (JArr (map version_json (msg_versions m)))),
      (js ''sources'', map_option (\<lambda>xs. JArr (map source_json xs)) (msg_sources m)),
      (js ''reasoning'', map_option reasoning_json (msg_reasoning m)),
      (js ''isReasoningStreaming'', map_option JBool (msg_isReasoningStreaming m)),
      (js ''isReasoningComplete'', map_option JBool (msg_isReasoningComplete m)),
      (js ''isContentComplete'', map_option JBool (msg_isContentComplete m)),
      (js ''status'', map_option (\<lambda>s. JStr (message_status_name s)) (msg_status m)),
      (js ''errorCode'', map_option (\<lambda>c. case c of None \<Rightarrow> JNull | Some v \<Rightarrow> v) (msg_errorCode m))]"

definition message_json :: "Message \<Rightarrow> json" where
  "message_json m = JObj (defined_props (message_fields m))"

definition saveMessages :: "bool \<Rightarrow> Message list \<Rightarrow> storage \<Rightarrow> storage" where
  "saveMessages full messages st =
     setItem full STORAGE_MESSAGES (json_stringify (JArr (map message_json messages))) st"

text \<open>Reading the objects back.\<close>

definition str_of :: "json \<Rightarrow> jstr option" where
  "str_of v = (case v of JStr s \<Rightarrow> Some s | _ \<Rightarrow> None)"

definition bool_of :: "json \<Rightarrow> bool option" where
  "bool_of v = (case v of JBool b \<Rightarrow> Some b | _ \<Rightarrow> None)"

definition int_of :: "json \<Rightarrow> int option" where
  "int_of v = (case v of JNum (Fin x) \<Rightarrow> if of_int (floor x) = x then Some (floor x) else None | _ \<Rightarrow> None)"

definition list_of :: "(json \<Rightarrow> 'a option) \<Rightarrow> json \<Rightarrow> 'a list option" where
  "list_of f v = (case v of JArr vs \<Rightarrow> map_opt f vs | _ \<Rightarrow> None)"

definition req :: "(json \<Rightarrow> 'a option) \<Rightarrow> jstr \<Rightarrow> props \<Rightarrow> 'a option" where
  "req f k ps = (case get k ps of None \<Rightarrow> None | Some v \<Rightarrow> f v)"

definition opt :: "(json \<Rightarrow> 'a option) \<Rightarrow> jstr \<Rightarrow> props \<Rightarrow> 'a option option" where
  "opt f k ps = (case get k ps of None \<Rightarrow> Some None | Some v \<Rightarrow> map_option Some (f v))"

definition object_of :: "(props \<Rightarrow> 'a option) \<Rightarrow> json \<Rightarrow> 'a option" where
  "object_of f v = (case v of JObj ps \<Rightarrow> f ps | _ \<Rightarrow> None)"

definition role_of :: "json \<Rightarrow> MessageRole option" where
  "role_of v = find (\<lambda>r. v = JStr (role_name r)) [RoleUser, RoleAssistant, RoleSystem]"

definition status_of :: "json \<Rightarrow> MessageStatus option" where
  "status_of v = find (\<lambda>s. v = JStr (message_status_name s)) [StLoading, StStreaming, StComplete, StError]"

definition version_of :: "json \<Rightarrow> MessageVersion option" where
  "version_of = object_of (\<lambda>ps. do {
     i \<leftarrow> req str_of (js ''id'') ps;
     c \<leftarrow> req str_of (js ''content'') ps;
     Some \<lparr>mv_id = i, mv_content = c\<rparr> })"

definition source_of :: "json \<Rightarrow> (jstr \<times> jstr) option" where
  "source_of = object_of (\<lambda>ps. do {
     h \<leftarrow> req str_of (js ''href'') ps;
     t \<leftarrow> req str_of (js ''title'') ps;
     Some (h, t) })"

definition reasoning_of :: "json \<Rightarrow> Reasoning option" where
  "reasoning_of = object_of (\<lambda>ps. do {
     c \<leftarrow> req str_of (js ''content'') ps;
     d \<leftarrow> req int_of (js ''duration'') ps;
     Some \<lparr>rs_content = c, rs_duration = d\<rparr> })"

definition message_of :: "json \<Rightarrow> Message option" where
  "message_of = object_of (\<lambda>ps. do {
     k \<leftarrow> req str_of (js ''key'') ps;
     from \<leftarrow> req role_of (js ''from'') ps;
     versions \<leftarrow> req (list_of version_of) (js ''versions'') ps;
     sources \<leftarrow> opt (list_of source_of) (js ''sources'') ps;
     reasoning \<leftarrow> opt reasoning_of (js ''reasoning'') ps;
     rs \<leftarrow> opt bool_of (js ''isReasoningStreaming'') ps;
     rc \<leftarrow> opt bool_of (js ''isReasoningComplete'') ps;
     cc \<leftarrow> opt bool_of (js ''isContentComplete'') ps;
     status \<leftarrow> opt status_of (js ''status'') ps;
     code \<leftarrow> opt (\<lambda>v. Some (if v = JNull then None else Some v)) (js ''errorCode'') ps;
     if get (js ''attachments'') ps \<noteq> None then None
     else Some \<lparr>msg_key = k, msg_from = from, msg_versions = versions, msg_attachments = None,
       msg_sources = sources, msg_reasoning = reasoning, msg_isReasoningStreaming = rs,
       msg_isReasoningComplete = rc, msg_isContentComplete = cc, msg_status = status,
       msg_errorCode = code\<rparr> })"

datatype loaded = NoMessages | Loaded "Message list" | Untyped

definition loadMessages :: "bool \<Rightarrow> storage \<Rightarrow> loaded \<times> storage" where
  "loadMessages full st =
     (case saved STORAGE_MESSAGES st of
        None \<Rightarrow> (NoMessages, st)
      | Some t \<Rightarrow>
          (case json_parse t of
             Some (JArr vs) \<Rightarrow>
               (case map_opt message_of vs of
                  None \<Rightarrow> (Untyped, st)
                | Some parsed \<Rightarrow>
                    (let sanitized = sanitizeMessagesOnLoad parsed in
                     (Loaded sanitized,
                      if last_stuck parsed (length parsed) \<noteq> None then saveMessages full sanitized st else st)))
           | _ \<Rightarrow> (NoMessages, st)))"

definition clearPlaygroundData :: "storage \<Rightarrow> storage" where
  "clearPlaygroundData st =
     st(STORAGE_CONFIG := None, STORAGE_PARAMETER_ENABLED := None, STORAGE_MESSAGES := None)"

section \<open>The state hook\<close>

definition DEFAULT_CONFIG :: props where
  "DEFAULT_CONFIG =
     [(js ''model'', JStr (js ''gpt-4o'')), (js ''group'', JStr (js ''default'')),
      (js ''temperature'', JNum (to_double (7 / 10))), (js ''top_p'', JNum (Fin 1)),
      (js ''max_tokens'', JNum (Fin 4096)), (js ''frequency_penalty'', JNum (Fin 0)),
      (js ''presence_penalty'', JNum (Fin 0)), (js ''seed'', JNull), (js ''stream'', JBool True),
      (js ''web_search'', JBool False)]"

definition DEFAULT_PARAMETER_ENABLED :: props where
  "DEFAULT_PARAMETER_ENABLED =
     [(js ''temperature'', JBool True), (js ''top_p'', JBool True), (js ''max_tokens'', JBool False),
      (js ''frequency_penalty'', JBool True), (js ''presence_penalty'', JBool True), (js ''seed'', JBool False)]"

text \<open>The own properties that spreading a value copies: those of an object, the elements of
  an array or the code units of a string under their indices, and none of anything else.\<close>

fun spread_props :: "json \<Rightarrow> props" where
  "spread_props (JObj ps) = ps"
| "spread_props (JArr vs) = map (\<lambda>(i, v). (dec (int i), v)) (enumerate 0 vs)"
| "spread_props (JStr s) = map (\<lambda>(i, c). (dec (int i), JStr [c])) (enumerate 0 s)"
| "spread_props _ = []"

record PlaygroundState =
  ps_config :: props
  ps_enabled :: props
  ps_messages :: "Message list"
  ps_storage :: storage

text \<open>Opening the page: the initial values of the three states.  A storage whose array does
  not hold messages has no initial state in the model.\<close>

definition openPlayground :: "bool \<Rightarrow> storage \<Rightarrow> PlaygroundState option" where
  "openPlayground full st =
     (case loadMessages full st of
        (Untyped, _) \<Rightarrow> None
      | (r, st') \<Rightarrow>
          Some \<lparr>ps_config = spread DEFAULT_CONFIG (spread_props (loadConfig st)),
                ps_enabled = spread DEFAULT_PARAMETER_ENABLED (spread_props (loadParameterEnabled st)),
                ps_messages = (case r of Loaded ms \<Rightarrow> ms | _ \<Rightarrow> []),
                ps_storage = st'\<rparr>)"

definition updateConfig :: "bool \<Rightarrow> jstr \<Rightarrow> json \<Rightarrow> PlaygroundState \<Rightarrow> PlaygroundState" where
  "updateConfig full key v s =
     (let updated = prop_set key v (ps_config s) in
      s\<lparr>ps_config := updated, ps_storage := saveConfig full updated (ps_storage s)\<rparr>)"

definition updateParameterEnabled :: "bool \<Rightarrow> jstr \<Rightarrow> bool \<Rightarrow> PlaygroundState \<Rightarrow> PlaygroundState" where
  "updateParameterEnabled full key b s =
     (let updated = prop_set key (JBool b) (ps_enabled s) in
      s\<lparr>ps_enabled := updated, ps_storage := saveParameterEnabled full updated (ps_storage s)\<rparr>)"

definition update_messages :: "bool \<Rightarrow> (Message list \<Rightarrow> Message list) \<Rightarrow> PlaygroundState \<Rightarrow> PlaygroundState" where
  "update_messages full updater s =
     (let newMessages = updater (ps_messages s) in
      s\<lparr>ps_messages := newMessages, ps_storage := saveMessages full newMessages (ps_storage s)\<rparr>)"

definition clearMessages :: "bool \<Rightarrow> PlaygroundState \<Rightarrow> PlaygroundState" where
  "clearMessages full s = update_messages full (\<lambda>_. []) s"

definition resetConfig :: "bool \<Rightarrow> bool \<Rightarrow> PlaygroundState \<Rightarrow> PlaygroundState" where
  "resetConfig full full' s =
     s\<lparr>ps_config := DEFAULT_CONFIG, ps_enabled := DEFAULT_PARAMETER_ENABLED,
       ps_storage := saveParameterEnabled full' DEFAULT_PARAMETER_ENABLED
                       (saveConfig full DEFAULT_CONFIG (ps_storage s))\<rparr>"

section \<open>Messages read back\<close>

text \<open>What is kept of a message, and the messages that can be written without loss: texts of
  code units, durations that are whole milliseconds, error codes of the server's JSON.\<close>

definition strip_attachments :: "Message \<Rightarrow> Message" where
  "strip_attachments m = m\<lparr>msg_attachments := None\<rparr>"

definition message_ok :: "Message \<Rightarrow> bool" where
  "message_ok m \<longleftrightarrow> code_units (msg_key m) \<and>
     list_all (\<lambda>v. code_units (mv_id v) \<and> code_units (mv_content v)) (msg_versions m) \<and>
     pred_option (list_all (\<lambda>s. code_units (fst s) \<and> code_units (snd s))) (msg_sources m) \<and>
     pred_option (\<lambda>r. code_units (rs_content r) \<and> 0 \<le> rs_duration r \<and> rs_duration r < 10 ^ 15) (msg_reasoning m) \<and>
     pred_option (pred_option (\<lambda>v. v \<noteq> JNull \<and> json_ok v)) (msg_errorCode m)"

lemma named_keys: "list_all (\<lambda>k. \<not> is_index_key k \<and> code_units k) (map fst (message_fields m))"
  by (simp add: message_fields_def is_index_key_def is_digit_def code_units_def)

lemma message_keys_distinct: "distinct (map fst (message_fields m))"
  by (simp add: message_fields_def)

lemma small_object_ok:
  "json_ok v \<Longrightarrow> json_ok w \<Longrightarrow> json_ok (JObj [(js ''content'', v), (js ''duration'', w)])"
  "json_ok v \<Longrightarrow> json_ok w \<Longrightarrow> json_ok (JObj [(js ''id'', v), (js ''content'', w)])"
  "json_ok v \<Longrightarrow> json_ok w \<Longrightarrow> json_ok (JObj [(js ''href'', v), (js ''title'', w)])"
  by (rule json_ok_object; force simp: is_index_key_def is_digit_def code_units_def)+

lemma message_json_ok:
  assumes "message_ok m"
  shows "json_ok (message_json m)"
  unfolding message_json_def
proof (rule json_ok_defined [OF message_keys_distinct named_keys])
  have names: "code_units (role_name r)" "code_units (message_status_name t)" for r t
    by (simp_all add: role_name_def message_status_name_def code_units_def split: MessageRole.split MessageStatus.split)
  have versions: "json_ok (JArr (map version_json (msg_versions m)))"
    using assms small_object_ok(2) by (auto simp: message_ok_def list_all_iff version_json_def simp del: json_ok.simps(4))
  have sources: "pred_option json_ok (map_option (\<lambda>xs. JArr (map source_json xs)) (msg_sources m))"
    using assms small_object_ok(3)
    by (cases "msg_sources m") (auto simp: message_ok_def list_all_iff source_json_def simp del: json_ok.simps(4))
  have reasoning: "pred_option json_ok (map_option reasoning_json (msg_reasoning m))"
    using assms small_object_ok(1) json_ok_int
    by (cases "msg_reasoning m") (auto simp: message_ok_def reasoning_json_def simp del: json_ok.simps(1,4))
  have code: "pred_option json_ok (map_option (\<lambda>c. case c of None \<Rightarrow> JNull | Some v \<Rightarrow> v) (msg_errorCode m))"
    using assms by (cases "msg_errorCode m") (auto simp: message_ok_def split: option.splits)
  show "list_all (\<lambda>(k, v). pred_option json_ok v) (message_fields m)"
    using assms names versions sources reasoning code
    by (simp add: message_fields_def message_ok_def option.pred_map comp_def option.pred_True del: json_ok.simps(3))
qed

lemma reads [simp]:
  "str_of (JStr s) = Some s" "bool_of (JBool b) = Some b" "int_of (JNum (Fin (of_int n))) = Some n"
  "role_of (JStr (role_name r)) = Some r" "status_of (JStr (message_status_name t)) = Some t"
  by (simp_all add: str_of_def bool_of_def int_of_def role_of_def status_of_def role_name_def
      message_status_name_def split: MessageRole.split MessageStatus.split)

lemma reads_parts [simp]:
  "version_of (version_json v) = Some v" "source_of (source_json s) = Some s"
  "reasoning_of (reasoning_json r) = Some r"
  by (simp_all add: version_of_def version_json_def source_of_def source_json_def reasoning_of_def
      reasoning_json_def object_of_def req_def get_def)

lemma map_opt_back: "(\<And>x. x \<in> set xs \<Longrightarrow> g (f x) = Some (h x)) \<Longrightarrow> map_opt g (map f xs) = Some (map h xs)"
  by (induction xs) auto

lemma opt_map:
  "get k ps = map_option e x \<Longrightarrow> (\<And>y. x = Some y \<Longrightarrow> f (e y) = Some y) \<Longrightarrow> opt f k ps = Some x"
  by (cases x) (simp_all add: opt_def)

lemma message_of_json:
  assumes "pred_option (pred_option (\<lambda>v. v \<noteq> JNull)) (msg_errorCode m)"
  shows "message_of (message_json m) = Some (strip_attachments m)"
proof -
  define ps where "ps = defined_props (message_fields m)"
  have g: "get k ps = (case map_of (message_fields m) k of None \<Rightarrow> None | Some v \<Rightarrow> v)" for k
    unfolding ps_def by (rule get_defined_props [OF message_keys_distinct])
  have req: "req str_of (js ''key'') ps = Some (msg_key m)"
      "req role_of (js ''from'') ps = Some (msg_from m)"
      "req (list_of version_of) (js ''versions'') ps = Some (msg_versions m)"
    using map_opt_back [of "msg_versions m" version_of version_json id]
    by (simp_all add: req_def g message_fields_def list_of_def)
  have "opt (list_of source_of) (js ''sources'') ps = Some (msg_sources m)"
    using map_opt_back [of _ source_of source_json id]
    by (intro opt_map [where e = "\<lambda>xs. JArr (map source_json xs)"]) (simp_all add: g message_fields_def list_of_def)
  moreover have "opt reasoning_of (js ''reasoning'') ps = Some (msg_reasoning m)"
    by (intro opt_map [where e = reasoning_json]) (simp_all add: g message_fields_def)
  moreover have "opt bool_of (js ''isReasoningStreaming'') ps = Some (msg_isReasoningStreaming m)"
      "opt bool_of (js ''isReasoningComplete'') ps = Some (msg_isReasoningComplete m)"
      "opt bool_of (js ''isContentComplete'') ps = Some (msg_isContentComplete m)"
    by (intro opt_map [where e = JBool]; simp add: g message_fields_def)+
  moreover have "opt status_of (js ''status'') ps = Some (msg_status m)"
    by (intro opt_map [where e = "\<lambda>t. JStr (message_status_name t)"]) (simp_all add: g message_fields_def)
  moreover have "opt (\<lambda>v. Some (if v = JNull then None else Some v)) (js ''errorCode'') ps = Some (msg_errorCode m)"
    using assms
    by (intro opt_map [where e = "\<lambda>c. case c of None \<Rightarrow> JNull | Some v \<Rightarrow> v"])
      (auto simp: g message_fields_def split: option.splits)
  moreover have "get (js ''attachments'') ps = None" by (simp add: g message_fields_def)
  ultimately show ?thesis
    using req unfolding message_of_def message_json_def object_of_def ps_def [symmetric]
    by (simp add: strip_attachments_def)
qed

lemma messages_back:
  assumes "list_all message_ok ms"
  shows "map_opt message_of (map message_json ms) = Some (map strip_attachments ms)"
  using assms
  by (intro map_opt_back message_of_json) (auto simp: list_all_iff message_ok_def split: option.splits
      elim!: option.pred_mono_strong)

section \<open>Settling messages on load\<close>

lemma strip_facts [simp]:
  "stuck (strip_attachments m) = stuck m" "message_json (strip_attachments m) = message_json m"
  "message_ok (strip_attachments m) = message_ok m" "strip_attachments (strip_attachments m) = strip_attachments m"
  by (simp_all add: strip_attachments_def stuck_def pending_def message_json_def message_fields_def message_ok_def)

lemma think_text_set:
  "set (concat (map fst segs)) \<union> set (concat (map snd segs)) \<union> set tail \<subseteq> set (think_text segs tail)"
  by (induction segs tail rule: think_text.induct) auto

lemma code_units_sub: "code_units s \<Longrightarrow> set t \<subseteq> insert 10 (set s) \<Longrightarrow> code_units t"
  unfolding code_units_def by fastforce

lemma parse_units:
  assumes "code_units s"
  shows "code_units (tt_visibleContent (parseThinkTags s))" and "code_units (tt_reasoning (parseThinkTags s))"
proof -
  obtain segs v r where d: "plain_segs segs" "\<not> str_includes think_open v" "\<not> str_includes think_close r"
    and s: "s = think_text segs v \<or> s = think_text segs (v @ think_open @ r)"
    using think_decomposition [of s] by blast
  have j: "set (trim (join [10, 10] ps)) \<subseteq> insert 10 (set (concat ps))" for ps
    using set_trim_subset [of "join [10, 10] ps"] set_join_subset [of "[10, 10]" ps] by fastforce
  have t: "set (trim u) \<subseteq> insert 10 (set u)" for u using set_trim_subset [of u] by blast
  have sub: "set (tt_visibleContent (parseThinkTags s)) \<subseteq> insert 10 (set s) \<and>
      set (tt_reasoning (parseThinkTags s)) \<subseteq> insert 10 (set s)"
  proof (cases "s = think_text segs v")
    case True
    then show ?thesis
      using parse_closed [OF d(1,2)] j [of "map snd segs"] t [of "concat (map fst segs) @ v"]
        think_text_set [of segs v] by (auto simp del: set_concat)
  next
    case False
    with s have "s = think_text segs (v @ think_open @ r)" by blast
    then show ?thesis
      using parse_unclosed [OF d] j [of "map snd segs @ [r]"] t [of "concat (map fst segs) @ v"]
        think_text_set [of segs "v @ think_open @ r"] by (fastforce simp del: set_concat)
  qed
  show "code_units (tt_visibleContent (parseThinkTags s))" "code_units (tt_reasoning (parseThinkTags s))"
    using code_units_sub [OF assms] sub by blast+
qed

lemma current_version_ok:
  "message_ok m \<Longrightarrow> code_units (mv_id (getCurrentVersion m)) \<and> code_units (mv_content (getCurrentVersion m))"
  by (auto simp: message_ok_def getCurrentVersion_def code_units_def split: list.split)

lemma update_content_ok: "message_ok m \<Longrightarrow> code_units c \<Longrightarrow> message_ok (updateCurrentVersionContent m c)"
  using current_version_ok [of m] by (simp add: message_ok_def updateCurrentVersionContent_def)

lemma finalize_ok:
  assumes "message_ok m"
  shows "message_ok (finalizeMessage m None)"
proof -
  let ?tags = "parseThinkTags (mv_content (getCurrentVersion m))"
  have "message_ok (updateCurrentVersionContent m (tt_visibleContent ?tags))"
    using assms current_version_ok parse_units by (intro update_content_ok) auto
  moreover have "code_units (reasoning_text m)"
    using assms by (cases "msg_reasoning m") (simp_all add: reasoning_text_def message_ok_def code_units_def [of "[]"])
  then have "code_units (or_str (reasoning_text m) (tt_reasoning ?tags))"
    using current_version_ok [OF assms] parse_units(2) by (simp add: or_str_def)
  ultimately show ?thesis
    using assms
    by (cases "msg_reasoning m") (simp_all add: finalizeMessage_def message_ok_def Let_def or_str_def [of "[]"])
qed

lemma sanitize_message_ok: "message_ok m \<Longrightarrow> message_ok (sanitize_message m)"
proof -
  assume m: "message_ok m"
  have e: "code_units (API_REQUEST_ERROR @ js '': '' @ INTERRUPTED)"
    by (simp add: API_REQUEST_ERROR_def INTERRUPTED_def code_units_def)
  have "message_ok (m'\<lparr>msg_status := x, msg_isReasoningStreaming := y\<rparr>) = message_ok m'" for m' x y
    by (simp add: message_ok_def)
  then show ?thesis
    using finalize_ok [OF m] update_content_ok [OF finalize_ok [OF m] e] by (simp add: sanitize_message_def Let_def)
qed

lemma last_stuck_iff: "last_stuck ms (length ms) = None \<longleftrightarrow> (\<forall>m\<in>set ms. \<not> stuck m)"
proof (cases "last_stuck ms (length ms)")
  case None
  then show ?thesis using last_stuck_None [OF None] by (auto simp: in_set_conv_nth)
next
  case (Some i)
  then show ?thesis using last_stuck_Some [OF Some] nth_mem [of i ms] by auto
qed

lemma sanitize_ok: "list_all message_ok ms \<Longrightarrow> list_all message_ok (sanitizeMessagesOnLoad ms)"
  by (auto simp: sanitizeMessagesOnLoad_def list_all_length nth_list_update sanitize_message_ok
      dest!: last_stuck_Some split: option.split)

lemma sanitize_id: "\<forall>m\<in>set ms. \<not> stuck m \<Longrightarrow> sanitizeMessagesOnLoad ms = ms"
  using last_stuck_iff [of ms] by (simp add: sanitizeMessagesOnLoad_def)

lemma sanitize_stripped:
  assumes "\<forall>m\<in>set ms. strip_attachments m = m"
  shows "map strip_attachments (sanitizeMessagesOnLoad ms) = sanitizeMessagesOnLoad ms"
proof -
  have "strip_attachments (sanitize_message m) = sanitize_message m" if "strip_attachments m = m" for m
  proof -
    have "msg_attachments m = None" using that by (metis Message.select_convs(4) Message.surjective Message.update_convs(4) strip_attachments_def)
    then have "msg_attachments (sanitize_message m) = None"
      by (simp add: sanitize_message_def finalizeMessage_def updateCurrentVersionContent_def Let_def)
    then show ?thesis by (simp add: strip_attachments_def)
  qed
  then show ?thesis
    using assms by (intro map_idI)
      (auto simp: sanitizeMessagesOnLoad_def dest!: last_stuck_Some set_update_subset_insert [THEN subsetD] split: option.splits)
qed

lemma sanitize_only_last:
  assumes "\<forall>m\<in>set (butlast ms). \<not> stuck m"
  shows "butlast (sanitizeMessagesOnLoad ms) = butlast ms" and "\<forall>m\<in>set (sanitizeMessagesOnLoad ms). \<not> stuck m"
proof -
  have "butlast (sanitizeMessagesOnLoad ms) = butlast ms \<and> (\<forall>m\<in>set (sanitizeMessagesOnLoad ms). \<not> stuck m)"
  proof (cases "last_stuck ms (length ms)")
    case None
    then show ?thesis using last_stuck_iff [of ms] by (simp add: sanitizeMessagesOnLoad_def)
  next
    case (Some i)
    note i = last_stuck_Some [OF Some]
    have last: "Suc i = length ms"
    proof (rule ccontr)
      assume "Suc i \<noteq> length ms"
      with i have "i < length (butlast ms)" by auto
      then have "ms ! i \<in> set (butlast ms)" using nth_mem [of i "butlast ms"] nth_butlast [of i ms] by simp
      with assms i show False by blast
    qed
    then have "sanitizeMessagesOnLoad ms = butlast ms @ [sanitize_message (last ms)]"
      using Some by (cases ms rule: rev_cases) (auto simp: sanitizeMessagesOnLoad_def)
    then show ?thesis using assms sanitize_message_stable [of "last ms"] by simp
  qed
  then show "butlast (sanitizeMessagesOnLoad ms) = butlast ms" "\<forall>m\<in>set (sanitizeMessagesOnLoad ms). \<not> stuck m"
    by blast+
qed

section \<open>Loading what was saved\<close>

definition messages_text :: "Message list \<Rightarrow> jstr" where
  "messages_text ms = json_stringify (JArr (map message_json ms))"

lemma messages_text_strip [simp]: "messages_text (map strip_attachments ms) = messages_text ms"
  by (simp add: messages_text_def comp_def)

lemma load_messages_text:
  assumes "list_all message_ok ms" "st STORAGE_MESSAGES = Some (messages_text ms)"
  shows "loadMessages full st =
    (Loaded (sanitizeMessagesOnLoad (map strip_attachments ms)),
     if \<forall>m\<in>set ms. \<not> stuck m then st
     else saveMessages full (sanitizeMessagesOnLoad (map strip_attachments ms)) st)"
proof -
  have "json_ok (JArr (map message_json ms))"
    using assms(1) message_json_ok by (auto simp: list_all_iff)
  then have "json_parse (messages_text ms) = Some (JArr (map message_json ms))"
    unfolding messages_text_def by (rule json_parse_stringify)
  moreover have "saved STORAGE_MESSAGES st = Some (messages_text ms)"
    by (simp add: saved_def assms(2) messages_text_def)
  ultimately show ?thesis
    using last_stuck_iff [of "map strip_attachments ms"]
    by (simp add: loadMessages_def messages_back [OF assms(1)] Let_def)
qed

text \<open>An object that is saved as a whole and loaded over its defaults: the contract of the
  two pairs of functions, and what a reload restores.\<close>

locale stored_object =
  fixes load :: "storage \<Rightarrow> json" and save :: "bool \<Rightarrow> props \<Rightarrow> storage \<Rightarrow> storage" and defaults :: props
  assumes load_save: "json_ok (JObj c) \<Longrightarrow> load (save False c st) = JObj c"
    and defaults_ok: "(k, v) \<in> set defaults \<Longrightarrow> \<not> is_index_key k \<and> code_units k \<and> json_ok v"
    and defaults_distinct: "distinct (map fst defaults)"
begin

definition reloads :: "props \<Rightarrow> storage \<Rightarrow> bool" where
  "reloads c st \<longleftrightarrow> map fst c = map fst defaults \<and> list_all json_ok (map snd c) \<and>
     spread defaults (spread_props (load st)) = c"

lemma object_ok:
  assumes "map fst c = map fst defaults" "list_all json_ok (map snd c)"
  shows "json_ok (JObj c)"
proof (rule json_ok_object)
  fix k v assume p: "(k, v) \<in> set c"
  then have "k \<in> set (map fst defaults)" unfolding assms(1) [symmetric] by force
  with p assms(2) defaults_ok show "\<not> is_index_key k \<and> code_units k \<and> json_ok v" by (force simp: list_all_iff)
qed (simp add: assms(1) defaults_distinct)

lemma reloads_saved:
  assumes "map fst c = map fst defaults" "list_all json_ok (map snd c)"
  shows "reloads c (save False c st)"
proof -
  have ok: "json_ok (JObj c)" using assms by (rule object_ok)
  then have "distinct (map fst c)" "own_entries c = c" by simp_all
  then have "spread defaults c = c" using spread_same_keys assms(1) by metis
  then show ?thesis using assms load_save [OF ok] by (simp add: reloads_def)
qed

lemma reloads_update:
  assumes "reloads c st" "List.member (map fst defaults) k" "json_ok v"
  shows "reloads (prop_set k v c) (save False (prop_set k v c) st')"
proof (rule reloads_saved)
  have c: "map fst c = map fst defaults" "list_all json_ok (map snd c)"
    using assms(1) by (simp_all add: reloads_def)
  then show "map fst (prop_set k v c) = map fst defaults"
    using assms(2) keys_prop_set [of c k v] by (simp del: set_map)
  show "list_all json_ok (map snd (prop_set k v c))"
    using set_prop_set [of k v c] c(2) assms(3) by (fastforce simp: list_all_iff)
qed

lemma reloads_defaults: "reloads defaults (save False defaults st)"
  using defaults_ok by (intro reloads_saved) (auto simp: list_all_iff)

lemma reloads_fresh: "load st = JObj [] \<Longrightarrow> reloads defaults st"
  using defaults_ok by (auto simp: reloads_def spread_def own_entries_def list_all_iff)

lemma reloads_frame: "load st' = load st \<Longrightarrow> reloads c st \<Longrightarrow> reloads c st'"
  by (simp add: reloads_def)

end

lemma keys_differ [simp]:
  "STORAGE_CONFIG \<noteq> STORAGE_MESSAGES" "STORAGE_MESSAGES \<noteq> STORAGE_CONFIG"
  "STORAGE_CONFIG \<noteq> STORAGE_PARAMETER_ENABLED" "STORAGE_PARAMETER_ENABLED \<noteq> STORAGE_CONFIG"
  "STORAGE_MESSAGES \<noteq> STORAGE_PARAMETER_ENABLED" "STORAGE_PARAMETER_ENABLED \<noteq> STORAGE_MESSAGES"
  by (simp_all add: STORAGE_CONFIG_def STORAGE_MESSAGES_def STORAGE_PARAMETER_ENABLED_def)

lemma load_value_saved:
  "json_ok (JObj c) \<Longrightarrow> load_value key (setItem False key (json_stringify (JObj c)) st) = JObj c"
proof -
  assume ok: "json_ok (JObj c)"
  have "json_stringify (JObj c) \<noteq> []" by simp
  then have "saved key (setItem False key (json_stringify (JObj c)) st) = Some (json_stringify (JObj c))"
    by (simp add: saved_def setItem_def del: json_stringify.simps)
  then show ?thesis by (simp add: load_value_def json_parse_stringify [OF ok] del: json_stringify.simps)
qed

lemma load_value_frame: "key \<noteq> key' \<Longrightarrow> load_value key (setItem full key' t st) = load_value key st"
  by (simp add: load_value_def saved_def setItem_def)

lemma load_frames [simp]:
  "loadConfig (saveParameterEnabled full p st) = loadConfig st" "loadConfig (saveMessages full ms st) = loadConfig st"
  "loadParameterEnabled (saveConfig full c st) = loadParameterEnabled st"
  "loadParameterEnabled (saveMessages full ms st) = loadParameterEnabled st"
  by (simp_all add: loadConfig_def loadParameterEnabled_def saveConfig_def saveParameterEnabled_def
      saveMessages_def load_value_frame)

lemma default_keys:
  "(k, v) \<in> set DEFAULT_CONFIG \<Longrightarrow> \<not> is_index_key k \<and> code_units k \<and> json_ok v"
  "(k, v) \<in> set DEFAULT_PARAMETER_ENABLED \<Longrightarrow> \<not> is_index_key k \<and> code_units k \<and> json_ok v"
  using json_ok_seven_tenths json_ok_numeral
  by (auto simp: DEFAULT_CONFIG_def DEFAULT_PARAMETER_ENABLED_def is_index_key_def is_digit_def code_units_def
      simp del: json_ok.simps(1))

interpretation config: stored_object loadConfig saveConfig DEFAULT_CONFIG
proof
  show "distinct (map fst DEFAULT_CONFIG)" by (simp add: DEFAULT_CONFIG_def)
qed (simp_all add: loadConfig_def saveConfig_def load_value_saved default_keys(1)
    del: json_ok.simps json_stringify.simps)

interpretation enabled: stored_object loadParameterEnabled saveParameterEnabled DEFAULT_PARAMETER_ENABLED
proof
  show "distinct (map fst DEFAULT_PARAMETER_ENABLED)" by (simp add: DEFAULT_PARAMETER_ENABLED_def)
qed (simp_all add: loadParameterEnabled_def saveParameterEnabled_def load_value_saved default_keys(2)
    del: json_ok.simps json_stringify.simps)

section \<open>Sessions\<close>

text \<open>The actions of the user, with room in the storage, and reloads of the page.\<close>

inductive playground_step :: "PlaygroundState \<Rightarrow> PlaygroundState \<Rightarrow> bool" where
  set_config: "List.member (map fst DEFAULT_CONFIG) k \<Longrightarrow> json_ok v \<Longrightarrow>
    playground_step s (updateConfig False k v s)"
| set_enabled: "List.member (map fst DEFAULT_PARAMETER_ENABLED) k \<Longrightarrow>
    playground_step s (updateParameterEnabled False k b s)"
| set_messages: "list_all message_ok (f (ps_messages s)) \<Longrightarrow> playground_step s (update_messages False f s)"
| clear: "playground_step s (clearMessages False s)"
| reset: "playground_step s (resetConfig False False s)"
| reload: "openPlayground False (ps_storage s) = Some s' \<Longrightarrow> playground_step s s'"

text \<open>The storage holds the state.\<close>

definition mirrors :: "PlaygroundState \<Rightarrow> bool" where
  "mirrors s \<longleftrightarrow> config.reloads (ps_config s) (ps_storage s) \<and> enabled.reloads (ps_enabled s) (ps_storage s) \<and>
     list_all message_ok (ps_messages s) \<and>
     (ps_storage s STORAGE_MESSAGES = Some (messages_text (ps_messages s)) \<or>
      ps_storage s STORAGE_MESSAGES = None \<and> ps_messages s = [])"

lemma messages_frames [simp]:
  "saveConfig full c st STORAGE_MESSAGES = st STORAGE_MESSAGES"
  "saveParameterEnabled full p st STORAGE_MESSAGES = st STORAGE_MESSAGES"
  "saveMessages False ms st STORAGE_MESSAGES = Some (messages_text ms)"
  by (simp_all add: saveConfig_def saveParameterEnabled_def saveMessages_def setItem_def messages_text_def)

lemma mirrors_messages: "mirrors s \<Longrightarrow> list_all message_ok (f (ps_messages s)) \<Longrightarrow> mirrors (update_messages False f s)"
  by (auto simp: mirrors_def update_messages_def Let_def elim: config.reloads_frame [rotated] enabled.reloads_frame [rotated])

lemma mirrors_config:
  "mirrors s \<Longrightarrow> List.member (map fst DEFAULT_CONFIG) k \<Longrightarrow> json_ok v \<Longrightarrow> mirrors (updateConfig False k v s)"
  by (auto simp: mirrors_def updateConfig_def Let_def simp del: List.member_iff
      intro: config.reloads_update elim: enabled.reloads_frame [rotated])

lemma mirrors_enabled:
  "mirrors s \<Longrightarrow> List.member (map fst DEFAULT_PARAMETER_ENABLED) k \<Longrightarrow> mirrors (updateParameterEnabled False k b s)"
  by (auto simp: mirrors_def updateParameterEnabled_def Let_def simp del: List.member_iff
      intro: enabled.reloads_update elim: config.reloads_frame [rotated])

lemma mirrors_reset: "mirrors s \<Longrightarrow> mirrors (resetConfig False False s)"
  using config.reloads_frame [OF _ config.reloads_defaults]
  by (auto simp: mirrors_def resetConfig_def intro: enabled.reloads_defaults)

text \<open>What a reload does to a state that the storage holds.\<close>

lemma mirrors_open:
  assumes "mirrors s"
  obtains s' where "openPlayground False (ps_storage s) = Some s'" and "mirrors s'"
    and "ps_config s' = ps_config s" and "ps_enabled s' = ps_enabled s"
    and "ps_messages s' = sanitizeMessagesOnLoad (map strip_attachments (ps_messages s))"
proof -
  let ?ms = "sanitizeMessagesOnLoad (map strip_attachments (ps_messages s))"
  have ok: "list_all message_ok (map strip_attachments (ps_messages s))"
    using assms by (simp add: mirrors_def list_all_iff)
  have spreads: "spread DEFAULT_CONFIG (spread_props (loadConfig (ps_storage s))) = ps_config s"
      "spread DEFAULT_PARAMETER_ENABLED (spread_props (loadParameterEnabled (ps_storage s))) = ps_enabled s"
    using assms by (simp_all add: mirrors_def config.reloads_def enabled.reloads_def)
  have "\<exists>r st'. loadMessages False (ps_storage s) = (r, st') \<and> r \<noteq> Untyped \<and>
      (case r of Loaded ms \<Rightarrow> ms | _ \<Rightarrow> []) = ?ms \<and>
      (st' = ps_storage s \<and> ?ms = map strip_attachments (ps_messages s) \<or> st' = saveMessages False ?ms (ps_storage s))"
  proof (cases "ps_storage s STORAGE_MESSAGES")
    case None
    then show ?thesis
      using assms by (auto simp: mirrors_def loadMessages_def saved_def sanitize_id)
  next
    case (Some t)
    then have "loadMessages False (ps_storage s) =
      (Loaded ?ms, if \<forall>m\<in>set (ps_messages s). \<not> stuck m then ps_storage s else saveMessages False ?ms (ps_storage s))"
      using assms by (intro load_messages_text) (auto simp: mirrors_def)
    then show ?thesis using sanitize_id [of "map strip_attachments (ps_messages s)"] by auto
  qed
  then obtain r st' where r: "loadMessages False (ps_storage s) = (r, st')" "r \<noteq> Untyped"
      "(case r of Loaded ms \<Rightarrow> ms | _ \<Rightarrow> []) = ?ms"
      "st' = ps_storage s \<and> ?ms = map strip_attachments (ps_messages s) \<or> st' = saveMessages False ?ms (ps_storage s)"
    by blast
  let ?s' = "\<lparr>ps_config = ps_config s, ps_enabled = ps_enabled s, ps_messages = ?ms, ps_storage = st'\<rparr>"
  have "openPlayground False (ps_storage s) = Some ?s'"
    using r(1-3) by (cases r) (simp_all add: openPlayground_def spreads)
  moreover have "mirrors ?s'"
    using assms r(4) sanitize_ok [OF ok] ok
    by (auto simp: mirrors_def elim: config.reloads_frame [rotated] enabled.reloads_frame [rotated])
  ultimately show thesis using that by simp
qed

lemma mirrors_step: "playground_step s s' \<Longrightarrow> mirrors s \<Longrightarrow> mirrors s'"
proof (induction rule: playground_step.induct)
  case (reload s s')
  then show ?case using mirrors_open [of s] by (metis option.inject)
qed (auto simp: clearMessages_def simp del: List.member_iff
    intro: mirrors_config mirrors_enabled mirrors_messages mirrors_reset)

lemma mirrors_start: "openPlayground full (\<lambda>_. None) = Some s \<Longrightarrow> mirrors s"
  by (auto simp: openPlayground_def loadMessages_def saved_def mirrors_def loadConfig_def loadParameterEnabled_def
      load_value_def spread_def own_entries_def intro!: config.reloads_fresh enabled.reloads_fresh)

lemma mirrors_run:
  "playground_step\<^sup>*\<^sup>* s s' \<Longrightarrow> mirrors s \<Longrightarrow> mirrors s'"
  by (induction rule: rtranclp_induct) (auto intro: mirrors_step)

section \<open>Properties\<close>



text \<open>C21. A page that is reloaded during an orderly chat, with the messages of the chat
  saved, shows no message that waits for an answer: all messages but the last are as they were,
  without attachments, the last one is settled, and another reload changes nothing.\<close>

theorem reload_settles_chat:
  assumes "chat_reach True messages st" and "\<forall>m\<in>set messages. \<not> stuck m"
    and "list_all message_ok (cs_messages st)" and "mirrors s"
  shows "\<exists>s1 s2. openPlayground False (ps_storage (update_messages False (\<lambda>_. cs_messages st) s)) = Some s1 \<and>
    (\<forall>m\<in>set (ps_messages s1). \<not> stuck m) \<and>
    butlast (ps_messages s1) = map strip_attachments (butlast (cs_messages st)) \<and>
    length (ps_messages s1) = length (cs_messages st) \<and>
    openPlayground False (ps_storage s1) = Some s2 \<and> ps_messages s2 = ps_messages s1"
proof -
  let ?ms = "map strip_attachments (cs_messages st)"
  have "\<forall>m\<in>set (butlast ?ms). \<not> stuck m"
    using inv_reach [OF assms(1,2)] by (auto simp: chat_inv_def map_butlast [symmetric])
  note last = sanitize_only_last [OF this]
  have "mirrors (update_messages False (\<lambda>_. cs_messages st) s)"
    using mirrors_messages [OF assms(4), of "\<lambda>_. cs_messages st"] assms(3) by simp
  from mirrors_open [OF this] obtain s1 where
    s1: "openPlayground False (ps_storage (update_messages False (\<lambda>_. cs_messages st) s)) = Some s1" "mirrors s1"
      "ps_messages s1 = sanitizeMessagesOnLoad ?ms"
    by (auto simp: update_messages_def Let_def)
  from mirrors_open [OF s1(2)] obtain s2 where
    s2: "openPlayground False (ps_storage s1) = Some s2"
      "ps_messages s2 = sanitizeMessagesOnLoad (map strip_attachments (ps_messages s1))" by metis
  have "map strip_attachments (ps_messages s1) = ps_messages s1"
    unfolding s1(3) by (rule sanitize_stripped) auto
  with s2(2) last(2) s1(3) have "ps_messages s2 = ps_messages s1" using sanitize_id by metis
  moreover have "length (sanitizeMessagesOnLoad ?ms) = length (cs_messages st)"
    by (simp add: sanitizeMessagesOnLoad_def split: option.split)
  ultimately show ?thesis using s1 s2(1) last by (auto simp: map_butlast)
qed

lemma first_sent_messages:
  "cs_messages first_sent = [user_message (sample_ids ''1'') (js ''Hello'') [], loading_message (sample_ids ''1'')]"
  by (simp add: first_sent_def handleSendMessage_def Let_def sendChat_def sample_env_def sendStreamingChat_def
      sendStreamRequest_def updateMessages_def initial_chat_def)

lemma first_sent_ok: "list_all message_ok (cs_messages first_sent)"
  by (simp add: first_sent_messages user_message_def loading_message_def sample_ids_def message_ok_def
      createUserMessage_def createUserMessageWithAttachments_def createLoadingAssistantMessage_def
      blank_message_def createMessageVersion_def code_units_def)

theorem reload_settles_chat_witness:
  "\<exists>(s1 :: PlaygroundState) s2. length (ps_messages s1) = 2 \<and> openPlayground False (ps_storage s1) = Some s2 \<and>
     ps_messages s2 = ps_messages s1"
proof -
  let ?first = "the (openPlayground False (\<lambda>_. None))"
  have "openPlayground False (\<lambda>_. None) = Some ?first"
    by (simp add: openPlayground_def loadMessages_def saved_def)
  then have "mirrors ?first" by (rule mirrors_start)
  from reload_settles_chat [OF first_sent_reach _ first_sent_ok this] show ?thesis
    by (force simp: first_sent_messages)
qed

end
