(* ===== verification/Channel_Mapping.thy ===== *)
theory Channel_Mapping
  imports Js_Value Js_RegExp "HOL-Library.List_Lexorder"
begin

text \<open>
  The checks on the two JSON mappings of a channel: the model mapping
  (\<open>features/channels/lib/model-mapping-validation.ts\<close>) and the status code mapping
  (\<open>features/channels/lib/status-code-risk-guard.ts\<close>).

  A JavaScript \<open>Set\<close> is the list of its elements in insertion order, without
  duplicates.  The arguments are strings, so the guards against other types are absent.
  The lemmas relate every list the functions return to the set of entries of the mapping.
\<close>

section \<open>Model mapping\<close>

definition parseModelsString :: "jstr \<Rightarrow> jstr list" where
  "parseModelsString modelsStr =
     (if modelsStr \<noteq> [] then filter (\<lambda>m. m \<noteq> []) (map trim (split_str (js '','') modelsStr)) else [])"

definition formatModelsArray :: "jstr list \<Rightarrow> jstr" where
  "formatModelsArray models = join (js '','') (set_list models)"

definition normalizeModelName :: "jstr \<Rightarrow> jstr" where
  "normalizeModelName model = trim model"

text \<open>\<open>JSON.parse\<close> followed by the test for an object that is not an array.\<close>

definition parse_object :: "jstr \<Rightarrow> props option" where
  "parse_object s = (case json_parse s of Some (JObj ps) \<Rightarrow> Some ps | _ \<Rightarrow> None)"

definition extractMappingSourceModels :: "jstr \<Rightarrow> jstr list" where
  "extractMappingSourceModels modelMapping =
     (let trimmed = trim modelMapping in
      if trimmed = [] then []
      else
        case parse_object trimmed of
          None \<Rightarrow> []
        | Some parsed \<Rightarrow> set_list (filter (\<lambda>k. k \<noteq> []) (map trim (own_keys parsed))))"

fun string_value :: "json \<Rightarrow> jstr option" where
  "string_value (JStr s) = (if trim s = [] then None else Some (trim s))"
| "string_value _ = None"

definition extractRedirectModels :: "jstr \<Rightarrow> jstr list" where
  "extractRedirectModels modelMapping =
     (let trimmed = trim modelMapping in
      if trimmed = [] then []
      else
        case parse_object trimmed of
          None \<Rightarrow> []
        | Some parsed \<Rightarrow> set_list (List.map_filter string_value (own_values parsed)))"

text \<open>The loop that compares the two arrays from index \<open>i\<close> on.\<close>

fun arrays_differ :: "jstr list \<Rightarrow> jstr list \<Rightarrow> bool" where
  "arrays_differ (x # xs) (y # ys) = (if x \<noteq> y then True else arrays_differ xs ys)"
| "arrays_differ _ _ = False"

definition hasModelConfigChanged :: "jstr list \<Rightarrow> jstr \<Rightarrow> jstr list \<Rightarrow> jstr \<Rightarrow> bool" where
  "hasModelConfigChanged currentModels currentModelMapping initialModels initialModelMapping =
     (if initialModels = [] \<and> initialModelMapping = [] then True
      else if length currentModels \<noteq> length initialModels then True
      else if arrays_differ currentModels initialModels then True
      else trim currentModelMapping \<noteq> trim initialModelMapping)"

definition findMissingModelsInMapping :: "jstr \<Rightarrow> jstr list \<Rightarrow> jstr list" where
  "findMissingModelsInMapping modelMapping currentModels =
     (if trim modelMapping = [] then []
      else
        case parse_object modelMapping of
          None \<Rightarrow> []
        | Some parsedMapping \<Rightarrow>
            (let modelSet = set_list (map normalizeModelName currentModels);
                 missingModels =
                   filter (\<lambda>key. key \<noteq> [] \<and> \<not> List.member modelSet key)
                     (map normalizeModelName (own_keys parsedMapping)) in
             set_list missingModels))"

record MappingValidation =
  mv_valid :: bool
  mv_error :: "jstr option"

fun is_string :: "json \<Rightarrow> bool" where
  "is_string (JStr _) = True"
| "is_string _ = False"

definition validateModelMappingJson :: "jstr \<Rightarrow> MappingValidation" where
  "validateModelMappingJson modelMapping =
     (if trim modelMapping = [] then \<lparr>mv_valid = True, mv_error = None\<rparr>
      else
        case json_parse modelMapping of
          None \<Rightarrow> \<lparr>mv_valid = False, mv_error = Some (js ''Model mapping must be valid JSON format'')\<rparr>
        | Some (JObj parsed) \<Rightarrow>
            if \<not> list_all is_string (own_values parsed)
            then \<lparr>mv_valid = False, mv_error = Some (js ''Model mapping values must be strings'')\<rparr>
            else \<lparr>mv_valid = True, mv_error = None\<rparr>
        | Some _ \<Rightarrow> \<lparr>mv_valid = False, mv_error = Some (js ''Model mapping must be a valid JSON object'')\<rparr>)"

definition findExposedTargetModels :: "jstr \<Rightarrow> jstr list \<Rightarrow> jstr list" where
  "findExposedTargetModels modelMapping currentModels =
     (let redirectModels = extractRedirectModels modelMapping in
      if redirectModels = [] then []
      else
        let modelSet = set_list (map normalizeModelName currentModels) in
        filter (\<lambda>model. List.member modelSet (normalizeModelName model)) redirectModels)"

record ModelCategories =
  mc_normalizedCurrentModels :: "jstr list"
  mc_normalizedRedirectModels :: "jstr list"
  mc_classificationSet :: "jstr list"
  mc_redirectOnlySet :: "jstr list"

definition categorizeModelsWithRedirect :: "jstr list \<Rightarrow> jstr list \<Rightarrow> ModelCategories" where
  "categorizeModelsWithRedirect currentModels redirectModels =
     (let current = set_list (filter (\<lambda>m. m \<noteq> []) (map normalizeModelName currentModels));
          redirect = set_list (filter (\<lambda>m. m \<noteq> []) (map normalizeModelName redirectModels)) in
      \<lparr>mc_normalizedCurrentModels = current, mc_normalizedRedirectModels = redirect,
       mc_classificationSet = set_list (current @ redirect),
       mc_redirectOnlySet = set_list (filter (\<lambda>m. \<not> List.member current m) redirect)\<rparr>)"

section \<open>Status code mapping\<close>

definition NON_REDIRECTABLE_STATUS_CODES :: "int list" where
  "NON_REDIRECTABLE_STATUS_CODES = [504, 524]"

text \<open>\<open>/^[1-5]\d{2}$/\<close>\<close>

definition status_code_rx :: rx where
  "status_code_rx = rx_seq [RStart, RCls (\<lambda>c. 49 \<le> c \<and> c \<le> 53), RCls is_digit, RCls is_digit, REnd]"

definition parseStatusCodeKey :: "jstr \<Rightarrow> int option" where
  "parseStatusCodeKey rawKey =
     (let normalized = trim rawKey in
      if \<not> rx_test status_code_rx normalized then None else Some (digits_value normalized))"

fun parseStatusCodeMappingTarget :: "json \<Rightarrow> int option" where
  "parseStatusCodeMappingTarget (JNum (Fin q)) =
     (if of_int \<lfloor>q\<rfloor> = q \<and> 100 \<le> q \<and> q \<le> 599 then Some \<lfloor>q\<rfloor> else None)"
| "parseStatusCodeMappingTarget (JStr rawValue) =
     (let normalized = trim rawValue in
      if \<not> rx_test status_code_rx normalized then None
      else let code = digits_value normalized in if 100 \<le> code \<and> code \<le> 599 then Some code else None)"
| "parseStatusCodeMappingTarget _ = None"

definition status_entries :: "jstr \<Rightarrow> props" where
  "status_entries s =
     (if trim s = [] then []
      else case parse_object s of None \<Rightarrow> [] | Some parsed \<Rightarrow> own_entries parsed)"

text \<open>The template literal of an invalid entry raises a \<open>TypeError\<close> when the value
  has no primitive value.\<close>

definition collectInvalidStatusCodeEntries :: "jstr \<Rightarrow> jstr list result" where
  "collectInvalidStatusCodeEntries statusCodeMappingStr =
     rmap (\<lambda>(rawKey, rawValue).
         case value_to_string rawValue of
           None \<Rightarrow> Inl TypeError
         | Some t \<Rightarrow> Inr (rawKey @ [32, 8594, 32] @ t))
       (filter (\<lambda>(rawKey, rawValue).
          parseStatusCodeKey rawKey = None \<or> parseStatusCodeMappingTarget rawValue = None)
          (status_entries statusCodeMappingStr))"

definition risky_entry :: "jstr \<times> json \<Rightarrow> jstr option" where
  "risky_entry entry =
     (case (parseStatusCodeKey (fst entry), parseStatusCodeMappingTarget (snd entry)) of
        (Some fromCode, Some toCode) \<Rightarrow>
          if \<not> List.member NON_REDIRECTABLE_STATUS_CODES fromCode then None
          else if fromCode = toCode then None
          else Some (dec fromCode @ js '' -> '' @ dec toCode)
      | _ \<Rightarrow> None)"

definition collectDisallowedStatusCodeRedirects :: "jstr \<Rightarrow> jstr list" where
  "collectDisallowedStatusCodeRedirects statusCodeMappingStr =
     sort (set_list (List.map_filter risky_entry (status_entries statusCodeMappingStr)))"

definition collectNewDisallowedStatusCodeRedirects :: "jstr \<Rightarrow> jstr \<Rightarrow> jstr list" where
  "collectNewDisallowedStatusCodeRedirects originalStr currentStr =
     (let currentRisky = collectDisallowedStatusCodeRedirects currentStr in
      if currentRisky = [] then []
      else
        let originalRiskySet = set_list (collectDisallowedStatusCodeRedirects originalStr) in
        filter (\<lambda>mapping. \<not> List.member originalRiskySet mapping) currentRisky)"

section \<open>Model lists\<close>

lemma split_acc_pieces:
  "c \<notin> set acc \<Longrightarrow> p \<in> set (split_acc [c] acc s) \<Longrightarrow> c \<notin> set p"
proof (induction s arbitrary: acc)
  case Nil
  then show ?case by (simp add: split_acc_Nil)
next
  case (Cons x s)
  show ?case
  proof (cases "x = c")
    case True
    with Cons.IH [of "[]"] Cons.prems show ?thesis by (auto simp: split_acc_unit_sep)
  next
    case False
    then have "split_acc [c] acc (x # s) = split_acc [c] (x # acc) s"
      by (subst split_acc.simps) simp
    with Cons.IH [of "x # acc"] Cons.prems False show ?thesis by simp
  qed
qed

lemma trim_keeps_out: "c \<notin> set s \<Longrightarrow> c \<notin> set (trim s)"
  using set_trim_subset [of s] by blast

lemma parse_models_parts:
  "\<forall>m\<in>set (parseModelsString s). m \<noteq> [] \<and> trim m = m \<and> 44 \<notin> set m"
  using split_acc_pieces [of 44 "[]" _ s] trim_keeps_out [of 44]
  by (auto simp: parseModelsString_def split_str_def split: if_splits)

lemma join_nonempty: "ps \<noteq> [] \<Longrightarrow> \<forall>p\<in>set ps. p \<noteq> [] \<Longrightarrow> join sep ps \<noteq> []"
  by (cases ps; cases "tl ps") auto

lemma parse_joined_models:
  assumes "\<forall>m\<in>set ms. m \<noteq> [] \<and> trim m = m \<and> 44 \<notin> set m"
  shows "parseModelsString (join (js '','') ms) = ms"
proof (cases "ms = []")
  case True
  then show ?thesis by (simp add: parseModelsString_def)
next
  case False
  have "split_str (js '','') (join (js '','') ms) = ms"
    using split_join_unit [of ms 44] False assms by simp
  moreover have "join (js '','') ms \<noteq> []" using join_nonempty [OF False] assms by blast
  moreover have "filter (\<lambda>m. m \<noteq> []) (map trim ms) = ms"
    using assms by (induction ms) auto
  ultimately show ?thesis unfolding parseModelsString_def by metis
qed

section \<open>Mappings\<close>

lemma member_set_list [simp]: "List.member (set_list xs) x \<longleftrightarrow> x \<in> set xs"
  by simp

lemma set_map_filter: "set (List.map_filter f xs) = {y. \<exists>x\<in>set xs. f x = Some y}"
  by (induction xs) (auto simp: List.map_filter_simps split: option.splits)

lemma set_own_values: "set (own_values ps) = snd ` set ps"
  by (simp add: own_values_def)

lemma missing_set:
  "set (findMissingModelsInMapping m models) =
     (case parse_object m of
        None \<Rightarrow> {}
      | Some ps \<Rightarrow> if trim m = [] then {} else (trim ` fst ` set ps) - {[]} - trim ` set models)"
  by (auto simp: findMissingModelsInMapping_def Let_def set_own_keys normalizeModelName_def split: option.split)

lemma redirect_set:
  "set (extractRedirectModels m) =
     (case parse_object (trim m) of
        None \<Rightarrow> {}
      | Some ps \<Rightarrow> if trim m = [] then {} else {t. t \<noteq> [] \<and> (\<exists>k s. (k, JStr s) \<in> set ps \<and> t = trim s)})"
proof -
  have "string_value v = Some t \<longleftrightarrow> t \<noteq> [] \<and> (\<exists>s. v = JStr s \<and> t = trim s)" for v t
    by (cases v) auto
  then show ?thesis
    by (force simp: extractRedirectModels_def Let_def set_map_filter set_own_values split: option.split)
qed

lemma redirect_trimmed: "t \<in> set (extractRedirectModels m) \<Longrightarrow> trim t = t"
  by (auto simp: redirect_set split: option.splits if_splits)

lemma exposed_set:
  "set (findExposedTargetModels m models) = set (extractRedirectModels m) \<inter> trim ` set models"
  by (auto simp: findExposedTargetModels_def Let_def normalizeModelName_def redirect_trimmed)

lemma exposed_distinct: "distinct (findExposedTargetModels m models)"
  by (simp add: findExposedTargetModels_def extractRedirectModels_def Let_def split: option.split)

lemma arrays_differ_iff: "length xs = length ys \<Longrightarrow> arrays_differ xs ys \<longleftrightarrow> xs \<noteq> ys"
  by (induction xs ys rule: arrays_differ.induct) auto

section \<open>Status codes\<close>

lemma status_code_match:
  "rx_test status_code_rx s \<longleftrightarrow>
     (\<exists>a b c. s = [a, b, c] \<and> 49 \<le> a \<and> a \<le> 53 \<and> is_digit b \<and> is_digit c)"
  by (cases s; cases "tl s"; cases "tl (tl s)"; cases "tl (tl (tl s))")
    (auto simp: status_code_rx_def rx_test_def rx_match_start split: if_splits)

lemma three_digits: "digits_value [a, b, c] = 100 * (a - 48) + 10 * (b - 48) + (c - 48)"
  by (simp add: digits_value_def)

lemma status_code_range: "rx_test status_code_rx s \<Longrightarrow> 100 \<le> digits_value s \<and> digits_value s \<le> 599"
  by (auto simp: status_code_match three_digits is_digit_def)

lemma key_range: "parseStatusCodeKey k = Some n \<Longrightarrow> 100 \<le> n \<and> n \<le> 599"
  using status_code_range by (auto simp: parseStatusCodeKey_def Let_def split: if_splits)

lemma target_range: "parseStatusCodeMappingTarget v = Some n \<Longrightarrow> 100 \<le> n \<and> n \<le> 599"
  by (induction v rule: parseStatusCodeMappingTarget.induct)
    (auto simp: Let_def le_floor_iff floor_le_iff split: if_splits)

lemma risky_entry_Some:
  "risky_entry (k, v) = Some r \<longleftrightarrow>
     (\<exists>f t. parseStatusCodeKey k = Some f \<and> parseStatusCodeMappingTarget v = Some t \<and>
        f \<in> {504, 524} \<and> f \<noteq> t \<and> r = dec f @ js '' -> '' @ dec t)"
  by (auto simp: risky_entry_def NON_REDIRECTABLE_STATUS_CODES_def split: option.splits)

lemma disallowed_set:
  "set (collectDisallowedStatusCodeRedirects s) = {r. \<exists>e\<in>set (status_entries s). risky_entry e = Some r}"
  by (simp add: collectDisallowedStatusCodeRedirects_def set_map_filter)

lemma new_set:
  "set (collectNewDisallowedStatusCodeRedirects old cur) =
     set (collectDisallowedStatusCodeRedirects cur) - set (collectDisallowedStatusCodeRedirects old)"
  by (auto simp: collectNewDisallowedStatusCodeRedirects_def Let_def)

section \<open>Properties\<close>

text \<open>The text of a model list is a normal form: the names read from a text are trimmed,
  not empty and without commas, and printing them and reading them again gives each of them
  once, in their order.\<close>

theorem models_text_normal:
  "list_all (\<lambda>m. m \<noteq> [] \<and> trim m = m \<and> 44 \<notin> set m) (parseModelsString s) \<and>
   parseModelsString (formatModelsArray (parseModelsString s)) = set_list (parseModelsString s)"
  using parse_models_parts [of s] parse_joined_models [of "set_list (parseModelsString s)"]
  by (simp add: formatModelsArray_def list_all_iff)

text \<open>C28. The missing models of a mapping are its keys that are not in the model list, compared
  after trimming, each once; when they are added to the list, none is missing.\<close>

theorem missing_models_closed:
  assumes "parse_object m = Some ps" and "trim m \<noteq> []"
  shows "set (findMissingModelsInMapping m models) = (trim ` fst ` set ps) - {[]} - trim ` set models \<and>
    distinct (findMissingModelsInMapping m models) \<and>
    findMissingModelsInMapping m (models @ findMissingModelsInMapping m models) = []"
proof -
  let ?new = "findMissingModelsInMapping m models"
  have s: "set (findMissingModelsInMapping m xs) = (trim ` fst ` set ps) - {[]} - trim ` set xs" for xs
    using assms by (simp add: missing_set)
  have "\<forall>x\<in>set ?new. trim x = x" unfolding s by auto
  then have "trim ` set ?new = set ?new" by force
  then have "set (findMissingModelsInMapping m (models @ ?new)) = {}"
    using assms s [of models] by (simp add: missing_set image_Un)
  then have "findMissingModelsInMapping m (models @ ?new) = []" by (simp only: set_empty)
  moreover have "distinct ?new"
    by (simp add: findMissingModelsInMapping_def Let_def split: option.split)
  ultimately show ?thesis using s [of models] by blast
qed

theorem missing_models_closed_witness:
  "findMissingModelsInMapping (js ''{'' @ [34, 97, 34, 58, 34, 98, 34] @ js ''}'')
     ([js ''c''] @ findMissingModelsInMapping (js ''{'' @ [34, 97, 34, 58, 34, 98, 34] @ js ''}'') [js ''c'']) = []"
proof -
  have "parse_object (js ''{'' @ [34, 97, 34, 58, 34, 98, 34] @ js ''}'') = Some [(js ''a'', JStr (js ''b''))]"
    by code_simp
  moreover have "trim (js ''{'' @ [34, 97, 34, 58, 34, 98, 34] @ js ''}'') \<noteq> []" by code_simp
  ultimately show ?thesis using missing_models_closed by blast
qed

text \<open>The exposed targets are the redirect targets that are in the model list; when the
  models that name one are removed from the list, no target is exposed.\<close>

theorem exposed_targets_removed:
  "set (findExposedTargetModels m models) = set (extractRedirectModels m) \<inter> trim ` set models \<and>
   distinct (findExposedTargetModels m models) \<and>
   findExposedTargetModels m (filter (\<lambda>x. trim x \<notin> set (findExposedTargetModels m models)) models) = []"
proof -
  have "set (findExposedTargetModels m (filter (\<lambda>x. trim x \<notin> set (findExposedTargetModels m models)) models)) = {}"
    unfolding exposed_set by auto
  then have "findExposedTargetModels m (filter (\<lambda>x. trim x \<notin> set (findExposedTargetModels m models)) models) = []"
    by (simp only: set_empty)
  then show ?thesis using exposed_set exposed_distinct by blast
qed

text \<open>A mapping is valid exactly when it is blank or a JSON object whose values are all
  strings, and an error is reported exactly when it is not valid.\<close>

theorem mapping_validation:
  "mv_valid (validateModelMappingJson m) =
     (trim m = [] \<or> (\<exists>ps. json_parse m = Some (JObj ps) \<and> list_all is_string (own_values ps))) \<and>
   (mv_error (validateModelMappingJson m) = None) = mv_valid (validateModelMappingJson m)"
  by (auto simp: validateModelMappingJson_def split: option.splits json.splits)

text \<open>C29. The two status code checks are complete: a status code mapping passes both exactly
  when every entry maps a code from 100 to 599 to such a code, and an entry for 504 or 524
  maps the code to itself.\<close>

theorem status_mapping_checks:
  "(collectInvalidStatusCodeEntries s = Inr [] \<and> collectDisallowedStatusCodeRedirects s = []) =
     list_all (\<lambda>(k, v). case (parseStatusCodeKey k, parseStatusCodeMappingTarget v) of
         (Some f, Some t) \<Rightarrow>
           100 \<le> f \<and> f \<le> 599 \<and> 100 \<le> t \<and> t \<le> 599 \<and> (if f = 504 \<or> f = 524 then f = t else True)
       | _ \<Rightarrow> False)
       (status_entries s)"
proof -
  define good where "good = (\<lambda>(k, v). case (parseStatusCodeKey k, parseStatusCodeMappingTarget v) of
       (Some f, Some t) \<Rightarrow>
         100 \<le> f \<and> f \<le> 599 \<and> 100 \<le> t \<and> t \<le> 599 \<and> (if f = 504 \<or> f = 524 then f = t else True)
     | _ \<Rightarrow> False)"
  define valid where "valid = (\<lambda>(k, v). parseStatusCodeKey k \<noteq> None \<and> parseStatusCodeMappingTarget v \<noteq> None)"
  have i: "collectInvalidStatusCodeEntries s = Inr [] \<longleftrightarrow> (\<forall>e\<in>set (status_entries s). valid e)"
    by (auto simp: collectInvalidStatusCodeEntries_def rmap_Nil filter_empty_conv valid_def)
  have d: "collectDisallowedStatusCodeRedirects s = [] \<longleftrightarrow> (\<forall>e\<in>set (status_entries s). risky_entry e = None)"
    unfolding set_empty [symmetric] disallowed_set by (auto, metis option.exhaust)
  have "good e \<longleftrightarrow> valid e \<and> risky_entry e = None" for e
    using key_range [of "fst e"] target_range [of "snd e"]
    by (auto simp: good_def valid_def risky_entry_def NON_REDIRECTABLE_STATUS_CODES_def
        split: option.split prod.split)
  then show ?thesis unfolding i d list_all_iff good_def [symmetric] by auto
qed

text \<open>The new risky redirects are the risky ones of the current mapping that the original
  mapping did not have, sorted and without repetition; an unchanged mapping has none.\<close>

theorem new_redirects:
  "set (collectNewDisallowedStatusCodeRedirects old cur) =
     set (collectDisallowedStatusCodeRedirects cur) - set (collectDisallowedStatusCodeRedirects old) \<and>
   sorted (collectNewDisallowedStatusCodeRedirects old cur) \<and>
   distinct (collectNewDisallowedStatusCodeRedirects old cur) \<and>
   collectNewDisallowedStatusCodeRedirects cur cur = []"
proof -
  have "set (collectNewDisallowedStatusCodeRedirects cur cur) = {}" unfolding new_set by simp
  then have "collectNewDisallowedStatusCodeRedirects cur cur = []" by (simp only: set_empty)
  moreover have "sorted (collectNewDisallowedStatusCodeRedirects old cur)"
    by (auto simp: collectNewDisallowedStatusCodeRedirects_def Let_def collectDisallowedStatusCodeRedirects_def
        intro!: sorted_filter [of id, simplified])
  moreover have "distinct (collectNewDisallowedStatusCodeRedirects old cur)"
    by (simp add: collectNewDisallowedStatusCodeRedirects_def Let_def collectDisallowedStatusCodeRedirects_def)
  ultimately show ?thesis using new_set by blast
qed

end
