(* ===== verification/Tier_Expr.thy ===== *)
theory Tier_Expr
  imports Billing_Expr Js_Value
begin

text \<open>
  The visual editor of tiered prices, \<^verbatim>\<open>features/pricing/lib/tier-expr.ts\<close>: normalizing
  tiers, printing a configuration as a billing expression, and reading an expression back.

  A tier is the object of its properties, as the code spreads it and reads it by computed
  names; a configuration is the list of its tiers.  Conversions of foreign values may raise a
  \<open>TypeError\<close>, so the functions that convert return results; the reader catches every exception
  and returns \<open>null\<close>.

  The estimator \<open>evalExprLocally\<close> hands the expression to \<open>new Function\<close> and is not modelled.
\<close>

section \<open>Tiers\<close>

abbreviation "CACHE_MODE_TIMED \<equiv> js ''timed''"
abbreviation "CACHE_MODE_GENERIC \<equiv> js ''generic''"

type_synonym visual_tier = props
type_synonym visual_config = "visual_tier list"

text \<open>\<open>Number(v) || 0\<close>.\<close>

definition number_or_zero :: "json option \<Rightarrow> jnum result" where
  "number_or_zero v = rbind (value_to_number v) (\<lambda>x. Inr (if num_truthy x then x else Fin 0))"

definition getTierCacheMode :: "visual_tier \<Rightarrow> jstr result" where
  "getTierCacheMode tier =
     (if get (js ''cache_mode'') tier = Some (JStr CACHE_MODE_TIMED) then Inr CACHE_MODE_TIMED
      else if get (js ''cache_mode'') tier = Some (JStr CACHE_MODE_GENERIC) then Inr CACHE_MODE_GENERIC
      else rbind (value_to_number (get (js ''cache_create_1h_unit_cost'') tier)) (\<lambda>x.
        Inr (if num_lt (Fin 0) x then CACHE_MODE_TIMED else CACHE_MODE_GENERIC)))"

definition cost_fields :: "jstr list" where
  "cost_fields =
     [js ''cache_read_unit_cost'', js ''cache_create_unit_cost'', js ''cache_create_1h_unit_cost'',
      js ''image_unit_cost'', js ''image_output_unit_cost'', js ''audio_input_unit_cost'',
      js ''audio_output_unit_cost'']"

definition array_or_empty :: "json option \<Rightarrow> json" where
  "array_or_empty v = (case v of Some (JArr vs) \<Rightarrow> JArr vs | _ \<Rightarrow> JArr [])"

text \<open>The literal lists the defaults first, then all properties of the tier, then the
  costs.\<close>

definition normalizeVisualTier :: "visual_tier \<Rightarrow> visual_tier result" where
  "normalizeVisualTier tier =
     rbind (number_or_zero (get (js ''input_unit_cost'') tier)) (\<lambda>input.
     rbind (number_or_zero (get (js ''output_unit_cost'') tier)) (\<lambda>output.
     rbind (getTierCacheMode tier) (\<lambda>mode.
     rbind (rmap (\<lambda>f. number_or_zero (get f tier)) cost_fields) (\<lambda>costs.
       Inr (foldl (\<lambda>ps (f, x). prop_set f (JNum x) ps)
         (spread
           [(js ''label'', (case nullish (get (js ''label'') tier) None of None \<Rightarrow> JStr [] | Some v \<Rightarrow> v)),
            (js ''input_unit_cost'', JNum input),
            (js ''output_unit_cost'', JNum output),
            (js ''cache_mode'', JStr mode),
            (js ''conditions'', array_or_empty (get (js ''conditions'') tier))]
           tier)
         (zip cost_fields costs))))))"

definition createDefaultVisualConfig :: "visual_config result" where
  "createDefaultVisualConfig =
     rbind (normalizeVisualTier
       [(js ''conditions'', JArr []), (js ''input_unit_cost'', JNum (Fin 0)),
        (js ''output_unit_cost'', JNum (Fin 0)), (js ''label'', JStr (js ''base'')),
        (js ''cache_mode'', JStr CACHE_MODE_GENERIC)]) (\<lambda>tier. Inr [tier])"

definition normalizeVisualConfig :: "visual_config option \<Rightarrow> visual_config result" where
  "normalizeVisualConfig config =
     (case config of
        None \<Rightarrow> createDefaultVisualConfig
      | Some [] \<Rightarrow> createDefaultVisualConfig
      | Some tiers \<Rightarrow> rmap normalizeVisualTier tiers)"

section \<open>Printing\<close>

text \<open>A value inside a template literal.\<close>

definition template :: "json option \<Rightarrow> jstr result" where
  "template v =
     (case v of
        None \<Rightarrow> Inr (js ''undefined'')
      | Some x \<Rightarrow> (case value_to_string x of None \<Rightarrow> Inl TypeError | Some s \<Rightarrow> Inr s))"

text \<open>The properties of an element of the conditions: \<open>null\<close> has none to read, another
  primitive value has none of these.\<close>

definition element_props :: "json \<Rightarrow> props result" where
  "element_props c = (case c of JObj ps \<Rightarrow> Inr ps | JNull \<Rightarrow> Inl TypeError | _ \<Rightarrow> Inr [])"

definition truthy :: "json option \<Rightarrow> bool" where
  "truthy v = (case v of None \<Rightarrow> False | Some x \<Rightarrow> json_truthy x)"

definition complete_condition :: "props \<Rightarrow> bool" where
  "complete_condition c \<longleftrightarrow> truthy (get (js ''var'') c) \<and> truthy (get (js ''op'') c) \<and>
     nullish (get (js ''value'') c) None \<noteq> None \<and> get (js ''value'') c \<noteq> Some (JStr [])"

definition condition_text :: "props \<Rightarrow> jstr result" where
  "condition_text c =
     rbind (template (get (js ''var'') c)) (\<lambda>v.
     rbind (template (get (js ''op'') c)) (\<lambda>p.
     rbind (template (get (js ''value'') c)) (\<lambda>x.
       Inr (v @ js '' '' @ p @ js '' '' @ x))))"

definition buildConditionStr :: "json option \<Rightarrow> jstr result" where
  "buildConditionStr conditions =
     (if \<not> truthy conditions then Inr []
      else
        case conditions of
          Some (JArr cs) \<Rightarrow>
            rbind (rmap element_props cs) (\<lambda>ps.
            rbind (rmap condition_text (filter complete_condition ps)) (\<lambda>ts.
              Inr (join (js '' && '') ts)))
        | _ \<Rightarrow> Inl TypeError)"

definition buildTierBodyExpr :: "visual_tier \<Rightarrow> jstr result" where
  "buildTierBodyExpr tier =
     rbind (number_or_zero (get (js ''input_unit_cost'') tier)) (\<lambda>ic.
     rbind (number_or_zero (get (js ''output_unit_cost'') tier)) (\<lambda>oc.
     rbind (rmap (\<lambda>(field, exprVar). rbind (number_or_zero (get field tier)) (\<lambda>v. Inr (exprVar, v)))
              BILLING_CACHE_VAR_MAP) (\<lambda>vs.
       Inr (join (js '' + '')
         ([js ''p * '' @ num_to_string ic, js ''c * '' @ num_to_string oc] @
          map (\<lambda>(x, v). x @ js '' * '' @ num_to_string v) (filter (\<lambda>(x, v). v \<noteq> Fin 0) vs))))))"

text \<open>The call of a tier, with the label it falls back to.\<close>

definition tier_call :: "jstr \<Rightarrow> visual_tier \<Rightarrow> jstr result" where
  "tier_call fallback tier =
     rbind (template (if truthy (get (js ''label'') tier) then get (js ''label'') tier else Some (JStr fallback)))
       (\<lambda>label. rbind (buildTierBodyExpr tier) (\<lambda>body.
          Inr (js ''tier('' @ [34] @ label @ [34] @ js '', '' @ body @ js '')'')))"

definition tier_part :: "nat \<Rightarrow> nat \<times> visual_tier \<Rightarrow> jstr result" where
  "tier_part n = (\<lambda>(i, tier).
     rbind (tier_call (js ''tier_'' @ dec (int i + 1)) tier) (\<lambda>body.
     rbind (buildConditionStr (get (js ''conditions'') tier)) (\<lambda>cond.
       Inr (if i < n - 1 \<and> cond \<noteq> [] then cond @ js '' ? '' @ body else body))))"

definition generateExprFromVisualConfig :: "visual_config option \<Rightarrow> jstr result" where
  "generateExprFromVisualConfig config =
     (case config of
        None \<Rightarrow> Inr (js ''p * 0 + c * 0'')
      | Some [] \<Rightarrow> Inr (js ''p * 0 + c * 0'')
      | Some [tier] \<Rightarrow>
          rbind (tier_call (js ''default'') tier) (\<lambda>body.
          rbind (buildConditionStr (get (js ''conditions'') tier)) (\<lambda>cond.
            Inr (if cond \<noteq> [] then cond @ js '' ? '' @ body @ js '' : p * 0 + c * 0'' else body)))
      | Some tiers \<Rightarrow>
          rbind (rmap (tier_part (length tiers)) (enumerate 0 tiers)) (\<lambda>parts. Inr (join (js '' : '') parts)))"

section \<open>Reading\<close>

definition version_rx :: rx where
  "version_rx =
     rx_seq [RStart, rx_lit (js ''v''), rx_plus (RCls is_digit), rx_lit (js '':''),
       RGroup 1 (RStar (RCls (\<lambda>_. True))), REnd]"

definition cost_rx :: "nat \<Rightarrow> rx" where
  "cost_rx n = RGroup n (rx_plus (RCls num_char))"

definition opt_cost_rx :: "nat \<Rightarrow> jstr \<Rightarrow> rx" where
  "opt_cost_rx n v =
     ROpt (rx_seq [rx_ws, rx_lit (js ''+''), rx_ws, rx_lit v, rx_ws, rx_lit (js ''*''), rx_ws, cost_rx n])"

text \<open>\<open>bodyPat\<close>, its groups numbered from \<open>n\<close>.\<close>

definition body_rx :: "nat \<Rightarrow> rx list" where
  "body_rx n =
     [rx_lit (js ''p''), rx_ws, rx_lit (js ''*''), rx_ws, cost_rx n, rx_ws, rx_lit (js ''+''), rx_ws,
      rx_lit (js ''c''), rx_ws, rx_lit (js ''*''), rx_ws, cost_rx (n + 1)] @
     map (\<lambda>(i, v). opt_cost_rx (n + 2 + i) v) (enumerate 0 (map snd BILLING_CACHE_VAR_MAP))"

text \<open>\<open>tier\("([^"]*)",\s*bodyPat\)\<close>, its groups numbered from \<open>n\<close>.\<close>

definition call_rx :: "nat \<Rightarrow> rx list" where
  "call_rx n =
     [rx_lit (js ''tier('' @ [34]), RGroup n (RStar (RCls not_quote)), rx_lit ([34] @ js '',''), rx_ws] @
     body_rx (n + 1) @ [rx_lit (js '')'')]"

definition single_rx :: rx where
  "single_rx = rx_seq (RStart # call_rx 1 @ [REnd])"

definition var_alt :: rx where
  "var_alt = rx_alt [rx_lit (js ''p''), rx_lit (js ''c''), rx_lit (js ''len'')]"

definition op_alt :: rx where
  "op_alt = rx_alt [rx_lit (js ''<''), rx_lit (js ''<=''), rx_lit (js ''>''), rx_lit (js ''>='')]"

definition cond_rx :: rx where
  "cond_rx = rx_seq [var_alt, rx_ws, op_alt, rx_ws, rx_plus (RCls unum_char)]"

definition cond_group_rx :: rx where
  "cond_group_rx =
     RGroup 1 (RSeq cond_rx (RStar (rx_seq [rx_ws, rx_lit (js ''&&''), rx_ws, cond_rx])))"

definition visual_tier_rx :: rx where
  "visual_tier_rx =
     rx_seq (ROpt (rx_seq [cond_group_rx, rx_ws, rx_lit (js ''?''), rx_ws]) # call_rx 2)"

definition and_rx :: rx where
  "and_rx = rx_seq [rx_ws, rx_lit (js ''&&''), rx_ws]"

definition one_cond_rx :: rx where
  "one_cond_rx =
     rx_seq [RStart, RGroup 1 var_alt, rx_ws, RGroup 2 op_alt, rx_ws, RGroup 3 (rx_plus (RCls unum_char)), REnd]"

definition read_condition :: "jstr \<Rightarrow> json option" where
  "read_condition cp =
     map_option (\<lambda>cm. JObj [(js ''var'', JStr (cap_str cm 1)), (js ''op'', JStr (cap_str cm 2)),
                            (js ''value'', JNum (to_number (cap_str cm 3)))])
       (rx_match one_cond_rx (trim cp))"

definition read_conditions :: "jstr \<Rightarrow> json list" where
  "read_conditions condStr =
     (if condStr = [] then [] else List.map_filter read_condition (rx_split and_rx condStr))"

text \<open>The tier of a match: its label is the group \<open>n\<close>.\<close>

definition read_tier :: "json list \<Rightarrow> nat \<Rightarrow> caps \<Rightarrow> visual_tier" where
  "read_tier conditions n m =
     foldl (\<lambda>tier (i, field, _). case cap m (n + 3 + i) of
              None \<Rightarrow> tier
            | Some v \<Rightarrow> prop_set field (JNum (to_number v)) tier)
       [(js ''conditions'', JArr conditions),
        (js ''input_unit_cost'', JNum (to_number (cap_str m (n + 1)))),
        (js ''output_unit_cost'', JNum (to_number (cap_str m (n + 2)))),
        (js ''label'', JStr (cap_str m n))]
       (enumerate 0 BILLING_CACHE_VAR_MAP)"

definition expr_body :: "jstr \<Rightarrow> jstr" where
  "expr_body exprStr = (case rx_match version_rx exprStr of None \<Rightarrow> exprStr | Some m \<Rightarrow> cap_str m 1)"

definition parse_visual :: "jstr \<Rightarrow> visual_config option result" where
  "parse_visual body =
     (case rx_match single_rx body of
        Some simple \<Rightarrow>
          rbind (normalizeVisualTier (read_tier [] 1 simple)) (\<lambda>tier.
          rbind (normalizeVisualConfig (Some [tier])) (\<lambda>cfg. Inr (Some cfg)))
      | None \<Rightarrow>
          rbind (rmap (\<lambda>m. normalizeVisualTier (read_tier (read_conditions (cap_str m 1)) 2 m))
                   (rx_all visual_tier_rx [] body)) (\<lambda>tiers.
          if tiers = [] then Inr None
          else
            rbind (normalizeVisualConfig (Some tiers)) (\<lambda>cfg.
            rbind (generateExprFromVisualConfig (Some cfg)) (\<lambda>regenerated.
              Inr (if strip_ws regenerated \<noteq> strip_ws body then None else Some cfg)))))"

definition tryParseVisualConfig :: "jstr option \<Rightarrow> visual_config option" where
  "tryParseVisualConfig exprStr =
     (case exprStr of
        None \<Rightarrow> None
      | Some s \<Rightarrow>
          if s = [] then None
          else (case parse_visual (expr_body s) of Inl _ \<Rightarrow> None | Inr r \<Rightarrow> r))"

section \<open>Variables of the estimator\<close>

definition ESTIMATOR_VARS :: "(jstr \<times> jstr) list" where
  "ESTIMATOR_VARS =
     [(js ''cr'', js ''cacheReadTokens''), (js ''cc'', js ''cacheCreateTokens''),
      (js ''cc1h'', js ''cacheCreate1hTokens''), (js ''img'', js ''imageTokens''),
      (js ''img_o'', js ''imageOutputTokens''), (js ''ai'', js ''audioInputTokens''),
      (js ''ao'', js ''audioOutputTokens'')]"

definition exprUsesExtraVars :: "jstr \<Rightarrow> bool" where
  "exprUsesExtraVars exprStr \<longleftrightarrow>
     exprStr \<noteq> [] \<and>
     rx_test (rx_seq [RWordB, RGroup 1 (rx_alt (map (\<lambda>f. rx_lit (fst f)) ESTIMATOR_VARS)), RWordB]) exprStr"

end
