(* ===== verification/Tier_Match.thy ===== *)
theory Tier_Match
  imports Tier_Expr Js_Integer
begin

text \<open>
  How the patterns of \<^verbatim>\<open>features/pricing/lib/tier-expr.ts\<close> match the text its printer writes: a
  cost, the optional cost terms, the call of a tier, its conditions, and a sequence of tiers
  joined by colons.  Each lemma says what is consumed and which groups are captured, for an
  arbitrary continuation, so that the lemmas compose the way the patterns do.
\<close>

section \<open>Matching printed text\<close>

lemma rx_m_seq_append: "rx_m (rx_seq (xs @ ys)) k = rx_m (rx_seq xs) (rx_m (rx_seq ys) k)"
proof (induction xs arbitrary: k)
  case (Cons x xs)
  then show ?case by (cases xs; cases ys) simp_all
qed simp

lemma ws_skip:
  assumes "\<forall>x\<in>set p. is_ws x" "rest = [] \<or> \<not> is_ws (hd rest)" "k (rev p @ b) rest c = Some r"
  shows "rx_m rx_ws k b (p @ rest) c = Some r"
  unfolding rx_ws_def using assms by (rule star_cls_max)

lemma ws_one: "rest \<noteq> [] \<Longrightarrow> \<not> is_ws (hd rest) \<Longrightarrow> k (32 # b) rest c = Some r \<Longrightarrow> rx_m rx_ws k b (32 # rest) c = Some r"
  using ws_skip [of "[32]" rest k b c r] by (simp add: is_ws_def)

lemma ws_none: "rest \<noteq> [] \<Longrightarrow> \<not> is_ws (hd rest) \<Longrightarrow> k b rest c = Some r \<Longrightarrow> rx_m rx_ws k b rest c = Some r"
  using ws_skip [of "[]" rest k b c r] by simp

lemma cls_plus_max:
  assumes "p \<noteq> []" "\<forall>x\<in>set p. P x" "rest = [] \<or> \<not> P (hd rest)" "k (rev p @ b) rest c = Some r"
  shows "rx_m (rx_plus (RCls P)) k b (p @ rest) c = Some r"
proof -
  obtain x q where p: "p = x # q" using assms(1) by (cases p) auto
  have "rx_m (RStar (RCls P)) k (x # b) (q @ rest) c = Some r"
    using assms p by (intro star_cls_max) auto
  then show ?thesis using assms(2) p by (simp add: rx_plus_def)
qed

lemma group_max:
  assumes "rx_m g (\<lambda>b' a' c'. k b' a' ((n, take (length a - length a') a) # c')) b a c = Some r"
  shows "rx_m (RGroup n g) k b a c = Some r"
  using assms by (simp add: rx_m.simps)

lemma cost_max:
  assumes "p \<noteq> []" "\<forall>x\<in>set p. num_char x" "rest = [] \<or> \<not> num_char (hd rest)"
    and "k (rev p @ b) rest ((n, p) # c) = Some r"
  shows "rx_m (cost_rx n) k b (p @ rest) c = Some r"
  unfolding cost_rx_def using assms by (intro group_max cls_plus_max) simp_all

lemma lit_step: "k (rev t @ b) rest c = Some r \<Longrightarrow> rx_m (rx_lit t) k b (t @ rest) c = Some r"
  by simp

section \<open>The cost terms of a tier\<close>

definition plain_var :: "jstr \<Rightarrow> bool" where
  "plain_var v \<longleftrightarrow> v \<noteq> [] \<and> list_all (\<lambda>x. \<not> is_ws x \<and> x \<noteq> 42) v"

definition term_text :: "jstr \<times> jnum \<Rightarrow> jstr" where
  "term_text = (\<lambda>(v, x). if x = Fin 0 then [] else js '' + '' @ v @ js '' * '' @ num_to_string x)"

definition terms_text :: "(jstr \<times> jnum) list \<Rightarrow> jstr" where
  "terms_text vs = concat (map term_text vs)"

text \<open>The text of a cost reads back.\<close>

definition readable :: "jnum \<Rightarrow> bool" where
  "readable x \<longleftrightarrow> num_to_string x \<noteq> [] \<and> list_all num_char (num_to_string x) \<and> to_number (num_to_string x) = x"

definition readable_term :: "jstr \<times> jnum \<Rightarrow> bool" where
  "readable_term = (\<lambda>(v, x). plain_var v \<and> readable x)"

text \<open>An optional term does not match the term of another variable, nor the closing
  parenthesis.\<close>

lemma ws_None:
  assumes "rest = [] \<or> \<not> is_ws (hd rest)" "\<And>b. k b rest c = None" "\<And>b. k b (32 # rest) c = None"
  shows "rx_m rx_ws k b (32 # rest) c = None"
  unfolding rx_ws_def
proof (rule star_cls_None)
  fix p q assume pq: "32 # rest = p @ q" and ws: "\<forall>x\<in>set p. is_ws x"
  show "k (rev p @ b) q c = None"
  proof (cases p)
    case Nil
    then show ?thesis using pq assms(3) by simp
  next
    case (Cons x p')
    then have "p' = []" using pq ws assms(1) by (cases p') auto
    then show ?thesis using Cons pq assms(2) by simp
  qed
qed

lemma ws_None0: "rest = [] \<or> \<not> is_ws (hd rest) \<Longrightarrow> k b rest c = None \<Longrightarrow> rx_m rx_ws k b rest c = None"
  unfolding rx_ws_def
proof (rule star_cls_None)
  fix p q assume h: "rest = [] \<or> \<not> is_ws (hd rest)" "k b rest c = None" "rest = p @ q" "\<forall>x\<in>set p. is_ws x"
  then have "p = []" by (cases p) auto
  with h show "k (rev p @ b) q c = None" by simp
qed

lemma opt_other:
  assumes "plain_var v" "plain_var w" "v \<noteq> w"
  shows "rx_m (opt_cost_rx n v) k b (js '' + '' @ w @ js '' * '' @ rest) c = k b (js '' + '' @ w @ js '' * '' @ rest) c"
proof -
  have ws: "\<not> is_ws 43" "is_ws 32" by (simp_all add: is_ws_def)
  obtain x v' where v: "v = x # v'" "\<not> is_ws x" using assms(1) by (cases v) (auto simp: plain_var_def)
  obtain y w' where w: "w = y # w'" "\<not> is_ws y" using assms(2) by (cases w) (auto simp: plain_var_def)
  let ?k = "rx_m (rx_seq [rx_ws, rx_lit (js ''*''), rx_ws, cost_rx n]) k"
  have var: "rx_m (rx_lit v) ?k b (w @ js '' * '' @ rest) c = None" for b
  proof (cases "starts_with v (w @ js '' * '' @ rest)")
    case True
    then obtain t where t: "w @ js '' * '' @ rest = v @ t" by (auto simp: starts_with_iff)
    then obtain u where u: "w = v @ u" "t = u @ js '' * '' @ rest"
      using assms(1,3) ws by (auto simp: append_eq_append_conv2 plain_var_def append_eq_Cons_conv Cons_eq_append_conv)
    then obtain z u' where "u = z # u'" "\<not> is_ws z" "z \<noteq> 42"
      using assms(2,3) by (cases u) (auto simp: plain_var_def)
    then show ?thesis using u t by (simp add: ws_None0)
  qed simp
  have space: "rx_m (rx_lit v) ?k b (32 # u) c = None" for b u
    using v ws by (auto simp: starts_with_def)
  have after_plus: "rx_m rx_ws (rx_m (rx_lit v) ?k) b (32 # w @ js '' * '' @ rest) c = None" for b
  proof (rule ws_None)
    show "w @ js '' * '' @ rest = [] \<or> \<not> is_ws (hd (w @ js '' * '' @ rest))" by (simp add: w)
  qed (rule var, rule space)
  have "rx_m rx_ws (rx_m (rx_lit (js ''+'')) (rx_m rx_ws (rx_m (rx_lit v) ?k))) b (32 # 43 # 32 # w @ js '' * '' @ rest) c = None"
    using after_plus ws by (intro ws_None) (simp_all add: starts_with_def)
  then show ?thesis by (simp add: opt_cost_rx_def)
qed

lemma opt_end:
  fixes k :: "'r cont"
  shows "rx_m (opt_cost_rx n v) k b (41 # rest) c = k b (41 # rest) c"
proof -
  have "rx_m rx_ws (rx_m (rx_lit (js ''+'')) k') b (41 # rest) c = None" for k' :: "'r cont"
    by (intro ws_None0) (simp_all add: is_ws_def starts_with_def)
  then show ?thesis by (simp add: opt_cost_rx_def)
qed

lemma opt_hit:
  assumes "plain_var v" "p \<noteq> []" "\<forall>x\<in>set p. num_char x" "rest = [] \<or> \<not> num_char (hd rest)"
    and "k (rev (js '' + '' @ v @ js '' * '' @ p) @ b) rest ((n, p) # c) = Some r"
  shows "rx_m (opt_cost_rx n v) k b (js '' + '' @ v @ js '' * '' @ p @ rest) c = Some r"
proof -
  have hd: "\<not> is_ws (hd (v @ u))" "v @ u \<noteq> []" "\<not> is_ws (hd (p @ u))" for u
    using assms(1-3) by (auto simp: plain_var_def num_char_def is_digit_def is_ws_def neq_Nil_conv)
  have ws: "\<not> is_ws 43" "\<not> is_ws 42" by (simp_all add: is_ws_def)
  let ?n = "rx_m (cost_rx n) k" and ?a = "rev (js '' + '' @ v @ js '' * '') @ b"
  have "?n ?a (p @ rest) c = Some r" using assms by (intro cost_max) auto
  then have "rx_m rx_ws ?n (rev (js '' + '' @ v @ js '' *'') @ b) (32 # p @ rest) c = Some r"
    using hd(3) assms(2) by (intro ws_one) simp_all
  then have "rx_m rx_ws (rx_m (rx_lit (js ''*'')) (rx_m rx_ws ?n)) (rev (js '' + '' @ v) @ b) (js '' * '' @ p @ rest) c = Some r"
    using ws by (simp add: ws_one starts_with_def)
  then have "rx_m rx_ws (rx_m (rx_lit v) (rx_m rx_ws (rx_m (rx_lit (js ''*'')) (rx_m rx_ws ?n)))) (rev (js '' +'') @ b)
      (32 # v @ js '' * '' @ p @ rest) c = Some r"
    using hd by (intro ws_one) (simp_all add: lit_step)
  then have "rx_m (rx_seq [rx_ws, rx_lit (js ''+''), rx_ws, rx_lit v, rx_ws, rx_lit (js ''*''), rx_ws, cost_rx n]) k b
      (js '' + '' @ v @ js '' * '' @ p @ rest) c = Some r"
    using ws by (simp add: ws_one starts_with_def)
  then show ?thesis by (simp add: opt_cost_rx_def)
qed

text \<open>The captures of the optional terms.\<close>

fun term_caps :: "nat \<Rightarrow> (jstr \<times> jnum) list \<Rightarrow> caps \<Rightarrow> caps" where
  "term_caps n [] c = c"
| "term_caps n ((v, x) # vs) c = term_caps (Suc n) vs (if x = Fin 0 then c else (n, num_to_string x) # c)"

lemma terms_shape:
  assumes "list_all readable_term vs"
  obtains "terms_text vs = []" | w t where "w \<in> fst ` set vs" "terms_text vs = js '' + '' @ w @ js '' * '' @ t"
proof (cases "filter (\<lambda>p. snd p \<noteq> Fin 0) vs")
  case Nil
  then have "terms_text vs = []"
    by (auto simp: terms_text_def term_text_def filter_empty_conv split: if_splits)
  then show ?thesis by (rule that(1))
next
  case (Cons p ps)
  obtain w x where p: "p = (w, x)" by (cases p)
  obtain us rest where split: "vs = us @ p # rest" "\<forall>u\<in>set us. snd u = Fin 0" "x \<noteq> Fin 0"
    using filter_eq_ConsD [OF Cons] p by auto
  have "concat (map term_text us) = []" using split(2) by (auto simp: term_text_def)
  then have "terms_text vs = js '' + '' @ w @ js '' * '' @ num_to_string x @ terms_text rest"
    using split(3) by (simp add: terms_text_def split(1) p term_text_def)
  then show ?thesis using split(1) p by (intro that(2)) auto
qed

lemma opt_terms:
  assumes "list_all readable_term vs" "distinct (map fst vs)"
    and "k (rev (terms_text vs) @ b) (41 # rest) (term_caps n vs c) = Some r" and "n = m + j"
  shows "rx_m (rx_seq (map (\<lambda>(i, v). opt_cost_rx (m + i) v) (enumerate j (map fst vs)))) k b (terms_text vs @ 41 # rest) c = Some r"
  using assms
proof (induction vs arbitrary: n j b c)
  case Nil
  then show ?case by (simp add: terms_text_def)
next
  case (Cons p vs)
  obtain v x where p: "p = (v, x)" by (cases p)
  have v: "plain_var v" "readable x" "list_all readable_term vs" "distinct (map fst vs)" "v \<notin> fst ` set vs"
    using Cons.prems(1,2) by (auto simp: p readable_term_def)
  let ?R = "rx_seq (map (\<lambda>(i, v). opt_cost_rx (m + i) v) (enumerate (Suc j) (map fst vs)))"
  have seq: "rx_m (rx_seq (map (\<lambda>(i, v). opt_cost_rx (m + i) v) (enumerate j (map fst (p # vs))))) k =
      rx_m (opt_cost_rx n v) (rx_m ?R k)"
    using Cons.prems(4) by (cases vs) (simp_all add: p)
  have IH: "rx_m ?R k b' (terms_text vs @ 41 # rest) c' = Some r"
    if "k (rev (terms_text vs) @ b') (41 # rest) (term_caps (Suc n) vs c') = Some r" for b' c'
    using Cons.IH [OF v(3,4) that] Cons.prems(4) by simp
  show ?case
  proof (cases "x = Fin 0")
    case True
    have tail: "rx_m ?R k b (terms_text vs @ 41 # rest) c = Some r"
      using Cons.prems(3) True by (intro IH) (simp add: p terms_text_def term_text_def)
    have "rx_m (opt_cost_rx n v) (rx_m ?R k) b (terms_text vs @ 41 # rest) c = Some r"
    proof (rule terms_shape [OF v(3)])
      assume "terms_text vs = []"
      with tail show ?thesis by (simp add: opt_end)
    next
      fix w t assume w: "w \<in> fst ` set vs" and t: "terms_text vs = js '' + '' @ w @ js '' * '' @ t"
      have "plain_var w" "v \<noteq> w" using w v(3,5) by (auto simp: list_all_iff readable_term_def)
      then show ?thesis using tail opt_other [OF v(1), of w n "rx_m ?R k" b "t @ 41 # rest" c] by (simp add: t)
    qed
    then show ?thesis unfolding seq using True by (simp add: p terms_text_def term_text_def)
  next
    case False
    have t: "terms_text (p # vs) = js '' + '' @ v @ js '' * '' @ num_to_string x @ terms_text vs"
      using False by (simp add: terms_text_def term_text_def p)
    have hd: "\<not> num_char (hd (terms_text vs @ 41 # rest))"
      by (rule terms_shape [OF v(3)]) (auto simp: num_char_def is_digit_def)
    have "k (rev (js '' + '' @ v @ js '' * '' @ num_to_string x @ terms_text vs) @ b) (41 # rest)
        (term_caps (Suc n) vs ((n, num_to_string x) # c)) = Some r"
      using Cons.prems(3) False unfolding t by (simp add: p)
    then have "rx_m (opt_cost_rx n v) (rx_m ?R k) b (js '' + '' @ v @ js '' * '' @ num_to_string x @ terms_text vs @ 41 # rest) c = Some r"
      using v(1,2) hd by (intro opt_hit IH) (auto simp: readable_def list_all_iff)
    then show ?thesis unfolding seq t by simp
  qed
qed

section \<open>The call of a tier\<close>

text \<open>A tier as the editor shows it.\<close>

record tier_spec =
  ts_label :: jstr
  ts_conditions :: "(jstr \<times> jstr \<times> jnum) list"
  ts_input :: jnum
  ts_output :: jnum
  ts_costs :: "jnum list"

definition cost_vars :: "jstr list" where
  "cost_vars = map snd BILLING_CACHE_VAR_MAP"

definition ts_terms :: "tier_spec \<Rightarrow> (jstr \<times> jnum) list" where
  "ts_terms ts = zip cost_vars (ts_costs ts)"

definition faithful_condition :: "jstr \<times> jstr \<times> jnum \<Rightarrow> bool" where
  "faithful_condition = (\<lambda>(v, p, x). v \<in> {js ''p'', js ''c'', js ''len''} \<and>
     p \<in> {js ''<'', js ''<='', js ''>'', js ''>=''} \<and> readable x \<and> list_all unum_char (num_to_string x))"

definition faithful_tier :: "tier_spec \<Rightarrow> bool" where
  "faithful_tier ts \<longleftrightarrow> ts_label ts \<noteq> [] \<and> 34 \<notin> set (ts_label ts) \<and> readable (ts_input ts) \<and>
     readable (ts_output ts) \<and> length (ts_costs ts) = 7 \<and> list_all readable (ts_costs ts) \<and>
     list_all faithful_condition (ts_conditions ts)"

definition tier_body :: "tier_spec \<Rightarrow> jstr" where
  "tier_body ts =
     js ''p * '' @ num_to_string (ts_input ts) @ js '' + c * '' @ num_to_string (ts_output ts) @ terms_text (ts_terms ts)"

definition call_text :: "tier_spec \<Rightarrow> jstr" where
  "call_text ts = js ''tier('' @ [34] @ ts_label ts @ [34] @ js '', '' @ tier_body ts @ js '')''"

definition call_caps :: "nat \<Rightarrow> tier_spec \<Rightarrow> caps \<Rightarrow> caps" where
  "call_caps n ts c =
     term_caps (n + 3) (ts_terms ts)
       ((n + 2, num_to_string (ts_output ts)) # (n + 1, num_to_string (ts_input ts)) # (n, ts_label ts) # c)"

lemma cost_vars_eq:
  "cost_vars = [js ''cr'', js ''cc'', js ''cc1h'', js ''img'', js ''img_o'', js ''ai'', js ''ao'']"
  by (simp add: cost_vars_def BILLING_CACHE_VAR_MAP_def BILLING_EXTRA_VARS_def BILLING_VARS_def billing_var_def)

lemma cost_vars_plain: "list_all plain_var cost_vars" "distinct cost_vars"
  by (simp_all add: cost_vars_eq plain_var_def is_ws_def)

lemma ts_terms_facts:
  assumes "faithful_tier ts"
  shows "list_all readable_term (ts_terms ts)" "distinct (map fst (ts_terms ts))" "map fst (ts_terms ts) = cost_vars"
proof -
  have len: "length cost_vars = length (ts_costs ts)"
    using assms by (simp add: faithful_tier_def cost_vars_eq del: js_Cons)
  then show "map fst (ts_terms ts) = cost_vars" by (simp add: ts_terms_def)
  then show "distinct (map fst (ts_terms ts))" by (simp add: cost_vars_plain)
  show "list_all readable_term (ts_terms ts)"
    using assms cost_vars_plain(1)
    by (auto simp: ts_terms_def faithful_tier_def list_all_iff readable_term_def dest: set_zip_leftD set_zip_rightD)
qed

lemma readable_text:
  assumes "readable x"
  shows "num_to_string x \<noteq> []" "\<forall>y\<in>set (num_to_string x). num_char y"
    "\<not> is_ws (hd (num_to_string x @ u))"
  using assms
  by (auto simp: readable_def list_all_iff neq_Nil_conv num_char_def is_digit_def is_ws_def)

lemma body_split:
  "rx_m (rx_seq (body_rx n)) k =
     rx_m (rx_seq [rx_lit (js ''p''), rx_ws, rx_lit (js ''*''), rx_ws, cost_rx n])
       (rx_m (rx_seq [rx_ws, rx_lit (js ''+''), rx_ws, rx_lit (js ''c''), rx_ws, rx_lit (js ''*''), rx_ws, cost_rx (n + 1)])
         (rx_m (rx_seq (map (\<lambda>(i, v). opt_cost_rx (n + 2 + i) v) (enumerate 0 cost_vars))) k))"
  by (simp only: body_rx_def cost_vars_def rx_m_seq_append [symmetric] append.simps)

lemma body_match:
  assumes "faithful_tier ts"
    and "k (rev (tier_body ts) @ b) (41 # rest)
      (term_caps (n + 2) (ts_terms ts)
        ((n + 1, num_to_string (ts_output ts)) # (n, num_to_string (ts_input ts)) # c)) = Some r"
  shows "rx_m (rx_seq (body_rx n)) k b (tier_body ts @ 41 # rest) c = Some r"
proof -
  let ?i = "num_to_string (ts_input ts)" and ?o = "num_to_string (ts_output ts)" and ?t = "terms_text (ts_terms ts)"
  let ?R = "rx_seq (map (\<lambda>(i, v). opt_cost_rx (n + 2 + i) v) (enumerate 0 cost_vars))"
  have i: "readable (ts_input ts)" and o: "readable (ts_output ts)" using assms(1) by (simp_all add: faithful_tier_def)
  have ws: "\<not> is_ws 43" "\<not> is_ws 42" "\<not> is_ws 99" "\<not> num_char 32" by (simp_all add: is_ws_def num_char_def is_digit_def)
  have hd: "\<not> num_char (hd (?t @ 41 # rest))"
    by (rule terms_shape [OF ts_terms_facts(1) [OF assms(1)]]) (auto simp: num_char_def is_digit_def)
  have "rx_m ?R k (rev (js ''p * '' @ ?i @ js '' + c * '' @ ?o) @ b) (?t @ 41 # rest) ((n + 1, ?o) # (n, ?i) # c) = Some r"
    using opt_terms [OF ts_terms_facts(1,2) [OF assms(1)], of k _ rest "n + 2" _ r "n + 2" 0] assms(2)
    by (simp add: tier_body_def ts_terms_facts(3) [OF assms(1)])
  then have "rx_m (cost_rx (n + 1)) (rx_m ?R k) (rev (js ''p * '' @ ?i @ js '' + c * '') @ b) (?o @ ?t @ 41 # rest) ((n, ?i) # c) = Some r"
    using readable_text [OF o] hd by (intro cost_max) auto
  then have "rx_m (rx_seq [rx_ws, rx_lit (js ''+''), rx_ws, rx_lit (js ''c''), rx_ws, rx_lit (js ''*''), rx_ws, cost_rx (n + 1)])
      (rx_m ?R k) (rev (js ''p * '' @ ?i) @ b) (js '' + c * '' @ ?o @ ?t @ 41 # rest) ((n, ?i) # c) = Some r"
    using ws readable_text [OF o] by (simp add: ws_one starts_with_def)
  then have "rx_m (cost_rx n) (rx_m (rx_seq [rx_ws, rx_lit (js ''+''), rx_ws, rx_lit (js ''c''), rx_ws, rx_lit (js ''*''), rx_ws, cost_rx (n + 1)])
      (rx_m ?R k)) (rev (js ''p * '') @ b) (?i @ js '' + c * '' @ ?o @ ?t @ 41 # rest) c = Some r"
    using readable_text [OF i] ws by (intro cost_max) auto
  then show ?thesis
    using ws readable_text [OF i] unfolding body_split by (simp add: tier_body_def ws_one starts_with_def)
qed

lemma label_max:
  assumes "34 \<notin> set l" "k (rev l @ b) (34 # rest) ((n, l) # c) = Some r"
  shows "rx_m (RGroup n (RStar (RCls not_quote))) k b (l @ 34 # rest) c = Some r"
  using assms by (intro group_max star_cls_max) (auto simp: not_quote_def)

lemma call_match:
  assumes "faithful_tier ts" "k (rev (call_text ts) @ b) rest (call_caps n ts c) = Some r"
  shows "rx_m (rx_seq (call_rx n)) k b (call_text ts @ rest) c = Some r"
proof -
  let ?l = "ts_label ts"
  have split: "rx_m (rx_seq (call_rx n)) k =
      rx_m (rx_seq [rx_lit (js ''tier('' @ [34]), RGroup n (RStar (RCls not_quote)), rx_lit ([34] @ js '',''), rx_ws])
        (rx_m (rx_seq (body_rx (n + 1))) (rx_m (rx_seq [rx_lit (js '')'')]) k))"
    by (simp only: call_rx_def rx_m_seq_append [symmetric] append.simps append_assoc)
  have "rx_m (rx_seq (body_rx (n + 1))) (rx_m (rx_seq [rx_lit (js '')'')]) k)
      (rev (js ''tier('' @ [34] @ ?l @ [34] @ js '', '') @ b) (tier_body ts @ 41 # rest) ((n, ?l) # c) = Some r"
    using assms by (intro body_match) (simp_all add: call_text_def call_caps_def starts_with_def numeral_3_eq_3)
  then have "rx_m rx_ws (rx_m (rx_seq (body_rx (n + 1))) (rx_m (rx_seq [rx_lit (js '')'')]) k))
      (rev (js ''tier('' @ [34] @ ?l @ [34] @ js '','') @ b) (32 # tier_body ts @ 41 # rest) ((n, ?l) # c) = Some r"
    by (intro ws_one) (simp_all add: tier_body_def is_ws_def)
  then have "rx_m (RGroup n (RStar (RCls not_quote))) (rx_m (rx_seq [rx_lit ([34] @ js '',''), rx_ws])
        (rx_m (rx_seq (body_rx (n + 1))) (rx_m (rx_seq [rx_lit (js '')'')]) k)))
      (rev (js ''tier('' @ [34]) @ b) (?l @ 34 # js '', '' @ tier_body ts @ 41 # rest) c = Some r"
    using assms(1) by (intro label_max) (simp_all add: faithful_tier_def starts_with_def)
  then show ?thesis unfolding split by (simp add: call_text_def starts_with_def)
qed

section \<open>Conditions\<close>

definition cond_text :: "jstr \<times> jstr \<times> jnum \<Rightarrow> jstr" where
  "cond_text = (\<lambda>(v, p, x). v @ js '' '' @ p @ js '' '' @ num_to_string x)"

definition conds_text :: "(jstr \<times> jstr \<times> jnum) list \<Rightarrow> jstr" where
  "conds_text cs = join (js '' && '') (map cond_text cs)"

lemma join_concat: "join sep (x # xs) = x @ concat (map (\<lambda>y. sep @ y) xs)"
  by (induction xs arbitrary: x) simp_all

lemma cond_cases:
  assumes "faithful_condition q"
  obtains v p x where "q = (v, p, x)" "v = js ''p'' \<or> v = js ''c'' \<or> v = js ''len''"
    "p = js ''<'' \<or> p = js ''<='' \<or> p = js ''>'' \<or> p = js ''>=''" "readable x"
    "\<forall>y\<in>set (num_to_string x). unum_char y"
  using assms by (cases q) (auto simp: faithful_condition_def list_all_iff)

lemma var_match:
  assumes "v = js ''p'' \<or> v = js ''c'' \<or> v = js ''len''" "k (rev v @ b) rest c = Some r"
  shows "rx_m var_alt k b (v @ rest) c = Some r"
  using assms by (elim disjE) (simp_all add: var_alt_def starts_with_def)

lemma op_match:
  fixes k :: "'r cont"
  assumes "p = js ''<'' \<or> p = js ''<='' \<or> p = js ''>'' \<or> p = js ''>=''" "k (rev p @ b) rest c = Some r"
    and "\<And>b a. k b (61 # a) c = None"
  shows "rx_m op_alt k b (p @ rest) c = Some r"
  using assms by (elim disjE) (simp_all add: op_alt_def starts_with_def)

lemma no_equals:
  fixes k :: "'r cont"
  shows "rx_m rx_ws (rx_m (rx_plus (RCls unum_char)) k) b (61 # a) c = None"
  by (intro ws_None0) (simp_all add: is_ws_def rx_plus_def unum_char_def is_digit_def)

lemma cond_match:
  fixes k :: "'r cont"
  assumes "faithful_condition q" "rest = [] \<or> \<not> unum_char (hd rest)" "k (rev (cond_text q) @ b) rest c = Some r"
  shows "rx_m cond_rx k b (cond_text q @ rest) c = Some r"
  using assms(1)
proof (cases rule: cond_cases)
  case (1 v p x)
  let ?n = "num_to_string x" and ?N = "rx_m (rx_plus (RCls unum_char)) k"
  have "?N (rev (v @ js '' '' @ p @ js '' '') @ b) (?n @ rest) c = Some r"
    using 1 assms(2,3) readable_text(1) [OF 1(4)] by (intro cls_plus_max) (simp_all add: cond_text_def)
  then have "rx_m rx_ws ?N (rev (v @ js '' '' @ p) @ b) (32 # ?n @ rest) c = Some r"
    using readable_text [OF 1(4)] by (intro ws_one) simp_all
  then have "rx_m op_alt (rx_m rx_ws ?N) (rev (v @ js '' '') @ b) (p @ 32 # ?n @ rest) c = Some r"
    using 1(3) no_equals by (intro op_match) simp_all
  then have "rx_m rx_ws (rx_m op_alt (rx_m rx_ws ?N)) (rev v @ b) (32 # p @ 32 # ?n @ rest) c = Some r"
    using 1(3) by (intro ws_one) (auto simp: is_ws_def)
  then have "rx_m var_alt (rx_m rx_ws (rx_m op_alt (rx_m rx_ws ?N))) b (v @ 32 # p @ 32 # ?n @ rest) c = Some r"
    using 1(2) by (intro var_match) simp_all
  then show ?thesis by (simp add: cond_rx_def cond_text_def 1(1))
qed

lemma cond_text_hd: "faithful_condition q \<Longrightarrow> cond_text q \<noteq> [] \<and> \<not> is_ws (hd (cond_text q))"
  by (erule cond_cases) (auto simp: cond_text_def is_ws_def)

definition more_conds :: "(jstr \<times> jstr \<times> jnum) list \<Rightarrow> jstr" where
  "more_conds cs = concat (map (\<lambda>q. js '' && '' @ cond_text q) cs)"

lemma conds_text_Cons: "conds_text (q # cs) = cond_text q @ more_conds cs"
  by (simp add: conds_text_def more_conds_def join_concat comp_def)

lemma and_none:
  fixes k :: "'r cont"
  shows "rx_m rx_ws (rx_m (rx_lit (js ''&&'')) k) b (32 # 63 # rest) c = None"
  by (intro ws_None) (simp_all add: is_ws_def starts_with_def)

lemma more_conds_hd: "\<not> unum_char (hd (more_conds cs @ 32 # rest))"
  by (cases cs) (simp_all add: more_conds_def unum_char_def is_digit_def)

lemma more_match:
  fixes k :: "'r cont"
  assumes "list_all faithful_condition cs" "k (rev (more_conds cs) @ b) (32 # 63 # rest) c = Some r"
  shows "rx_m (RStar (rx_seq [rx_ws, rx_lit (js ''&&''), rx_ws, cond_rx])) k b (more_conds cs @ 32 # 63 # rest) c = Some r"
  using assms
proof (induction cs arbitrary: b)
  case Nil
  then show ?case by (subst star_unfold) (simp add: and_none [simplified] more_conds_def)
next
  case (Cons q cs)
  let ?S = "RStar (rx_seq [rx_ws, rx_lit (js ''&&''), rx_ws, cond_rx])"
  let ?a = "more_conds (q # cs) @ 32 # 63 # rest"
  let ?k = "\<lambda>b' a' c'. if length a' < length ?a then rx_m ?S k b' a' c' else None"
  have t: "more_conds (q # cs) = js '' && '' @ cond_text q @ more_conds cs" by (simp add: more_conds_def)
  have "rx_m ?S k (rev (js '' && '' @ cond_text q) @ b) (more_conds cs @ 32 # 63 # rest) c = Some r"
    using Cons by (intro Cons.IH) (simp_all add: t)
  then have "rx_m cond_rx ?k (rev (js '' && '') @ b) (cond_text q @ more_conds cs @ 32 # 63 # rest) c = Some r"
    using Cons.prems(1) more_conds_hd by (intro cond_match) (simp_all add: t)
  then have "rx_m rx_ws (rx_m cond_rx ?k) (rev (js '' &&'') @ b) (32 # cond_text q @ more_conds cs @ 32 # 63 # rest) c = Some r"
    using Cons.prems(1) cond_text_hd [of q] by (intro ws_one) simp_all
  then have "rx_m rx_ws (rx_m (rx_lit (js ''&&'')) (rx_m rx_ws (rx_m cond_rx ?k))) b ?a c = Some r"
    unfolding t by (simp add: ws_one is_ws_def starts_with_def)
  then show ?case by (subst star_unfold) simp
qed

lemma conds_match:
  fixes k :: "'r cont"
  assumes "list_all faithful_condition cs" "cs \<noteq> []" "k (rev (conds_text cs) @ b) (32 # 63 # rest) ((1, conds_text cs) # c) = Some r"
  shows "rx_m cond_group_rx k b (conds_text cs @ 32 # 63 # rest) c = Some r"
proof -
  obtain q qs where cs: "cs = q # qs" using assms(2) by (cases cs) auto
  show ?thesis
    unfolding cond_group_rx_def
  proof (rule group_max)
    let ?k = "\<lambda>b' a' c'. k b' a' ((1, take (length (conds_text cs @ 32 # 63 # rest) - length a') (conds_text cs @ 32 # 63 # rest)) # c')"
    have "rx_m (RStar (rx_seq [rx_ws, rx_lit (js ''&&''), rx_ws, cond_rx])) ?k (rev (cond_text q) @ b) (more_conds qs @ 32 # 63 # rest) c = Some r"
      using assms by (intro more_match) (simp_all add: cs conds_text_Cons)
    then show "rx_m (RSeq cond_rx (RStar (rx_seq [rx_ws, rx_lit (js ''&&''), rx_ws, cond_rx]))) ?k b (conds_text cs @ 32 # 63 # rest) c = Some r"
      using assms(1) more_conds_hd unfolding cs conds_text_Cons
      by (simp del: rx_m_seq) (intro cond_match, simp_all)
  qed
qed

section \<open>The tiers of an expression\<close>

definition guarded_text :: "tier_spec \<Rightarrow> jstr" where
  "guarded_text ts =
     (if ts_conditions ts = [] then call_text ts
      else conds_text (ts_conditions ts) @ js '' ? '' @ call_text ts)"

definition guarded_caps :: "tier_spec \<Rightarrow> caps" where
  "guarded_caps ts =
     call_caps 2 ts (if ts_conditions ts = [] then [] else [(1, conds_text (ts_conditions ts))])"

lemma no_condition:
  fixes k :: "'r cont"
  assumes "x \<noteq> 112" "x \<noteq> 99" "x \<noteq> 108"
  shows "rx_m cond_group_rx k b (x # a) c = None"
  using assms by (simp add: cond_group_rx_def cond_rx_def var_alt_def rx_m.simps starts_with_def)

lemma tier_at:
  assumes "faithful_tier ts"
  shows "rx_at visual_tier_rx b (guarded_text ts @ rest) =
    Some (b, rev (guarded_text ts) @ b, rest, guarded_caps ts)"
proof (cases "ts_conditions ts = []")
  case True
  have "rx_m cond_group_rx k b (call_text ts @ rest) c = None" for k :: "rx_result cont" and c
    using no_condition [of 116] by (simp add: call_text_def)
  moreover have "rx_m (rx_seq (call_rx 2)) (\<lambda>b' a' c'. Some (b, b', a', c')) b (call_text ts @ rest) [] =
      Some (b, rev (call_text ts) @ b, rest, call_caps 2 ts [])"
    using assms by (intro call_match) simp_all
  ultimately show ?thesis
    using True by (simp add: rx_at_def visual_tier_rx_def guarded_text_def guarded_caps_def call_rx_def)
next
  case False
  let ?K = "rx_m (rx_seq (call_rx 2)) (\<lambda>b' a' c'. Some (b, b', a', c'))"
  let ?cs = "ts_conditions ts"
  have cs: "list_all faithful_condition ?cs" using assms by (simp add: faithful_tier_def)
  have "?K (rev (conds_text ?cs @ js '' ? '') @ b) (call_text ts @ rest) [(1, conds_text ?cs)] =
      Some (b, rev (conds_text ?cs @ js '' ? '' @ call_text ts) @ b, rest, call_caps 2 ts [(1, conds_text ?cs)])"
    using assms by (intro call_match) simp_all
  then have "rx_m rx_ws (rx_m (rx_lit (js ''?'')) (rx_m rx_ws ?K)) (rev (conds_text ?cs) @ b) (32 # 63 # 32 # call_text ts @ rest)
      [(1, conds_text ?cs)] =
      Some (b, rev (conds_text ?cs @ js '' ? '' @ call_text ts) @ b, rest, call_caps 2 ts [(1, conds_text ?cs)])"
    by (simp add: ws_one is_ws_def starts_with_def call_text_def)
  then have "rx_m cond_group_rx (rx_m rx_ws (rx_m (rx_lit (js ''?'')) (rx_m rx_ws ?K))) b
      (conds_text ?cs @ 32 # 63 # 32 # call_text ts @ rest) [] =
      Some (b, rev (conds_text ?cs @ js '' ? '' @ call_text ts) @ b, rest, call_caps 2 ts [(1, conds_text ?cs)])"
    using cs False by (intro conds_match) simp_all
  then show ?thesis
    using False by (simp add: rx_at_def visual_tier_rx_def guarded_text_def guarded_caps_def call_rx_def)
qed

lemma tier_skip:
  assumes "x \<noteq> 112" "x \<noteq> 99" "x \<noteq> 108" "x \<noteq> 116"
  shows "rx_at visual_tier_rx b (x # a) = None"
  using assms no_condition [OF assms(1-3), where ?'r = rx_result]
  by (simp add: rx_at_def visual_tier_rx_def call_rx_def starts_with_def)

lemma tier_search:
  assumes "faithful_tier ts"
  shows "rx_search visual_tier_rx b (guarded_text ts @ rest) = Some (b, rev (guarded_text ts) @ b, rest, guarded_caps ts)"
proof -
  have "guarded_text ts \<noteq> []" by (simp add: guarded_text_def call_text_def)
  then show ?thesis
    using tier_at [OF assms, of b rest] by (cases "guarded_text ts @ rest") (auto simp del: append_is_Nil_conv)
qed

lemma tier_all:
  assumes "faithful_tier ts"
  shows "rx_all visual_tier_rx b (guarded_text ts @ rest) = guarded_caps ts # rx_all visual_tier_rx (rev (guarded_text ts) @ b) rest"
proof -
  have "guarded_text ts \<noteq> []" by (simp add: guarded_text_def call_text_def)
  then show ?thesis using tier_search [OF assms] by (subst rx_all.simps) simp
qed

lemma tier_all_colon:
  assumes "faithful_tier ts"
  shows "rx_all visual_tier_rx b (js '' : '' @ guarded_text ts @ rest) =
    guarded_caps ts # rx_all visual_tier_rx (rev (js '' : '' @ guarded_text ts) @ b) rest"
  using tier_search [OF assms] by (subst rx_all.simps) (simp add: tier_skip)

definition more_tiers :: "tier_spec list \<Rightarrow> jstr" where
  "more_tiers tss = concat (map (\<lambda>ts. js '' : '' @ guarded_text ts) tss)"

lemma tier_at_Nil: "rx_at visual_tier_rx b [] = None"
proof -
  have "rx_m cond_group_rx k b [] c = None" for k :: "rx_result cont" and c
    by (simp add: cond_group_rx_def cond_rx_def var_alt_def rx_m.simps starts_with_def)
  then show ?thesis by (simp add: rx_at_def visual_tier_rx_def call_rx_def starts_with_def)
qed

lemma tier_none: "rx_all visual_tier_rx b [] = []"
  by (subst rx_all.simps) (simp add: tier_at_Nil)

lemma more_tiers_all:
  "list_all faithful_tier tss \<Longrightarrow> rx_all visual_tier_rx b (more_tiers tss) = map guarded_caps tss"
proof (induction tss arbitrary: b)
  case Nil
  then show ?case by (simp add: more_tiers_def tier_none)
next
  case (Cons ts tss)
  then show ?case
    using tier_all_colon [of ts b "more_tiers tss"] by (simp add: more_tiers_def)
qed

text \<open>The rest of a single guarded tier holds no tier.\<close>

lemma no_comparison:
  fixes k :: "'r cont"
  shows "rx_m cond_group_rx k b (112 # 32 # 42 # a) c = None" "rx_m cond_group_rx k b (99 # 32 # 42 # a) c = None"
proof -
  have "rx_m rx_ws (rx_m op_alt k') b (32 # 42 # a) c = None" for k' :: "'r cont" and b
    by (intro ws_None) (simp_all add: is_ws_def op_alt_def starts_with_def)
  then show "rx_m cond_group_rx k b (112 # 32 # 42 # a) c = None" "rx_m cond_group_rx k b (99 # 32 # 42 # a) c = None"
    by (simp_all add: cond_group_rx_def cond_rx_def var_alt_def rx_m.simps starts_with_def)
qed

lemma tier_tail: "rx_all visual_tier_rx b (js '' : p * 0 + c * 0'') = []"
proof -
  have pc: "rx_at visual_tier_rx b (112 # 32 # 42 # a) = None" "rx_at visual_tier_rx b (99 # 32 # 42 # a) = None" for b a
    using no_comparison [where ?'r = rx_result]
    by (simp_all add: rx_at_def visual_tier_rx_def call_rx_def starts_with_def)
  have "rx_search visual_tier_rx b (js '' : p * 0 + c * 0'') = None"
    by (simp add: tier_skip pc tier_at_Nil)
  then show ?thesis by (subst rx_all.simps) simp
qed

end
