(* ===== verification/Tier_Rules.thy ===== *)
theory Tier_Rules
  imports Tier_Match
begin

text \<open>
  The round trip of the visual tier editor: an expression printed from a configuration is read
  back as the same configuration.
\<close>

section \<open>Conditions read back\<close>

definition cond_json :: "jstr \<times> jstr \<times> jnum \<Rightarrow> json" where
  "cond_json = (\<lambda>(v, p, x). JObj [(js ''var'', JStr v), (js ''op'', JStr p), (js ''value'', JNum x)])"

text \<open>A text in which no position starts a separator.\<close>

fun no_and :: "jstr \<Rightarrow> bool" where
  "no_and [] = True"
| "no_and (x # s) \<longleftrightarrow> x \<noteq> 38 \<and> (is_ws x \<longrightarrow> x = 32 \<and> s \<noteq> [] \<and> \<not> is_ws (hd s) \<and> hd s \<noteq> 38) \<and> no_and s"

lemma no_and_word: "\<forall>x\<in>set s. \<not> is_ws x \<and> x \<noteq> 38 \<Longrightarrow> no_and s"
  by (induction s) auto

lemma no_and_append: "no_and s \<Longrightarrow> no_and t \<Longrightarrow> no_and (s @ t)"
  by (induction s) (auto simp: hd_append)

lemma no_and_cond:
  assumes "faithful_condition q"
  shows "no_and (cond_text q)"
  using assms
proof (cases rule: cond_cases)
  case (1 v p x)
  obtain y t where t: "num_to_string x = y # t" using readable_text(1) [OF 1(4)] by (cases "num_to_string x") auto
  have n: "\<forall>z\<in>set (num_to_string x). \<not> is_ws z \<and> z \<noteq> 38"
    using readable_text(2) [OF 1(4)] by (auto simp: num_char_def is_digit_def is_ws_def)
  have "no_and (v @ 32 # p @ 32 # num_to_string x)"
    using 1(2,3) n no_and_word [OF n] t by (elim disjE) (simp_all add: is_ws_def)
  then show ?thesis by (simp add: cond_text_def 1(1))
qed

lemma and_at_none:
  assumes "x \<noteq> 38" "is_ws x \<longrightarrow> x = 32 \<and> a \<noteq> [] \<and> \<not> is_ws (hd a) \<and> hd a \<noteq> 38"
  shows "rx_at and_rx b (x # a) = None"
proof -
  have "rx_m rx_ws (rx_m (rx_lit (js ''&&'')) k) b (x # a) [] = None" for k :: "rx_result cont"
  proof (cases "is_ws x")
    case True
    then obtain y u where a: "x = 32" "a = y # u" "\<not> is_ws y" "y \<noteq> 38" using assms(2) by (cases a) auto
    then show ?thesis by (simp del: js_Cons) (intro ws_None, simp_all add: starts_with_def)
  next
    case False
    then show ?thesis using assms(1) by (intro ws_None0) (simp_all add: starts_with_def)
  qed
  then show ?thesis by (simp add: rx_at_def and_rx_def)
qed

lemma and_skip:
  "no_and s \<Longrightarrow> s \<noteq> [] \<Longrightarrow> rest = [] \<or> rest = 32 # 38 # u \<Longrightarrow>
   rx_split_acc and_rx b acc (s @ rest) = rx_split_acc and_rx (rev s @ b) (rev s @ acc) rest"
proof (induction s arbitrary: b acc)
  case (Cons x s)
  have "rx_at and_rx b (x # s @ rest) = None"
    using Cons.prems(1) by (intro and_at_none) auto
  then have step: "rx_split_acc and_rx b acc (x # s @ rest) = rx_split_acc and_rx (x # b) (x # acc) (s @ rest)"
    by (subst rx_split_acc.simps) simp
  show ?case
  proof (cases "s = []")
    case True
    then show ?thesis using step by simp
  next
    case False
    then show ?thesis using step Cons.IH [of "x # b" "x # acc"] Cons.prems by simp
  qed
qed simp

lemma and_at:
  assumes "t \<noteq> []" "\<not> is_ws (hd t)"
  shows "rx_at and_rx b (js '' && '' @ t) = Some (b, rev (js '' && '') @ b, t, [])"
  using assms by (simp add: rx_at_def and_rx_def ws_one is_ws_def starts_with_def)

lemma split_conds:
  "list_all faithful_condition (q # cs) \<Longrightarrow>
   rx_split_acc and_rx b [] (cond_text q @ more_conds cs) = map cond_text (q # cs)"
proof (induction cs arbitrary: q b)
  case Nil
  then show ?case
    using and_skip [of "cond_text q" "[]" "[]" b "[]"] no_and_cond [of q] cond_text_hd [of q]
    by (simp add: more_conds_def rx_split_acc.simps [of _ _ _ "[]"])
next
  case (Cons q' cs)
  have more: "more_conds (q' # cs) = js '' && '' @ cond_text q' @ more_conds cs" by (simp add: more_conds_def)
  have q': "cond_text q' @ more_conds cs \<noteq> []" "\<not> is_ws (hd (cond_text q' @ more_conds cs))"
    using Cons.prems cond_text_hd [of q'] by auto
  have "rx_split_acc and_rx b [] (cond_text q @ more_conds (q' # cs)) =
      rx_split_acc and_rx (rev (cond_text q) @ b) (rev (cond_text q)) (more_conds (q' # cs))"
    using Cons.prems and_skip [of "cond_text q" _ _ b "[]"] no_and_cond [of q] cond_text_hd [of q]
    unfolding more by simp
  also have "\<dots> = cond_text q # rx_split_acc and_rx (rev (js '' && '') @ rev (cond_text q) @ b) [] (cond_text q' @ more_conds cs)"
    unfolding more using and_at [OF q'] by (subst rx_split_acc.simps) simp
  also have "\<dots> = map cond_text (q # q' # cs)" using Cons.IH [of q'] Cons.prems by simp
  finally show ?case .
qed

lemma readable_ends:
  assumes "readable x"
  shows "\<not> is_ws (last (num_to_string x))" "\<not> is_ws (hd (num_to_string x))"
proof -
  have "\<forall>y\<in>set (num_to_string x). \<not> is_ws y"
    using readable_text(2) [OF assms] by (auto simp: num_char_def is_digit_def is_ws_def)
  then show "\<not> is_ws (last (num_to_string x))" "\<not> is_ws (hd (num_to_string x))"
    using readable_text(1) [OF assms] by simp_all
qed

lemma trim_cond:
  assumes "faithful_condition q"
  shows "trim (cond_text q) = cond_text q"
  using assms
proof (cases rule: cond_cases)
  case (1 v p x)
  have "last (cond_text q) = last (num_to_string x)"
    using readable_text(1) [OF 1(4)] by (simp add: cond_text_def 1(1))
  then show ?thesis
    using cond_text_hd [OF assms] readable_ends [OF 1(4)] by (intro trim_id) simp_all
qed

lemma op_group_match:
  fixes k :: "'r cont"
  assumes "p = js ''<'' \<or> p = js ''<='' \<or> p = js ''>'' \<or> p = js ''>=''" "k (rev p @ b) rest ((n, p) # c) = Some r"
    and none: "\<And>b a c. k b (61 # a) c = None"
  shows "rx_m (RGroup n op_alt) k b (p @ rest) c = Some r"
proof (rule group_max, rule op_match [OF assms(1)])
  show "k (rev p @ b) rest ((n, take (length (p @ rest) - length rest) (p @ rest)) # c) = Some r"
    using assms(2) by simp
qed (rule none)

lemma var_group_match:
  fixes k :: "'r cont"
  assumes "v = js ''p'' \<or> v = js ''c'' \<or> v = js ''len''" "k (rev v @ b) rest ((n, v) # c) = Some r"
  shows "rx_m (RGroup n var_alt) k b (v @ rest) c = Some r"
proof (rule group_max, rule var_match [OF assms(1)])
  show "k (rev v @ b) rest ((n, take (length (v @ rest) - length rest) (v @ rest)) # c) = Some r"
    using assms(2) by simp
qed

lemma number_end_match:
  assumes "readable x" "\<forall>y\<in>set (num_to_string x). unum_char y"
  shows "rx_m (RGroup 3 (rx_plus (RCls unum_char))) (rx_m REnd (\<lambda>b a c. Some c)) b (num_to_string x) c =
    Some ((3, num_to_string x) # c)"
  using group_plus_end [OF readable_text(1) [OF assms(1)] assms(2), of 3 "\<lambda>b a c. Some c" b c] by simp

lemma one_cond_match:
  assumes "faithful_condition (v, p, x)"
  shows "rx_match one_cond_rx (cond_text (v, p, x)) = Some [(3, num_to_string x), (2, p), (1, v)]"
proof -
  let ?n = "num_to_string x" and ?r = "Some [(3, num_to_string x), (2, p), (1, v)]"
  let ?N = "rx_m (RGroup 3 (rx_plus (RCls unum_char))) (rx_m REnd (\<lambda>b a c. Some c))"
  have v: "v = js ''p'' \<or> v = js ''c'' \<or> v = js ''len''" and x: "readable x"
    and p: "p = js ''<'' \<or> p = js ''<='' \<or> p = js ''>'' \<or> p = js ''>=''"
    and n: "\<forall>y\<in>set ?n. unum_char y"
    using assms by (auto simp: faithful_condition_def list_all_iff)
  have ws: "\<not> is_ws (hd (p @ u))" "p \<noteq> []" for u using p by (auto simp: is_ws_def)
  have eq: "rx_m rx_ws ?N b (61 # a) c = None" for b a c
    by (intro ws_None0) (simp_all add: is_ws_def rx_plus_def unum_char_def is_digit_def rx_m.simps)
  have "rx_m rx_ws ?N (rev (v @ 32 # p)) (32 # ?n) [(2, p), (1, v)] = ?r"
    using readable_text(1) [OF x] readable_ends(2) [OF x] number_end_match [OF x n] by (rule ws_one)
  then have "rx_m (RGroup 2 op_alt) (rx_m rx_ws ?N) (32 # rev v) (p @ 32 # ?n) [(1, v)] = ?r"
    by (intro op_group_match [OF p] eq) simp
  then have "rx_m rx_ws (rx_m (RGroup 2 op_alt) (rx_m rx_ws ?N)) (rev v) (32 # p @ 32 # ?n) [(1, v)] = ?r"
    using ws by (intro ws_one) simp_all
  then have "rx_m (RGroup 1 var_alt) (rx_m rx_ws (rx_m (RGroup 2 op_alt) (rx_m rx_ws ?N))) [] (v @ 32 # p @ 32 # ?n) [] = ?r"
    by (intro var_group_match [OF v]) simp
  then show ?thesis
    by (simp add: one_cond_rx_def rx_match_start cond_text_def)
qed

lemma read_condition_text:
  assumes "faithful_condition q"
  shows "read_condition (cond_text q) = Some (cond_json q)"
proof -
  obtain v p x where q: "q = (v, p, x)" by (cases q)
  then have "readable x" using assms by (simp add: faithful_condition_def)
  then show ?thesis
    using one_cond_match [of v p x] assms
    by (simp add: read_condition_def trim_cond cap_str_def cond_json_def q readable_def)
qed

lemma read_conditions_text:
  assumes "list_all faithful_condition cs"
  shows "read_conditions (conds_text cs) = map cond_json cs"
proof (cases cs)
  case Nil
  then show ?thesis by (simp add: read_conditions_def conds_text_def)
next
  case (Cons q qs)
  have "conds_text cs \<noteq> []" using assms cond_text_hd [of q] by (simp add: Cons conds_text_Cons)
  moreover have "rx_split and_rx (conds_text cs) = map cond_text cs"
    using split_conds [of q qs "[]"] assms by (simp add: rx_split_def Cons conds_text_Cons)
  moreover have "List.map_filter read_condition (map cond_text cs) = map cond_json cs"
    using assms by (induction cs) (simp_all add: read_condition_text)
  ultimately show ?thesis by (simp add: read_conditions_def)
qed

section \<open>The object of a tier\<close>

definition tier_mode :: "tier_spec \<Rightarrow> jstr" where
  "tier_mode ts = (if num_lt (Fin 0) (ts_costs ts ! 2) then CACHE_MODE_TIMED else CACHE_MODE_GENERIC)"

definition tier_props :: "tier_spec \<Rightarrow> visual_tier" where
  "tier_props ts =
     [(js ''label'', JStr (ts_label ts)), (js ''input_unit_cost'', JNum (ts_input ts)),
      (js ''output_unit_cost'', JNum (ts_output ts)), (js ''cache_mode'', JStr (tier_mode ts)),
      (js ''conditions'', JArr (map cond_json (ts_conditions ts)))] @
     map (\<lambda>(f, x). (f, JNum x)) (zip cost_fields (ts_costs ts))"

text \<open>An object that shows a tier: it may lack the cache mode and the costs that are zero.\<close>

definition shows_tier :: "tier_spec \<Rightarrow> visual_tier \<Rightarrow> bool" where
  "shows_tier ts tier \<longleftrightarrow>
     get (js ''label'') tier = Some (JStr (ts_label ts)) \<and>
     get (js ''input_unit_cost'') tier = Some (JNum (ts_input ts)) \<and>
     get (js ''output_unit_cost'') tier = Some (JNum (ts_output ts)) \<and>
     get (js ''conditions'') tier = Some (JArr (map cond_json (ts_conditions ts))) \<and>
     get (js ''cache_mode'') tier \<in> {None, Some (JStr (tier_mode ts))} \<and>
     list_all2 (\<lambda>f x. get f tier = Some (JNum x) \<or> x = Fin 0 \<and> get f tier = None) cost_fields (ts_costs ts) \<and>
     set (map fst tier) \<subseteq> set (map fst (tier_props ts)) \<and> distinct (map fst tier)"

lemma cost_fields_eq: "map fst BILLING_CACHE_VAR_MAP = cost_fields"
  by (simp add: cost_fields_def BILLING_CACHE_VAR_MAP_def BILLING_EXTRA_VARS_def BILLING_VARS_def billing_var_def)

lemma cost_var_map: "BILLING_CACHE_VAR_MAP = zip cost_fields cost_vars"
  by (simp add: cost_vars_def cost_fields_eq [symmetric] zip_map_fst_snd)

lemma number_or_zero_num: "x \<noteq> NaN \<Longrightarrow> number_or_zero (Some (JNum x)) = Inr x"
  by (simp add: number_or_zero_def num_truthy_def)

lemma number_or_zero_missing: "number_or_zero None = Inr (Fin 0)"
  by (simp add: number_or_zero_def num_truthy_def)

lemma readable_number: "readable x \<Longrightarrow> x \<noteq> NaN"
  by (auto simp: readable_def num_char_def is_digit_def)

lemma map_of_foldl_prop_set:
  "distinct (map fst zs) \<Longrightarrow>
   map_of (foldl (\<lambda>ps (f, x). prop_set f (g x) ps) a zs) = map_of a ++ map_of (map (\<lambda>(f, x). (f, g x)) zs)"
proof (induction zs arbitrary: a)
  case (Cons z zs)
  obtain f x where z: "z = (f, x)" by (cases z)
  have "f \<notin> dom (map_of (map (\<lambda>(f, x). (f, g x)) zs))"
    using Cons.prems by (auto simp: z dom_map_of_conv_image_fst image_iff)
  then show ?case using Cons by (auto simp: z map_of_prop_set fun_eq_iff map_add_def domIff split: option.splits)
qed simp

lemma distinct_foldl_prop_set:
  "distinct (map fst a) \<Longrightarrow> distinct (map fst (foldl (\<lambda>ps (f, x). prop_set f (g x) ps) a zs))"
  by (induction zs arbitrary: a) (auto simp: distinct_prop_set)

section \<open>Normalizing a tier\<close>

lemma cost_fields_distinct: "distinct cost_fields" "length cost_fields = 7"
  by (simp_all add: cost_fields_def)

lemma shown_costs:
  assumes "faithful_tier ts" "shows_tier ts tier"
  shows "rmap (\<lambda>f. number_or_zero (get f tier)) cost_fields = Inr (ts_costs ts)"
proof -
  have "list_all2 (\<lambda>f x. (get f tier = Some (JNum x) \<or> x = Fin 0 \<and> get f tier = None) \<and> readable x) cost_fields (ts_costs ts)"
    using assms by (auto simp: shows_tier_def faithful_tier_def list_all2_iff list_all_iff dest: set_zip_rightD)
  then show ?thesis
    unfolding rmap_list_all2
    by (rule list_all2_mono) (auto simp: number_or_zero_num number_or_zero_missing readable_number)
qed

lemma num_le_NaN: "\<not> num_le x NaN"
  by (cases x) simp_all

lemma shown_mode:
  assumes "faithful_tier ts" "shows_tier ts tier"
  shows "getTierCacheMode tier = Inr (tier_mode ts)"
proof -
  have "cost_fields ! 2 = js ''cache_create_1h_unit_cost''" by (simp add: cost_fields_def)
  moreover have "get (cost_fields ! 2) tier = Some (JNum (ts_costs ts ! 2)) \<or>
      ts_costs ts ! 2 = Fin 0 \<and> get (cost_fields ! 2) tier = None"
    using assms(2) cost_fields_distinct(2) by (auto simp: shows_tier_def list_all2_conv_all_nth)
  ultimately have "get (js ''cache_create_1h_unit_cost'') tier = Some (JNum (ts_costs ts ! 2)) \<or>
      ts_costs ts ! 2 = Fin 0 \<and> get (js ''cache_create_1h_unit_cost'') tier = None" by simp
  moreover have "get (js ''cache_mode'') tier \<in> {None, Some (JStr (tier_mode ts))}"
    using assms(2) by (simp add: shows_tier_def)
  ultimately show ?thesis
    by (auto simp: getTierCacheMode_def tier_mode_def num_lt_def num_le_NaN simp del: js_Cons)
qed

lemma tier_names: "p \<in> set (tier_props ts) \<Longrightarrow> \<not> is_index_key (fst p)"
proof -
  have "\<forall>f\<in>set cost_fields. \<not> is_index_key f"
    by (simp add: cost_fields_def is_index_key_def is_digit_def)
  moreover have "\<forall>f\<in>{js ''label'', js ''input_unit_cost'', js ''output_unit_cost'', js ''cache_mode'', js ''conditions''}. \<not> is_index_key f"
    by (simp add: is_index_key_def is_digit_def)
  ultimately show "p \<in> set (tier_props ts) \<Longrightarrow> \<not> is_index_key (fst p)"
    by (auto simp: tier_props_def simp del: js_Cons dest: set_zip_leftD)
qed

lemma shown_entries:
  assumes "shows_tier ts tier"
  shows "own_entries tier = tier"
proof (rule own_entries_named, rule ballI)
  fix p assume "p \<in> set tier"
  then have "fst p \<in> set (map fst tier)" by simp
  then have "fst p \<in> set (map fst (tier_props ts))" using assms unfolding shows_tier_def by blast
  then obtain q where "q \<in> set (tier_props ts)" "fst p = fst q" by auto
  then show "\<not> is_index_key (fst p)" using tier_names [of q ts] by simp
qed

definition cost_map :: "tier_spec \<Rightarrow> props" where
  "cost_map ts = map (\<lambda>(f, x). (f, JNum x)) (zip cost_fields (ts_costs ts))"

lemma cost_map_keys:
  assumes "faithful_tier ts"
  shows "map fst (cost_map ts) = cost_fields"
  using assms cost_fields_distinct
  by (simp add: cost_map_def faithful_tier_def comp_def case_prod_unfold)

lemma cost_map_lookup:
  assumes "faithful_tier ts"
  shows "list_all2 (\<lambda>f x. map_of (cost_map ts) f = Some (JNum x)) cost_fields (ts_costs ts)"
proof -
  have "(f, JNum x) \<in> set (cost_map ts)" if "(f, x) \<in> set (zip cost_fields (ts_costs ts))" for f x
    using that by (force simp: cost_map_def)
  moreover have "distinct (map fst (cost_map ts))"
    using cost_fields_distinct(1) by (simp add: cost_map_keys [OF assms])
  ultimately show ?thesis
    using assms cost_fields_distinct(2) by (auto simp: list_all2_iff faithful_tier_def intro: map_of_is_SomeI)
qed

lemma cost_map_dom:
  assumes "faithful_tier ts"
  shows "dom (map_of (cost_map ts)) = set cost_fields"
  unfolding dom_map_of_conv_image_fst list.set_map [symmetric] cost_map_keys [OF assms] ..

lemma tier_props_map:
  assumes "faithful_tier ts"
  shows "map_of (tier_props ts) =
    map_of [(js ''label'', JStr (ts_label ts)), (js ''input_unit_cost'', JNum (ts_input ts)),
      (js ''output_unit_cost'', JNum (ts_output ts)), (js ''cache_mode'', JStr (tier_mode ts)),
      (js ''conditions'', JArr (map cond_json (ts_conditions ts)))] ++ map_of (cost_map ts)"
    (is "_ = map_of ?five ++ _")
proof -
  have "fst ` set ?five \<inter> set cost_fields = {}" by (simp add: cost_fields_def)
  then have "dom (map_of ?five) \<inter> dom (map_of (cost_map ts)) = {}"
    unfolding cost_map_dom [OF assms] unfolding dom_map_of_conv_image_fst .
  then have "map_of (cost_map ts) ++ map_of ?five = map_of ?five ++ map_of (cost_map ts)"
    by (intro map_add_comm) blast
  then show ?thesis
    by (simp only: tier_props_def cost_map_def map_of_append)
qed

lemma other_field:
  assumes "faithful_tier ts" "k \<notin> set cost_fields"
  shows "map_of (cost_map ts) k = None"
  using assms(2) cost_map_dom [OF assms(1)] by blast

lemma names_no_cost:
  "js ''label'' \<notin> set cost_fields" "js ''input_unit_cost'' \<notin> set cost_fields" "js ''output_unit_cost'' \<notin> set cost_fields"
  "js ''cache_mode'' \<notin> set cost_fields" "js ''conditions'' \<notin> set cost_fields"
  by (simp_all add: cost_fields_def)

lemma tier_props_get:
  assumes "faithful_tier ts"
  shows "map_of (tier_props ts) (js ''label'') = Some (JStr (ts_label ts))"
    "map_of (tier_props ts) (js ''input_unit_cost'') = Some (JNum (ts_input ts))"
    "map_of (tier_props ts) (js ''output_unit_cost'') = Some (JNum (ts_output ts))"
    "map_of (tier_props ts) (js ''cache_mode'') = Some (JStr (tier_mode ts))"
    "map_of (tier_props ts) (js ''conditions'') = Some (JArr (map cond_json (ts_conditions ts)))"
  by (simp_all add: tier_props_def)

lemma full_shows:
  assumes "faithful_tier ts" "map_of t = map_of (tier_props ts)" "distinct (map fst t)"
  shows "shows_tier ts t"
proof -
  have keys: "set (map fst t) = set (map fst (tier_props ts))"
    using assms(2) by (metis dom_map_of_conv_image_fst list.set_map)
  have "list_all2 (\<lambda>f x. get f t = Some (JNum x) \<or> x = Fin 0 \<and> get f t = None) cost_fields (ts_costs ts)"
    using cost_map_lookup [OF assms(1)]
    by (rule list_all2_mono) (simp add: get_def assms(2) tier_props_map [OF assms(1)] map_add_Some_iff del: map_of.simps js_Cons)
  then show ?thesis
    unfolding shows_tier_def get_def assms(2) tier_props_get [OF assms(1)] keys using assms(3) by simp
qed

lemma shown_get:
  assumes "shows_tier ts tier"
  shows "map_of tier (js ''label'') = Some (JStr (ts_label ts))"
    "map_of tier (js ''input_unit_cost'') = Some (JNum (ts_input ts))"
    "map_of tier (js ''output_unit_cost'') = Some (JNum (ts_output ts))"
    "map_of tier (js ''conditions'') = Some (JArr (map cond_json (ts_conditions ts)))"
    "map_of tier (js ''cache_mode'') = None \<or> map_of tier (js ''cache_mode'') = Some (JStr (tier_mode ts))"
  using assms unfolding shows_tier_def get_def by blast+

lemma normalized_map:
  assumes "faithful_tier ts" "shows_tier ts tier"
  shows "(map_of [(js ''label'', v1), (js ''input_unit_cost'', v2), (js ''output_unit_cost'', v3),
       (js ''cache_mode'', JStr (tier_mode ts)), (js ''conditions'', v4)] ++ map_of tier) ++ map_of (cost_map ts) =
    map_of (tier_props ts)" (is "(map_of ?base ++ _) ++ _ = _")
proof
  fix k
  consider "k \<in> set cost_fields" | "k \<in> set (map fst ?base)" | "k \<notin> set cost_fields" "k \<notin> set (map fst ?base)" by blast
  then show "((map_of ?base ++ map_of tier) ++ map_of (cost_map ts)) k = map_of (tier_props ts) k"
  proof cases
    case 1
    then obtain v where "map_of (cost_map ts) k = Some v" using cost_map_dom [OF assms(1)] by blast
    then show ?thesis by (simp add: tier_props_map [OF assms(1)] map_add_Some_iff del: map_of.simps js_Cons)
  next
    case 2
    then have "k \<notin> set cost_fields" using names_no_cost by (auto simp del: js_Cons)
    then have "map_of (cost_map ts) k = None" by (rule other_field [OF assms(1)])
    moreover have "(map_of ?base ++ map_of tier) k = map_of (tier_props ts) k"
    proof (cases "k = js ''cache_mode''")
      case True
      have "map_of ?base (js ''cache_mode'') = Some (JStr (tier_mode ts))" by simp
      then show ?thesis
        using shown_get(5) [OF assms(2)] tier_props_get(4) [OF assms(1)] unfolding True
        by (auto simp: map_add_def simp del: map_of.simps js_Cons)
    next
      case False
      then have "k \<in> {js ''label'', js ''input_unit_cost'', js ''output_unit_cost'', js ''conditions''}"
        using 2 by (auto simp del: js_Cons)
      then have "map_of tier k = map_of (tier_props ts) k" "map_of tier k \<noteq> None"
        using shown_get(1-4) [OF assms(2)] tier_props_get [OF assms(1)] by (auto simp del: js_Cons)
      then show ?thesis by (auto simp del: map_of.simps js_Cons)
    qed
    ultimately show ?thesis by (simp add: map_add_def del: map_of.simps js_Cons)
  next
    case 3
    then have "k \<notin> set (map fst (tier_props ts))"
      using cost_map_keys [OF assms(1)] by (auto simp: tier_props_def cost_map_def simp del: js_Cons)
    moreover from this have "k \<notin> set (map fst tier)" using assms(2) unfolding shows_tier_def by blast
    ultimately have "map_of (tier_props ts) k = None" "map_of tier k = None" "map_of ?base k = None"
      using 3(2) by (simp_all add: map_of_eq_None_iff)
    then show ?thesis using other_field [OF assms(1) 3(1)] by (simp add: map_add_def del: map_of.simps js_Cons)
  qed
qed

lemma normalize_shown:
  assumes "faithful_tier ts" "shows_tier ts tier"
  obtains t where "normalizeVisualTier tier = Inr t" "map_of t = map_of (tier_props ts)" "shows_tier ts t"
proof -
  let ?base = "[(js ''label'', (case nullish (get (js ''label'') tier) None of None \<Rightarrow> JStr [] | Some v \<Rightarrow> v)),
      (js ''input_unit_cost'', JNum (ts_input ts)), (js ''output_unit_cost'', JNum (ts_output ts)),
      (js ''cache_mode'', JStr (tier_mode ts)), (js ''conditions'', array_or_empty (get (js ''conditions'') tier))]"
  let ?t = "foldl (\<lambda>ps (f, x). prop_set f (JNum x) ps) (spread ?base tier) (zip cost_fields (ts_costs ts))"
  have num: "number_or_zero (get (js ''input_unit_cost'') tier) = Inr (ts_input ts)"
    "number_or_zero (get (js ''output_unit_cost'') tier) = Inr (ts_output ts)"
    using assms(1) unfolding get_def shown_get [OF assms(2)]
    by (simp_all add: faithful_tier_def number_or_zero_num readable_number)
  have res: "normalizeVisualTier tier = Inr ?t"
    unfolding normalizeVisualTier_def num shown_costs [OF assms] shown_mode [OF assms] rbind_simps ..
  have dz: "distinct (map fst (zip cost_fields (ts_costs ts)))"
    using assms(1) cost_fields_distinct by (simp add: faithful_tier_def)
  have dt: "distinct (map fst tier)" using assms(2) by (simp add: shows_tier_def)
  have "map_of (spread ?base tier) = map_of ?base ++ map_of tier"
    using map_of_foldl_prop_set [OF dt, of "\<lambda>v. v" ?base] by (simp add: spread_def shown_entries [OF assms(2)])
  then have m: "map_of ?t = map_of (tier_props ts)"
    unfolding map_of_foldl_prop_set [OF dz] cost_map_def [symmetric] by (simp only: normalized_map [OF assms])
  have "distinct (map fst ?base)" by simp
  then have "distinct (map fst ?t)"
    unfolding spread_def by (intro distinct_foldl_prop_set)
  with res m full_shows [OF assms(1) m] that show ?thesis by blast
qed

section \<open>The tier of a match\<close>

lemma term_caps_map:
  "map_of (term_caps n vs c) k =
     (if n \<le> k \<and> k < n + length vs \<and> snd (vs ! (k - n)) \<noteq> Fin 0 then Some (num_to_string (snd (vs ! (k - n))))
      else map_of c k)"
proof (induction vs arbitrary: n c k)
  case (Cons p vs)
  obtain v x where p: "p = (v, x)" by (cases p)
  consider "k < n" | "k = n" | j where "k = Suc (n + j)" by (metis less_iff_Suc_add nat_neq_iff)
  then show ?case by cases (simp_all add: p Cons.IH)
qed auto

text \<open>The loop that sets the optional costs.\<close>

lemma optional_fields:
  fixes g :: "nat \<Rightarrow> 'a option" and h :: "'a \<Rightarrow> json" and xs :: "(jstr \<times> 'b) list"
  defines "step \<equiv> \<lambda>tier (i, field, _). case g i of None \<Rightarrow> tier | Some v \<Rightarrow> prop_set field (h v) tier"
  shows optional_other: "k \<notin> fst ` set xs \<Longrightarrow> map_of (foldl step a (enumerate j xs)) k = map_of a k"
    and optional_distinct: "distinct (map fst a) \<Longrightarrow> distinct (map fst (foldl step a (enumerate j xs)))"
    and optional_keys: "fst ` set (foldl step a (enumerate j xs)) \<subseteq> fst ` set a \<union> fst ` set xs"
proof -
  show "k \<notin> fst ` set xs \<Longrightarrow> map_of (foldl step a (enumerate j xs)) k = map_of a k"
    by (induction xs arbitrary: a j) (auto simp: step_def map_of_prop_set split: option.splits)
  show "distinct (map fst a) \<Longrightarrow> distinct (map fst (foldl step a (enumerate j xs)))"
    by (induction xs arbitrary: a j) (auto simp: step_def distinct_prop_set split: option.splits)
  show "fst ` set (foldl step a (enumerate j xs)) \<subseteq> fst ` set a \<union> fst ` set xs"
  proof (induction xs arbitrary: a j)
    case (Cons x xs)
    obtain f y where x: "x = (f, y)" by (cases x)
    have "fst ` set (step a (j, x)) \<subseteq> insert f (fst ` set a)"
      by (auto simp: step_def x prop_set_keys split: option.splits)
    then show ?case using Cons.IH [of "step a (j, x)" "Suc j"] by (simp add: x) blast
  qed simp
qed

lemma optional_field:
  fixes g :: "nat \<Rightarrow> 'a option" and h :: "'a \<Rightarrow> json" and xs :: "(jstr \<times> 'b) list"
  assumes "distinct (map fst xs)" "i < length xs"
  shows "map_of (foldl (\<lambda>tier (i, field, _). case g i of None \<Rightarrow> tier | Some v \<Rightarrow> prop_set field (h v) tier) a (enumerate j xs)) (fst (xs ! i)) =
    (case g (j + i) of None \<Rightarrow> map_of a (fst (xs ! i)) | Some v \<Rightarrow> Some (h v))"
  using assms
proof (induction xs arbitrary: a i j)
  case (Cons x xs)
  obtain f y where x: "x = (f, y)" by (cases x)
  show ?case
  proof (cases i)
    case 0
    then show ?thesis
      using Cons.prems(1) by (simp add: x optional_other map_of_prop_set split: option.split)
  next
    case (Suc i')
    have "fst (xs ! i') \<noteq> f" using Cons.prems x Suc by (auto dest: nth_mem)
    then show ?thesis
      using Cons.IH [of i' _ "Suc j"] Cons.prems by (simp add: x Suc map_of_prop_set split: option.split)
  qed
qed simp

lemma call_caps_map:
  assumes "\<forall>k\<ge>n. map_of c k = None" "faithful_tier ts"
  shows "cap_str (call_caps n ts c) n = ts_label ts"
    "cap_str (call_caps n ts c) (n + 1) = num_to_string (ts_input ts)"
    "cap_str (call_caps n ts c) (n + 2) = num_to_string (ts_output ts)"
    "i < 7 \<Longrightarrow> cap (call_caps n ts c) (n + 3 + i) =
       (if ts_costs ts ! i = Fin 0 then None else Some (num_to_string (ts_costs ts ! i)))"
    "k < n \<Longrightarrow> cap (call_caps n ts c) k = cap c k"
  using assms cost_fields_distinct
  by (simp_all add: call_caps_def cap_str_def cap_def term_caps_map ts_terms_def faithful_tier_def cost_vars_eq del: js_Cons)

lemma read_tier_shows:
  assumes "\<forall>k\<ge>n. map_of c k = None" "faithful_tier ts"
  shows "shows_tier ts (read_tier (map cond_json (ts_conditions ts)) n (call_caps n ts c))" (is "shows_tier ts ?t")
proof -
  let ?m = "call_caps n ts c" and ?cs = "map cond_json (ts_conditions ts)"
  let ?four = "[(js ''conditions'', JArr ?cs), (js ''input_unit_cost'', JNum (ts_input ts)),
      (js ''output_unit_cost'', JNum (ts_output ts)), (js ''label'', JStr (ts_label ts))]"
  let ?step = "\<lambda>tier (i, field, _). case cap ?m (n + 3 + i) of None \<Rightarrow> tier | Some v \<Rightarrow> prop_set field (JNum (to_number v)) tier"
  have r: "to_number (num_to_string (ts_input ts)) = ts_input ts" "to_number (num_to_string (ts_output ts)) = ts_output ts"
    "\<forall>x\<in>set (ts_costs ts). to_number (num_to_string x) = x" "length (ts_costs ts) = 7"
    using assms(2) by (auto simp: faithful_tier_def readable_def list_all_iff)
  have t: "?t = foldl ?step ?four (enumerate 0 BILLING_CACHE_VAR_MAP)"
    unfolding read_tier_def call_caps_map(1-3) [OF assms] r ..
  have F: "fst ` set BILLING_CACHE_VAR_MAP = set cost_fields" "distinct (map fst BILLING_CACHE_VAR_MAP)"
    "length BILLING_CACHE_VAR_MAP = 7" "\<And>i. i < 7 \<Longrightarrow> fst (BILLING_CACHE_VAR_MAP ! i) = cost_fields ! i"
    using cost_fields_eq cost_fields_distinct by (metis list.set_map, metis, metis length_map, metis length_map nth_map)
  have five: "map_of ?t k = map_of ?four k" if "k \<notin> set cost_fields" for k
    unfolding t by (rule optional_other) (simp add: F that)
  have "map_of ?four k = None" if "k \<in> set cost_fields" for k
    using that names_no_cost unfolding map_of_eq_None_iff by (auto simp del: js_Cons)
  then have four: "map_of ?four (cost_fields ! i) = None" if "i < 7" for i
    using that cost_fields_distinct(2) by (simp del: map_of.simps)
  have "map_of ?t (cost_fields ! i) = (if ts_costs ts ! i = Fin 0 then None else Some (JNum (ts_costs ts ! i)))" if "i < 7" for i
    using optional_field [OF F(2), where i = i and g = "\<lambda>i. cap ?m (n + 3 + i)" and h = "\<lambda>v. JNum (to_number v)" and a = ?four and j = 0] that r(3,4) four [OF that]
    unfolding t by (simp add: F call_caps_map(4) [OF assms] del: map_of.simps js_Cons)
  then have "list_all2 (\<lambda>f x. get f ?t = Some (JNum x) \<or> x = Fin 0 \<and> get f ?t = None) cost_fields (ts_costs ts)"
    using r(4) cost_fields_distinct(2) by (simp add: list_all2_conv_all_nth get_def)
  moreover have "set (map fst ?t) \<subseteq> set (map fst (tier_props ts))"
    using optional_keys [where g = "\<lambda>i. cap ?m (n + 3 + i)" and h = "\<lambda>v. JNum (to_number v)" and a = ?four and j = 0 and xs = BILLING_CACHE_VAR_MAP] cost_map_keys [OF assms(2)]
    unfolding t F by (auto simp: tier_props_def cost_map_def simp del: js_Cons)
  moreover have "distinct (map fst ?t)"
    unfolding t by (rule optional_distinct) simp
  ultimately show ?thesis
    unfolding shows_tier_def get_def five [OF names_no_cost(1)] five [OF names_no_cost(2)] five [OF names_no_cost(3)]
      five [OF names_no_cost(4)] five [OF names_no_cost(5)] by simp
qed

section \<open>Printing a shown tier\<close>

lemma shown_terms:
  assumes "faithful_tier ts" "shows_tier ts tier"
  shows "rmap (\<lambda>(field, exprVar). rbind (number_or_zero (get field tier)) (\<lambda>v. Inr (exprVar, v))) BILLING_CACHE_VAR_MAP =
    Inr (ts_terms ts)"
proof -
  have len: "length cost_fields = length cost_vars" "length cost_vars = length (ts_costs ts)"
    using assms(1) by (simp_all add: cost_fields_def cost_vars_eq faithful_tier_def del: js_Cons)
  have "list_all2 (\<lambda>f x. number_or_zero (get f tier) = Inr x) cost_fields (ts_costs ts)"
    using shown_costs [OF assms] by (simp add: rmap_list_all2)
  then show ?thesis
    using len by (simp add: rmap_list_all2 cost_var_map ts_terms_def list_all2_conv_all_nth)
qed

lemma terms_concat:
  "concat (map (\<lambda>y. js '' + '' @ y) (map (\<lambda>(x, v). x @ js '' * '' @ num_to_string v) (filter (\<lambda>(x, v). v \<noteq> Fin 0) vs))) = terms_text vs"
  by (induction vs) (auto simp: terms_text_def term_text_def)

lemma shown_body:
  assumes "faithful_tier ts" "shows_tier ts tier"
  shows "buildTierBodyExpr tier = Inr (tier_body ts)"
proof -
  have num: "number_or_zero (get (js ''input_unit_cost'') tier) = Inr (ts_input ts)"
    "number_or_zero (get (js ''output_unit_cost'') tier) = Inr (ts_output ts)"
    using assms(1) unfolding get_def shown_get [OF assms(2)]
    by (simp_all add: faithful_tier_def number_or_zero_num readable_number)
  show ?thesis
    unfolding buildTierBodyExpr_def num shown_terms [OF assms] rbind_simps append.simps join_concat
      list.map concat.simps terms_concat
    by (simp add: tier_body_def)
qed

lemma shown_call:
  assumes "faithful_tier ts" "shows_tier ts tier"
  shows "tier_call fallback tier = Inr (call_text ts)"
proof -
  have "get (js ''label'') tier = Some (JStr (ts_label ts))" by (simp only: get_def shown_get [OF assms(2)])
  moreover have "ts_label ts \<noteq> []" using assms(1) by (simp add: faithful_tier_def)
  ultimately show ?thesis
    by (simp add: tier_call_def truthy_def template_def shown_body [OF assms] call_text_def del: js_Cons)
qed

lemma condition_printed:
  assumes "faithful_condition q"
  shows "\<exists>ps. element_props (cond_json q) = Inr ps \<and> complete_condition ps \<and> condition_text ps = Inr (cond_text q)"
  using assms
  by (rule cond_cases)
    (auto simp: cond_json_def cond_text_def element_props_def complete_condition_def condition_text_def truthy_def template_def
      nullish_def get_def)

lemma conditions_printed:
  assumes "list_all faithful_condition cs"
  shows "buildConditionStr (Some (JArr (map cond_json cs))) = Inr (conds_text cs)"
proof -
  have "\<exists>ps. rmap element_props (map cond_json cs) = Inr ps \<and> list_all complete_condition ps \<and>
      rmap condition_text ps = Inr (map cond_text cs)"
    using assms
  proof (induction cs)
    case (Cons q cs)
    then obtain p ps where "element_props (cond_json q) = Inr p" "complete_condition p" "condition_text p = Inr (cond_text q)"
      "rmap element_props (map cond_json cs) = Inr ps" "list_all complete_condition ps" "rmap condition_text ps = Inr (map cond_text cs)"
      using condition_printed [of q] by auto
    then show ?case by (intro exI [of _ "p # ps"]) simp
  qed simp
  then obtain ps where "rmap element_props (map cond_json cs) = Inr ps" "filter complete_condition ps = ps"
      "rmap condition_text ps = Inr (map cond_text cs)"
    by (auto simp: list_all_iff filter_id_conv)
  then show ?thesis by (simp add: buildConditionStr_def truthy_def conds_text_def)
qed

section \<open>Printing a configuration\<close>

text \<open>Tiers whose expression reads back: every tier but the last of several has conditions, the last
  one has none.\<close>

definition faithful_config :: "tier_spec list \<Rightarrow> bool" where
  "faithful_config tss \<longleftrightarrow> tss \<noteq> [] \<and> list_all faithful_tier tss \<and>
     (1 < length tss \<longrightarrow> list_all (\<lambda>ts. ts_conditions ts \<noteq> []) (butlast tss) \<and> ts_conditions (last tss) = [])"

fun config_text :: "tier_spec list \<Rightarrow> jstr" where
  "config_text [] = js ''p * 0 + c * 0''"
| "config_text [ts] = guarded_text ts @ (if ts_conditions ts = [] then [] else js '' : p * 0 + c * 0'')"
| "config_text (ts # tss) = guarded_text ts @ more_tiers tss"

lemma shown_guard:
  assumes "faithful_tier ts" "shows_tier ts tier"
  shows "buildConditionStr (get (js ''conditions'') tier) = Inr (conds_text (ts_conditions ts))"
  using assms(1) by (simp only: get_def shown_get [OF assms(2)] conditions_printed faithful_tier_def)

lemma conds_text_Nil: "list_all faithful_condition cs \<Longrightarrow> conds_text cs = [] \<longleftrightarrow> cs = []"
  using cond_text_hd by (cases cs) (auto simp: conds_text_Cons, simp add: conds_text_def)

lemma parts_printed:
  "list_all2 shows_tier tss cfg \<Longrightarrow> list_all faithful_tier tss \<Longrightarrow> n = i + length tss \<Longrightarrow>
   (tss \<noteq> [] \<Longrightarrow> ts_conditions (last tss) = []) \<Longrightarrow>
   rmap (tier_part n) (enumerate i cfg) = Inr (map guarded_text tss)"
proof (induction tss cfg arbitrary: i rule: list_all2_induct)
  case (Cons ts tss t cfg)
  have ts: "faithful_tier ts" "shows_tier ts t" "list_all faithful_condition (ts_conditions ts)"
    using Cons by (simp_all add: faithful_tier_def)
  have "tier_part n (i, t) = Inr (guarded_text ts)"
    using Cons.prems(2,3) conds_text_Nil [OF ts(3)]
    by (cases "tss = []") (simp_all add: tier_part_def shown_call [OF ts(1,2)] shown_guard [OF ts(1,2)] guarded_text_def del: js_Cons)
  moreover have "rmap (tier_part n) (enumerate (Suc i) cfg) = Inr (map guarded_text tss)"
    using Cons.prems by (intro Cons.IH) (auto split: if_splits)
  ultimately show ?case by simp
qed simp

lemma config_printed:
  assumes "faithful_config tss" "list_all2 shows_tier tss cfg"
  shows "generateExprFromVisualConfig (Some cfg) = Inr (config_text tss)"
proof (cases tss rule: config_text.cases)
  case 1
  then show ?thesis using assms(1) by (simp add: faithful_config_def)
next
  case (2 ts)
  then obtain t where cfg: "cfg = [t]" and s: "shows_tier ts t" using assms(2) by (auto simp: list_all2_Cons1)
  have f: "faithful_tier ts" "list_all faithful_condition (ts_conditions ts)"
    using assms(1) by (simp_all add: 2 faithful_config_def faithful_tier_def)
  show ?thesis
    using conds_text_Nil [OF f(2)]
    by (simp add: 2 cfg generateExprFromVisualConfig_def shown_call [OF f(1) s] shown_guard [OF f(1) s] guarded_text_def del: js_Cons)
next
  case (3 ts us uss)
  then obtain t u c where cfg: "cfg = t # u # c" using assms(2) by (auto simp: list_all2_Cons1)
  have "rmap (tier_part (length cfg)) (enumerate 0 cfg) = Inr (map guarded_text tss)"
    using assms by (intro parts_printed) (auto simp: faithful_config_def 3 dest: list_all2_lengthD)
  then show ?thesis
    by (simp add: 3 cfg generateExprFromVisualConfig_def join_concat more_tiers_def comp_def del: rmap.simps enumerate_simps js_Cons)
qed

section \<open>Reading a configuration\<close>

lemma single_match:
  assumes "faithful_tier ts"
  shows "rx_match single_rx (call_text ts) = Some (call_caps 1 ts [])"
proof -
  have "rx_m (rx_seq (call_rx 1)) (rx_m (rx_seq [REnd]) (\<lambda>b a c. Some c)) [] (call_text ts @ []) [] = Some (call_caps 1 ts [])"
    using assms by (intro call_match) simp_all
  then have "rx_m (rx_seq (call_rx 1 @ [REnd])) (\<lambda>b a c. Some c) [] (call_text ts) [] = Some (call_caps 1 ts [])"
    by (simp add: rx_m_seq_append)
  moreover obtain r rs where "call_rx 1 @ [REnd] = r # rs" by (simp add: call_rx_def)
  ultimately show ?thesis by (simp only: single_rx_def rx_match_start)
qed

lemma single_no_match:
  assumes "x \<noteq> 116"
  shows "rx_match single_rx (x # s) = None"
  using assms by (simp add: single_rx_def call_rx_def rx_match_start starts_with_def)

lemma no_version:
  assumes "x \<noteq> 118"
  shows "expr_body (x # s) = x # s"
  using assms by (simp add: expr_body_def version_rx_def rx_match_start starts_with_def)

lemma guarded_start:
  assumes "faithful_tier ts" "ts_conditions ts \<noteq> []"
  obtains x s where "guarded_text ts = x # s" "x \<noteq> 116" "x \<noteq> 118"
proof -
  obtain q qs where cs: "ts_conditions ts = q # qs" using assms(2) by (cases "ts_conditions ts") auto
  then have "faithful_condition q" using assms(1) by (simp add: faithful_tier_def)
  then show ?thesis
    by (rule cond_cases) (auto simp: guarded_text_def cs conds_text_Cons cond_text_def intro: that)
qed

lemma tiers_matched:
  assumes "faithful_config tss" "1 < length tss \<or> ts_conditions (hd tss) \<noteq> []"
  shows "rx_all visual_tier_rx [] (config_text tss) = map guarded_caps tss"
  using assms
  by (cases tss rule: config_text.cases)
    (simp_all add: faithful_config_def tier_all more_tiers_all tier_tail del: js_Cons)

lemma guarded_read:
  assumes "faithful_tier ts"
  shows "shows_tier ts (read_tier (read_conditions (cap_str (guarded_caps ts) 1)) 2 (guarded_caps ts))"
proof -
  let ?c = "if ts_conditions ts = [] then [] else [(1 :: nat, conds_text (ts_conditions ts))]"
  have c: "\<forall>k\<ge>2. map_of ?c k = None" by simp
  have "cap_str (guarded_caps ts) 1 = conds_text (ts_conditions ts)"
    using call_caps_map(5) [OF c assms, of 1] by (simp add: guarded_caps_def cap_str_def cap_def conds_text_def)
  moreover have "list_all faithful_condition (ts_conditions ts)" using assms by (simp add: faithful_tier_def)
  ultimately show ?thesis
    using read_tier_shows [OF c assms] by (simp only: read_conditions_text guarded_caps_def)
qed

text \<open>Normalizing a list of shown tiers.\<close>

lemma normalize_all:
  assumes "list_all faithful_tier tss" "list_all2 shows_tier tss cfg"
  obtains n where "rmap normalizeVisualTier cfg = Inr n" "list_all2 shows_tier tss n"
    "list_all2 (\<lambda>ts t. map_of t = map_of (tier_props ts)) tss n"
proof -
  have "\<exists>n. rmap normalizeVisualTier cfg = Inr n \<and> list_all2 shows_tier tss n \<and>
      list_all2 (\<lambda>ts t. map_of t = map_of (tier_props ts)) tss n"
    using assms(2,1)
  proof (induction tss cfg rule: list_all2_induct)
    case (Cons ts tss t cfg)
    then obtain n where "rmap normalizeVisualTier cfg = Inr n" "list_all2 shows_tier tss n"
      "list_all2 (\<lambda>ts t. map_of t = map_of (tier_props ts)) tss n" by auto
    moreover obtain t' where "normalizeVisualTier t = Inr t'" "map_of t' = map_of (tier_props ts)" "shows_tier ts t'"
      using Cons by (auto elim: normalize_shown)
    ultimately show ?case by (intro exI [of _ "t' # n"]) simp
  qed simp
  then show ?thesis using that by blast
qed

lemma normalize_config: "cfg \<noteq> [] \<Longrightarrow> normalizeVisualConfig (Some cfg) = rmap normalizeVisualTier cfg"
  by (cases cfg) (simp_all add: normalizeVisualConfig_def)

lemma config_read:
  assumes "faithful_config tss"
  obtains cfg where "parse_visual (config_text tss) = Inr (Some cfg)"
    "list_all2 (\<lambda>ts t. map_of t = map_of (tier_props ts)) tss cfg"
proof (cases "1 < length tss \<or> ts_conditions (hd tss) \<noteq> []")
  case True
  have f: "list_all faithful_tier tss" "tss \<noteq> []" using assms by (simp_all add: faithful_config_def)
  let ?read = "\<lambda>m. read_tier (read_conditions (cap_str m 1)) 2 m"
  have "list_all2 shows_tier tss (map ?read (map guarded_caps tss))"
    using f(1) guarded_read by (simp add: list_all2_conv_all_nth list_all_length)
  from normalize_all [OF f(1) this] obtain n where
    n: "rmap normalizeVisualTier (map ?read (map guarded_caps tss)) = Inr n" "list_all2 shows_tier tss n" by blast
  from normalize_all [OF f(1) n(2)] obtain cfg where
    cfg: "rmap normalizeVisualTier n = Inr cfg" "list_all2 shows_tier tss cfg"
      "list_all2 (\<lambda>ts t. map_of t = map_of (tier_props ts)) tss cfg" by blast
  have "n \<noteq> []" using n(2) f(2) by auto
  moreover have "rmap (\<lambda>m. normalizeVisualTier (?read m)) (map guarded_caps tss) = Inr n"
    using n(1) by (simp add: rmap_list_all2 list_all2_map1)
  moreover obtain x s where "guarded_text (hd tss) = x # s" "x \<noteq> 116" "x \<noteq> 118"
    using assms True by (cases tss) (auto simp: faithful_config_def elim: guarded_start split: if_splits)
  then have "rx_match single_rx (config_text tss) = None"
    using f(2) by (cases tss rule: config_text.cases) (simp_all add: single_no_match)
  ultimately have "parse_visual (config_text tss) = Inr (Some cfg)"
    using cfg by (simp add: parse_visual_def tiers_matched [OF assms True] normalize_config config_printed [OF assms cfg(2)])
  then show ?thesis using cfg(3) by (rule that)
next
  case False
  then obtain ts where ts: "tss = [ts]" "ts_conditions ts = []" "faithful_tier ts"
    using assms by (cases tss; cases "tl tss") (auto simp: faithful_config_def)
  have "shows_tier ts (read_tier [] 1 (call_caps 1 ts []))" using read_tier_shows [of 1 "[]" ts] ts by simp
  from normalize_shown [OF ts(3) this] obtain t where
    t: "normalizeVisualTier (read_tier [] 1 (call_caps 1 ts [])) = Inr t" "shows_tier ts t" by blast
  from normalize_shown [OF ts(3) t(2)] obtain u where
    u: "normalizeVisualTier t = Inr u" "map_of u = map_of (tier_props ts)" by blast
  have "parse_visual (config_text tss) = Inr (Some [u])"
    using t(1) u(1) by (simp add: parse_visual_def ts guarded_text_def single_match normalize_config)
  then show ?thesis using u(2) ts(1) by (intro that [of "[u]"]) simp_all
qed

lemma config_start:
  assumes "faithful_config tss"
  obtains x s where "config_text tss = x # s" "x \<noteq> 118"
proof -
  obtain ts uss where tss: "tss = ts # uss" using assms by (cases tss) (auto simp: faithful_config_def)
  have f: "faithful_tier ts" using assms by (simp add: faithful_config_def tss)
  obtain x s where "guarded_text ts = x # s" "x \<noteq> 118"
  proof (cases "ts_conditions ts = []")
    case True
    then show ?thesis using that by (simp add: guarded_text_def call_text_def)
  next
    case False
    then show ?thesis using that guarded_start [OF f] by blast
  qed
  then show ?thesis using that by (cases uss) (simp_all add: tss)
qed

section \<open>Whole numbers read back\<close>

lemma to_number_dec:
  assumes "0 \<le> n" and "n < 10 ^ 15"
  shows "to_number (dec n) = Fin (of_int n)"
proof -
  have d: "dec n \<noteq> []" "\<forall>c\<in>set (dec n). is_digit c" using dec_digits [OF assms(1)] by auto
  then have t: "trim (dec n) = dec n" by (intro trim_id_all) (auto simp: is_digit_def is_ws_def)
  have "\<forall>c\<in>set (take 2 (dec n)). is_digit c" using d(2) by (auto dest: in_set_takeD)
  then have p: "take 2 (dec n) \<noteq> [48, x]" if "\<not> is_digit x" for x using that by auto
  have x: "\<not> is_digit 120" "\<not> is_digit 88" "\<not> is_digit 111" "\<not> is_digit 79" "\<not> is_digit 98" "\<not> is_digit 66"
    by (simp_all add: is_digit_def)
  have h: "is_digit (hd (dec n))" using d by simp
  have w: "takeWhile is_digit (dec n) = dec n" "dropWhile is_digit (dec n) = []" using d(2) by (simp_all add: takeWhile_eq_all_conv)
  have "dec n \<noteq> js ''Infinity''" using h by (auto simp: is_digit_def)
  moreover have "unsigned_decimal (dec n) = Some (of_int n)"
    using d(1) assms(1) by (simp add: unsigned_decimal_def w dec_exponent_def decimal_value_def pow10_def)
  moreover have "to_double (of_int n) = Fin (of_int n)" using assms by (intro to_double_int) simp
  ultimately have "unsigned_number (dec n) = Fin (of_int n)" by (simp add: unsigned_number_def)
  then show ?thesis
    using d(1) h p [OF x(1)] p [OF x(2)] p [OF x(3)] p [OF x(4)] p [OF x(5)] p [OF x(6)]
    by (auto simp: to_number_def t is_digit_def Let_def)
qed

lemma readable_int:
  assumes "0 \<le> n" and "n < 10 ^ 15"
  shows "readable (Fin (of_int n))" "list_all unum_char (num_to_string (Fin (of_int n)))"
  using dec_digits [OF assms(1)] to_number_dec [OF assms]
  unfolding readable_def num_to_string_int [OF assms] by (auto simp: list_all_iff num_char_def unum_char_def)

lemma readable_numeral:
  "readable (Fin 0)" "readable (Fin 1)"
  "(numeral k :: int) < 10 ^ 15 \<Longrightarrow> readable (Fin (numeral k))"
  "(numeral k :: int) < 10 ^ 15 \<Longrightarrow> list_all unum_char (num_to_string (Fin (numeral k)))"
  using readable_int [of 0] readable_int [of 1] readable_int [of "numeral k"] by simp_all

section \<open>The round trip\<close>

text \<open>C9. An expression printed by the visual tier editor reads back: for tiers whose labels have no
  double quote, whose costs and thresholds read back from their text, and of which, if there are
  several, all but the last have conditions and the last has none, the reader accepts the printed
  expression and returns the normalized configuration, property by property.\<close>

theorem tier_roundtrip:
  assumes "faithful_config tss" "list_all2 shows_tier tss cfg"
  shows "\<exists>e n cfg'. generateExprFromVisualConfig (Some cfg) = Inr e \<and> normalizeVisualConfig (Some cfg) = Inr n \<and>
    tryParseVisualConfig (Some e) = Some cfg' \<and> list_all2 (\<lambda>a b. map_of a = map_of b) cfg' n"
proof -
  have f: "list_all faithful_tier tss" "tss \<noteq> []" using assms(1) by (simp_all add: faithful_config_def)
  then have "cfg \<noteq> []" using assms(2) by auto
  from normalize_all [OF f(1) assms(2)] obtain n where
    n: "rmap normalizeVisualTier cfg = Inr n" "list_all2 (\<lambda>ts t. map_of t = map_of (tier_props ts)) tss n" by blast
  from config_read [OF assms(1)] obtain cfg' where
    c: "parse_visual (config_text tss) = Inr (Some cfg')" "list_all2 (\<lambda>ts t. map_of t = map_of (tier_props ts)) tss cfg'" by blast
  from config_start [OF assms(1)] obtain x s where "config_text tss = x # s" "x \<noteq> 118" by blast
  then have "tryParseVisualConfig (Some (config_text tss)) = Some cfg'"
    using c(1) by (simp add: tryParseVisualConfig_def no_version)
  moreover have "list_all2 (\<lambda>a b. map_of a = map_of b) cfg' n"
    using c(2) n(2) by (simp add: list_all2_conv_all_nth)
  ultimately show ?thesis
    using config_printed [OF assms] n(1) \<open>cfg \<noteq> []\<close> by (simp add: normalize_config)
qed

theorem tier_roundtrip_witness:
  "\<exists>e n cfg'. generateExprFromVisualConfig (Some (map tier_props
       [\<lparr>ts_label = js ''short'', ts_conditions = [(js ''p'', js ''<='', Fin 200000), (js ''c'', js ''<'', Fin 64)],
         ts_input = Fin 3, ts_output = Fin 15, ts_costs = [Fin 1, Fin 4, Fin 6, Fin 0, Fin 0, Fin 0, Fin 0]\<rparr>,
        \<lparr>ts_label = js ''long'', ts_conditions = [],
         ts_input = Fin 6, ts_output = Fin 22, ts_costs = [Fin 0, Fin 0, Fin 0, Fin 2, Fin 0, Fin 0, Fin 0]\<rparr>])) = Inr e \<and>
     tryParseVisualConfig (Some e) = Some cfg' \<and> length cfg' = 2 \<and> length n = 2 \<and> list_all2 (\<lambda>a b. map_of a = map_of b) cfg' n"
proof -
  let ?a = "\<lparr>ts_label = js ''short'', ts_conditions = [(js ''p'', js ''<='', Fin 200000), (js ''c'', js ''<'', Fin 64)],
       ts_input = Fin 3, ts_output = Fin 15, ts_costs = [Fin 1, Fin 4, Fin 6, Fin 0, Fin 0, Fin 0, Fin 0]\<rparr>"
  let ?b = "\<lparr>ts_label = js ''long'', ts_conditions = [],
       ts_input = Fin 6, ts_output = Fin 22, ts_costs = [Fin 0, Fin 0, Fin 0, Fin 2, Fin 0, Fin 0, Fin 0]\<rparr>"
  have f: "faithful_tier ?a" "faithful_tier ?b"
    by (simp_all add: faithful_tier_def faithful_condition_def readable_numeral del: num_to_string.simps)
  have d: "distinct (map fst (tier_props ts))" if "faithful_tier ts" for ts
    using cost_map_keys [OF that] cost_fields_distinct(1) names_no_cost by (simp add: tier_props_def cost_map_def)
  have s: "shows_tier ts (tier_props ts)" if "faithful_tier ts" for ts
    using that d [OF that] by (intro full_shows) simp_all
  have c: "faithful_config [?a, ?b]" using f by (simp add: faithful_config_def)
  have l: "list_all2 shows_tier [?a, ?b] (map tier_props [?a, ?b])" using s [OF f(1)] s [OF f(2)] by simp
  from tier_roundtrip [OF c l] obtain e n cfg' where
    r: "generateExprFromVisualConfig (Some (map tier_props [?a, ?b])) = Inr e"
    "normalizeVisualConfig (Some (map tier_props [?a, ?b])) = Inr n"
    "tryParseVisualConfig (Some e) = Some cfg'" "list_all2 (\<lambda>a b. map_of a = map_of b) cfg' n" by blast
  have "length n = 2" using r(2) by (auto simp: normalizeVisualConfig_def rbind_eq_Inr)
  moreover from this have "length cfg' = 2" using list_all2_lengthD [OF r(4)] by simp
  ultimately show ?thesis using r(1,3,4) by blast
qed

end
