(* ===== verification/Js_Date.thy ===== *)
theory Js_Date
  imports Js_Number
begin

text \<open>
  Dates as the program uses them: a time value is the number of milliseconds since
  1970-01-01T00:00:00Z, an invalid date is \<open>None\<close>.  \<open>toISOString\<close> prints the
  date-time interchange format, \<open>Date.parse\<close> reads it.  The calendar is the proleptic
  Gregorian one.

  Two things the language leaves to the host are fields of \<open>DateHost\<close>: the offset of
  local time, which applies to a date and time without a zone, and the result of
  \<open>Date.parse\<close> on a text in another format.

  The main result is \<open>date_parse_iso\<close>: \<open>Date.parse\<close> reads back what
  \<open>toISOString\<close> prints, for every time value, whatever the host.
\<close>

section \<open>Calendar\<close>

definition leap_year :: "int \<Rightarrow> bool" where
  "leap_year y \<longleftrightarrow> y mod 4 = 0 \<and> (y mod 100 \<noteq> 0 \<or> y mod 400 = 0)"

text \<open>The days from 0001-01-01 to the first day of the year.\<close>

definition days_before_year :: "int \<Rightarrow> int" where
  "days_before_year y = 365 * (y - 1) + (y - 1) div 4 - (y - 1) div 100 + (y - 1) div 400"

definition month_lengths :: "int \<Rightarrow> int list" where
  "month_lengths y = [31, if leap_year y then 29 else 28, 31, 30, 31, 30, 31, 31, 30, 31, 30, 31]"

text \<open>The number of days from 1970-01-01 to the given date.\<close>

definition days_from_civil :: "int \<Rightarrow> int \<Rightarrow> int \<Rightarrow> int" where
  "days_from_civil y m d =
     days_before_year y + sum_list (take (nat (m - 1)) (month_lengths y)) + (d - 1) - 719162"

text \<open>The year of a day counted from 0001-01-01: whole cycles of 400, 100, 4 and 1 years.\<close>

definition year_of_day :: "int \<Rightarrow> int" where
  "year_of_day n =
     (let q400 = n div 146097; r400 = n mod 146097;
          q100 = min 3 (r400 div 36524); r100 = r400 - 36524 * q100;
          q4 = r100 div 1461; r4 = r100 mod 1461;
          q1 = min 3 (r4 div 365) in
      400 * q400 + 100 * q100 + 4 * q4 + q1 + 1)"

text \<open>Month and day of the month from the day of the year.\<close>

fun month_day :: "int \<Rightarrow> int list \<Rightarrow> int \<Rightarrow> int \<times> int" where
  "month_day m [] n = (m, n + 1)"
| "month_day m [l] n = (m, n + 1)"
| "month_day m (l # ls) n = (if n < l then (m, n + 1) else month_day (m + 1) ls (n - l))"

definition civil_from_days :: "int \<Rightarrow> int \<times> int \<times> int" where
  "civil_from_days n =
     (let k = n + 719162; y = year_of_day k; (m, d) = month_day 1 (month_lengths y) (k - days_before_year y) in
      (y, m, d))"

section \<open>Time values\<close>

definition max_time :: int where
  "max_time = 8640000000000000"

text \<open>\<open>new Date(x)\<close> for a number: the integer part, within 100 million days of the
  epoch.\<close>

fun time_clip :: "jnum \<Rightarrow> int option" where
  "time_clip (Fin x) =
     (if \<bar>x\<bar> \<le> of_int max_time then Some (if 0 \<le> x then \<lfloor>x\<rfloor> else - \<lfloor>- x\<rfloor>) else None)"
| "time_clip _ = None"

section \<open>Printing\<close>

text \<open>A numeral padded with zeros to a width.\<close>

definition pad_dec :: "nat \<Rightarrow> int \<Rightarrow> jstr" where
  "pad_dec w n = (let ds = dec n in replicate (w - length ds) 48 @ ds)"

definition iso_year :: "int \<Rightarrow> jstr" where
  "iso_year y =
     (if 0 \<le> y \<and> y \<le> 9999 then pad_dec 4 y
      else if y < 0 then js ''-'' @ pad_dec 6 (- y) else js ''+'' @ pad_dec 6 y)"

definition to_iso_string :: "int \<Rightarrow> jstr" where
  "to_iso_string t =
     (let days = t div 86400000; ms = t mod 86400000; (y, m, d) = civil_from_days days in
      iso_year y @ js ''-'' @ pad_dec 2 m @ js ''-'' @ pad_dec 2 d @ js ''T'' @
      pad_dec 2 (ms div 3600000) @ js '':'' @ pad_dec 2 (ms div 60000 mod 60) @ js '':'' @
      pad_dec 2 (ms div 1000 mod 60) @ js ''.'' @ pad_dec 3 (ms mod 1000) @ js ''Z'')"

section \<open>Reading\<close>

record DateHost =
  dh_local_offset :: "int \<Rightarrow> int"
  dh_other_format :: "jstr \<Rightarrow> int option"

text \<open>The value of the first \<open>w\<close> code units, when they are digits.\<close>

definition read_digits :: "nat \<Rightarrow> jstr \<Rightarrow> (int \<times> jstr) option" where
  "read_digits w s =
     (if length (take w s) = w \<and> list_all is_digit (take w s)
      then Some (digits_value (take w s), drop w s) else None)"

definition read_unit :: "jchar \<Rightarrow> jstr \<Rightarrow> jstr option" where
  "read_unit c s = (case s of x # t \<Rightarrow> if x = c then Some t else None | [] \<Rightarrow> None)"

definition read_year :: "jstr \<Rightarrow> (int \<times> jstr) option" where
  "read_year s =
     (case (read_unit 43 s, read_unit 45 s) of
        (Some t, _) \<Rightarrow> read_digits 6 t
      | (None, Some t) \<Rightarrow>
          (case read_digits 6 t of
             Some (y, u) \<Rightarrow> if y = 0 then None else Some (- y, u) | None \<Rightarrow> None)
      | (None, None) \<Rightarrow> read_digits 4 s)"

text \<open>A field after a separator; without the separator the field is absent.\<close>

definition read_field :: "jchar \<Rightarrow> nat \<Rightarrow> int \<Rightarrow> jstr \<Rightarrow> (int \<times> bool \<times> jstr) option" where
  "read_field sep w dflt s =
     (case read_unit sep s of
        None \<Rightarrow> Some (dflt, False, s)
      | Some t \<Rightarrow> map_option (\<lambda>(v, u). (v, True, u)) (read_digits w t))"

definition read_date :: "jstr \<Rightarrow> (int \<times> jstr) option" where
  "read_date s =
     (case read_year s of
        None \<Rightarrow> None
      | Some (y, s1) \<Rightarrow>
          (case read_field 45 2 1 s1 of
             None \<Rightarrow> None
           | Some (m, has_month, s2) \<Rightarrow>
               (case (if has_month then read_field 45 2 1 s2 else Some (1, False, s2)) of
                  None \<Rightarrow> None
                | Some (d, _, s3) \<Rightarrow>
                    if 1 \<le> m \<and> m \<le> 12 \<and> 1 \<le> d \<and> d \<le> month_lengths y ! nat (m - 1)
                    then Some (days_from_civil y m d, s3) else None)))"

text \<open>The zone: \<open>Z\<close>, an offset in minutes, or none, which is local time.\<close>

definition read_zone :: "jstr \<Rightarrow> int option option" where
  "read_zone s =
     (if s = [] then Some None
      else if s = js ''Z'' then Some (Some 0)
      else
        let sg = (if hd s = 43 then 1 else if hd s = 45 then - 1 else 0) in
        if sg = 0 then None
        else
          case read_digits 2 (tl s) of
            None \<Rightarrow> None
          | Some (h, t) \<Rightarrow>
              (case read_field 58 2 0 t of
                 Some (m, True, []) \<Rightarrow> if h \<le> 23 \<and> m \<le> 59 then Some (Some (sg * (60 * h + m))) else None
               | _ \<Rightarrow> None))"

text \<open>Time of day after the \<open>T\<close>: hours and minutes, then seconds and milliseconds.\<close>

definition read_time :: "jstr \<Rightarrow> (int \<times> jstr) option" where
  "read_time s =
     (case read_digits 2 s of
        None \<Rightarrow> None
      | Some (h, s1) \<Rightarrow>
          (case read_field 58 2 0 s1 of
             Some (mi, True, s2) \<Rightarrow>
               (case read_field 58 2 0 s2 of
                  None \<Rightarrow> None
                | Some (sec, has_sec, s3) \<Rightarrow>
                    (case (if has_sec then read_field 46 3 0 s3 else Some (0, False, s3)) of
                       None \<Rightarrow> None
                     | Some (ms, _, s4) \<Rightarrow>
                         if mi \<le> 59 \<and> sec \<le> 59 \<and> (h \<le> 23 \<or> h = 24 \<and> mi = 0 \<and> sec = 0 \<and> ms = 0)
                         then Some (3600000 * h + 60000 * mi + 1000 * sec + ms, s4) else None))
           | _ \<Rightarrow> None))"

text \<open>The interchange format: the time value, or with \<open>True\<close> the local time.\<close>

definition iso_parse :: "jstr \<Rightarrow> (bool \<times> int) option" where
  "iso_parse s =
     (case read_date s of
        None \<Rightarrow> None
      | Some (days, s1) \<Rightarrow>
          (case read_unit 84 s1 of
             None \<Rightarrow> if s1 = [] then Some (False, 86400000 * days) else None
           | Some s2 \<Rightarrow>
               (case read_time s2 of
                  None \<Rightarrow> None
                | Some (ms, s3) \<Rightarrow>
                    (case read_zone s3 of
                       None \<Rightarrow> None
                     | Some None \<Rightarrow> Some (True, 86400000 * days + ms)
                     | Some (Some z) \<Rightarrow> Some (False, 86400000 * days + ms - 60000 * z)))))"

definition date_parse :: "DateHost \<Rightarrow> jstr \<Rightarrow> int option" where
  "date_parse host s =
     (let t = (case iso_parse s of
          None \<Rightarrow> dh_other_format host s
        | Some (is_local, u) \<Rightarrow> Some (if is_local then u - dh_local_offset host u else u)) in
      case t of Some u \<Rightarrow> if \<bar>u\<bar> \<le> max_time then Some u else None | None \<Rightarrow> None)"

section \<open>Years\<close>

lemma div_pred: "0 < k \<Longrightarrow> y div k = (y - 1) div k + (if y mod k = 0 then 1 else 0)" for y k :: int
proof (cases "y mod k = 0")
  case True
  assume "0 < k"
  from True have "k * (y div k) = y" using mult_div_mod_eq [of k y] by linarith
  then have "y - 1 = k * (y div k - 1) + (k - 1)" by (simp add: right_diff_distrib)
  then have "(y - 1) div k = y div k - 1"
    by (rule int_div_pos_eq) (use \<open>0 < k\<close> in simp_all)
  with True show ?thesis by simp
next
  case False
  assume "0 < k"
  then have "0 < y mod k" "y mod k < k"
    using False pos_mod_sign [of k y] pos_mod_bound [of k y] by linarith+
  moreover have "y - 1 = k * (y div k) + (y mod k - 1)" using mult_div_mod_eq [of k y] by linarith
  ultimately have "(y - 1) div k = y div k"
    using int_div_pos_eq [of "y - 1" k "y div k" "y mod k - 1"] by linarith
  with False show ?thesis by simp
qed

lemma mod_mod_zero: "m dvd k \<Longrightarrow> y mod k = 0 \<Longrightarrow> y mod m = 0" for y k m :: int
  by (metis dvd_trans mod_0_imp_dvd dvd_imp_mod_0)

lemma leap_days:
  fixes y :: int
  assumes "r \<longrightarrow> q" and "q \<longrightarrow> p"
    and "b4 = a4 + (if p then 1 else 0)" and "b100 = a100 + (if q then 1 else 0)" and "b400 = a400 + (if r then 1 else 0)"
  shows "365 * y + b4 - b100 + b400 =
    365 * (y - 1) + a4 - a100 + a400 + (if p \<and> (\<not> q \<or> r) then 366 else 365)"
  using assms by (cases p; cases q; cases r) simp_all

lemma cycle_part:
  fixes r k :: int
  assumes "0 \<le> r" "0 < k"
  shows "0 \<le> min 3 (r div k)" "k * min 3 (r div k) \<le> r" "min 3 (r div k) < 3 \<longrightarrow> r < k * min 3 (r div k) + k"
proof -
  define q where "q = r div k"
  have q: "0 \<le> q" "r = k * q + r mod k" "0 \<le> r mod k" "r mod k < k"
    using assms by (simp_all add: q_def pos_imp_zdiv_nonneg_iff)
  have "k * min 3 q \<le> k * q" using assms by (intro mult_left_mono) auto
  with q show "0 \<le> min 3 (r div k)" "k * min 3 (r div k) \<le> r"
    "min 3 (r div k) < 3 \<longrightarrow> r < k * min 3 (r div k) + k"
    unfolding q_def [symmetric] by (linarith | simp add: min_def)+
qed

lemma days_before_next_year: "days_before_year (y + 1) = days_before_year y + (if leap_year y then 366 else 365)"
proof -
  define p q r where "p \<longleftrightarrow> y mod 4 = 0" and "q \<longleftrightarrow> y mod 100 = 0" and "r \<longleftrightarrow> y mod 400 = 0"
  have pqr: "r \<longrightarrow> q" "q \<longrightarrow> p"
    unfolding p_def q_def r_def by (rule impI, erule mod_mod_zero [rotated], simp)+
  have d4: "y div 4 = (y - 1) div 4 + (if p then 1 else 0)" unfolding p_def by (rule div_pred) simp
  have d100: "y div 100 = (y - 1) div 100 + (if q then 1 else 0)" unfolding q_def by (rule div_pred) simp
  have d400: "y div 400 = (y - 1) div 400 + (if r then 1 else 0)" unfolding r_def by (rule div_pred) simp
  have l: "leap_year y \<longleftrightarrow> p \<and> (\<not> q \<or> r)" by (simp add: leap_year_def p_def q_def r_def)
  have e: "days_before_year (y + 1) = 365 * y + y div 4 - y div 100 + y div 400"
    by (simp add: days_before_year_def)
  show ?thesis
    unfolding e l days_before_year_def [of y] by (rule leap_days [OF pqr d4 d100 d400])
qed

lemma days_before_cycles:
  assumes "0 \<le> b" "b \<le> 3" "0 \<le> c" "c \<le> 24" "0 \<le> d" "d \<le> 3"
  shows "days_before_year (400 * a + 100 * b + 4 * c + d + 1) = 146097 * a + 36524 * b + 1461 * c + 365 * d"
proof -
  let ?y = "400 * a + 100 * b + 4 * c + d"
  have "?y div 4 = 100 * a + 25 * b + c" by (rule int_div_pos_eq [where r = d]) (use assms in auto)
  moreover have "?y div 100 = 4 * a + b" by (rule int_div_pos_eq [where r = "4 * c + d"]) (use assms in auto)
  moreover have "?y div 400 = a" by (rule int_div_pos_eq [where r = "100 * b + 4 * c + d"]) (use assms in auto)
  ultimately show ?thesis by (simp add: days_before_year_def)
qed

lemma leap_cycle_end:
  assumes "0 \<le> b" "b \<le> 3" "0 \<le> c" "c \<le> 24" "c = 24 \<longrightarrow> b = 3"
  shows "leap_year (400 * a + 100 * b + 4 * c + 4)"
proof (cases "c = 24")
  case True
  with assms have "400 * a + 100 * b + 4 * c + 4 = 400 * (a + 1)" by simp
  then have "400 dvd 400 * a + 100 * b + 4 * c + 4" by (metis dvd_triv_left)
  then have "(400 * a + 100 * b + 4 * c + 4) mod 400 = 0" by (rule dvd_imp_mod_0)
  then show ?thesis using mod_mod_zero [of 4 400] by (simp add: leap_year_def)
next
  case False
  have "400 * a + 100 * b + 4 * c + 4 = 100 * (4 * a + b) + (4 * c + 4)" by simp
  then have "(400 * a + 100 * b + 4 * c + 4) mod 100 = 4 * c + 4"
    by (rule int_mod_pos_eq) (use False assms in auto)
  moreover have "400 * a + 100 * b + 4 * c + 4 = 4 * (100 * a + 25 * b + c + 1)" by simp
  then have "(400 * a + 100 * b + 4 * c + 4) mod 4 = 0" by (metis dvd_triv_left dvd_imp_mod_0)
  ultimately show ?thesis using assms by (simp add: leap_year_def)
qed

lemma year_of_day_bounds:
  "days_before_year (year_of_day n) \<le> n \<and> n < days_before_year (year_of_day n + 1)"
proof -
  define a r where "a = n div 146097" and "r = n mod 146097"
  define b s where "b = min 3 (r div 36524)" and "s = r - 36524 * b"
  define c t where "c = s div 1461" and "t = s mod 1461"
  define d where "d = min 3 (t div 365)"
  have y: "year_of_day n = 400 * a + 100 * b + 4 * c + d + 1"
    by (simp only: year_of_day_def Let_def a_def r_def b_def s_def c_def t_def d_def)
  have n: "n = 146097 * a + r" "0 \<le> r" "r < 146097" by (simp_all add: a_def r_def)
  have b: "0 \<le> b" "b \<le> 3" "0 \<le> s" "s \<le> 36524" "b < 3 \<longrightarrow> s < 36524"
    using n cycle_part [of r 36524] unfolding s_def b_def [symmetric] by (auto simp: b_def)
  have s: "s = 1461 * c + t" "0 \<le> t" "t < 1461" by (simp_all add: c_def t_def)
  then have c: "0 \<le> c" "c \<le> 24" using b by linarith+
  have d: "0 \<le> d" "d \<le> 3" "365 * d \<le> t" "d < 3 \<longrightarrow> t < 365 * d + 365"
    using s cycle_part [of t 365] unfolding d_def [symmetric] by (auto simp: d_def)
  have start: "days_before_year (year_of_day n) = 146097 * a + 36524 * b + 1461 * c + 365 * d"
    unfolding y using b c d by (intro days_before_cycles) auto
  have "t < 365 * d + (if leap_year (year_of_day n) then 366 else 365)"
  proof (cases "d = 3 \<and> t = 1460")
    case True
    then have "c = 24 \<longrightarrow> b = 3" using b s by linarith
    then have "leap_year (year_of_day n)"
      using leap_cycle_end [of b c a] b c True by (simp add: y algebra_simps)
    with True show ?thesis by simp
  next
    case False
    with d s show ?thesis by auto
  qed
  then show ?thesis
    using start n s d unfolding days_before_next_year s_def by linarith
qed

section \<open>Months\<close>

lemma month_day_inverse:
  assumes "ls \<noteq> []" "0 \<le> n" "n < sum_list ls" "\<forall>l\<in>set ls. 0 < l" "month_day m ls n = (m', d)"
  shows "m \<le> m' \<and> m' < m + int (length ls) \<and> 1 \<le> d \<and> d \<le> ls ! nat (m' - m) \<and>
    sum_list (take (nat (m' - m)) ls) + (d - 1) = n"
  using assms
proof (induction m ls n rule: month_day.induct)
  case (3 m l l' ls n)
  show ?case
  proof (cases "n < l")
    case True
    with 3 show ?thesis by auto
  next
    case False
    with 3 have "m + 1 \<le> m' \<and> m' < m + 1 + int (length (l' # ls)) \<and> 1 \<le> d \<and> d \<le> (l' # ls) ! nat (m' - (m + 1)) \<and>
      sum_list (take (nat (m' - (m + 1))) (l' # ls)) + (d - 1) = n - l"
      by (intro 3(1)) auto
    moreover from this have "nat (m' - m) = Suc (nat (m' - (m + 1)))" by linarith
    ultimately show ?thesis by auto
  qed
qed auto

lemma sum_month_lengths: "sum_list (month_lengths y) = (if leap_year y then 366 else 365)"
  by (simp add: month_lengths_def)

lemma month_lengths_pos: "\<forall>l\<in>set (month_lengths y). 0 < l"
  by (simp add: month_lengths_def)

lemma civil_inverse:
  assumes "civil_from_days n = (y, m, d)"
  shows "1 \<le> m \<and> m \<le> 12 \<and> 1 \<le> d \<and> d \<le> month_lengths y ! nat (m - 1) \<and> days_from_civil y m d = n"
proof -
  let ?k = "n + 719162"
  from assms have y: "y = year_of_day ?k"
    and md: "month_day 1 (month_lengths y) (?k - days_before_year y) = (m, d)"
    by (auto simp: civil_from_days_def Let_def split: prod.splits)
  have b: "0 \<le> ?k - days_before_year y" "?k - days_before_year y < sum_list (month_lengths y)"
    using year_of_day_bounds [of ?k] unfolding y [symmetric] days_before_next_year sum_month_lengths
    by linarith+
  have "month_lengths y \<noteq> []" "length (month_lengths y) = 12" by (simp_all add: month_lengths_def)
  with month_day_inverse [OF _ b month_lengths_pos md]
  show ?thesis by (auto simp: days_from_civil_def)
qed

section \<open>Fields\<close>

lemma length_dec_pos: "0 \<le> i \<Longrightarrow> i < 10 ^ Suc w \<Longrightarrow> length (dec_pos i) \<le> Suc w"
proof (induction w arbitrary: i)
  case 0
  then show ?case by (simp add: dec_pos_small)
next
  case (Suc w)
  show ?case
  proof (cases "i < 10")
    case True
    with Suc show ?thesis by (simp add: dec_pos_small)
  next
    case False
    have "i div 10 < 10 ^ Suc w" using Suc.prems by simp
    with Suc False show ?thesis by (simp add: dec_pos_step pos_imp_zdiv_nonneg_iff)
  qed
qed

lemma digits_value_zeros: "digits_value (replicate k 48 @ s) = digits_value s"
  by (induction k) (simp_all add: digits_value_def)

lemma pad_dec_digits:
  assumes "0 \<le> n" and "n < 10 ^ Suc w"
  shows "length (pad_dec (Suc w) n) = Suc w" and "list_all is_digit (pad_dec (Suc w) n)"
    and "digits_value (pad_dec (Suc w) n) = n"
  using assms length_dec_pos [of n w] dec_digits [of n] digits_value_dec [of n]
  by (auto simp: pad_dec_def Let_def dec_def list_all_iff digits_value_zeros is_digit_def)

lemma read_digits_pad:
  assumes "0 \<le> n" and "n < 10 ^ Suc w"
  shows "read_digits (Suc w) (pad_dec (Suc w) n @ s) = Some (n, s)"
  using pad_dec_digits [OF assms] by (simp add: read_digits_def)

lemma read_unit_simps [simp]:
  "read_unit c (c # s) = Some s" "x \<noteq> c \<Longrightarrow> read_unit c (x # s) = None" "read_unit c [] = None"
  by (simp_all add: read_unit_def)

lemma read_field_pad:
  "0 \<le> n \<Longrightarrow> n < 10 ^ Suc w \<Longrightarrow> read_field sep (Suc w) dflt (sep # pad_dec (Suc w) n @ s) = Some (n, True, s)"
  by (simp add: read_field_def read_digits_pad)

lemma read_pads:
  "0 \<le> n \<Longrightarrow> n < 100 \<Longrightarrow> read_digits 2 (pad_dec 2 n @ s) = Some (n, s)"
  "0 \<le> n \<Longrightarrow> n < 10000 \<Longrightarrow> read_digits 4 (pad_dec 4 n @ s) = Some (n, s)"
  "0 \<le> n \<Longrightarrow> n < 1000000 \<Longrightarrow> read_digits 6 (pad_dec 6 n @ s) = Some (n, s)"
  "0 \<le> n \<Longrightarrow> n < 100 \<Longrightarrow> read_field sep 2 dflt (sep # pad_dec 2 n @ s) = Some (n, True, s)"
  "0 \<le> n \<Longrightarrow> n < 1000 \<Longrightarrow> read_field sep 3 dflt (sep # pad_dec 3 n @ s) = Some (n, True, s)"
  using read_digits_pad [of n 1 s] read_digits_pad [of n 3 s] read_digits_pad [of n 5 s]
    read_field_pad [of n 1 sep dflt s] read_field_pad [of n 2 sep dflt s]
  by (simp_all flip: numeral_2_eq_2)

lemma read_iso_year:
  assumes "\<bar>y\<bar> < 1000000"
  shows "read_year (iso_year y @ s) = Some (y, s)"
proof (cases "0 \<le> y \<and> y \<le> 9999")
  case True
  then have p: "length (pad_dec 4 y) = 4" "list_all is_digit (pad_dec 4 y)"
    using pad_dec_digits [of y 3] by simp_all
  then obtain c r where c: "pad_dec 4 y = c # r" "is_digit c" by (cases "pad_dec 4 y") auto
  then have "c \<noteq> 43" "c \<noteq> 45" by (auto simp: is_digit_def)
  with c have "read_year (pad_dec 4 y @ s) = read_digits 4 (pad_dec 4 y @ s)" by (simp add: read_year_def)
  then show ?thesis using True by (simp add: iso_year_def read_pads)
next
  case False
  with assms show ?thesis by (auto simp: iso_year_def read_year_def read_pads)
qed

lemma year_lower: "1 \<le> y \<Longrightarrow> 365 * (y - 1) \<le> days_before_year y"
proof -
  assume "1 \<le> y"
  then have "0 \<le> y - 1" by simp
  then have "(y - 1) div 100 \<le> (y - 1) div 4" "0 \<le> (y - 1) div 400"
    using zdiv_mono2 [of "y - 1" 4 100] by (simp_all add: pos_imp_zdiv_nonneg_iff)
  then show ?thesis by (simp add: days_before_year_def)
qed

lemma year_upper: "y \<le> 1 \<Longrightarrow> days_before_year y \<le> 365 * (y - 1)"
proof -
  assume "y \<le> 1"
  then have "y - 1 \<le> 0" by simp
  then have "(y - 1) div 4 \<le> (y - 1) div 100" "(y - 1) div 400 \<le> 0"
    using zdiv_mono2_neg [of "y - 1" 4 100] zdiv_mono1 [of "y - 1" 0 400] by (cases "y = 1"; simp)+
  then show ?thesis by (simp add: days_before_year_def)
qed

lemma year_range:
  assumes "\<bar>n\<bar> \<le> 100000000" and "civil_from_days n = (y, m, d)"
  shows "\<bar>y\<bar> < 1000000"
proof -
  have y: "y = year_of_day (n + 719162)"
    using assms(2) by (auto simp: civil_from_days_def Let_def split: prod.splits)
  have "days_before_year y \<le> n + 719162" "n + 719162 < days_before_year (y + 1)"
    using year_of_day_bounds [of "n + 719162"] y by auto
  then show ?thesis using assms(1) year_lower [of y] year_upper [of "y + 1"] by (cases "1 \<le> y") auto
qed

section \<open>Reading what is printed\<close>

lemma read_date_iso:
  assumes "\<bar>n\<bar> \<le> 100000000" and c: "civil_from_days n = (y, m, d)"
  shows "read_date (iso_year y @ 45 # pad_dec 2 m @ 45 # pad_dec 2 d @ s) = Some (n, s)"
proof -
  from civil_inverse [OF c] have r: "1 \<le> m" "m \<le> 12" "1 \<le> d" "d \<le> month_lengths y ! nat (m - 1)"
    and n: "days_from_civil y m d = n" by blast+
  have "nat (m - 1) < length (month_lengths y)" using r by (simp add: month_lengths_def)
  then have "month_lengths y ! nat (m - 1) \<in> set (month_lengths y)" by (rule nth_mem)
  moreover have "\<forall>l\<in>set (month_lengths y). l \<le> 31" by (simp add: month_lengths_def)
  ultimately have "d < 100" using r by fastforce
  then show ?thesis
    using r n by (simp add: read_date_def read_iso_year year_range [OF assms] read_pads)
qed

lemma read_time_iso:
  assumes "0 \<le> ms" and "ms < 86400000"
  shows "read_time (pad_dec 2 (ms div 3600000) @ 58 # pad_dec 2 (ms div 60000 mod 60) @ 58 #
     pad_dec 2 (ms div 1000 mod 60) @ 46 # pad_dec 3 (ms mod 1000) @ s) = Some (ms, s)"
proof -
  define sec where "sec = ms div 1000"
  define mi where "mi = sec div 60"
  define h where "h = mi div 60"
  have e: "ms div 60000 = mi" "ms div 3600000 = h"
    unfolding h_def mi_def sec_def by (simp_all add: zdiv_zmult2_eq [symmetric])
  have "0 \<le> h" using assms by (simp add: h_def mi_def sec_def pos_imp_zdiv_nonneg_iff)
  moreover have "h < 24"
    using assms unfolding e(2) [symmetric] by simp
  moreover have "3600000 * h + 60000 * (mi mod 60) + 1000 * (sec mod 60) + ms mod 1000 = ms"
    using mult_div_mod_eq [of 1000 ms] mult_div_mod_eq [of 60 sec] mult_div_mod_eq [of 60 mi]
    unfolding sec_def [symmetric] mi_def [symmetric] h_def [symmetric] by linarith
  moreover have "mi mod 60 \<le> 59" "sec mod 60 \<le> 59"
    using pos_mod_bound [of 60 mi] pos_mod_bound [of 60 sec] by linarith+
  ultimately show ?thesis
    unfolding e sec_def [symmetric] by (simp add: read_time_def read_pads)
qed

lemma date_parse_iso:
  assumes "\<bar>t\<bar> \<le> max_time"
  shows "date_parse host (to_iso_string t) = Some t"
proof -
  obtain y m d where c: "civil_from_days (t div 86400000) = (y, m, d)" by (metis prod_cases3)
  have "- 100000000 \<le> t div 86400000" "t div 86400000 \<le> 100000000"
    using assms by (simp_all add: max_time_def)
  then have days: "\<bar>t div 86400000\<bar> \<le> 100000000" by linarith
  have "iso_parse (to_iso_string t) = Some (False, 86400000 * (t div 86400000) + t mod 86400000)"
    unfolding to_iso_string_def Let_def c
    using read_time_iso [of "t mod 86400000" "[90]"]
    by (simp add: iso_parse_def read_date_iso [OF days c] read_zone_def)
  with assms show ?thesis by (simp add: date_parse_def Let_def)
qed

lemma date_parse_range: "date_parse host s = Some t \<Longrightarrow> \<bar>t\<bar> \<le> max_time"
  by (auto simp: date_parse_def Let_def split: option.splits if_splits)

lemma time_clip_range: "time_clip x = Some t \<Longrightarrow> \<bar>t\<bar> \<le> max_time"
proof (induction x rule: time_clip.induct)
  case (1 x)
  then have x: "\<bar>x\<bar> \<le> of_int max_time" and t: "t = (if 0 \<le> x then \<lfloor>x\<rfloor> else - \<lfloor>- x\<rfloor>)"
    by (auto split: if_splits)
  show ?case
  proof (cases "0 \<le> x")
    case True
    with x have "\<lfloor>x\<rfloor> \<le> \<lfloor>of_int max_time :: rat\<rfloor>" by (intro floor_mono) simp
    with True t show ?thesis by simp
  next
    case False
    with x have "\<lfloor>- x\<rfloor> \<le> \<lfloor>of_int max_time :: rat\<rfloor>" by (intro floor_mono) simp
    with False t show ?thesis by simp
  qed
qed simp_all

text \<open>The code units of the interchange format.\<close>

lemma pad_dec_chars: "c \<in> set (pad_dec w n) \<Longrightarrow> is_digit c \<or> c = 45"
proof -
  have "c \<in> set (dec n) \<Longrightarrow> is_digit c \<or> c = 45"
    using dec_pos_digits [of n] dec_pos_digits [of "- n"] by (auto simp: dec_def split: if_splits)
  then show "c \<in> set (pad_dec w n) \<Longrightarrow> is_digit c \<or> c = 45"
    by (auto simp: pad_dec_def Let_def is_digit_def)
qed

lemma iso_chars: "c \<in> set (to_iso_string t) \<Longrightarrow> is_digit c \<or> c \<in> {43, 45, 46, 58, 84, 90}"
  using pad_dec_chars
  by (auto simp: to_iso_string_def iso_year_def Let_def split: prod.splits if_splits)

lemma iso_has_T: "84 \<in> set (to_iso_string t)"
  by (cases "civil_from_days (t div 86400000)") (simp add: to_iso_string_def Let_def)

end
