(* ===== verification/Web_Encoding.thy ===== *)
theory Web_Encoding
  imports Js_String
begin

text \<open>
  The two decoders of the web platform that the client uses on tokens: \<open>atob\<close>
  (forgiving base64) and \<open>TextDecoder\<close> for UTF-8, with replacement of malformed input
  and removal of a byte order mark.  Bytes are integers from 0 to 255.

  The encoders are here to state that decoding inverts them: \<open>atob_b64url\<close> for
  base64url without padding, as a JSON web token has it, and \<open>text_decode_encode\<close> for
  UTF-8.
\<close>

section \<open>Base64\<close>

definition is_ascii_ws :: "jchar \<Rightarrow> bool" where
  "is_ascii_ws c \<longleftrightarrow> c = 9 \<or> c = 10 \<or> c = 12 \<or> c = 13 \<or> c = 32"

definition b64_index :: "jchar \<Rightarrow> int option" where
  "b64_index c =
     (if 65 \<le> c \<and> c \<le> 90 then Some (c - 65)
      else if 97 \<le> c \<and> c \<le> 122 then Some (c - 71)
      else if 48 \<le> c \<and> c \<le> 57 then Some (c + 4)
      else if c = 43 then Some 62
      else if c = 47 then Some 63
      else None)"

fun b64_bytes :: "int list \<Rightarrow> int list" where
  "b64_bytes (a # b # c # d # r) =
     (a * 4 + b div 16) # (b mod 16 * 16 + c div 4) # (c mod 4 * 64 + d) # b64_bytes r"
| "b64_bytes [a, b, c] = [a * 4 + b div 16, b mod 16 * 16 + c div 4]"
| "b64_bytes [a, b] = [a * 4 + b div 16]"
| "b64_bytes _ = []"

text \<open>A text whose length is a multiple of four loses one or two closing equals signs.\<close>

definition strip_padding :: "jstr \<Rightarrow> jstr" where
  "strip_padding s =
     (if length s mod 4 = 0 then
        (if ends_with (js ''=='') s then take (length s - 2) s
         else if ends_with (js ''='') s then take (length s - 1) s else s)
      else s)"

definition atob :: "jstr \<Rightarrow> int list option" where
  "atob data =
     (let s = strip_padding (filter (\<lambda>c. \<not> is_ascii_ws c) data) in
      if length s mod 4 = 1 then None else map_option b64_bytes (map_opt b64_index s))"

text \<open>Base64url in the alphabet of base64, padded to a multiple of four.\<close>

definition b64_padded :: "jstr \<Rightarrow> jstr" where
  "b64_padded s =
     (let t = replace_unit 95 47 (replace_unit 45 43 s); p = length t mod 4 in
      if 0 < p then t @ replicate (4 - p) 61 else t)"

section \<open>UTF-8\<close>

text \<open>The decoder: \<open>needed\<close> continuation bytes are missing of the code point whose bits so
  far are \<open>cp\<close>; the next byte must be from \<open>lo\<close> to \<open>hi\<close>.  A byte that does
  not fit ends the sequence with U+FFFD and is read again.\<close>

function utf8_decode :: "nat \<Rightarrow> int \<Rightarrow> int \<Rightarrow> int \<Rightarrow> int list \<Rightarrow> int list" where
  "utf8_decode needed cp lo hi bytes =
     (if needed = 0 then
        (case bytes of
           [] \<Rightarrow> []
         | b # bs \<Rightarrow>
             if b < 128 then b # utf8_decode 0 0 128 191 bs
             else if 194 \<le> b \<and> b \<le> 223 then utf8_decode 1 (b - 192) 128 191 bs
             else if 224 \<le> b \<and> b \<le> 239 then
               utf8_decode 2 (b - 224) (if b = 224 then 160 else 128) (if b = 237 then 159 else 191) bs
             else if 240 \<le> b \<and> b \<le> 244 then
               utf8_decode 3 (b - 240) (if b = 240 then 144 else 128) (if b = 244 then 143 else 191) bs
             else 65533 # utf8_decode 0 0 128 191 bs)
      else
        (case bytes of
           [] \<Rightarrow> [65533]
         | b # bs \<Rightarrow>
             if b < lo \<or> hi < b then 65533 # utf8_decode 0 0 128 191 bytes
             else
               let cp' = cp * 64 + (b - 128) in
               if needed = 1 then cp' # utf8_decode 0 0 128 191 bs
               else utf8_decode (needed - 1) cp' 128 191 bs))"
  by pat_completeness auto
termination
  by (relation "measure (\<lambda>(needed, cp, lo, hi, bytes). 2 * length bytes + (if needed = 0 then 0 else 1))") auto

declare utf8_decode.simps [simp del]

definition utf16 :: "int \<Rightarrow> jstr" where
  "utf16 cp =
     (if cp < 65536 then [cp]
      else [55296 + (cp - 65536) div 1024, 56320 + (cp - 65536) mod 1024])"

definition text_decode :: "int list \<Rightarrow> jstr" where
  "text_decode bytes =
     (let cps = utf8_decode 0 0 128 191 bytes;
          cps' = (if cps \<noteq> [] \<and> hd cps = 65279 then tl cps else cps) in
      concat (map utf16 cps'))"

section \<open>Encoders\<close>

definition is_byte :: "int \<Rightarrow> bool" where
  "is_byte b \<longleftrightarrow> 0 \<le> b \<and> b < 256"

definition b64url_char :: "int \<Rightarrow> jchar" where
  "b64url_char i =
     (if i < 26 then 65 + i else if i < 52 then 71 + i else if i < 62 then i - 4
      else if i = 62 then 45 else 95)"

fun b64url_indices :: "int list \<Rightarrow> int list" where
  "b64url_indices (x # y # z # r) =
     x div 4 # (x mod 4 * 16 + y div 16) # (y mod 16 * 4 + z div 64) # z mod 64 # b64url_indices r"
| "b64url_indices [x, y] = [x div 4, x mod 4 * 16 + y div 16, y mod 16 * 4]"
| "b64url_indices [x] = [x div 4, x mod 4 * 16]"
| "b64url_indices [] = []"

definition b64url_encode :: "int list \<Rightarrow> jstr" where
  "b64url_encode bytes = map b64url_char (b64url_indices bytes)"

definition utf8_bytes :: "int \<Rightarrow> int list" where
  "utf8_bytes cp =
     (if cp < 128 then [cp]
      else if cp < 2048 then [192 + cp div 64, 128 + cp mod 64]
      else if cp < 65536 then [224 + cp div 4096, 128 + cp div 64 mod 64, 128 + cp mod 64]
      else [240 + cp div 262144, 128 + cp div 4096 mod 64, 128 + cp div 64 mod 64, 128 + cp mod 64])"

definition high_unit :: "jchar \<Rightarrow> bool" where
  "high_unit c \<longleftrightarrow> 55296 \<le> c \<and> c < 56320"

definition low_unit :: "jchar \<Rightarrow> bool" where
  "low_unit c \<longleftrightarrow> 56320 \<le> c \<and> c < 57344"

text \<open>The code points of a string without lone surrogates.\<close>

fun code_points :: "jstr \<Rightarrow> int list option" where
  "code_points [] = Some []"
| "code_points [c] = (if high_unit c \<or> low_unit c then None else Some [c])"
| "code_points (c # d # s) =
     (if high_unit c \<and> low_unit d
      then map_option ((#) (65536 + (c - 55296) * 1024 + (d - 56320))) (code_points s)
      else if high_unit c \<or> low_unit c then None
      else map_option ((#) c) (code_points (d # s)))"

definition scalar_value :: "int \<Rightarrow> bool" where
  "scalar_value cp \<longleftrightarrow> 0 \<le> cp \<and> cp < 1114112 \<and> \<not> (55296 \<le> cp \<and> cp < 57344)"

definition utf8_encode :: "jstr \<Rightarrow> int list option" where
  "utf8_encode s = map_option (\<lambda>cps. concat (map utf8_bytes cps)) (code_points s)"

section \<open>Base64 round trip\<close>

lemma div_mod_parts:
  "0 \<le> q \<Longrightarrow> q < k \<Longrightarrow> (p * k + q) div k = p" "0 \<le> q \<Longrightarrow> q < k \<Longrightarrow> (p * k + q) mod k = q"
  for p q k :: int
  by (simp_all add: div_add1_eq)

lemma byte_parts:
  assumes "is_byte x"
  shows "0 \<le> x div 4" "x div 4 < 64" "0 \<le> x div 16" "x div 16 < 16" "0 \<le> x div 64" "x div 64 < 4"
    "x div 4 * 4 + x mod 4 = x" "x div 16 * 16 + x mod 16 = x" "x div 64 * 64 + x mod 64 = x"
  using assms by (auto simp: is_byte_def pos_imp_zdiv_nonneg_iff)

lemma group_bytes:
  assumes "is_byte y"
  shows "is_byte x \<Longrightarrow> x div 4 * 4 + (x mod 4 * 16 + y div 16) div 16 = x"
    "is_byte z \<Longrightarrow> (x mod 4 * 16 + y div 16) mod 16 * 16 + (y mod 16 * 4 + z div 64) div 4 = y"
    "(x mod 4 * 16 + y div 16) mod 16 * 16 + (y mod 16 * 4) div 4 = y"
    "is_byte z \<Longrightarrow> (y mod 16 * 4 + z div 64) mod 4 * 64 + z mod 64 = z"
  by (simp_all only: div_mod_parts byte_parts assms nonzero_mult_div_cancel_right zero_neq_numeral not_False_eq_True)

lemma b64_bytes_indices: "list_all is_byte bs \<Longrightarrow> b64_bytes (b64url_indices bs) = bs"
proof (induction bs rule: b64url_indices.induct)
  case (1 x y z r)
  then show ?case
    by (simp only: b64url_indices.simps b64_bytes.simps list.pred_inject group_bytes)
next
  case (2 x y)
  then show ?case
    by (simp only: b64url_indices.simps b64_bytes.simps list.pred_inject group_bytes)
next
  case (3 x)
  then show ?case
    by (simp only: b64url_indices.simps b64_bytes.simps list.pred_inject byte_parts
        nonzero_mult_div_cancel_right zero_neq_numeral not_False_eq_True)
qed simp

lemma sextet: "0 \<le> a \<Longrightarrow> a < m \<Longrightarrow> 0 \<le> b \<Longrightarrow> b < k \<Longrightarrow> m * k = 64 \<Longrightarrow> 0 \<le> a * k + b \<and> a * k + b < 64"
  for a b m k :: int
proof -
  assume a: "0 \<le> a" "a < m" and b: "0 \<le> b" "b < k" and mk: "m * k = 64"
  then have "a * k + b < (a + 1) * k" by (simp add: distrib_right)
  also have "\<dots> \<le> m * k" using a b by (intro mult_right_mono) auto
  finally show ?thesis using a b mk by simp
qed

lemma sextet_parts:
  "is_byte y \<Longrightarrow> 0 \<le> x mod 4 * 16 + y div 16 \<and> x mod 4 * 16 + y div 16 < 64"
  "is_byte z \<Longrightarrow> 0 \<le> y mod 16 * 4 + z div 64 \<and> y mod 16 * 4 + z div 64 < 64"
  "0 \<le> x mod 4 * 16 \<and> x mod 4 * 16 < 64" "0 \<le> y mod 16 * 4 \<and> y mod 16 * 4 < 64"
  "is_byte x \<Longrightarrow> 0 \<le> x div 4 \<and> x div 4 < 64" "0 \<le> z mod 64 \<and> z mod 64 < 64"
  using sextet [of "x mod 4" 4 "y div 16" 16] sextet [of "y mod 16" 16 "z div 64" 4]
    sextet [of "x mod 4" 4 0 16] sextet [of "y mod 16" 16 0 4] byte_parts(1,2) [of x] byte_parts(3,4) [of y]
    byte_parts(5,6) [of z]
  by (simp_all only: pos_mod_sign pos_mod_bound zero_less_numeral) simp_all

lemma sextets: "list_all is_byte bs \<Longrightarrow> list_all (\<lambda>i. 0 \<le> i \<and> i < 64) (b64url_indices bs)"
  by (induction bs rule: b64url_indices.induct)
    (simp_all only: b64url_indices.simps list.pred_inject sextet_parts simp_thms)

lemma length_indices: "length (b64url_indices bs) mod 4 \<noteq> 1"
  by (induction bs rule: b64url_indices.induct) (simp_all add: mod_Suc split: if_splits)

lemma b64_std_char:
  assumes "0 \<le> i" and "i < 64"
  defines "c \<equiv> (\<lambda>x. if x = 95 then 47 else x) ((\<lambda>x. if x = 45 then 43 else x) (b64url_char i))"
  shows "b64_index c = Some i" and "\<not> is_ascii_ws c" and "c \<noteq> 61"
  using assms by (auto simp: b64url_char_def b64_index_def is_ascii_ws_def)

lemma ends_with_eqs:
  assumes "61 \<notin> set t"
  shows "\<not> ends_with (js ''='') t" "\<not> ends_with (js ''=='') t" "\<not> ends_with (js ''=='') (t @ [61])"
    "ends_with (js ''='') (t @ [61])" "ends_with (js ''=='') (t @ [61, 61])"
  using assms by (cases t rule: rev_cases; simp add: ends_with_def)+

lemma strip_padded:
  assumes "61 \<notin> set t" and "length t mod 4 \<noteq> 1"
  shows "strip_padding (if 0 < length t mod 4 then t @ replicate (4 - length t mod 4) 61 else t) = t"
proof -
  have l: "Suc (length t) mod 4 = Suc (length t mod 4) mod 4"
    "Suc (Suc (length t)) mod 4 = Suc (Suc (length t mod 4)) mod 4"
    by (metis mod_Suc_eq) (metis mod_Suc_eq)
  have "length t mod 4 < 4" by simp
  with assms(2) consider "length t mod 4 = 0" | "length t mod 4 = 2" | "length t mod 4 = 3" by linarith
  then show ?thesis
    using ends_with_eqs [OF assms(1)] l by cases (simp_all add: strip_padding_def numeral_2_eq_2)
qed

lemma atob_b64url:
  assumes "list_all is_byte bs"
  shows "atob (b64_padded (b64url_encode bs)) = Some bs"
proof -
  define f where "f = (\<lambda>x. if x = 95 then 47 else x :: int) \<circ> (\<lambda>x. if x = 45 then 43 else x) \<circ> b64url_char"
  define t where "t = map f (b64url_indices bs)"
  have i: "\<forall>i\<in>set (b64url_indices bs). 0 \<le> i \<and> i < 64"
    using sextets [OF assms] by (simp add: list_all_iff)
  then have f: "b64_index (f i) = Some i \<and> \<not> is_ascii_ws (f i) \<and> f i \<noteq> 61" if "i \<in> set (b64url_indices bs)" for i
    using b64_std_char [of i] that unfolding f_def o_apply by blast
  have pad: "b64_padded (b64url_encode bs) = (if 0 < length t mod 4 then t @ replicate (4 - length t mod 4) 61 else t)"
    by (simp add: b64_padded_def b64url_encode_def replace_unit_def t_def f_def Let_def comp_def)
  have "filter (\<lambda>c. \<not> is_ascii_ws c) (b64_padded (b64url_encode bs)) = b64_padded (b64url_encode bs)"
    unfolding pad using f by (auto simp: t_def filter_id_conv is_ascii_ws_def)
  moreover have "strip_padding (b64_padded (b64url_encode bs)) = t"
    unfolding pad by (rule strip_padded) (use f length_indices in \<open>auto simp: t_def\<close>)
  moreover have "map_opt b64_index t = Some (b64url_indices bs)"
    using map_opt_map [of "b64url_indices bs" b64_index f id] f by (simp add: t_def)
  ultimately show ?thesis
    using length_indices [of bs] b64_bytes_indices [OF assms] by (simp add: atob_def Let_def t_def)
qed

section \<open>UTF-8 round trip\<close>

lemma utf8_next:
  assumes "lo \<le> b" and "b \<le> hi"
  shows "utf8_decode (Suc 0) cp lo hi (b # bs) = (cp * 64 + (b - 128)) # utf8_decode 0 0 128 191 bs"
    and "utf8_decode (Suc (Suc n)) cp lo hi (b # bs) = utf8_decode (Suc n) (cp * 64 + (b - 128)) 128 191 bs"
  using assms by (subst utf8_decode.simps; simp add: Let_def)+

lemma utf8_lead:
  "b < 128 \<Longrightarrow> utf8_decode 0 0 128 191 (b # bs) = b # utf8_decode 0 0 128 191 bs"
  "194 \<le> b \<Longrightarrow> b \<le> 223 \<Longrightarrow> utf8_decode 0 0 128 191 (b # bs) = utf8_decode (Suc 0) (b - 192) 128 191 bs"
  "224 \<le> b \<Longrightarrow> b \<le> 239 \<Longrightarrow> utf8_decode 0 0 128 191 (b # bs) =
     utf8_decode (Suc (Suc 0)) (b - 224) (if b = 224 then 160 else 128) (if b = 237 then 159 else 191) bs"
  "240 \<le> b \<Longrightarrow> b \<le> 244 \<Longrightarrow> utf8_decode 0 0 128 191 (b # bs) =
     utf8_decode (Suc (Suc (Suc 0))) (b - 240) (if b = 240 then 144 else 128) (if b = 244 then 143 else 191) bs"
  by (subst utf8_decode.simps; simp add: numeral_2_eq_2 numeral_3_eq_3)+

lemma base64_digits:
  fixes n :: int
  obtains a b where "n = 64 * a + b" "0 \<le> b" "b < 64" "n div 64 = a" "n mod 64 = b"
  by (metis mult_div_mod_eq pos_mod_sign pos_mod_bound zero_less_numeral)

lemma div_64: "(n::int) div 4096 = n div 64 div 64" "n div 262144 = n div 64 div 64 div 64"
  by (simp_all add: zdiv_zmult2_eq [symmetric])

lemma utf8_decode_bytes:
  assumes "scalar_value cp"
  shows "utf8_decode 0 0 128 191 (utf8_bytes cp @ bs) = cp # utf8_decode 0 0 128 191 bs"
proof -
  obtain q1 c where c: "cp = 64 * q1 + c" "0 \<le> c" "c < 64" "cp div 64 = q1" "cp mod 64 = c"
    by (rule base64_digits)
  obtain q2 b where b: "q1 = 64 * q2 + b" "0 \<le> b" "b < 64" "q1 div 64 = q2" "q1 mod 64 = b"
    by (rule base64_digits)
  obtain q3 a where a: "q2 = 64 * q3 + a" "0 \<le> a" "a < 64" "q2 div 64 = q3" "q2 mod 64 = a"
    by (rule base64_digits)
  note v = assms [unfolded scalar_value_def]
  consider "cp < 128" | "128 \<le> cp" "cp < 2048" | "2048 \<le> cp" "cp < 65536" | "65536 \<le> cp" by linarith
  then show ?thesis
  proof cases
    case 1
    then show ?thesis by (simp add: utf8_bytes_def utf8_lead)
  next
    case 2
    then have "194 \<le> 192 + q1" "192 + q1 \<le> 223" using c(1-3) by linarith+
    with 2 c show ?thesis by (simp add: utf8_bytes_def utf8_lead utf8_next)
  next
    case 3
    then have "224 \<le> 224 + q2" "224 + q2 \<le> 239" using b(1-3) c(1-3) by linarith+
    moreover have "(if 224 + q2 = 224 then 160 else 128) \<le> 128 + b" using 3 b(1-3) c(1-3) by auto
    moreover have "128 + b \<le> (if 224 + q2 = 237 then 159 else 191)" using b(1-3) c(1-3) v by auto
    moreover have "utf8_bytes cp = [224 + q2, 128 + b, 128 + c]"
      using 3 unfolding utf8_bytes_def div_64 b(4,5) c(4,5) by simp
    ultimately show ?thesis
      using b(1-3) c(1-3) by (simp add: utf8_lead utf8_next)
  next
    case 4
    then have "240 \<le> 240 + q3" "240 + q3 \<le> 244" using a(1-3) b(1-3) c(1-3) v by linarith+
    moreover have "(if 240 + q3 = 240 then 144 else 128) \<le> 128 + a" using 4 a(1-3) b(1-3) c(1-3) by auto
    moreover have "128 + a \<le> (if 240 + q3 = 244 then 143 else 191)" using a(1-3) b(1-3) c(1-3) v by auto
    moreover have "utf8_bytes cp = [240 + q3, 128 + a, 128 + b, 128 + c]"
      using 4 unfolding utf8_bytes_def div_64 a(4,5) b(4,5) c(4,5) by simp
    ultimately show ?thesis
      using a(1-3) b(1-3) c(1-3) by (simp add: utf8_lead utf8_next)
  qed
qed

lemma utf8_decode_list:
  "list_all scalar_value cps \<Longrightarrow> utf8_decode 0 0 128 191 (concat (map utf8_bytes cps)) = cps"
proof (induction cps)
  case Nil
  then show ?case by (subst utf8_decode.simps) simp
qed (simp add: utf8_decode_bytes)

lemma surrogate_pair:
  assumes "high_unit c" and "low_unit d"
  defines "cp \<equiv> 65536 + (c - 55296) * 1024 + (d - 56320)"
  shows "scalar_value cp" and "utf16 cp = [c, d]" and "65536 \<le> cp"
proof -
  have r: "55296 \<le> c" "c < 56320" "56320 \<le> d" "d < 57344"
    using assms by (auto simp: high_unit_def low_unit_def)
  then show "scalar_value cp" "65536 \<le> cp" by (auto simp: scalar_value_def cp_def)
  have e: "cp - 65536 = (c - 55296) * 1024 + (d - 56320)" by (simp add: cp_def)
  have "(cp - 65536) div 1024 = c - 55296" "(cp - 65536) mod 1024 = d - 56320"
    unfolding e by (rule div_mod_parts; use r in simp)+
  then show "utf16 cp = [c, d]" using \<open>65536 \<le> cp\<close> by (simp add: utf16_def)
qed

lemma code_points_units:
  "code_points s = Some cps \<Longrightarrow> \<forall>c\<in>set s. 0 \<le> c \<and> c < 65536 \<Longrightarrow>
     list_all scalar_value cps \<and> concat (map utf16 cps) = s \<and> (cps \<noteq> [] \<and> hd cps = 65279 \<longrightarrow> hd s = 65279)"
proof (induction s arbitrary: cps rule: code_points.induct)
  case (2 c)
  then show ?case
    by (auto simp: scalar_value_def utf16_def high_unit_def low_unit_def split: if_splits)
next
  case (3 c d s)
  show ?case
  proof (cases "high_unit c \<and> low_unit d")
    case True
    with 3 surrogate_pair [of c d] show ?thesis by auto
  next
    case False
    with 3(3) obtain r where "\<not> high_unit c" "\<not> low_unit c" "code_points (d # s) = Some r" "cps = c # r"
      by (auto split: if_splits)
    with 3(2) [OF False] 3(4) show ?thesis
      by (auto simp: scalar_value_def utf16_def high_unit_def low_unit_def)
  qed
qed simp

lemma utf8_bytes_bytes: "scalar_value cp \<Longrightarrow> list_all is_byte (utf8_bytes cp)"
  by (auto simp: utf8_bytes_def scalar_value_def is_byte_def)

lemma text_decode_encode:
  assumes "utf8_encode s = Some bs" and "\<forall>c\<in>set s. 0 \<le> c \<and> c < 65536" and "s = [] \<or> hd s \<noteq> 65279"
  shows "text_decode bs = s \<and> list_all is_byte bs"
proof -
  from assms(1) obtain cps where cps: "code_points s = Some cps" "bs = concat (map utf8_bytes cps)"
    by (auto simp: utf8_encode_def)
  with code_points_units [OF cps(1) assms(2)] assms(3)
  have v: "list_all scalar_value cps" "concat (map utf16 cps) = s" "\<not> (cps \<noteq> [] \<and> hd cps = 65279)"
    by auto
  have "list_all is_byte bs"
    unfolding cps(2) using v(1) utf8_bytes_bytes by (fastforce simp: list_all_iff)
  moreover have "text_decode bs = s"
    using v utf8_decode_list [OF v(1)] cps(2) by (auto simp: text_decode_def Let_def)
  ultimately show ?thesis by blast
qed

end
