(* ===== verification/Channel_Types.thy ===== *)
theory Channel_Types
  imports Js_Number Js_RegExp
begin

text \<open>
  The channel types: the tables of \<open>features/channels/constants.ts\<close> and the per-type
  configuration of \<open>features/channels/lib/channel-type-config.ts\<close>.

  A type is a JavaScript number.  A table indexed by numbers is a list of pairs in the order
  of \<open>Object.entries\<close>, and indexing by a number that is no key gives
  \<open>undefined\<close>.
\<close>

section \<open>Tables\<close>

definition CHANNEL_TYPES :: "(int \<times> jstr) list" where
  "CHANNEL_TYPES =
    [
     (0, js ''Unknown''), (1, js ''OpenAI''), (2, js ''Midjourney''), (3, js ''Azure''),
     (4, js ''Ollama''), (5, js ''MidjourneyPlus''), (6, js ''OpenAIMax''), (7, js ''OhMyGPT''),
     (8, js ''Custom''), (9, js ''AILS''), (10, js ''AI Proxy''), (11, js ''PaLM''),
     (12, js ''API2GPT''), (13, js ''AIGC2D''), (14, js ''Anthropic''), (15, js ''Baidu''),
     (16, js ''Zhipu''), (17, js ''Ali''), (18, js ''Xunfei''), (19, js ''360''),
     (20, js ''OpenRouter''), (21, js ''AI Proxy Library''), (22, js ''FastGPT''),
     (23, js ''Tencent''), (24, js ''Gemini''), (25, js ''Moonshot''), (26, js ''Zhipu V4''),
     (27, js ''Perplexity''), (31, js ''LingYiWanWu''), (33, js ''AWS''), (34, js ''Cohere''),
     (35, js ''MiniMax''), (36, js ''SunoAPI''), (37, js ''Dify''), (38, js ''Jina''),
     (39, js ''Cloudflare''), (40, js ''SiliconFlow''), (41, js ''Vertex AI''),
     (42, js ''Mistral''), (43, js ''DeepSeek''), (44, js ''MokaAI''), (45, js ''VolcEngine''),
     (46, js ''Baidu V2''), (47, js ''Xinference''), (48, js ''xAI''), (49, js ''Coze''),
     (50, js ''Kling''), (51, js ''Jimeng''), (52, js ''Vidu''), (53, js ''Submodel''),
     (54, js ''DoubaoVideo''), (55, js ''Sora''), (56, js ''Replicate''), (57, js ''Codex'')
    ]"

definition CHANNEL_TYPE_DISPLAY_ORDER :: "int list" where
  "CHANNEL_TYPE_DISPLAY_ORDER =
    [
     1, 14, 33, 24, 43, 3, 41, 48, 42, 34, 20, 4, 40, 27, 25, 17, 26, 15, 46, 23, 18, 45, 31, 35,
     49, 19, 47, 37, 38, 39, 11, 8, 57, 22, 21, 44, 2, 5, 36, 50, 51, 52, 53, 54, 55, 56
    ]"

text \<open>The first loop of \<open>CHANNEL_TYPE_OPTIONS\<close>: the ordered types that have a label.\<close>

definition ordered_options :: "(int \<times> jstr) list" where
  "ordered_options =
     List.map_filter (\<lambda>i. case map_of CHANNEL_TYPES i of
         None \<Rightarrow> None | Some label \<Rightarrow> if label = [] then None else Some (i, label))
       CHANNEL_TYPE_DISPLAY_ORDER"

text \<open>The second loop: the other types, in the order of the table.\<close>

definition CHANNEL_TYPE_OPTIONS :: "(int \<times> jstr) list" where
  "CHANNEL_TYPE_OPTIONS =
     (let seen = map fst ordered_options in
      ordered_options @ filter (\<lambda>(i, label). i \<noteq> 0 \<and> \<not> List.member seen i) CHANNEL_TYPES)"

definition STATUS_UNKNOWN :: int where "STATUS_UNKNOWN = 0"

definition STATUS_ENABLED :: int where "STATUS_ENABLED = 1"

definition STATUS_MANUAL_DISABLED :: int where "STATUS_MANUAL_DISABLED = 2"

definition STATUS_AUTO_DISABLED :: int where "STATUS_AUTO_DISABLED = 3"

definition CHANNEL_STATUS_LABELS :: "(int \<times> jstr) list" where
  "CHANNEL_STATUS_LABELS =
     [(STATUS_UNKNOWN, js ''Unknown''), (STATUS_ENABLED, js ''Enabled''),
      (STATUS_MANUAL_DISABLED, js ''Disabled''), (STATUS_AUTO_DISABLED, js ''Auto Disabled'')]"

section \<open>Configuration of a type\<close>

record ChannelHints =
  hint_baseUrl :: "jstr option"
  hint_key :: "jstr option"
  hint_models :: "jstr option"
  hint_other :: "jstr option"

record ChannelValidation =
  val_keyFormat :: "rx option"
  val_keyMinLength :: "nat option"

record ChannelTypeConfig =
  cfg_id :: jnum
  cfg_name :: jstr
  cfg_icon :: jstr
  cfg_defaultBaseUrl :: "jstr option"
  cfg_requiresOrganization :: "bool option"
  cfg_requiresRegion :: "bool option"
  cfg_supportedModels :: "jstr list option"
  cfg_hints :: "ChannelHints option"
  cfg_validation :: "ChannelValidation option"

definition type_name :: "int \<Rightarrow> jstr" where
  "type_name i = (case map_of CHANNEL_TYPES i of Some n \<Rightarrow> n | None \<Rightarrow> [])"

definition hints :: "jstr option \<Rightarrow> jstr \<Rightarrow> jstr \<Rightarrow> jstr option \<Rightarrow> ChannelHints option" where
  "hints b k m other = Some \<lparr>hint_baseUrl = b, hint_key = Some k, hint_models = Some m, hint_other = other\<rparr>"

definition CHANNEL_TYPE_CONFIGS :: "(int \<times> ChannelTypeConfig) list" where
  "CHANNEL_TYPE_CONFIGS =
     [(1, \<lparr>cfg_id = Fin 1, cfg_name = type_name 1, cfg_icon = js ''openai'',
         cfg_defaultBaseUrl = Some (js ''https://api.openai.com''), cfg_requiresOrganization = Some True,
         cfg_requiresRegion = None, cfg_supportedModels = None,
         cfg_hints = hints (Some (js ''Default: https://api.openai.com'')) (js ''Format: sk-...'')
           (js ''gpt-4,gpt-4-turbo,gpt-3.5-turbo'') None,
         cfg_validation = Some \<lparr>val_keyFormat = Some (rx_seq [RStart, rx_lit (js ''sk-'')]), val_keyMinLength = Some 20\<rparr>\<rparr>),
      (3, \<lparr>cfg_id = Fin 3, cfg_name = type_name 3, cfg_icon = js ''azure'',
         cfg_defaultBaseUrl = None, cfg_requiresOrganization = None, cfg_requiresRegion = Some True, cfg_supportedModels = None,
         cfg_hints = hints (Some (js ''Azure OpenAI Endpoint'')) (js ''Azure API Key'') (js ''Deployment names'') None,
         cfg_validation = None\<rparr>),
      (14, \<lparr>cfg_id = Fin 14, cfg_name = type_name 14, cfg_icon = js ''anthropic'',
         cfg_defaultBaseUrl = Some (js ''https://api.anthropic.com''), cfg_requiresOrganization = None,
         cfg_requiresRegion = None, cfg_supportedModels = None,
         cfg_hints = hints None (js ''Format: sk-ant-...'') (js ''claude-3-opus,claude-3-sonnet,claude-3-haiku'') None,
         cfg_validation = None\<rparr>),
      (20, \<lparr>cfg_id = Fin 20, cfg_name = type_name 20, cfg_icon = js ''openrouter'',
         cfg_defaultBaseUrl = Some (js ''https://openrouter.ai/api''), cfg_requiresOrganization = None,
         cfg_requiresRegion = None, cfg_supportedModels = None,
         cfg_hints = hints None (js ''OpenRouter API Key'') (js ''Use model IDs from OpenRouter'') None,
         cfg_validation = None\<rparr>),
      (24, \<lparr>cfg_id = Fin 24, cfg_name = type_name 24, cfg_icon = js ''google'',
         cfg_defaultBaseUrl = None, cfg_requiresOrganization = None, cfg_requiresRegion = None, cfg_supportedModels = None,
         cfg_hints = hints None (js ''Google API Key'') (js ''gemini-pro,gemini-pro-vision'') None,
         cfg_validation = None\<rparr>),
      (41, \<lparr>cfg_id = Fin 41, cfg_name = type_name 41, cfg_icon = js ''google'',
         cfg_defaultBaseUrl = None, cfg_requiresOrganization = None, cfg_requiresRegion = Some True, cfg_supportedModels = None,
         cfg_hints = hints None (js ''Service account JSON or API key'') (js ''gemini-pro,gemini-1.5-pro'')
           (Some (js ''Region config: {'' @ [34] @ js ''default'' @ [34] @ js '': '' @ [34] @ js ''us-central1'' @ [34] @ js ''}'')),
         cfg_validation = None\<rparr>),
      (43, \<lparr>cfg_id = Fin 43, cfg_name = type_name 43, cfg_icon = js ''deepseek'',
         cfg_defaultBaseUrl = Some (js ''https://api.deepseek.com''), cfg_requiresOrganization = None,
         cfg_requiresRegion = None, cfg_supportedModels = None,
         cfg_hints = hints None (js ''DeepSeek API Key'') (js ''deepseek-chat,deepseek-coder'') None,
         cfg_validation = None\<rparr>),
      (56, \<lparr>cfg_id = Fin 56, cfg_name = type_name 56, cfg_icon = js ''replicate'',
         cfg_defaultBaseUrl = Some (js ''https://api.replicate.com''), cfg_requiresOrganization = None,
         cfg_requiresRegion = None, cfg_supportedModels = None,
         cfg_hints = hints (Some (js ''Default: https://api.replicate.com'')) (js ''Replicate API Token'')
           (js ''Replicate model IDs'') None,
         cfg_validation = None\<rparr>)]"

text \<open>\<open>CHANNEL_TYPE_CONFIGS[type]\<close>, and the same for a table of labels.\<close>

definition at_type :: "(int \<times> 'v) list \<Rightarrow> jnum \<Rightarrow> 'v option" where
  "at_type t x = (case x of Fin q \<Rightarrow> if of_int \<lfloor>q\<rfloor> = q then map_of t \<lfloor>q\<rfloor> else None | _ \<Rightarrow> None)"

definition getChannelTypeConfig :: "jnum \<Rightarrow> ChannelTypeConfig" where
  "getChannelTypeConfig t =
     (case at_type CHANNEL_TYPE_CONFIGS t of
        Some c \<Rightarrow> c
      | None \<Rightarrow>
          \<lparr>cfg_id = t, cfg_name = (case at_type CHANNEL_TYPES t of Some n \<Rightarrow> if n = [] then js ''Unknown'' else n
             | None \<Rightarrow> js ''Unknown''), cfg_icon = js ''openai'', cfg_defaultBaseUrl = None,
           cfg_requiresOrganization = None, cfg_requiresRegion = None, cfg_supportedModels = None, cfg_hints = None, cfg_validation = None\<rparr>)"

definition requiresOrganization :: "jnum \<Rightarrow> bool" where
  "requiresOrganization t =
     (case at_type CHANNEL_TYPE_CONFIGS t of Some c \<Rightarrow> cfg_requiresOrganization c = Some True | None \<Rightarrow> False)"

definition requiresRegion :: "jnum \<Rightarrow> bool" where
  "requiresRegion t =
     (case at_type CHANNEL_TYPE_CONFIGS t of Some c \<Rightarrow> cfg_requiresRegion c = Some True | None \<Rightarrow> False)"

definition getDefaultBaseUrl :: "jnum \<Rightarrow> jstr" where
  "getDefaultBaseUrl t =
     (case at_type CHANNEL_TYPE_CONFIGS t of
        Some c \<Rightarrow> (case cfg_defaultBaseUrl c of Some u \<Rightarrow> u | None \<Rightarrow> []) | None \<Rightarrow> [])"

definition getChannelTypeHints :: "jnum \<Rightarrow> ChannelHints" where
  "getChannelTypeHints t =
     (case Option.bind (at_type CHANNEL_TYPE_CONFIGS t) cfg_hints of
        Some h \<Rightarrow> h
      | None \<Rightarrow> \<lparr>hint_baseUrl = None, hint_key = None, hint_models = None, hint_other = None\<rparr>)"

definition validateKeyFormat :: "jnum \<Rightarrow> jstr \<Rightarrow> bool" where
  "validateKeyFormat t key =
     (case Option.bind (at_type CHANNEL_TYPE_CONFIGS t) cfg_validation of
        None \<Rightarrow> True
      | Some v \<Rightarrow>
          if (case val_keyMinLength v of Some n \<Rightarrow> n \<noteq> 0 \<and> length key < n | None \<Rightarrow> False) then False
          else if (case val_keyFormat v of Some r \<Rightarrow> \<not> rx_test r key | None \<Rightarrow> False) then False
          else True)"

section \<open>Properties\<close>

lemma at_type_int [simp]: "at_type t (Fin (of_int i)) = map_of t i"
  by (simp add: at_type_def)

text \<open>The options of the channel type selector are the types of the table except Unknown, each
  once and with its label.\<close>

theorem channel_type_options:
  "set CHANNEL_TYPE_OPTIONS = set (filter (\<lambda>(i, label). i \<noteq> 0) CHANNEL_TYPES) \<and>
   distinct (map fst CHANNEL_TYPE_OPTIONS)"
proof -
  have "set CHANNEL_TYPE_OPTIONS = set (filter (\<lambda>(i, label). i \<noteq> 0) CHANNEL_TYPES)" by code_simp
  moreover have "distinct (map fst CHANNEL_TYPE_OPTIONS)" by code_simp
  ultimately show ?thesis by blast
qed

text \<open>A key has the format its channel type asks for exactly when the type is not OpenAI or the key
  has at least twenty code units and starts with \<open>sk-\<close>.\<close>

theorem key_format:
  "validateKeyFormat t key = (if t = Fin 1 then 20 \<le> length key \<and> starts_with (js ''sk-'') key else True)"
proof -
  let ?r = "rx_seq [RStart, rx_lit (js ''sk-'')]"
  have rx: "rx_test ?r key = starts_with (js ''sk-'') key"
    by (simp add: rx_test_def rx_match_start split: if_splits)
  show ?thesis
  proof (cases "\<exists>i. t = Fin (of_int i)")
    case True
    then obtain i where t: "t = Fin (of_int i)" by blast
    show ?thesis
      unfolding validateKeyFormat_def t at_type_int CHANNEL_TYPE_CONFIGS_def using rx by (auto simp: hints_def)
  next
    case False
    then have "at_type CHANNEL_TYPE_CONFIGS t = None" by (cases t) (auto simp: at_type_def)
    moreover have "t \<noteq> Fin 1" using False by (metis of_int_1)
    ultimately show ?thesis by (simp add: validateKeyFormat_def)
  qed
qed

end
