(* ===== verification/Account_Codex.thy ===== *)
theory Account_Codex
  imports Js_Value Js_RegExp Js_Date Web_Encoding Channel_Types
begin

text \<open>
  The first half of \<open>features/accounts/lib/account-channel-map.ts\<close>: reading
  strings, times and tokens from foreign JSON, and building and checking Codex credentials.

  What the language leaves to the host is collected in the record \<open>Host\<close>: the case
  mapping of Unicode (\<open>toLowerCase\<close>), the parts of \<open>Date.parse\<close> that are
  implementation-defined, and the clock.  A conversion that raises an exception gives
  \<open>Inl\<close>; the callers pass it on.

  The lemmas show that times are normal forms, that a token built from claims is read back
  and that a credential this code writes is one it accepts and keeps.
\<close>

section \<open>Types\<close>

record Host =
  toLowerCase :: "jstr \<Rightarrow> jstr"
  date_host :: DateHost
  date_now :: int

datatype AccountPlatform = Openai | Anthropic | Gemini | Codex | Openrouter | Custom

fun platform_name :: "AccountPlatform \<Rightarrow> jstr" where
  "platform_name Openai = js ''openai''"
| "platform_name Anthropic = js ''anthropic''"
| "platform_name Gemini = js ''gemini''"
| "platform_name Codex = js ''codex''"
| "platform_name Openrouter = js ''openrouter''"
| "platform_name Custom = js ''custom''"

record PlatformConfig =
  pc_channelType :: int
  pc_label :: jstr

fun platform_config :: "AccountPlatform \<Rightarrow> PlatformConfig" where
  "platform_config Openai = \<lparr>pc_channelType = 1, pc_label = js ''OpenAI''\<rparr>"
| "platform_config Anthropic = \<lparr>pc_channelType = 14, pc_label = js ''Anthropic''\<rparr>"
| "platform_config Gemini = \<lparr>pc_channelType = 24, pc_label = js ''Gemini''\<rparr>"
| "platform_config Codex = \<lparr>pc_channelType = 57, pc_label = js ''Codex''\<rparr>"
| "platform_config Openrouter = \<lparr>pc_channelType = 20, pc_label = js ''OpenRouter''\<rparr>"
| "platform_config Custom = \<lparr>pc_channelType = 8, pc_label = js ''Custom''\<rparr>"

definition ACCOUNT_PLATFORM_CONFIGS :: "(AccountPlatform \<times> PlatformConfig) list" where
  "ACCOUNT_PLATFORM_CONFIGS =
     map (\<lambda>p. (p, platform_config p)) [Openai, Anthropic, Gemini, Codex, Openrouter, Custom]"

record CodexCredentialParts =
  accessToken :: jstr
  refreshToken :: jstr
  idToken :: jstr
  accountId :: jstr
  email :: jstr
  expiresAt :: jstr
  userId :: jstr
  planType :: jstr
  organizationId :: jstr
  acct_name :: jstr
  sessionTokenPresent :: bool

text \<open>The keys of the parts a token can give.\<close>

datatype part_key = KEmail | KUserId | KExpiresAt | KAccountId | KPlanType | KOrganizationId

definition CODEX_IMPORT_CLOCK_SKEW_SECONDS :: int where
  "CODEX_IMPORT_CLOCK_SKEW_SECONDS = 120"

section \<open>Reading values\<close>

fun isRecord :: "json option \<Rightarrow> bool" where
  "isRecord (Some (JObj _)) = True"
| "isRecord _ = False"

fun asRecord :: "json option \<Rightarrow> props" where
  "asRecord (Some (JObj ps)) = ps"
| "asRecord _ = []"

fun firstString :: "json option list \<Rightarrow> jstr" where
  "firstString [] = []"
| "firstString (Some (JStr s) # vs) = (if trim s \<noteq> [] then trim s else firstString vs)"
| "firstString (Some (JNum (Fin x)) # vs) = num_to_string (Fin x)"
| "firstString (_ # vs) = firstString vs"

text \<open>A string as an argument of \<open>firstString\<close>.\<close>

abbreviation str :: "jstr \<Rightarrow> json option" where
  "str s \<equiv> Some (JStr s)"

definition normalizeList :: "json option \<Rightarrow> jstr" where
  "normalizeList value =
     (case value of
        Some (JArr vs) \<Rightarrow> join (js '','') (filter (\<lambda>s. s \<noteq> []) (map (\<lambda>item. firstString [Some item]) vs))
      | _ \<Rightarrow> firstString [value])"

definition group_item :: "json \<Rightarrow> jstr" where
  "group_item item =
     (case item of
        JObj ps \<Rightarrow> firstString [get (js ''name'') ps, get (js ''group'') ps]
      | _ \<Rightarrow> firstString [Some item])"

definition normalizeGroup :: "json option \<Rightarrow> jstr \<Rightarrow> jstr" where
  "normalizeGroup value fallback =
     (case value of
        Some (JArr vs) \<Rightarrow>
          (let groups = filter (\<lambda>s. s \<noteq> []) (map group_item vs) in
           if groups \<noteq> [] then join (js '','') groups else fallback)
      | _ \<Rightarrow> (let s = firstString [value] in if s \<noteq> [] then s else fallback))"

definition normalizeJsonString :: "json option \<Rightarrow> jstr" where
  "normalizeJsonString value =
     (let direct = firstString [value] in
      if direct \<noteq> [] then direct
      else case value of
        Some (JObj ps) \<Rightarrow> json_stringify (JObj ps)
      | Some (JArr vs) \<Rightarrow> json_stringify (JArr vs)
      | _ \<Rightarrow> [])"

definition normalizeSettingsRecord :: "json option \<Rightarrow> props" where
  "normalizeSettingsRecord value =
     (if isRecord value then asRecord value
      else
        let direct = firstString [value] in
        if direct = [] then []
        else case json_parse direct of Some (JObj ps) \<Rightarrow> ps | _ \<Rightarrow> [])"

definition parseJsonObject :: "jstr \<Rightarrow> props option" where
  "parseJsonObject value =
     (if \<not> starts_with (js ''{'') (trim value) then None
      else case json_parse value of Some (JObj ps) \<Rightarrow> Some ps | _ \<Rightarrow> None)"

fun value_at :: "json option \<Rightarrow> jstr list \<Rightarrow> json option" where
  "value_at current [] = current"
| "value_at current (key # path) =
     (case current of Some (JObj ps) \<Rightarrow> value_at (get key ps) path | _ \<Rightarrow> None)"

definition valueAtPath :: "props \<Rightarrow> jstr list \<Rightarrow> json option" where
  "valueAtPath source path = value_at (Some (JObj source)) path"

fun firstPathString :: "props \<Rightarrow> jstr list list \<Rightarrow> jstr" where
  "firstPathString source [] = []"
| "firstPathString source (path # paths) =
     (let value = firstString [valueAtPath source path] in
      if value \<noteq> [] then value else firstPathString source paths)"

section \<open>Times\<close>

text \<open>\<open>/^\d+(\.\d+)?$/\<close>\<close>

definition decimal_rx :: rx where
  "decimal_rx =
     rx_seq [RStart, rx_plus (RCls is_digit),
       ROpt (RGroup 1 (rx_seq [RCls (\<lambda>c. c = 46), rx_plus (RCls is_digit)])), REnd]"

fun times_1000 :: "jnum \<Rightarrow> jnum" where
  "times_1000 (Fin x) = to_double (x * 1000)"
| "times_1000 x = x"

definition time_of_text :: "Host \<Rightarrow> jstr \<Rightarrow> int option" where
  "time_of_text h raw =
     (let numeric = to_number raw in
      if num_is_finite numeric \<and> rx_test decimal_rx raw
      then time_clip (if num_lt (Fin 1000000000000) numeric then numeric else times_1000 numeric)
      else date_parse (date_host h) raw)"

definition parseTimeLike :: "Host \<Rightarrow> json option \<Rightarrow> jstr" where
  "parseTimeLike h value =
     (let raw = firstString [value] in
      if raw = [] then []
      else case time_of_text h raw of Some t \<Rightarrow> to_iso_string t | None \<Rightarrow> [])"

fun firstPathTime :: "Host \<Rightarrow> props \<Rightarrow> jstr list list \<Rightarrow> jstr" where
  "firstPathTime h source [] = []"
| "firstPathTime h source (path # paths) =
     (let value = parseTimeLike h (valueAtPath source path) in
      if value \<noteq> [] then value else firstPathTime h source paths)"

section \<open>Tokens\<close>

definition decodeBase64UrlJson :: "jstr \<Rightarrow> props option" where
  "decodeBase64UrlJson segment =
     (case atob (b64_padded segment) of
        None \<Rightarrow> None
      | Some bytes \<Rightarrow> (case json_parse (text_decode bytes) of Some (JObj ps) \<Rightarrow> Some ps | _ \<Rightarrow> None))"

definition is_default_org :: "json \<Rightarrow> bool" where
  "is_default_org item =
     (let org = asRecord (Some item) in
      get (js ''is_default'') org = Some (JBool True) \<or> get (js ''isDefault'') org = Some (JBool True))"

definition extractOrganizationId :: "props \<Rightarrow> jstr" where
  "extractOrganizationId authClaims =
     (let direct = firstString [get (js ''poid'') authClaims, get (js ''organization_id'') authClaims] in
      if direct \<noteq> [] then direct
      else case get (js ''organizations'') authClaims of
        Some (JArr organizations) \<Rightarrow>
          (case List.find is_default_org organizations of
             Some defaultOrg \<Rightarrow> firstString [get (js ''id'') (asRecord (Some defaultOrg))]
           | None \<Rightarrow>
               firstString [get (js ''id'') (asRecord (case organizations of [] \<Rightarrow> None | v # _ \<Rightarrow> Some v))])
      | _ \<Rightarrow> [])"

text \<open>\<open>new Date(exp * 1000).toISOString()\<close> raises a \<open>RangeError\<close> when the
  date is not valid; the entry is there for a positive \<open>exp\<close> only.\<close>

definition token_expiry :: "jnum \<Rightarrow> (part_key \<times> jstr) list result" where
  "token_expiry e =
     (if num_is_finite e \<and> num_lt (Fin 0) e then
        (case time_clip (times_1000 e) of
           None \<Rightarrow> Inl RangeError
         | Some t \<Rightarrow> Inr [(KExpiresAt, to_iso_string t)])
      else Inr [])"

definition token_parts :: "props \<Rightarrow> props \<Rightarrow> (part_key \<times> jstr) list \<Rightarrow> (part_key \<times> jstr) list" where
  "token_parts claims authClaims expiry =
     (let mail = (KEmail, firstString [get (js ''email'') claims]);
          sub = firstString [get (js ''sub'') claims] in
      if own_keys authClaims = [] then [mail, (KUserId, sub)] @ expiry
      else
        let user = firstString [get (js ''chatgpt_user_id'') authClaims, get (js ''user_id'') authClaims] in
        [mail, (KUserId, if user \<noteq> [] then user else sub)] @ expiry @
        [(KAccountId, firstString [get (js ''chatgpt_account_id'') authClaims]),
         (KPlanType, firstString [get (js ''chatgpt_plan_type'') authClaims]),
         (KOrganizationId, extractOrganizationId authClaims)])"

definition readCodexJwtParts :: "jstr \<Rightarrow> (part_key \<times> jstr) list result" where
  "readCodexJwtParts token =
     (let parts = split_str (js ''.'') (trim token) in
      if length parts \<noteq> 3 then Inr []
      else case decodeBase64UrlJson (parts ! 1) of
        None \<Rightarrow> Inr []
      | Some claims \<Rightarrow>
          let authClaims = asRecord (get (js ''https://api.openai.com/auth'') claims) in
          rbind (value_to_number (get (js ''exp'') claims)) (\<lambda>e.
          rbind (token_expiry e) (\<lambda>expiry.
          Inr (token_parts claims authClaims expiry))))"

fun set_part :: "part_key \<Rightarrow> jstr \<Rightarrow> CodexCredentialParts \<Rightarrow> CodexCredentialParts" where
  "set_part KEmail v p = p\<lparr>email := v\<rparr>"
| "set_part KUserId v p = p\<lparr>userId := v\<rparr>"
| "set_part KExpiresAt v p = p\<lparr>expiresAt := v\<rparr>"
| "set_part KAccountId v p = p\<lparr>accountId := v\<rparr>"
| "set_part KPlanType v p = p\<lparr>planType := v\<rparr>"
| "set_part KOrganizationId v p = p\<lparr>organizationId := v\<rparr>"

fun mergeCodexParts :: "CodexCredentialParts \<Rightarrow> (part_key \<times> jstr) list \<Rightarrow> CodexCredentialParts" where
  "mergeCodexParts base [] = base"
| "mergeCodexParts base ((key, value) # incoming) =
     mergeCodexParts (if trim value \<noteq> [] then set_part key (trim value) base else base) incoming"

section \<open>Credentials\<close>

text \<open>A path is written as its keys.\<close>

definition paths :: "string list list \<Rightarrow> jstr list list" where
  "paths pss = map (map js) pss"

definition direct_parts :: "Host \<Rightarrow> props \<Rightarrow> props \<Rightarrow> jstr \<Rightarrow> CodexCredentialParts" where
  "direct_parts h source cred rawFallbackToken =
     \<lparr>accessToken = firstString [get (js ''access_token'') cred, get (js ''accessToken'') cred,
        str (firstPathString source (paths [[''tokens'', ''access_token''], [''tokens'', ''accessToken''],
          [''access_token''], [''accessToken''], [''token'']])),
        str rawFallbackToken],
      refreshToken = firstString [get (js ''refresh_token'') cred, get (js ''refreshToken'') cred,
        str (firstPathString source (paths [[''tokens'', ''refresh_token''], [''tokens'', ''refreshToken''],
          [''refresh_token''], [''refreshToken'']]))],
      idToken = firstString [get (js ''id_token'') cred, get (js ''idToken'') cred,
        str (firstPathString source (paths [[''tokens'', ''id_token''], [''tokens'', ''idToken''],
          [''id_token''], [''idToken'']]))],
      accountId = firstString [get (js ''account_id'') cred, get (js ''chatgpt_account_id'') cred,
        str (firstPathString source (paths [[''chatgpt_account_id''], [''chatgptAccountId''], [''account_id''],
          [''accountId''], [''account'', ''id''], [''account'', ''account_id''],
          [''account'', ''chatgpt_account_id'']]))],
      email = firstString [get (js ''email'') cred,
        str (firstPathString source (paths [[''email''], [''user'', ''email'']]))],
      expiresAt =
        (let e = firstString [get (js ''expired'') cred, get (js ''expires_at'') cred] in
         if e \<noteq> [] then e
         else firstPathTime h source (paths [[''tokens'', ''expires_at''], [''tokens'', ''expiresAt''],
           [''expired''], [''expires_at''], [''expiresAt'']])),
      userId = firstString [get (js ''chatgpt_user_id'') cred,
        str (firstPathString source (paths [[''chatgpt_user_id''], [''chatgptUserId''], [''user_id''],
          [''userId''], [''user'', ''id'']]))],
      planType = firstString [get (js ''plan_type'') cred,
        str (firstPathString source (paths [[''plan_type''], [''planType''], [''account'', ''plan_type''],
          [''account'', ''planType'']]))],
      organizationId = firstString [get (js ''organization_id'') cred,
        str (firstPathString source (paths [[''organization_id''], [''organizationId''], [''org_id''],
          [''orgId'']]))],
      acct_name = firstPathString source (paths [[''name''], [''user'', ''name'']]),
      sessionTokenPresent = (firstPathString source (paths [[''session_token''], [''sessionToken'']]) \<noteq> [])\<rparr>"

text \<open>The parts of a token are merged when there is a token.\<close>

definition merge_token :: "jstr \<Rightarrow> CodexCredentialParts \<Rightarrow> CodexCredentialParts result" where
  "merge_token token parts =
     (if token = [] then Inr parts
      else rbind (readCodexJwtParts token) (\<lambda>incoming. Inr (mergeCodexParts parts incoming)))"

definition collectCodexCredentialParts :: "Host \<Rightarrow> props \<Rightarrow> props \<Rightarrow> jstr \<Rightarrow> CodexCredentialParts result" where
  "collectCodexCredentialParts h source credentials fallbackKey =
     (let inlineJson = parseJsonObject fallbackKey;
          effectiveSource = (case inlineJson of Some ps \<Rightarrow> spread (spread [] source) ps | None \<Rightarrow> source);
          effectiveCredentials =
            (case inlineJson of
               Some ps \<Rightarrow> spread (spread [] (asRecord (get (js ''credentials'') ps))) credentials
             | None \<Rightarrow> credentials);
          rawFallbackToken =
            (if inlineJson = None \<and> \<not> starts_with (js ''{'') (trim fallbackKey) then fallbackKey else []);
          parts = direct_parts h effectiveSource effectiveCredentials rawFallbackToken in
      rbind (merge_token (idToken parts) parts) (\<lambda>parts'. merge_token (accessToken parts') parts'))"

definition hasCodexAccountClaim :: "jstr \<Rightarrow> bool result" where
  "hasCodexAccountClaim token =
     rbind (readCodexJwtParts token) (\<lambda>parts.
       Inr (case map_of parts KAccountId of Some a \<Rightarrow> a \<noteq> [] | None \<Rightarrow> False))"

definition looksLikeCodexCredentialSource :: "Host \<Rightarrow> props \<Rightarrow> bool result" where
  "looksLikeCodexCredentialSource h source =
     (let credentials = asRecord (get (js ''credentials'') source);
          platform = toLowerCase h (firstString [get (js ''platform'') source]) in
      if str_includes (js ''codex'') platform then Inr True
      else if firstPathString source (paths [[''accessToken''], [''sessionToken''], [''chatgpt_account_id''],
          [''chatgptAccountId''], [''tokens'', ''access_token''], [''tokens'', ''accessToken''],
          [''account'', ''chatgpt_account_id'']]) \<noteq> [] then Inr True
      else if firstString [get (js ''access_token'') credentials] \<noteq> [] \<and>
          firstString [get (js ''chatgpt_account_id'') credentials, get (js ''account_id'') credentials] \<noteq> []
        then Inr True
      else
        let token = firstString [get (js ''access_token'') credentials,
              str (firstPathString source (paths [[''tokens'', ''access_token''], [''tokens'', ''accessToken''],
                [''access_token''], [''accessToken''], [''token'']]))] in
        if token \<noteq> [] then hasCodexAccountClaim token else Inr False)"

definition normalizePlatform :: "Host \<Rightarrow> json option \<Rightarrow> AccountPlatform" where
  "normalizePlatform h value =
     (let normalized = toLowerCase h (firstString [value]) in
      if str_includes (js ''openrouter'') normalized then Openrouter
      else if str_includes (js ''anthropic'') normalized \<or> str_includes (js ''claude'') normalized then Anthropic
      else if str_includes (js ''gemini'') normalized \<or> str_includes (js ''google'') normalized then Gemini
      else if str_includes (js ''codex'') normalized then Codex
      else if str_includes (js ''openai'') normalized \<or> str_includes (js ''chatgpt'') normalized then Openai
      else Custom)"

definition inferAccountPlatform :: "Host \<Rightarrow> props \<Rightarrow> AccountPlatform result" where
  "inferAccountPlatform h source =
     (let platform = normalizePlatform h (str (firstString [get (js ''platform'') source,
            get (js ''provider'') source, get (js ''service'') source])) in
      if platform = Openai \<or> platform = Custom \<or> platform = Codex then
        rbind (looksLikeCodexCredentialSource h source) (\<lambda>b. Inr (if b then Codex else platform))
      else Inr platform)"

definition platformFromChannelType :: "jnum \<Rightarrow> AccountPlatform" where
  "platformFromChannelType t =
     (case List.find (\<lambda>(p, c). Fin (of_int (pc_channelType c)) = t) ACCOUNT_PLATFORM_CONFIGS of
        Some (p, c) \<Rightarrow> p | None \<Rightarrow> Custom)"

definition positive_integer :: "jnum \<Rightarrow> bool" where
  "positive_integer x \<longleftrightarrow> num_is_integer x \<and> num_lt (Fin 0) x"

definition resolveChannelType :: "props \<Rightarrow> AccountPlatform \<Rightarrow> jnum result" where
  "resolveChannelType source platform =
     rbind (value_to_number (nullish (get (js ''channel_type'') source) (get (js ''channelType'') source)))
       (\<lambda>channelType.
          if positive_integer channelType then Inr channelType
          else rbind (value_to_number (get (js ''type'') source)) (\<lambda>directType.
            if positive_integer directType then Inr directType
            else Inr (Fin (of_int (pc_channelType (platform_config platform))))))"

definition credential_payload :: "CodexCredentialParts \<Rightarrow> props" where
  "credential_payload parts =
     [(js ''type'', JStr (js ''codex'')), (js ''access_token'', JStr (accessToken parts)),
      (js ''account_id'', JStr (accountId parts))] @
     (if refreshToken parts \<noteq> [] then [(js ''refresh_token'', JStr (refreshToken parts))] else []) @
     (if idToken parts \<noteq> [] then [(js ''id_token'', JStr (idToken parts))] else []) @
     (if email parts \<noteq> [] then [(js ''email'', JStr (email parts))] else []) @
     (if expiresAt parts \<noteq> [] then [(js ''expired'', JStr (expiresAt parts))] else [])"

definition complete_credential :: "props \<Rightarrow> bool" where
  "complete_credential ps \<longleftrightarrow>
     firstString [get (js ''access_token'') ps] \<noteq> [] \<and> firstString [get (js ''account_id'') ps] \<noteq> []"

definition buildCodexCredential :: "Host \<Rightarrow> props \<Rightarrow> props \<Rightarrow> jstr \<Rightarrow> jstr result" where
  "buildCodexCredential h source credentials fallbackKey =
     (let existingJson = parseJsonObject fallbackKey in
      if existingJson \<noteq> None \<and> complete_credential (the existingJson)
      then Inr (json_stringify (JObj (spread [(js ''type'', JStr (js ''codex''))] (the existingJson))))
      else
        rbind (collectCodexCredentialParts h source credentials fallbackKey) (\<lambda>parts.
          if accessToken parts = [] \<or> accountId parts = [] then Inr fallbackKey
          else Inr (json_stringify (JObj (credential_payload parts)))))"

text \<open>\<open>expiresAt / 1000 <= Date.now() / 1000 - CODEX_IMPORT_CLOCK_SKEW_SECONDS\<close>\<close>

definition known_expired :: "Host \<Rightarrow> int \<Rightarrow> bool" where
  "known_expired h t =
     (case to_double (of_int (date_now h) / 1000) of
        Fin n \<Rightarrow> num_le (to_double (of_int t / 1000)) (to_double (n - of_int CODEX_IMPORT_CLOCK_SKEW_SECONDS))
      | _ \<Rightarrow> False)"

definition getCodexKeyValidationError :: "Host \<Rightarrow> jstr \<Rightarrow> jstr option" where
  "getCodexKeyValidationError h key =
     (case parseJsonObject key of
        None \<Rightarrow> Some (js ''Codex key must be a valid JSON object'')
      | Some parsed \<Rightarrow>
          if firstString [get (js ''access_token'') parsed] = []
          then Some (js ''Codex key JSON must include access_token'')
          else if firstString [get (js ''account_id'') parsed] = []
          then Some (js ''Codex key JSON must include account_id'')
          else
            let refresh = firstString [get (js ''refresh_token'') parsed];
                expired = firstString [get (js ''expired'') parsed, get (js ''expires_at'') parsed] in
            if refresh = [] \<and> expired \<noteq> [] \<and>
              (case date_parse (date_host h) expired of Some t \<Rightarrow> known_expired h t | None \<Rightarrow> False)
            then Some (js ''Codex access_token is expired and no refresh_token is available'')
            else None)"

definition isCodexCredentialInputReady :: "Host \<Rightarrow> jstr \<Rightarrow> jstr \<Rightarrow> bool result" where
  "isCodexCredentialInputReady h input account =
     rbind (buildCodexCredential h [(js ''account_id'', JStr account)] [] (trim input)) (\<lambda>key.
       Inr (getCodexKeyValidationError h key = None))"

definition extractKey :: "Host \<Rightarrow> props \<Rightarrow> AccountPlatform \<Rightarrow> jstr result" where
  "extractKey h source platform =
     (let credentials = asRecord (get (js ''credentials'') source);
          fallbackKey = firstString [get (js ''key'') source, get (js ''api_key'') source,
            get (js ''apiKey'') source, get (js ''token'') source, get (js ''key'') credentials,
            get (js ''api_key'') credentials, get (js ''apiKey'') credentials,
            get (js ''session_key'') credentials, get (js ''access_token'') credentials,
            get (js ''refresh_token'') credentials,
            str (firstPathString source (paths [[''tokens'', ''access_token''], [''tokens'', ''accessToken''],
              [''accessToken''], [''access_token'']]))] in
      if platform = Codex then buildCodexCredential h source credentials fallbackKey else Inr fallbackKey)"

text \<open>A token as its issuer writes it: header, claims and signature.\<close>

definition jwt_token :: "jstr \<Rightarrow> props \<Rightarrow> jstr \<Rightarrow> jstr option" where
  "jwt_token header claims signature =
     map_option (\<lambda>bytes. join (js ''.'') [header, b64url_encode bytes, signature])
       (utf8_encode (json_stringify (JObj claims)))"

text \<open>The parts of a token that do not hold the claims: no dot, no white space.\<close>

definition jwt_segment :: "jstr \<Rightarrow> bool" where
  "jwt_segment s \<longleftrightarrow> list_all (\<lambda>c. c \<noteq> 46 \<and> \<not> is_ws c) s"

section \<open>Strings\<close>

lemma dec_chars: "c \<in> set (dec i) \<Longrightarrow> is_digit c \<or> c = 45"
  using dec_pos_digits [of i] dec_pos_digits [of "- i"] by (auto simp: dec_def split: if_splits)

lemma pos_to_string_chars: "c \<in> set (pos_to_string x) \<Longrightarrow> is_digit c \<or> c \<in> {43, 45, 46, 101}"
  using dec_chars
  by (auto simp: pos_to_string_def zeros_def Let_def is_digit_def split: prod.splits if_splits
      dest!: in_set_takeD in_set_dropD)

lemma num_text_no_ws: "c \<in> set (num_to_string (Fin x)) \<Longrightarrow> \<not> is_ws c"
  using pos_to_string_chars by (fastforce simp: is_digit_def is_ws_def split: if_splits)

lemma trim_firstString [simp]: "trim (firstString vs) = firstString vs"
proof (induction vs rule: firstString.induct)
  case (3 x vs)
  then show ?case using num_text_no_ws trim_id_all by simp
qed auto

lemma firstString_trimmed [simp]: "trim s = s \<Longrightarrow> firstString [str s] = s"
  by simp

section \<open>Times\<close>

lemma decimal_rx_chars: "rx_test decimal_rx s \<Longrightarrow> c \<in> set s \<Longrightarrow> is_digit c \<or> c = 46"
proof -
  assume t: "rx_test decimal_rx s" and c: "c \<in> set s"
  let ?body = "rx_seq [rx_plus (RCls is_digit),
       ROpt (RGroup 1 (rx_seq [RCls (\<lambda>c. c = 46), rx_plus (RCls is_digit)]))]"
  let ?k = "rx_m REnd (\<lambda>b' a' c'. Some c')"
  have "rx_match decimal_rx s = rx_m ?body ?k [] s []"
    by (simp add: decimal_rx_def rx_match_start)
  with t obtain x where x: "rx_m ?body ?k [] s [] = Some x" by (auto simp: rx_test_def)
  have "rx_over (\<lambda>c. is_digit c \<or> c = 46) ?body" by (simp add: rx_plus_def)
  from rx_m_consumes [OF this x] obtain p a' c' where "s = p @ a'" "\<forall>y\<in>set p. is_digit y \<or> y = 46"
    "?k (rev p @ []) a' c' = Some x" by (elim exE conjE)
  then show ?thesis using c by (auto split: if_splits)
qed

lemma iso_not_decimal: "\<not> rx_test decimal_rx (to_iso_string t)"
  using decimal_rx_chars iso_has_T [of t] by (fastforce simp: is_digit_def)

lemma trim_iso [simp]: "trim (to_iso_string t) = to_iso_string t"
proof (rule trim_id_all, rule ballI)
  fix c assume "c \<in> set (to_iso_string t)"
  from iso_chars [OF this] show "\<not> is_ws c" by (auto simp: is_digit_def is_ws_def)
qed

lemma time_of_iso: "\<bar>t\<bar> \<le> max_time \<Longrightarrow> time_of_text h (to_iso_string t) = Some t"
  by (simp add: time_of_text_def Let_def iso_not_decimal date_parse_iso)

lemma time_of_text_range: "time_of_text h s = Some t \<Longrightarrow> \<bar>t\<bar> \<le> max_time"
  using date_parse_range time_clip_range by (auto simp: time_of_text_def Let_def split: if_splits)

section \<open>The text of a value as bytes\<close>

text \<open>A text of code units without lone surrogates.\<close>

definition wf_text :: "jstr \<Rightarrow> bool" where
  "wf_text s \<longleftrightarrow> code_units s \<and> code_points s \<noteq> None"

lemma code_points_append:
  "code_points a = Some x \<Longrightarrow> code_points b = Some y \<Longrightarrow> code_points (a @ b) = Some (x @ y)"
proof (induction a arbitrary: x rule: code_points.induct)
  case (2 c)
  then show ?case by (cases b) (auto split: if_splits)
next
  case (3 c d s)
  then show ?case by (auto split: if_splits)
qed simp

lemma wf_append: "wf_text a \<Longrightarrow> wf_text b \<Longrightarrow> wf_text (a @ b)"
  using code_points_append by (auto simp: wf_text_def code_units_def)

lemma wf_Nil [simp]: "wf_text []"
  by (simp add: wf_text_def code_units_def)

lemma wf_plain: "\<forall>c\<in>set s. 0 \<le> c \<and> c < 55296 \<Longrightarrow> wf_text s"
proof -
  have "\<forall>c\<in>set s. 0 \<le> c \<and> c < 55296 \<Longrightarrow> code_points s = Some s"
    by (induction s rule: code_points.induct) (auto simp: high_unit_def low_unit_def)
  then show "\<forall>c\<in>set s. 0 \<le> c \<and> c < 55296 \<Longrightarrow> wf_text s"
    by (auto simp: wf_text_def code_units_def)
qed

lemma wf_join: "wf_text sep \<Longrightarrow> \<forall>p\<in>set ps. wf_text p \<Longrightarrow> wf_text (join sep ps)"
  by (induction sep ps rule: join.induct) (auto intro!: wf_append)

lemma wf_unicode_escape: "wf_text (unicode_escape c)"
proof (rule wf_plain)
  have "0 \<le> hex_digit n \<and> hex_digit n < 55296" if "0 \<le> n" "n < 16" for n
    using that by (auto simp: hex_digit_def)
  then show "\<forall>x\<in>set (unicode_escape c). 0 \<le> x \<and> x < 55296"
    by (simp add: unicode_escape_def)
qed

lemma surrogates: "is_high_surrogate c = high_unit c" "is_low_surrogate c = low_unit c"
  by (auto simp: is_high_surrogate_def is_low_surrogate_def high_unit_def low_unit_def)

lemma wf_unit: "0 \<le> c \<Longrightarrow> c < 65536 \<Longrightarrow> \<not> high_unit c \<Longrightarrow> \<not> low_unit c \<Longrightarrow> wf_text [c]"
  by (simp add: wf_text_def code_units_def)

lemma wf_json_esc:
  "0 \<le> c \<Longrightarrow> c < 65536 \<Longrightarrow> \<not> high_unit c \<Longrightarrow> \<not> low_unit c \<Longrightarrow> wf_text (json_esc c)"
  by (auto simp: json_esc_def wf_unicode_escape wf_unit intro!: wf_plain)

lemma wf_pair: "0 \<le> c \<Longrightarrow> c < 65536 \<Longrightarrow> 0 \<le> d \<Longrightarrow> d < 65536 \<Longrightarrow> high_unit c \<Longrightarrow> low_unit d \<Longrightarrow> wf_text [c, d]"
  by (simp add: wf_text_def code_units_def)

lemma wf_json_esc_str: "code_units s \<Longrightarrow> wf_text (json_esc_str s)"
proof (induction s rule: json_esc_str.induct)
  case (2 c)
  then show ?case using wf_unicode_escape [of c] wf_json_esc [of c] by (auto simp: surrogates code_units_def)
next
  case (3 c d s)
  then have r: "0 \<le> c" "c < 65536" "0 \<le> d" "d < 65536" "code_units s" "code_units (d # s)"
    by (auto simp: code_units_def)
  show ?case
  proof (cases "high_unit c \<and> low_unit d")
    case True
    then have "wf_text ([c, d] @ json_esc_str s)" using 3(1) r by (intro wf_append wf_pair) (auto simp: surrogates)
    with True show ?thesis by (simp add: surrogates)
  next
    case False
    then have "wf_text (json_esc_str (d # s))" using 3(2,3) r by (auto simp: surrogates)
    with False r show ?thesis
      by (auto simp: surrogates intro!: wf_append wf_unicode_escape wf_json_esc)
  qed
qed simp

lemma wf_json_quote: "code_units s \<Longrightarrow> wf_text (json_quote s)"
  unfolding json_quote_def by (intro wf_append wf_json_esc_str wf_plain) auto

lemma wf_json_num: "wf_text (json_num_text x)"
proof (rule wf_plain, rule ballI)
  fix c assume "c \<in> set (json_num_text x)"
  then show "0 \<le> c \<and> c < 55296"
    using pos_to_string_chars by (fastforce simp: json_num_text_def is_digit_def split: jnum.splits if_splits)
qed

lemma wf_stringify: "json_ok v \<Longrightarrow> wf_text (json_stringify v)"
proof (induction v rule: json_stringify.induct)
  case (5 vs)
  then have "wf_text ([91] @ join [44] (map json_stringify vs) @ [93])"
    by (intro wf_append wf_join) (auto simp: list_all_iff intro: wf_plain)
  then show ?case by simp
next
  case (6 ps)
  then have "wf_text (json_quote (fst p) @ 58 # json_stringify (snd p))" if "p \<in> set ps" for p
    using that wf_append [OF wf_json_quote wf_append [of "[58]"], of "fst p" "json_stringify (snd p)"]
      wf_plain [of "[58]"]
    by (auto simp: list_all_iff)
  then have "wf_text ([123] @ join [44] (map (\<lambda>p. json_quote (fst p) @ 58 # json_stringify (snd p)) ps) @ [125])"
    by (intro wf_append wf_join) (auto intro: wf_plain)
  with 6 show ?case by (simp add: stringify_object del: json_stringify.simps)
qed (auto simp: wf_json_num wf_json_quote intro!: wf_plain)

lemma value_bytes:
  assumes "json_ok v"
  obtains bytes where "utf8_encode (json_stringify v) = Some bytes" "list_all is_byte bytes"
    "text_decode bytes = json_stringify v"
proof -
  obtain bytes where b: "utf8_encode (json_stringify v) = Some bytes"
    using wf_stringify [OF assms] by (auto simp: wf_text_def utf8_encode_def)
  have "json_stringify v = [] \<or> hd (json_stringify v) \<noteq> 65279"
  proof (cases "json_stringify v")
    case (Cons c t)
    have "json_value (json_stringify v) = Some (v, [])"
      using json_value_stringify [OF assms, of "[]"] by (simp add: ends_number_def)
    then show ?thesis
      using Cons by (auto simp: json_value.simps [of "c # t"] skip_ws_def is_json_ws_def json_keyword_def is_digit_def)
  qed simp
  with text_decode_encode [OF b] wf_stringify [OF assms] b that show thesis
    by (auto simp: wf_text_def code_units_def)
qed

section \<open>Tokens\<close>

lemma b64url_segment: "list_all is_byte bytes \<Longrightarrow> jwt_segment (b64url_encode bytes)"
  using sextets [of bytes]
  by (auto simp: jwt_segment_def b64url_encode_def b64url_char_def list_all_iff is_ws_def)

lemma decode_claims:
  assumes "json_ok (JObj claims)" and "utf8_encode (json_stringify (JObj claims)) = Some bytes"
  shows "list_all is_byte bytes" and "decodeBase64UrlJson (b64url_encode bytes) = Some claims"
proof -
  from value_bytes [OF assms(1)] assms(2)
  have b: "list_all is_byte bytes" "text_decode bytes = json_stringify (JObj claims)"
    by (metis option.inject)+
  then show "list_all is_byte bytes" by simp
  show "decodeBase64UrlJson (b64url_encode bytes) = Some claims"
    unfolding decodeBase64UrlJson_def atob_b64url [OF b(1)] option.case b(2) json_parse_stringify [OF assms(1)]
    by simp
qed

lemma jwt_segments:
  assumes "jwt_segment a" "jwt_segment b" "jwt_segment c"
  shows "split_str (js ''.'') (trim (join (js ''.'') [a, b, c])) = [a, b, c]"
proof -
  have dot: "\<not> is_ws 46" by (simp add: is_ws_def)
  have e: "join (js ''.'') [a, b, c] = a @ 46 # b @ 46 # c" by simp
  have "trim (a @ 46 # b @ 46 # c) = a @ 46 # b @ 46 # c"
    using assms dot unfolding jwt_segment_def list_all_iff by (intro trim_id_all) auto
  moreover have "split_str [46] (join [46] [a, b, c]) = [a, b, c]"
    using assms unfolding jwt_segment_def list_all_iff by (intro split_join_unit) auto
  ultimately show ?thesis unfolding e by simp
qed

lemma jwt_read:
  assumes "jwt_segment header" "jwt_segment signature" "json_ok (JObj claims)"
    and "jwt_token header claims signature = Some token"
  shows "readCodexJwtParts token =
    rbind (value_to_number (get (js ''exp'') claims)) (\<lambda>e. rbind (token_expiry e) (\<lambda>expiry.
      Inr (token_parts claims (asRecord (get (js ''https://api.openai.com/auth'') claims)) expiry)))"
proof -
  from assms(4) obtain bytes where b: "utf8_encode (json_stringify (JObj claims)) = Some bytes"
    and t: "token = join (js ''.'') [header, b64url_encode bytes, signature]"
    by (auto simp: jwt_token_def)
  note d = decode_claims [OF assms(3) b]
  have s: "split_str (js ''.'') (trim token) = [header, b64url_encode bytes, signature]"
    unfolding t by (rule jwt_segments [OF assms(1) b64url_segment [OF d(1)] assms(2)])
  have "length [header, b64url_encode bytes, signature] = 3" "[header, b64url_encode bytes, signature] ! 1 = b64url_encode bytes"
    by simp_all
  then show ?thesis
    unfolding readCodexJwtParts_def s Let_def by (simp only: d(2) option.case simp_thms if_False)
qed

lemma jwt_exists: "json_ok (JObj claims) \<Longrightarrow> \<exists>token. jwt_token header claims signature = Some token"
  using value_bytes [of "JObj claims"] by (auto simp: jwt_token_def)

section \<open>Credentials\<close>

definition parts_trimmed :: "CodexCredentialParts \<Rightarrow> bool" where
  "parts_trimmed p \<longleftrightarrow> list_all (\<lambda>s. trim s = s)
     [accessToken p, refreshToken p, idToken p, accountId p, email p, expiresAt p]"

lemma trim_firstPathTime [simp]: "trim (firstPathTime h source ps) = firstPathTime h source ps"
  by (induction ps) (auto simp: Let_def parseTimeLike_def split: option.split)

lemma direct_parts_trimmed: "parts_trimmed (direct_parts h source cred raw)"
  by (simp add: parts_trimmed_def direct_parts_def Let_def)

lemma set_part_trimmed: "parts_trimmed p \<Longrightarrow> parts_trimmed (set_part k (trim v) p)"
  by (cases k) (simp_all add: parts_trimmed_def)

lemma merge_trimmed: "parts_trimmed p \<Longrightarrow> parts_trimmed (mergeCodexParts p incoming)"
  by (induction p incoming rule: mergeCodexParts.induct) (auto simp: set_part_trimmed)

lemma merge_token_trimmed: "merge_token t p = Inr q \<Longrightarrow> parts_trimmed p \<Longrightarrow> parts_trimmed q"
  using merge_trimmed by (auto simp: merge_token_def rbind_eq_Inr split: if_splits)

lemma collect_trimmed:
  "collectCodexCredentialParts h source credentials fb = Inr parts \<Longrightarrow> parts_trimmed parts"
  using direct_parts_trimmed merge_token_trimmed
  unfolding collectCodexCredentialParts_def Let_def rbind_eq_Inr by blast

definition payload_keys :: "jstr list" where
  "payload_keys = [js ''type'', js ''access_token'', js ''account_id'', js ''refresh_token'', js ''id_token'',
     js ''email'', js ''expired'']"

lemma payload_key_facts: "list_all (\<lambda>k. \<not> is_index_key k \<and> code_units k) payload_keys" "distinct payload_keys"
  by code_simp+

lemma payload_keys_subset: "set (map fst (credential_payload p)) \<subseteq> set payload_keys"
  by (auto simp: credential_payload_def payload_keys_def)

lemma payload_distinct: "distinct (map fst (credential_payload p))"
  by (simp add: credential_payload_def)

lemma payload_own_entries: "own_entries (credential_payload p) = credential_payload p"
  using payload_key_facts(1) payload_keys_subset [of p] by (intro own_entries_named) (auto simp: list_all_iff)

definition parts_units :: "CodexCredentialParts \<Rightarrow> bool" where
  "parts_units p \<longleftrightarrow> list_all code_units
     [accessToken p, refreshToken p, idToken p, accountId p, email p, expiresAt p]"

lemma payload_ok: "parts_units p \<Longrightarrow> json_ok (JObj (credential_payload p))"
proof -
  assume u: "parts_units p"
  have "list_all code_units (map fst (credential_payload p))"
    using payload_key_facts(1) payload_keys_subset [of p] unfolding list_all_iff by blast
  moreover have "code_units (js ''codex'')" by code_simp
  then have "list_all (\<lambda>q. json_ok (snd q)) (credential_payload p)"
    using u by (simp add: credential_payload_def parts_units_def)
  ultimately show ?thesis using payload_distinct payload_own_entries by simp
qed

lemma payload_get:
  "get (js ''access_token'') (credential_payload p) = str (accessToken p)"
  "get (js ''account_id'') (credential_payload p) = str (accountId p)"
  "get (js ''refresh_token'') (credential_payload p) = (if refreshToken p = [] then None else str (refreshToken p))"
  "get (js ''expired'') (credential_payload p) = (if expiresAt p = [] then None else str (expiresAt p))"
  "get (js ''expires_at'') (credential_payload p) = None"
  "get (js ''id_token'') (credential_payload p) = (if idToken p = [] then None else str (idToken p))"
  "get (js ''email'') (credential_payload p) = (if email p = [] then None else str (email p))"
  by (auto simp: credential_payload_def get_def)

lemma payload_parts:
  assumes "parts_trimmed p"
  shows "map (\<lambda>k. firstString [get k (credential_payload p)])
      [js ''access_token'', js ''account_id'', js ''refresh_token'', js ''id_token'', js ''email'', js ''expired''] =
    [accessToken p, accountId p, refreshToken p, idToken p, email p, expiresAt p]"
  using assms unfolding list.map payload_get by (simp add: parts_trimmed_def)

lemma payload_spread: "spread [(js ''type'', JStr (js ''codex''))] (credential_payload p) = credential_payload p"
proof -
  obtain r where r: "credential_payload p = (js ''type'', JStr (js ''codex'')) # r"
    by (simp add: credential_payload_def)
  have "foldl (\<lambda>ps (k, v). prop_set k v ps) [(js ''type'', JStr (js ''codex''))] r = credential_payload p"
    using foldl_prop_set [of "[(js ''type'', JStr (js ''codex''))]" r] payload_distinct [of p] r by simp
  then show ?thesis unfolding spread_def payload_own_entries unfolding r by simp
qed

lemma parse_object_text: "json_ok (JObj ps) \<Longrightarrow> parseJsonObject (json_stringify (JObj ps)) = Some ps"
proof -
  assume ok: "json_ok (JObj ps)"
  then have s: "json_stringify (JObj ps) = 123 # tl (json_stringify (JObj ps))" by (simp add: stringify_object del: json_stringify.simps)
  have "trim (123 # t) = 123 # trim_end t" for t
    by (simp add: trim_def trim_start_def trim_end_Cons is_ws_def)
  with s have "starts_with (js ''{'') (trim (json_stringify (JObj ps)))" by (subst s) simp
  then show ?thesis by (simp add: parseJsonObject_def json_parse_stringify [OF ok] del: json_stringify.simps)
qed

section \<open>Properties\<close>

text \<open>A time read from foreign JSON is empty or a date in the interchange format, and reading the
  result again gives the same text.\<close>

theorem parse_time_stable:
  "(parseTimeLike h v = [] \<or> (\<exists>t. \<bar>t\<bar> \<le> max_time \<and> parseTimeLike h v = to_iso_string t)) \<and>
   parseTimeLike h (Some (JStr (parseTimeLike h v))) = parseTimeLike h v"
proof (cases "parseTimeLike h v = []")
  case True
  then show ?thesis by (simp add: parseTimeLike_def)
next
  case False
  then obtain t where t: "time_of_text h (firstString [v]) = Some t" "parseTimeLike h v = to_iso_string t"
    by (auto simp: parseTimeLike_def Let_def split: if_splits option.splits)
  note r = time_of_text_range [OF t(1)]
  have "to_iso_string t \<noteq> []" using iso_has_T [of t] by auto
  then have "parseTimeLike h (Some (JStr (to_iso_string t))) = to_iso_string t"
    by (simp add: parseTimeLike_def time_of_iso [OF r])
  with t r show ?thesis by auto
qed

text \<open>C30. A token written for an object of claims can be written, and it is read back: the payload
  decodes to the claims, and the parts are the ones extracted from the claims.\<close>

theorem jwt_claims_read:
  assumes "jwt_segment header" "jwt_segment signature" "json_ok (JObj claims)"
  shows "\<exists>token. jwt_token header claims signature = Some token \<and>
    decodeBase64UrlJson (split_str (js ''.'') (trim token) ! 1) = Some claims \<and>
    readCodexJwtParts token =
      rbind (value_to_number (get (js ''exp'') claims)) (\<lambda>e. rbind (token_expiry e) (\<lambda>expiry.
        Inr (token_parts claims (asRecord (get (js ''https://api.openai.com/auth'') claims)) expiry)))"
proof -
  from jwt_exists [OF assms(3)] obtain token where t: "jwt_token header claims signature = Some token" by blast
  then obtain bytes where b: "utf8_encode (json_stringify (JObj claims)) = Some bytes"
    and e: "token = join (js ''.'') [header, b64url_encode bytes, signature]"
    by (auto simp: jwt_token_def)
  note d = decode_claims [OF assms(3) b]
  have "split_str (js ''.'') (trim token) = [header, b64url_encode bytes, signature]"
    unfolding e by (rule jwt_segments [OF assms(1) b64url_segment [OF d(1)] assms(2)])
  then show ?thesis using t d(2) jwt_read [OF assms t] by auto
qed

theorem jwt_claims_read_witness:
  "\<exists>token. jwt_token (js ''h'') [(js ''sub'', JStr (js ''u''))] (js ''s'') = Some token \<and>
     readCodexJwtParts token = Inr [(KEmail, []), (KUserId, js ''u'')]"
proof -
  have "jwt_segment (js ''h'')" "jwt_segment (js ''s'')" "json_ok (JObj [(js ''sub'', JStr (js ''u''))])"
    by code_simp+
  note r = jwt_claims_read [OF this]
  have "rbind (value_to_number (get (js ''exp'') [(js ''sub'', JStr (js ''u''))])) (\<lambda>e. rbind (token_expiry e) (\<lambda>expiry.
      Inr (token_parts [(js ''sub'', JStr (js ''u''))]
        (asRecord (get (js ''https://api.openai.com/auth'') [(js ''sub'', JStr (js ''u''))])) expiry))) =
      Inr [(KEmail, []), (KUserId, js ''u'')]"
    by code_simp
  with r show ?thesis by (elim exE conjE) (intro exI conjI, assumption, simp only:)
qed

text \<open>C19. A credential built from complete parts is a JSON object from which these parts are read back; building it again
  from its own text keeps it, whatever else the source says; and it is accepted, unless it has
  no refresh token and is known to be expired.\<close>

theorem credential_roundtrip:
  assumes parts: "collectCodexCredentialParts h source credentials fb = Inr parts"
    and complete: "accessToken parts \<noteq> []" "accountId parts \<noteq> []"
    and built: "parseJsonObject fb = None \<or> \<not> complete_credential (the (parseJsonObject fb))"
    and units: "parts_units parts"
  shows "\<exists>key. buildCodexCredential h source credentials fb = Inr key \<and>
    parseJsonObject key = Some (credential_payload parts) \<and>
    map (\<lambda>k. firstString [get k (credential_payload parts)])
      [js ''access_token'', js ''account_id'', js ''refresh_token'', js ''id_token'', js ''email'', js ''expired''] =
      [accessToken parts, accountId parts, refreshToken parts, idToken parts, email parts, expiresAt parts] \<and>
    (\<forall>s c. buildCodexCredential h s c key = Inr key) \<and>
    getCodexKeyValidationError h key =
      (if refreshToken parts = [] \<and> expiresAt parts \<noteq> [] \<and>
         (case date_parse (date_host h) (expiresAt parts) of Some t \<Rightarrow> known_expired h t | None \<Rightarrow> False)
       then Some (js ''Codex access_token is expired and no refresh_token is available'') else None)"
proof -
  let ?p = "credential_payload parts"
  let ?key = "json_stringify (JObj ?p)"
  have t: "parts_trimmed parts" by (rule collect_trimmed [OF parts])
  have key: "parseJsonObject ?key = Some ?p" by (rule parse_object_text [OF payload_ok [OF units]])
  have fs: "firstString [str (accessToken parts)] = accessToken parts" "firstString [str (accountId parts)] = accountId parts"
    using t by (simp_all add: parts_trimmed_def)
  have c: "complete_credential ?p" unfolding complete_credential_def payload_get fs using complete by blast
  have build: "buildCodexCredential h source credentials fb = Inr ?key"
    using built parts complete by (auto simp: buildCodexCredential_def Let_def simp del: json_stringify.simps)
  have again: "buildCodexCredential h s d ?key = Inr ?key" for s d
    unfolding buildCodexCredential_def Let_def key option.sel payload_spread using c by simp
  have valid: "getCodexKeyValidationError h ?key =
      (if refreshToken parts = [] \<and> expiresAt parts \<noteq> [] \<and>
         (case date_parse (date_host h) (expiresAt parts) of Some t \<Rightarrow> known_expired h t | None \<Rightarrow> False)
       then Some (js ''Codex access_token is expired and no refresh_token is available'') else None)"
    unfolding getCodexKeyValidationError_def key option.case payload_get fs Let_def
    using t complete by (simp add: parts_trimmed_def)
  show ?thesis by (intro exI [of _ ?key] conjI allI build key again valid payload_parts [OF t])
qed

definition utc_host :: Host where
  "utc_host = \<lparr>toLowerCase = map (\<lambda>c. if 65 \<le> c \<and> c \<le> 90 then c + 32 else c),
     date_host = \<lparr>dh_local_offset = (\<lambda>t. 0), dh_other_format = (\<lambda>s. None)\<rparr>, date_now = 0\<rparr>"

theorem credential_roundtrip_witness:
  "\<exists>key. buildCodexCredential utc_host [] [(js ''access_token'', JStr (js ''at'')), (js ''account_id'', JStr (js ''ac''))]
     (js ''at'') = Inr key \<and> getCodexKeyValidationError utc_host key = None"
proof -
  let ?c = "[(js ''access_token'', JStr (js ''at'')), (js ''account_id'', JStr (js ''ac''))]"
  define parts where "parts = \<lparr>accessToken = js ''at'', refreshToken = [], idToken = [], accountId = js ''ac'',
    email = [], expiresAt = [], userId = [], planType = [], organizationId = [], acct_name = [],
    sessionTokenPresent = False\<rparr>"
  have "collectCodexCredentialParts utc_host [] ?c (js ''at'') = Inr parts" unfolding parts_def by code_simp
  moreover have "parseJsonObject (js ''at'') = None" by code_simp
  moreover have "parts_units parts" unfolding parts_def by code_simp
  moreover have "accessToken parts \<noteq> []" "accountId parts \<noteq> []" "expiresAt parts = []"
    by (simp_all add: parts_def)
  ultimately show ?thesis using credential_roundtrip [of utc_host "[]" ?c "js ''at''" parts] by auto
qed

end
