(* ===== verification/Account_Import.thy ===== *)
theory Account_Import
  imports Account_Codex
begin

text \<open>
  The second half of \<open>features/accounts/lib/account-channel-map.ts\<close>: turning the
  items of an import text into requests to create channels, previews and errors.

  An item is any JSON value.  A result is either an exception, which ends the whole import,
  or the three lists of \<open>AccountImportBuildResult\<close>.

  The properties say which items become requests, that no item is lost or counted twice,
  that a request of the Codex type always carries a usable credential, and how a text is cut
  into items.
\<close>

section \<open>Types\<close>

record ImportedAccountMeta =
  meta_email :: jstr
  meta_accountId :: jstr
  meta_userId :: jstr
  meta_planType :: jstr
  meta_organizationId :: jstr

text \<open>The fields of \<open>Partial<Channel>\<close> that the import sets; \<open>None\<close> is
  \<open>null\<close> or a missing field.\<close>

record ImportedChannel =
  ic_name :: jstr
  ic_type :: jnum
  ic_key :: jstr
  ic_base_url :: "jstr option"
  ic_models :: jstr
  ic_group :: jstr
  ic_priority :: jnum
  ic_status :: jnum
  ic_tag :: "jstr option"
  ic_remark :: jstr
  ic_setting :: "jstr option"
  ic_settings :: "jstr option"
  ic_other :: jstr

datatype add_mode = Single | Batch | Multi_To_Single

datatype multi_key_mode = Random | Polling

record AddChannelRequest =
  req_mode :: add_mode
  req_multi_key_mode :: "multi_key_mode option"
  req_batch_add_set_key_prefix_2_name :: "bool option"
  req_channel :: ImportedChannel

record AccountImportPreview =
  pv_index :: nat
  pv_name :: jstr
  pv_platform :: jstr
  pv_models :: jstr

record AccountImportError =
  err_index :: nat
  err_name :: "jstr option"
  err_message :: jstr

record AccountImportBuildResult =
  br_requests :: "AddChannelRequest list"
  br_previews :: "AccountImportPreview list"
  br_errors :: "AccountImportError list"

section \<open>Channels\<close>

definition non_empty :: "jstr \<Rightarrow> jstr option" where
  "non_empty s = (if s = [] then None else Some s)"

definition collectImportedAccountMeta :: "props \<Rightarrow> props \<Rightarrow> CodexCredentialParts option \<Rightarrow> ImportedAccountMeta" where
  "collectImportedAccountMeta source credentials codexParts =
     (let part = (\<lambda>f. map_option (\<lambda>p. JStr (f p)) codexParts) in
      \<lparr>meta_email = firstString [get (js ''email'') source, get (js ''email'') credentials,
         str (firstPathString source (paths [[''user'', ''email'']])), part email],
       meta_accountId = firstString [get (js ''account_id'') source, get (js ''accountId'') source,
         get (js ''account_id'') credentials, get (js ''accountId'') credentials,
         get (js ''chatgpt_account_id'') credentials, part accountId],
       meta_userId = firstString [get (js ''user_id'') source, get (js ''userId'') source,
         get (js ''user_id'') credentials, get (js ''userId'') credentials,
         str (firstPathString source (paths [[''user'', ''id'']])), part userId],
       meta_planType = firstString [get (js ''plan_type'') source, get (js ''planType'') source,
         get (js ''plan_type'') credentials, get (js ''planType'') credentials, part planType],
       meta_organizationId = firstString [get (js ''organization_id'') source, get (js ''organizationId'') source,
         get (js ''organization_id'') credentials, get (js ''organizationId'') credentials,
         part organizationId]\<rparr>)"

definition labelled :: "jstr \<Rightarrow> jstr \<Rightarrow> jstr list" where
  "labelled label v = (if v = [] then [] else [label @ v])"

definition buildImportRemark :: "props \<Rightarrow> ImportedAccountMeta \<Rightarrow> jstr" where
  "buildImportRemark source meta =
     (let notes = firstString [get (js ''notes'') source, get (js ''remark'') source, get (js ''description'') source];
          accountType = firstString [get (js ''account_type'') source, get (js ''accountType'') source];
          typeValue = firstString [get (js ''type'') source];
          fragments = [notes] @ labelled (js ''Account email: '') (meta_email meta) @
            labelled (js ''Account ID: '') (meta_accountId meta) @
            labelled (js ''Plan: '') (meta_planType meta) @
            labelled (js ''Imported account type: '') accountType @
            (if typeValue \<noteq> [] \<and> \<not> num_is_finite (to_number typeValue)
             then [js ''Imported source type: '' @ typeValue] else []) in
      join [10] (filter (\<lambda>f. f \<noteq> []) fragments))"

definition buildImportedSettings :: "props \<Rightarrow> AccountPlatform \<Rightarrow> ImportedAccountMeta \<Rightarrow> jstr" where
  "buildImportedSettings source platform meta =
     (let settings = normalizeSettingsRecord (get (js ''settings'') source) in
      json_stringify (JObj (foldl (\<lambda>ps (k, v). prop_set k v ps) (spread [] settings)
        [(js ''imported_account_platform'', JStr (platform_name platform)),
         (js ''imported_account_type'', JStr (firstString [get (js ''type'') source, get (js ''account_type'') source])),
         (js ''imported_account_email'', JStr (meta_email meta)),
         (js ''imported_account_id'', JStr (meta_accountId meta)),
         (js ''imported_account_user_id'', JStr (meta_userId meta)),
         (js ''imported_account_plan_type'', JStr (meta_planType meta)),
         (js ''imported_account_organization_id'', JStr (meta_organizationId meta))])))"

definition default_name :: "AccountPlatform \<Rightarrow> jstr" where
  "default_name platform = pc_label (platform_config platform) @ js '' Account''"

definition base_url_for :: "json option list \<Rightarrow> jnum \<Rightarrow> jstr option" where
  "base_url_for given channelType =
     (let u = firstString given in if u \<noteq> [] then Some u else non_empty (getDefaultBaseUrl channelType))"

definition normalizeDirectChannel :: "Host \<Rightarrow> props \<Rightarrow> ImportedChannel result" where
  "normalizeDirectChannel h source =
     rbind (value_to_number (get (js ''type'') source)) (\<lambda>t.
     let platform = (if num_is_integer t then platformFromChannelType t
                     else normalizePlatform h (get (js ''platform'') source)) in
     rbind (resolveChannelType source platform) (\<lambda>channelType.
     rbind (extractKey h source platform) (\<lambda>key.
     let meta = collectImportedAccountMeta source (asRecord (get (js ''credentials'') source)) None in
     rbind (value_to_number (nullish (get (js ''priority'') source) (Some (JNum (Fin 0))))) (\<lambda>priority.
     rbind (value_to_number (nullish (get (js ''status'') source) (Some (JNum (Fin (of_int STATUS_ENABLED)))))) (\<lambda>status.
     Inr \<lparr>ic_name = (let n = firstString [get (js ''name'') source] in if n \<noteq> [] then n else default_name platform),
       ic_type = channelType,
       ic_key = key,
       ic_base_url = base_url_for [get (js ''base_url'') source, get (js ''baseUrl'') source] channelType,
       ic_models = normalizeList (get (js ''models'') source),
       ic_group = normalizeGroup (get (js ''group'') source) (js ''default''),
       ic_priority = priority,
       ic_status = status,
       ic_tag = non_empty (firstString [get (js ''tag'') source]),
       ic_remark = buildImportRemark source meta,
       ic_setting = non_empty (normalizeJsonString (get (js ''setting'') source)),
       ic_settings = non_empty (normalizeJsonString (str (buildImportedSettings source platform meta))),
       ic_other = firstString [get (js ''other'') source]\<rparr>)))))"

definition account_fallback_key :: "props \<Rightarrow> props \<Rightarrow> jstr" where
  "account_fallback_key source credentials =
     firstString [get (js ''key'') source, get (js ''api_key'') source, get (js ''apiKey'') source,
       get (js ''token'') source, get (js ''access_token'') credentials,
       str (firstPathString source (paths [[''tokens'', ''access_token''], [''tokens'', ''accessToken''],
         [''accessToken''], [''access_token'']]))]"

definition account_status :: "Host \<Rightarrow> props \<Rightarrow> int" where
  "account_status h source =
     (let statusText = toLowerCase h (firstString [get (js ''status'') source]) in
      if statusText = js ''inactive'' \<or> statusText = js ''error'' then STATUS_MANUAL_DISABLED else STATUS_ENABLED)"

definition normalizeAccount :: "Host \<Rightarrow> props \<Rightarrow> ImportedChannel result" where
  "normalizeAccount h source =
     rbind (inferAccountPlatform h source) (\<lambda>platform.
     let credentials = asRecord (get (js ''credentials'') source);
         fallbackKey = account_fallback_key source credentials in
     rbind (if platform = Codex
            then rbind (collectCodexCredentialParts h source credentials fallbackKey) (\<lambda>p. Inr (Some p))
            else Inr None) (\<lambda>codexParts.
     rbind (resolveChannelType source platform) (\<lambda>channelType.
     let meta = collectImportedAccountMeta source credentials codexParts;
         extra = asRecord (get (js ''extra'') source);
         models = (let m = normalizeList (get (js ''models'') source) in
           if m \<noteq> [] then m else normalizeList (get (js ''models'') extra));
         part = (\<lambda>f. map_option (\<lambda>p. JStr (f p)) codexParts);
         given_name = firstString [get (js ''name'') source,
           str (firstPathString source (paths [[''user'', ''name'']])), get (js ''email'') credentials,
           str (firstPathString source (paths [[''user'', ''email'']])), part email, part accountId] in
     rbind (extractKey h source platform) (\<lambda>key.
     rbind (value_to_number (nullish (get (js ''priority'') source) (Some (JNum (Fin 0))))) (\<lambda>priority.
     Inr \<lparr>ic_name = (if given_name \<noteq> [] then given_name else default_name platform),
       ic_type = channelType,
       ic_key = key,
       ic_base_url = base_url_for [get (js ''base_url'') source, get (js ''baseUrl'') source,
         get (js ''base_url'') extra] channelType,
       ic_models = models,
       ic_group = normalizeGroup (nullish (nullish (get (js ''group'') source) (get (js ''groups'') source))
         (get (js ''group_names'') source)) (js ''default''),
       ic_priority = priority,
       ic_status = Fin (of_int (account_status h source)),
       ic_tag = non_empty (firstString [get (js ''tag'') source]),
       ic_remark = buildImportRemark source meta,
       ic_setting = None,
       ic_settings = Some (buildImportedSettings source platform meta),
       ic_other = firstString [get (js ''other'') source]\<rparr>)))))"

section \<open>Items\<close>

text \<open>The outcome of an item: a request with its preview, or an error.\<close>

type_synonym item_outcome = "AccountImportError + AddChannelRequest \<times> AccountImportPreview"

definition item_source :: "json \<Rightarrow> props" where
  "item_source item =
     (case item of
        JStr s \<Rightarrow> [(js ''platform'', JStr (js ''codex'')), (js ''accessToken'', JStr (trim s))]
      | _ \<Rightarrow> asRecord (Some item))"

text \<open>The object to read as a channel, if the item has one.\<close>

definition channel_source :: "props \<Rightarrow> props option result" where
  "channel_source source =
     (if isRecord (get (js ''channel'') source) then Inr (Some (asRecord (get (js ''channel'') source)))
      else rbind (value_to_number (get (js ''type'') source)) (\<lambda>t.
        Inr (if num_is_integer t \<and> firstString [get (js ''key'') source] \<noteq> [] then Some source else None)))"

definition import_error :: "nat \<Rightarrow> jstr \<Rightarrow> jstr \<Rightarrow> item_outcome" where
  "import_error index name message =
     Inl \<lparr>err_index = index, err_name = Some name, err_message = message\<rparr>"

definition finish_item :: "Host \<Rightarrow> nat \<Rightarrow> ImportedChannel \<Rightarrow> item_outcome" where
  "finish_item h index channel0 =
     (let channel = (if firstString [str (ic_name channel0)] = []
            then channel0\<lparr>ic_name := js ''Imported Account '' @ dec (int index + 1)\<rparr> else channel0);
          name = firstString [str (ic_name channel)];
          key = firstString [str (ic_key channel)] in
      if key = [] then import_error index name (js ''Missing credential key'')
      else
        case (if ic_type channel = Fin (of_int (pc_channelType (platform_config Codex)))
              then getCodexKeyValidationError h key else None) of
          Some codexError \<Rightarrow> import_error index name codexError
        | None \<Rightarrow>
            Inr (\<lparr>req_mode = Single, req_multi_key_mode = None, req_batch_add_set_key_prefix_2_name = None,
               req_channel = channel\<rparr>,
              \<lparr>pv_index = index, pv_name = name,
               pv_platform = pc_label (platform_config (platformFromChannelType (ic_type channel))),
               pv_models = firstString [str (ic_models channel)]\<rparr>))"

definition normalizeImportItem :: "Host \<Rightarrow> json \<Rightarrow> nat \<Rightarrow> item_outcome result" where
  "normalizeImportItem h item index =
     (let source = item_source item in
      if own_keys source = []
      then Inr (Inl \<lparr>err_index = index, err_name = None, err_message = js ''Item is not an object''\<rparr>)
      else
        rbind (channel_source source) (\<lambda>channelSource.
        rbind (case channelSource of Some ps \<Rightarrow> normalizeDirectChannel h ps | None \<Rightarrow> normalizeAccount h source)
          (\<lambda>channel. Inr (finish_item h index channel))))"

definition array_at :: "string \<Rightarrow> props \<Rightarrow> json list option" where
  "array_at key ps = (case get (js key) ps of Some (JArr vs) \<Rightarrow> Some vs | _ \<Rightarrow> None)"

text \<open>The first of the arrays that is there.\<close>

fun first_some :: "'a option list \<Rightarrow> 'a option" where
  "first_some [] = None"
| "first_some (Some x # xs) = Some x"
| "first_some (None # xs) = first_some xs"

definition extractImportItems :: "json \<Rightarrow> json list" where
  "extractImportItems payload =
     (case payload of
        JArr vs \<Rightarrow> vs
      | JStr s \<Rightarrow> if trim s \<noteq> [] then [JStr (trim s)] else []
      | JObj ps \<Rightarrow>
          (let inner = asRecord (get (js ''data'') ps) in
           case first_some [array_at ''accounts'' ps, array_at ''channels'' ps, array_at ''items'' ps,
               array_at ''data'' ps, array_at ''accounts'' inner, array_at ''channels'' inner, array_at ''items'' inner] of
             Some vs \<Rightarrow> vs
           | None \<Rightarrow> [payload])
      | _ \<Rightarrow> [])"

section \<open>Texts\<close>

fun looksLikeJsonContent :: "jstr \<Rightarrow> bool" where
  "looksLikeJsonContent [] = False"
| "looksLikeJsonContent (char # content) =
     (if is_ws char then looksLikeJsonContent content else char = 123 \<or> char = 91)"

fun append_value :: "json \<Rightarrow> json list" where
  "append_value (JArr vs) = concat (map append_value vs)"
| "append_value v = [v]"

definition flattenImportValues :: "json list \<Rightarrow> json list" where
  "flattenImportValues values = concat (map append_value values)"

definition line_values :: "jstr \<Rightarrow> json list result" where
  "line_values line =
     (let trimmed = trim line in
      if trimmed = [] then Inr []
      else if looksLikeJsonContent trimmed then
        (case json_parse trimmed of None \<Rightarrow> Inl SyntaxError | Some v \<Rightarrow> Inr (flattenImportValues [v]))
      else Inr [JStr trimmed])"

text \<open>The loop over the content: \<open>line\<close> is the text since \<open>lineStart\<close>,
  reversed.\<close>

fun import_lines :: "jstr \<Rightarrow> jstr \<Rightarrow> json list result" where
  "import_lines line [] = line_values (rev line)"
| "import_lines line (c # content) =
     (if c \<noteq> 10 then import_lines (c # line) content
      else rbind (line_values (rev line)) (\<lambda>vs. rbind (import_lines [] content) (\<lambda>ws. Inr (vs @ ws))))"

definition parseAccountImportLines :: "jstr \<Rightarrow> json list result" where
  "parseAccountImportLines content = import_lines [] content"

definition parseAccountImportText :: "jstr \<Rightarrow> json result" where
  "parseAccountImportText content =
     (if list_all is_ws content then Inr (JArr [])
      else if looksLikeJsonContent content then
        (case json_parse content of
           Some v \<Rightarrow> Inr v
         | None \<Rightarrow>
             if str_includes [10] content then rbind (parseAccountImportLines content) (\<lambda>vs. Inr (JArr vs))
             else Inl SyntaxError)
      else rbind (parseAccountImportLines content) (\<lambda>vs. Inr (JArr vs)))"

section \<open>Requests\<close>

text \<open>\<open>items.forEach\<close> from an index on; an exception ends the loop and the call.\<close>

fun import_outcomes :: "Host \<Rightarrow> nat \<Rightarrow> json list \<Rightarrow> item_outcome list result" where
  "import_outcomes h index [] = Inr []"
| "import_outcomes h index (item # items) =
     rbind (normalizeImportItem h item index) (\<lambda>r.
     rbind (import_outcomes h (Suc index) items) (\<lambda>rs. Inr (r # rs)))"

fun outcome_request :: "item_outcome \<Rightarrow> AddChannelRequest list" where
  "outcome_request (Inr (request, preview)) = [request]"
| "outcome_request (Inl e) = []"

fun outcome_preview :: "item_outcome \<Rightarrow> AccountImportPreview list" where
  "outcome_preview (Inr (request, preview)) = [preview]"
| "outcome_preview (Inl e) = []"

fun outcome_error :: "item_outcome \<Rightarrow> AccountImportError list" where
  "outcome_error (Inr p) = []"
| "outcome_error (Inl e) = [e]"

definition buildImportRequests :: "Host \<Rightarrow> json \<Rightarrow> AccountImportBuildResult result" where
  "buildImportRequests h payload =
     rbind (import_outcomes h 0 (extractImportItems payload)) (\<lambda>outcomes.
       Inr \<lparr>br_requests = concat (map outcome_request outcomes),
         br_previews = concat (map outcome_preview outcomes),
         br_errors = concat (map outcome_error outcomes)\<rparr>)"

definition buildImportRequestsFromText :: "Host \<Rightarrow> jstr \<Rightarrow> AccountImportBuildResult result" where
  "buildImportRequestsFromText h content =
     rbind (parseAccountImportText content) (buildImportRequests h)"

section \<open>Outcomes\<close>

fun outcome_index :: "item_outcome \<Rightarrow> nat" where
  "outcome_index (Inl e) = err_index e"
| "outcome_index (Inr (request, preview)) = pv_index preview"

lemma finish_item_index: "outcome_index (finish_item h i c) = i"
  by (simp add: finish_item_def import_error_def Let_def split: option.split)

lemma normalize_item_index: "normalizeImportItem h item i = Inr r \<Longrightarrow> outcome_index r = i"
  by (auto simp: normalizeImportItem_def Let_def rbind_eq_Inr finish_item_index split: if_splits)

lemma outcomes_indices:
  "import_outcomes h i items = Inr rs \<Longrightarrow> map outcome_index rs = [i..<i + length items]"
proof (induction h i items arbitrary: rs rule: import_outcomes.induct)
  case (2 h i item items)
  then obtain r rs' where r: "normalizeImportItem h item i = Inr r"
    "import_outcomes h (Suc i) items = Inr rs'" "rs = r # rs'"
    by (auto simp: rbind_eq_Inr)
  with 2(1) normalize_item_index [OF r(1)] have "map outcome_index rs = i # [Suc i..<Suc i + length items]" by simp
  also have "\<dots> = [i..<i + length (item # items)]" by (simp add: upt_conv_Cons del: upt_Suc)
  finally show ?case .
qed simp

definition is_request :: "item_outcome \<Rightarrow> bool" where
  "is_request r \<longleftrightarrow> (case r of Inr _ \<Rightarrow> True | Inl _ \<Rightarrow> False)"

lemma preview_indices: "map pv_index (concat (map outcome_preview rs)) = map outcome_index (filter is_request rs)"
  by (induction rs) (auto simp: is_request_def split: sum.splits)

lemma error_indices: "map err_index (concat (map outcome_error rs)) = map outcome_index (filter (\<lambda>r. \<not> is_request r) rs)"
  by (induction rs) (auto simp: is_request_def split: sum.splits)

lemma request_count: "length (concat (map outcome_request rs)) = length (concat (map outcome_preview rs))"
proof (induction rs)
  case (Cons r rs)
  then show ?case by (cases r rule: outcome_request.cases) auto
qed simp

lemma sorted_filter_upt: "map f xs = [i..<j] \<Longrightarrow> sorted_wrt (<) (map f (filter P xs))"
proof -
  assume "map f xs = [i..<j]"
  then have "sorted_wrt (<) (map f xs)" by simp
  then show ?thesis by (simp add: sorted_wrt_map sorted_wrt_filter)
qed

lemma request_of_outcome:
  "q \<in> set (concat (map outcome_request rs)) \<Longrightarrow> \<exists>p. Inr (q, p) \<in> set rs"
proof -
  assume "q \<in> set (concat (map outcome_request rs))"
  then obtain r where "r \<in> set rs" "q \<in> set (outcome_request r)" by auto
  then show ?thesis by (cases r rule: outcome_request.cases) auto
qed

lemma outcome_of_item:
  "import_outcomes h i items = Inr rs \<Longrightarrow> r \<in> set rs \<Longrightarrow> \<exists>item j. normalizeImportItem h item j = Inr r"
  by (induction h i items arbitrary: rs rule: import_outcomes.induct) (fastforce simp: rbind_eq_Inr)+

section \<open>Requests\<close>

definition usable_request :: "Host \<Rightarrow> AddChannelRequest \<Rightarrow> bool" where
  "usable_request h q \<longleftrightarrow>
     req_mode q = Single \<and> trim (ic_name (req_channel q)) \<noteq> [] \<and> trim (ic_key (req_channel q)) \<noteq> [] \<and>
     (if ic_type (req_channel q) = Fin 57
      then getCodexKeyValidationError h (trim (ic_key (req_channel q))) = None else True)"

lemma firstString_str: "firstString [str s] = trim s"
  by simp

lemma finish_item_usable: "finish_item h i c = Inr (q, p) \<Longrightarrow> usable_request h q"
proof -
  assume f: "finish_item h i c = Inr (q, p)"
  define c' where "c' = (if trim (ic_name c) = [] then c\<lparr>ic_name := js ''Imported Account '' @ dec (int i + 1)\<rparr> else c)"
  have "trim (js ''Imported Account '' @ s) \<noteq> []" for s
  proof -
    have "\<not> is_ws 73" by (simp add: is_ws_def)
    then have "\<exists>x\<in>set (js ''Imported Account '' @ s). \<not> is_ws x" by simp
    then show ?thesis by (simp only: trim_eq_Nil_iff not_not bex_simps) blast
  qed
  then have n: "trim (ic_name c') \<noteq> []" by (auto simp: c'_def)
  from f have "req_mode q = Single" "req_channel q = c'" "trim (ic_key c') \<noteq> []"
    "ic_type c' = Fin 57 \<Longrightarrow> getCodexKeyValidationError h (trim (ic_key c')) = None"
    unfolding finish_item_def firstString_str c'_def [symmetric] Let_def import_error_def
    by (auto split: if_splits option.splits)
  then show ?thesis using n by (simp add: usable_request_def)
qed

lemma normalize_item_usable: "normalizeImportItem h item i = Inr (Inr (q, p)) \<Longrightarrow> usable_request h q"
  using finish_item_usable by (auto simp: normalizeImportItem_def Let_def rbind_eq_Inr split: if_splits)

section \<open>Lines\<close>

lemma no_newline_escape: "10 \<notin> set (unicode_escape c)"
proof -
  have "hex_digit n \<noteq> 10" if "0 \<le> n" for n using that by (auto simp: hex_digit_def)
  then show ?thesis unfolding unicode_escape_def by (auto simp: eq_commute [of 10])
qed

lemma no_newline_esc_str: "10 \<notin> set (json_esc_str s)"
proof (induction s rule: json_esc_str.induct)
  case (2 c)
  then show ?case using no_newline_escape [of c] by (auto simp: json_esc_def)
next
  case (3 c d s)
  then show ?case
    using no_newline_escape [of c]
    by (auto simp: json_esc_def is_high_surrogate_def is_low_surrogate_def)
qed simp

lemma no_newline_join: "10 \<notin> set sep \<Longrightarrow> \<forall>p\<in>set ps. 10 \<notin> set p \<Longrightarrow> 10 \<notin> set (join sep ps)"
  using set_join_subset [of sep ps] by blast

lemma no_newline: "json_ok v \<Longrightarrow> 10 \<notin> set (json_stringify v)"
proof (induction v rule: json_stringify.induct)
  case (3 x)
  then show ?case
    using pos_to_string_chars by (fastforce simp: json_num_text_def is_digit_def split: jnum.splits if_splits)
next
  case (4 s)
  then show ?case using no_newline_esc_str [of s] by (simp add: json_quote_def)
next
  case (5 vs)
  then show ?case using no_newline_join [of "[44]" "map json_stringify vs"] by (auto simp: list_all_iff)
next
  case (6 ps)
  then have "\<forall>t\<in>set (map (\<lambda>p. json_quote (fst p) @ 58 # json_stringify (snd p)) ps). 10 \<notin> set t"
    using no_newline_esc_str by (auto simp: list_all_iff json_quote_def)
  from no_newline_join [OF _ this, of "[44]"] 6 show ?case
    by (simp add: stringify_object del: json_stringify.simps)
qed auto

lemma import_lines_piece:
  "10 \<notin> set p \<Longrightarrow> import_lines l (p @ s) = import_lines (rev p @ l) s"
  by (induction p arbitrary: l) auto

lemma object_line:
  assumes "json_ok (JObj ps)"
  shows "line_values (json_stringify (JObj ps)) = Inr [JObj ps]"
proof -
  let ?t = "json_stringify (JObj ps)"
  have e: "?t = 123 # join [44] (map (\<lambda>p. json_quote (fst p) @ 58 # json_stringify (snd p)) ps) @ [125]"
    using assms by (simp add: stringify_object del: json_stringify.simps)
  have b: "\<not> is_ws 123" "\<not> is_ws 125" by (simp_all add: is_ws_def)
  have "?t \<noteq> []" "hd ?t = 123" "last ?t = 125" unfolding e by simp_all
  with b have "trim ?t = ?t" by (intro trim_id) auto
  moreover have "looksLikeJsonContent ?t" unfolding e using b by simp
  ultimately show ?thesis
    using \<open>?t \<noteq> []\<close> by (simp add: line_values_def json_parse_stringify [OF assms] flattenImportValues_def
        del: json_stringify.simps)
qed

lemma object_lines:
  "vs \<noteq> [] \<Longrightarrow> list_all (\<lambda>v. isRecord (Some v) \<and> json_ok v) vs \<Longrightarrow>
     import_lines [] (join [10] (map json_stringify vs)) = Inr vs"
proof (induction vs rule: list_nonempty_induct)
  case (single v)
  then obtain ps where v: "v = JObj ps" "json_ok (JObj ps)" by (cases v) auto
  then show ?case
    using import_lines_piece [of "json_stringify v" "[]" "[]"] no_newline [of v] object_line [of ps]
    by (simp del: json_stringify.simps)
next
  case (cons v vs)
  then obtain ps where v: "v = JObj ps" "json_ok (JObj ps)" by (cases v) auto
  have "join [10] (map json_stringify (v # vs)) = json_stringify v @ 10 # join [10] (map json_stringify vs)"
    using cons(1) by (simp add: join_Cons)
  then show ?case
    using import_lines_piece [of "json_stringify v" "[]"] no_newline [of v] object_line [of ps] cons v
    by (simp del: json_stringify.simps)
qed

section \<open>Properties\<close>

text \<open>C20. An import loses no item and counts none twice: the previews, one for each request, and the
  errors carry increasing indices, and together the indices are those of the items.\<close>

theorem import_partition:
  assumes "buildImportRequests h payload = Inr r"
  shows "length (br_requests r) = length (br_previews r) \<and>
    sorted_wrt (<) (map pv_index (br_previews r)) \<and> sorted_wrt (<) (map err_index (br_errors r)) \<and>
    set (map pv_index (br_previews r)) \<inter> set (map err_index (br_errors r)) = {} \<and>
    set (map pv_index (br_previews r)) \<union> set (map err_index (br_errors r)) = {..<length (extractImportItems payload)}"
proof -
  from assms obtain rs where rs: "import_outcomes h 0 (extractImportItems payload) = Inr rs"
    and r: "br_requests r = concat (map outcome_request rs)" "br_previews r = concat (map outcome_preview rs)"
      "br_errors r = concat (map outcome_error rs)"
    by (auto simp: buildImportRequests_def rbind_eq_Inr)
  note m = outcomes_indices [OF rs]
  then have all: "set (map outcome_index rs) = {..<length (extractImportItems payload)}" by auto
  have "distinct (map outcome_index rs)" unfolding m by simp
  then have "set (map outcome_index (filter is_request rs)) \<inter> set (map outcome_index (filter (\<lambda>r. \<not> is_request r) rs)) = {}"
    by (auto simp: distinct_map inj_on_def)
  moreover have "set (map outcome_index (filter is_request rs)) \<union> set (map outcome_index (filter (\<lambda>r. \<not> is_request r) rs)) =
      set (map outcome_index rs)"
    by auto
  ultimately show ?thesis
    unfolding r preview_indices error_indices all
    using request_count [of rs] sorted_filter_upt [OF m] by simp
qed

theorem import_partition_witness:
  "\<exists>r. buildImportRequests utc_host (JArr [JNull, JObj [(js ''key'', JStr (js ''k''))]]) = Inr r \<and>
     map pv_index (br_previews r) = [1] \<and> map err_index (br_errors r) = [0] \<and>
     set (map pv_index (br_previews r)) \<union> set (map err_index (br_errors r)) = {..<2}"
proof -
  let ?p = "JArr [JNull, JObj [(js ''key'', JStr (js ''k''))]]"
  have l: "length (extractImportItems ?p) = 2" by code_simp
  have s: "map_sum id (\<lambda>r. (map pv_index (br_previews r), map err_index (br_errors r)))
      (buildImportRequests utc_host ?p) = Inr ([1], [0])"
    by code_simp
  then obtain r where r: "buildImportRequests utc_host ?p = Inr r"
    by (cases "buildImportRequests utc_host ?p") auto
  with s have p: "map pv_index (br_previews r) = [1]" "map err_index (br_errors r) = [0]" by simp_all
  have "set (map pv_index (br_previews r)) \<union> set (map err_index (br_errors r)) = {..<2}"
    using import_partition [OF r] unfolding l by (elim conjE)
  with r p show ?thesis by (intro exI [of _ r] conjI)
qed

lemma build_usable:
  assumes "buildImportRequests h payload = Inr r" and "q \<in> set (br_requests r)"
  shows "usable_request h q"
proof -
  from assms obtain rs where rs: "import_outcomes h 0 (extractImportItems payload) = Inr rs"
    and "q \<in> set (concat (map outcome_request rs))"
    by (auto simp: buildImportRequests_def rbind_eq_Inr)
  then obtain p where "Inr (q, p) \<in> set rs" using request_of_outcome by blast
  from outcome_of_item [OF rs this] show ?thesis using normalize_item_usable by blast
qed



text \<open>A text of one JSON object per line is the list of these objects: the text as a whole is no JSON
  value, and the lines give the objects in their order.\<close>

theorem import_text_lines:
  assumes "2 \<le> length vs" and "list_all (\<lambda>v. isRecord (Some v) \<and> json_ok v) vs"
  shows "parseAccountImportText (join [10] (map json_stringify vs)) = Inr (JArr vs) \<and>
    buildImportRequestsFromText h (join [10] (map json_stringify vs)) = buildImportRequests h (JArr vs)"
proof -
  from assms obtain v ws where vs: "vs = v # ws" "ws \<noteq> []" by (cases vs; cases "tl vs") auto
  with assms(2) obtain ps where v: "v = JObj ps" "json_ok v" by (cases v) auto
  let ?rest = "10 # join [10] (map json_stringify ws)"
  have t: "join [10] (map json_stringify vs) = json_stringify v @ ?rest"
    using vs by (simp add: join_Cons)
  have start: "json_stringify v = 123 # tl (json_stringify v)"
    using v by (simp add: stringify_object del: json_stringify.simps)
  have b: "\<not> is_ws 123" by (simp add: is_ws_def)
  have "\<not> list_all is_ws (json_stringify v @ ?rest)" "looksLikeJsonContent (json_stringify v @ ?rest)"
    using b by (subst start, simp)+
  moreover have "json_parse (json_stringify v @ ?rest) = None"
  proof (rule json_parse_two [OF v(2)])
    show "ends_number ?rest" by (simp add: ends_number_def is_digit_def)
    obtain u us where "ws = u # us" using vs(2) by (cases ws) auto
    with vs assms(2) obtain c x where "json_stringify u = c # x" "value_start c"
      using stringify_start [of u] by auto
    then show "skip_ws ?rest \<noteq> []"
      using \<open>ws = u # us\<close> by (cases us) (simp_all add: skip_ws_def is_json_ws_def value_start_def)
  qed
  moreover have "parseAccountImportLines (json_stringify v @ ?rest) = Inr vs"
    unfolding parseAccountImportLines_def t [symmetric] using vs assms(2) by (intro object_lines) auto
  ultimately have "parseAccountImportText (join [10] (map json_stringify vs)) = Inr (JArr vs)"
    unfolding t by (auto simp: parseAccountImportText_def)
  then show ?thesis by (simp add: buildImportRequestsFromText_def)
qed

theorem import_text_lines_witness:
  "parseAccountImportText (js ''{}'' @ [10] @ js ''{}'') = Inr (JArr [JObj [], JObj []])"
proof -
  have "list_all (\<lambda>v. isRecord (Some v) \<and> json_ok v) [JObj [], JObj []]" by code_simp
  moreover have "join [10] (map json_stringify [JObj [], JObj []]) = js ''{}'' @ [10] @ js ''{}''" by code_simp
  ultimately show ?thesis using import_text_lines [of "[JObj [], JObj []]" utc_host] by (metis le_refl length_Cons list.size(3) numeral_2_eq_2)
qed

section \<open>Exceptions\<close>

lemma outcomes_abort:
  "import_outcomes h i xs = Inr rs \<Longrightarrow> normalizeImportItem h x (i + length xs) = Inl e \<Longrightarrow>
     import_outcomes h i (xs @ x # ys) = Inl e"
  by (induction h i xs arbitrary: rs rule: import_outcomes.induct) (auto simp: rbind_eq_Inr)

text \<open>A date more than 100 million days after the epoch.\<close>

definition late_exp :: "int \<Rightarrow> bool" where
  "late_exp e \<longleftrightarrow> 8640000000000 < e \<and> e < 9007199254740"

lemma late_expiry: "late_exp e \<Longrightarrow> token_expiry (Fin (of_int e)) = Inl RangeError"
proof -
  assume e: "late_exp e"
  have "times_1000 (Fin (of_int e)) = Fin (of_int (e * 1000))"
    using to_double_int [of "e * 1000"] e by (simp add: late_exp_def)
  moreover have "\<not> \<bar>of_int (e * 1000)\<bar> \<le> (of_int max_time :: rat)"
    using e by (simp only: of_int_abs [symmetric] of_int_le_iff) (simp add: late_exp_def max_time_def)
  ultimately show ?thesis using e by (simp add: token_expiry_def num_lt_def late_exp_def)
qed

text \<open>The source object of a token given as a plain line.\<close>

abbreviation token_source :: "jstr \<Rightarrow> props" where
  "token_source token \<equiv> [(js ''platform'', JStr (js ''codex'')), (js ''accessToken'', JStr token)]"

lemma token_platform:
  assumes "toLowerCase h (js ''codex'') = js ''codex''"
  shows "inferAccountPlatform h (token_source token) = Inr Codex"
proof -
  have inc: "\<not> str_includes (js ''openrouter'') (js ''codex'')" "\<not> str_includes (js ''anthropic'') (js ''codex'')"
    "\<not> str_includes (js ''claude'') (js ''codex'')" "\<not> str_includes (js ''gemini'') (js ''codex'')"
    "\<not> str_includes (js ''google'') (js ''codex'')" "str_includes (js ''codex'') (js ''codex'')"
    by code_simp+
  have t: "trim (js ''codex'') = js ''codex''" by code_simp
  have fs: "firstString [get (js ''platform'') (token_source token), get (js ''provider'') (token_source token),
      get (js ''service'') (token_source token)] = js ''codex''"
    "firstString [get (js ''platform'') (token_source token)] = js ''codex''" "firstString [str (js ''codex'')] = js ''codex''"
    using t by (simp_all add: get_def)
  have "normalizePlatform h (str (js ''codex'')) = Codex"
    unfolding normalizePlatform_def fs assms Let_def using inc by (simp only: simp_thms if_True if_False)
  moreover have "looksLikeCodexCredentialSource h (token_source token) = Inr True"
    unfolding looksLikeCodexCredentialSource_def fs assms Let_def using inc(6) by (simp only: if_True)
  ultimately show ?thesis unfolding inferAccountPlatform_def fs Let_def by simp
qed

lemma token_parts_error:
  assumes "trim token = token" "token \<noteq> []" "\<not> starts_with (js ''{'') token" "readCodexJwtParts token = Inl e"
  shows "collectCodexCredentialParts h (token_source token) [] token = Inl e"
proof -
  have "parseJsonObject token = None" using assms by (simp add: parseJsonObject_def)
  moreover have "accessToken (direct_parts h (token_source token) [] token) = token"
    "idToken (direct_parts h (token_source token) [] token) = []"
    using assms(1,2) by (simp_all add: direct_parts_def paths_def valueAtPath_def get_def)
  ultimately show ?thesis
    using assms by (simp add: collectCodexCredentialParts_def merge_token_def Let_def)
qed

lemma token_item_error:
  assumes "toLowerCase h (js ''codex'') = js ''codex''"
    and t: "trim token = token" "token \<noteq> []" "\<not> starts_with (js ''{'') token" "readCodexJwtParts token = Inl e"
  shows "normalizeImportItem h (JStr token) i = Inl e"
proof -
  have src: "item_source (JStr token) = token_source token" using t(1) by (simp add: item_source_def)
  have "own_keys (token_source token) \<noteq> []"
    by (simp only: own_keys_Nil) simp
  moreover have "channel_source (token_source token) = Inr None"
    by (simp add: channel_source_def get_def num_is_integer_def)
  moreover have "account_fallback_key (token_source token) [] = token"
    using t(1,2) by (simp add: account_fallback_key_def paths_def valueAtPath_def get_def)
  moreover have "get (js ''credentials'') (token_source token) = None" by (simp add: get_def)
  ultimately show ?thesis
    using token_platform [OF assms(1), of token] token_parts_error [OF t, of h]
    unfolding normalizeImportItem_def src Let_def normalizeAccount_def
    by (simp only: if_False rbind_simps option.case asRecord.simps if_True simp_thms)
qed

lemma jwt_text:
  assumes "jwt_segment header" "jwt_segment signature" "json_ok (JObj claims)" "header \<noteq> []" "hd header \<noteq> 123"
    and "jwt_token header claims signature = Some token"
  shows "trim token = token" and "token \<noteq> []" and "\<not> starts_with (js ''{'') token"
proof -
  from assms(6) obtain bytes where b: "utf8_encode (json_stringify (JObj claims)) = Some bytes"
    and t: "token = header @ 46 # b64url_encode bytes @ 46 # signature"
    by (auto simp: jwt_token_def)
  have "jwt_segment (b64url_encode bytes)" by (rule b64url_segment [OF decode_claims(1) [OF assms(3) b]])
  moreover have "\<not> is_ws 46" by (simp add: is_ws_def)
  ultimately show "trim token = token"
    unfolding t using assms(1,2) unfolding jwt_segment_def list_all_iff by (intro trim_id_all) auto
  show "token \<noteq> []" "\<not> starts_with (js ''{'') token"
    unfolding t using assms(4,5) by (cases header; simp)+
qed

text \<open>C31. A token whose expiry is more than 100 million days after the epoch ends the whole import with a
  \<open>RangeError\<close>: whatever the items before and after it are, no request, no preview and
  no error is returned.\<close>

theorem late_token_aborts_import:
  assumes "jwt_segment header" "jwt_segment signature" "json_ok (JObj claims)" "header \<noteq> []" "hd header \<noteq> 123"
    and "jwt_token header claims signature = Some token"
    and "value_to_number (get (js ''exp'') claims) = Inr (Fin (of_int e))" and "late_exp e"
    and "toLowerCase h (js ''codex'') = js ''codex''"
    and "import_outcomes h 0 before = Inr outcomes"
  shows "buildImportRequests h (JArr (before @ JStr token # later)) = Inl RangeError"
proof -
  have "readCodexJwtParts token = Inl RangeError"
    unfolding jwt_read [OF assms(1-3,6)] assms(7) by (simp add: late_expiry [OF assms(8)])
  from token_item_error [OF assms(9) jwt_text [OF assms(1-6)] this]
  have "normalizeImportItem h (JStr token) (0 + length before) = Inl RangeError" .
  from outcomes_abort [OF assms(10) this] show ?thesis
    by (simp add: buildImportRequests_def extractImportItems_def)
qed

theorem late_token_aborts_import_witness:
  "\<exists>token. jwt_token (js ''h'') [(js ''exp'', JStr (js ''9000000000000''))] (js ''s'') = Some token \<and>
     buildImportRequests utc_host (JArr ([JObj [(js ''key'', JStr (js ''k''))]] @ JStr token # [])) = Inl RangeError"
proof -
  let ?c = "[(js ''exp'', JStr (js ''9000000000000''))]"
  have n: "json_ok (JObj ?c)" by code_simp
  from jwt_exists [OF n] obtain token where t: "jwt_token (js ''h'') ?c (js ''s'') = Some token" by blast
  have "map_sum id length (import_outcomes utc_host 0 [JObj [(js ''key'', JStr (js ''k''))]]) = Inr 1" by code_simp
  then obtain rs where rs: "import_outcomes utc_host 0 [JObj [(js ''key'', JStr (js ''k''))]] = Inr rs"
    by (cases "import_outcomes utc_host 0 [JObj [(js ''key'', JStr (js ''k''))]]") auto
  have "jwt_segment (js ''h'')" "jwt_segment (js ''s'')" "js ''h'' \<noteq> []" "hd (js ''h'') \<noteq> 123"
    "toLowerCase utc_host (js ''codex'') = js ''codex''" "late_exp 9000000000000"
    by code_simp+
  moreover have "value_to_number (get (js ''exp'') ?c) = Inr (Fin (of_int 9000000000000))"
  proof -
    have "unsigned_decimal (js ''9000000000000'') = Some (of_int 9000000000000)" by code_simp
    then show ?thesis
      using to_double_int [of 9000000000000]
      by (simp add: get_def to_number_def Let_def unsigned_number_def trim_id is_ws_def)
  qed
  ultimately have "buildImportRequests utc_host (JArr ([JObj [(js ''key'', JStr (js ''k''))]] @ JStr token # [])) = Inl RangeError"
    by (intro late_token_aborts_import [OF _ _ n _ _ t _ _ _ rs])
  with t show ?thesis by blast
qed

text \<open>An item with a key whose type is \<open>null\<close> is taken for a channel of the type Custom: the
  platform it names is not read.\<close>

theorem null_type_drops_platform:
  assumes "trim k \<noteq> []"
  shows "\<exists>q p. normalizeImportItem h
      (JObj [(js ''platform'', JStr platform), (js ''type'', JNull), (js ''key'', JStr k)]) i = Inr (Inr (q, p)) \<and>
    ic_type (req_channel q) = Fin 8 \<and> ic_key (req_channel q) = trim k \<and> pv_platform p = js ''Custom''"
proof -
  let ?s = "[(js ''platform'', JStr platform), (js ''type'', JNull), (js ''key'', JStr k)]"
  have keys: "own_keys ?s \<noteq> []" by (simp only: own_keys_Nil) simp
  have g: "get (js ''type'') ?s = Some JNull" "get (js ''key'') ?s = str k" "get (js ''channel'') ?s = None"
    "get (js ''channel_type'') ?s = None" "get (js ''channelType'') ?s = None" "get (js ''priority'') ?s = None"
    "get (js ''status'') ?s = None"
    by (simp_all add: get_def)
  have src: "channel_source ?s = Inr (Some ?s)"
    using assms by (simp add: channel_source_def g num_is_integer_def del: js_Cons)
  have pf: "platformFromChannelType (Fin 0) = Custom" "platformFromChannelType (Fin 8) = Custom"
    by (simp_all add: platformFromChannelType_def ACCOUNT_PLATFORM_CONFIGS_def)
  have rt: "resolveChannelType ?s Custom = Inr (Fin 8)"
    by (simp add: resolveChannelType_def g nullish_def positive_integer_def num_is_integer_def num_lt_def del: js_Cons)
  have key: "extractKey h ?s Custom = Inr (trim k)"
    using assms by (simp add: extractKey_def g Let_def del: js_Cons)
  obtain c where c: "normalizeDirectChannel h ?s = Inr c" "ic_type c = Fin 8" "ic_key c = trim k"
    unfolding normalizeDirectChannel_def g
    by (simp add: num_is_integer_def pf rt key nullish_def Let_def del: js_Cons)
  have "normalizeImportItem h (JObj ?s) i = Inr (finish_item h i c)"
    unfolding normalizeImportItem_def item_source_def Let_def using keys src c(1) by (simp del: js_Cons)
  moreover have "\<exists>q p. finish_item h i c = Inr (q, p) \<and> ic_type (req_channel q) = Fin 8 \<and>
      ic_key (req_channel q) = trim k \<and> pv_platform p = js ''Custom''"
    using assms c(2,3) by (simp add: finish_item_def Let_def pf del: js_Cons)
  ultimately show ?thesis by auto
qed

theorem null_type_drops_platform_witness:
  "\<exists>q p. normalizeImportItem utc_host
      (JObj [(js ''platform'', JStr (js ''anthropic'')), (js ''type'', JNull), (js ''key'', JStr (js ''k''))]) 0 =
        Inr (Inr (q, p)) \<and> ic_type (req_channel q) = Fin 8"
proof -
  have "trim (js ''k'') \<noteq> []" by code_simp
  from null_type_drops_platform [OF this] show ?thesis by blast
qed

end
