(* ===== verification/Account_Items.thy ===== *)
theory Account_Items
  imports Account_Import Js_Integer
begin

text \<open>
  The items of the account import panel: the types and the functions outside the component of
  \<open>features/accounts/components/account-import-dialog.tsx\<close>.

  An item and a patch of an item are objects of one type, \<open>Partial<ImportedChannelCheck>\<close>: a
  property is absent, present with the value \<open>undefined\<close>, or present with a value.  The
  translation function of the page and the texts of the errors that the engine raises are given
  by the parameter \<open>Ui\<close>.

  The properties: the monitor state that the panel saves is read back when the channels are loaded
  again; the label of an account created by authorization is the one shown after a reload; the
  percentages shown are between 0 and 100; and the label of a channel status differs from the
  constants of the channels page.
\<close>

section \<open>Objects with optional properties\<close>

datatype 'a slot = Absent | Undef | Val 'a

fun val :: "'a slot \<Rightarrow> 'a option" where
  "val (Val x) = Some x"
| "val _ = None"

text \<open>The property of \<open>{ ...a, ...b }\<close>, and the operator \<open>??\<close>.\<close>

fun over :: "'a slot \<Rightarrow> 'a slot \<Rightarrow> 'a slot" where
  "over a Absent = a"
| "over a b = b"

definition coalesce :: "'a slot \<Rightarrow> 'a slot \<Rightarrow> 'a option" where
  "coalesce a b = (case val a of Some x \<Rightarrow> Some x | None \<Rightarrow> val b)"

fun of_opt :: "'a option \<Rightarrow> 'a slot" where
  "of_opt (Some x) = Val x"
| "of_opt None = Undef"

datatype CheckStatus = Pending | Running | Success | Error | Skipped

text \<open>A text, or what a table of texts inherits under a name.\<close>

datatype label = Text jstr | Inherited jstr

record ImportedChannelCheck =
  ck_key :: "jstr slot"
  ck_index :: "nat slot"
  ck_name :: "jstr slot"
  ck_platform :: "label slot"
  ck_channelId :: "jnum slot"
  ck_type :: "jnum slot"
  ck_models :: "jstr slot"
  ck_group :: "jstr slot"
  ck_status :: "jnum slot"
  ck_balance :: "jnum slot"
  ck_balanceCurrency :: "jstr slot"
  ck_balanceUpdatedTime :: "jnum slot"
  ck_usedQuota :: "jnum slot"
  ck_remark :: "jstr slot"
  ck_createdTime :: "jnum slot"
  ck_settings :: "jstr slot"
  ck_monitorEnabled :: "bool slot"
  ck_lastCheckedAt :: "jnum slot"
  ck_quotaStatus :: "CheckStatus slot"
  ck_quotaMessage :: "jstr slot"
  ck_channelStatus :: "CheckStatus slot"
  ck_channelMessage :: "jstr slot"
  ck_responseTime :: "jnum slot"
  ck_resetCount :: "jnum slot"
  ck_lastResetAt :: "jnum slot"
  ck_providerResetCredits :: "jnum slot"

definition empty_patch :: ImportedChannelCheck where
  "empty_patch = \<lparr>ck_key = Absent, ck_index = Absent, ck_name = Absent, ck_platform = Absent,
     ck_channelId = Absent, ck_type = Absent, ck_models = Absent, ck_group = Absent, ck_status = Absent,
     ck_balance = Absent, ck_balanceCurrency = Absent, ck_balanceUpdatedTime = Absent,
     ck_usedQuota = Absent, ck_remark = Absent, ck_createdTime = Absent, ck_settings = Absent,
     ck_monitorEnabled = Absent, ck_lastCheckedAt = Absent, ck_quotaStatus = Absent,
     ck_quotaMessage = Absent, ck_channelStatus = Absent, ck_channelMessage = Absent,
     ck_responseTime = Absent, ck_resetCount = Absent, ck_lastResetAt = Absent,
     ck_providerResetCredits = Absent\<rparr>"

definition spread_item :: "ImportedChannelCheck \<Rightarrow> ImportedChannelCheck \<Rightarrow> ImportedChannelCheck" where
  "spread_item a b =
     \<lparr>ck_key = over (ck_key a) (ck_key b), ck_index = over (ck_index a) (ck_index b),
      ck_name = over (ck_name a) (ck_name b), ck_platform = over (ck_platform a) (ck_platform b),
      ck_channelId = over (ck_channelId a) (ck_channelId b), ck_type = over (ck_type a) (ck_type b),
      ck_models = over (ck_models a) (ck_models b), ck_group = over (ck_group a) (ck_group b),
      ck_status = over (ck_status a) (ck_status b), ck_balance = over (ck_balance a) (ck_balance b),
      ck_balanceCurrency = over (ck_balanceCurrency a) (ck_balanceCurrency b),
      ck_balanceUpdatedTime = over (ck_balanceUpdatedTime a) (ck_balanceUpdatedTime b),
      ck_usedQuota = over (ck_usedQuota a) (ck_usedQuota b), ck_remark = over (ck_remark a) (ck_remark b),
      ck_createdTime = over (ck_createdTime a) (ck_createdTime b),
      ck_settings = over (ck_settings a) (ck_settings b),
      ck_monitorEnabled = over (ck_monitorEnabled a) (ck_monitorEnabled b),
      ck_lastCheckedAt = over (ck_lastCheckedAt a) (ck_lastCheckedAt b),
      ck_quotaStatus = over (ck_quotaStatus a) (ck_quotaStatus b),
      ck_quotaMessage = over (ck_quotaMessage a) (ck_quotaMessage b),
      ck_channelStatus = over (ck_channelStatus a) (ck_channelStatus b),
      ck_channelMessage = over (ck_channelMessage a) (ck_channelMessage b),
      ck_responseTime = over (ck_responseTime a) (ck_responseTime b),
      ck_resetCount = over (ck_resetCount a) (ck_resetCount b),
      ck_lastResetAt = over (ck_lastResetAt a) (ck_lastResetAt b),
      ck_providerResetCredits = over (ck_providerResetCredits a) (ck_providerResetCredits b)\<rparr>"

text \<open>The channel as the server sends it; the optional texts are \<open>None\<close> when they are missing or
  \<open>null\<close>.\<close>

record ChannelInfo =
  ci_is_multi_key :: bool
  ci_multi_key_size :: jnum
  ci_multi_key_status_list :: "(jstr \<times> jnum) list option"
  ci_multi_key_disabled_reason :: "(jstr \<times> jstr) list option"
  ci_multi_key_disabled_time :: "(jstr \<times> jnum) list option"
  ci_multi_key_polling_index :: jnum
  ci_multi_key_mode :: multi_key_mode

record Channel =
  ch_id :: jnum
  ch_type :: jnum
  ch_key :: jstr
  ch_openai_organization :: "jstr option"
  ch_test_model :: "jstr option"
  ch_status :: jnum
  ch_name :: jstr
  ch_weight :: "jnum option"
  ch_created_time :: jnum
  ch_test_time :: jnum
  ch_response_time :: jnum
  ch_base_url :: "jstr option"
  ch_other :: jstr
  ch_balance :: jnum
  ch_balance_updated_time :: jnum
  ch_models :: jstr
  ch_group :: jstr
  ch_used_quota :: jnum
  ch_model_mapping :: "jstr option"
  ch_status_code_mapping :: "jstr option"
  ch_priority :: "jnum option"
  ch_auto_ban :: "jnum option"
  ch_other_info :: jstr
  ch_tag :: "jstr option"
  ch_setting :: "jstr option"
  ch_param_override :: "jstr option"
  ch_header_override :: "jstr option"
  ch_remark :: jstr
  ch_max_input_tokens :: jnum
  ch_channel_info :: ChannelInfo
  ch_settings :: jstr

record Ui =
  translate :: "jstr \<Rightarrow> props \<Rightarrow> jstr"
  engine_message :: "js_error \<Rightarrow> jstr"

section \<open>Constants and account texts\<close>

definition CODEX_CHANNEL_TYPE :: jnum where "CODEX_CHANNEL_TYPE = Fin 57"

definition OPENAI_OAUTH_CHANNEL_BASE_URL :: jstr where
  "OPENAI_OAUTH_CHANNEL_BASE_URL = js ''https://chatgpt.com''"

definition OPENAI_OAUTH_DEFAULT_GROUP :: jstr where
  "OPENAI_OAUTH_DEFAULT_GROUP = js ''default''"

definition MONITOR_INTERVAL_MS :: jnum where "MONITOR_INTERVAL_MS = Fin (5 * 60 * 1000)"

definition IMPORTED_CHANNEL_PAGE_SIZE :: nat where "IMPORTED_CHANNEL_PAGE_SIZE = 100"

definition ACCOUNT_IMPORT_CONCURRENCY :: int where "ACCOUNT_IMPORT_CONCURRENCY = 8"

definition IMPORT_EDITOR_PREVIEW_LIMIT :: nat where "IMPORT_EDITOR_PREVIEW_LIMIT = 200000"

fun check_status_name :: "CheckStatus \<Rightarrow> jstr" where
  "check_status_name Pending = js ''pending''"
| "check_status_name Running = js ''running''"
| "check_status_name Success = js ''success''"
| "check_status_name Error = js ''error''"
| "check_status_name Skipped = js ''skipped''"

fun CHECK_STATUS_LABELS :: "CheckStatus \<Rightarrow> jstr" where
  "CHECK_STATUS_LABELS Pending = js ''Pending''"
| "CHECK_STATUS_LABELS Running = js ''Running''"
| "CHECK_STATUS_LABELS Success = js ''Success''"
| "CHECK_STATUS_LABELS Error = js ''Error''"
| "CHECK_STATUS_LABELS Skipped = js ''Skipped''"

text \<open>\<open>String(s || '').trim()\<close> of an optional string.\<close>

definition trimmed :: "jstr option \<Rightarrow> jstr" where
  "trimmed s = trim (case s of Some x \<Rightarrow> x | None \<Rightarrow> [])"

definition buildOpenAIOAuthChannelName :: "jstr option \<Rightarrow> jstr option \<Rightarrow> jstr" where
  "buildOpenAIOAuthChannelName mail account =
     (let normalizedEmail = trimmed mail; normalizedAccountId = trimmed account in
      if normalizedEmail \<noteq> [] then normalizedEmail
      else if normalizedAccountId \<noteq> [] then js ''OpenAI OAuth '' @ take 8 normalizedAccountId
      else js ''OpenAI OAuth Account'')"

definition buildOpenAIOAuthSettings :: "jstr option \<Rightarrow> jstr option \<Rightarrow> jstr" where
  "buildOpenAIOAuthSettings mail account =
     json_stringify (JObj (defined_props
       [(js ''imported_account_platform'', str (js ''openai'')),
        (js ''imported_account_type'', str (js ''oauth'')),
        (js ''imported_account_source'', str (js ''openai_oauth_authorization_page'')),
        (js ''imported_account_email'', map_option JStr (non_empty (trimmed mail))),
        (js ''imported_account_id'', map_option JStr (non_empty (trimmed account)))]))"

definition buildOpenAIOAuthRemark :: "jstr option \<Rightarrow> jstr option \<Rightarrow> jstr" where
  "buildOpenAIOAuthRemark mail account =
     join [10] (filter (\<lambda>s. s \<noteq> [])
       [js ''Imported via OpenAI OAuth authorization'',
        (case mail of Some e \<Rightarrow> if e \<noteq> [] then js ''Account email: '' @ e else [] | None \<Rightarrow> []),
        (case account of Some a \<Rightarrow> if a \<noteq> [] then js ''Account ID: '' @ a else [] | None \<Rightarrow> [])])"

section \<open>Reading values\<close>

definition firstImportModel :: "jstr option \<Rightarrow> jstr option" where
  "firstImportModel models =
     (let value = (case models of Some m \<Rightarrow> m | None \<Rightarrow> []) in
      List.find (\<lambda>s. s \<noteq> []) (map trim (split_str (js '','') value)))"

definition parseRecord :: "json option \<Rightarrow> props" where
  "parseRecord value =
     (case value of
        Some (JObj ps) \<Rightarrow> ps
      | Some (JStr s) \<Rightarrow>
          if trim s = [] then []
          else (case json_parse s of Some (JObj ps) \<Rightarrow> ps | _ \<Rightarrow> [])
      | _ \<Rightarrow> [])"

definition check_status_of :: "json option \<Rightarrow> CheckStatus option" where
  "check_status_of value =
     (case value of
        Some (JStr s) \<Rightarrow> List.find (\<lambda>c. check_status_name c = s) [Pending, Running, Success, Error, Skipped]
      | _ \<Rightarrow> None)"

definition isCheckStatus :: "json option \<Rightarrow> bool" where
  "isCheckStatus value \<longleftrightarrow> check_status_of value \<noteq> None"

text \<open>\<open>String(v || dflt)\<close> of an unknown value.\<close>

definition string_or :: "json option \<Rightarrow> jstr \<Rightarrow> jstr result" where
  "string_or v dflt =
     (case v of
        Some x \<Rightarrow>
          if json_truthy x then (case value_to_string x of Some s \<Rightarrow> Inr s | None \<Rightarrow> Inl TypeError) else Inr dflt
      | None \<Rightarrow> Inr dflt)"

text \<open>The names that every object inherits.\<close>

definition OBJECT_KEYS :: "jstr list" where
  "OBJECT_KEYS = map js [''constructor'', ''__defineGetter__'', ''__defineSetter__'', ''hasOwnProperty'',
     ''__lookupGetter__'', ''__lookupSetter__'', ''isPrototypeOf'', ''propertyIsEnumerable'', ''toString'',
     ''valueOf'', ''__proto__'', ''toLocaleString'']"

definition PLATFORM_LABELS :: "(jstr \<times> jstr) list" where
  "PLATFORM_LABELS =
     [(js ''openai'', js ''OpenAI''), (js ''anthropic'', js ''Anthropic''), (js ''gemini'', js ''Gemini''),
      (js ''codex'', js ''Codex''), (js ''openrouter'', js ''OpenRouter''), (js ''custom'', js ''Custom'')]"

definition type_label :: "jnum option \<Rightarrow> jstr" where
  "type_label type =
     (if type = Some (Fin 57) then js ''Codex''
      else if type = Some (Fin 1) then js ''OpenAI''
      else if type = Some (Fin 14) then js ''Anthropic''
      else if type = Some (Fin 24) then js ''Gemini''
      else if type = Some (Fin 20) then js ''OpenRouter''
      else case type of
        Some x \<Rightarrow> if num_truthy x then num_to_string x else js ''Custom''
      | None \<Rightarrow> js ''Custom'')"

definition getPlatformLabel :: "jnum option \<Rightarrow> props \<Rightarrow> label result" where
  "getPlatformLabel type settings =
     rbind (string_or (get (js ''imported_account_platform'') settings) []) (\<lambda>p.
     rbind (string_or (get (js ''imported_account_type'') settings) []) (\<lambda>t.
     rbind (string_or (get (js ''imported_account_source'') settings) []) (\<lambda>s.
       let platform = trim p; accountType = trim t; accountSource = trim s in
       if platform \<noteq> [] then
         if platform = js ''openai'' \<and>
            (accountType = js ''oauth'' \<or> accountSource = js ''openai_oauth_authorization_page'')
         then Inr (Text (js ''OpenAI OAuth''))
         else
           (case map_of PLATFORM_LABELS platform of
              Some l \<Rightarrow> Inr (Text l)
            | None \<Rightarrow> Inr (if List.member OBJECT_KEYS platform then Inherited platform else Text platform))
       else Inr (Text (type_label type)))))"

section \<open>Numbers as texts\<close>

text \<open>\<open>x.toFixed(f)\<close>: the nearest decimal with \<open>f\<close> digits after the point, the larger of two.\<close>

definition fixed_digits :: "nat \<Rightarrow> rat \<Rightarrow> jstr" where
  "fixed_digits f x =
     (let ds = dec (floor (x * 10 ^ f + 1 / 2));
          padded = replicate (Suc f - length ds) 48 @ ds;
          k = length padded - f in
      if f = 0 then ds else take k padded @ js ''.'' @ drop k padded)"

definition to_fixed :: "nat \<Rightarrow> jnum \<Rightarrow> jstr" where
  "to_fixed f x =
     (case x of
        Fin v \<Rightarrow>
          if 10 ^ 21 \<le> \<bar>v\<bar> then num_to_string x
          else if v < 0 then js ''-'' @ fixed_digits f (- v) else fixed_digits f v
      | _ \<Rightarrow> num_to_string x)"

definition formatPercent :: "json option \<Rightarrow> jstr result" where
  "formatPercent value =
     rbind (value_to_number value) (\<lambda>percent.
       Inr (case percent of
          Fin v \<Rightarrow> to_fixed 0 (Fin (max 0 (min 100 v))) @ js ''%''
        | _ \<Rightarrow> []))"

text \<open>The separator is a middle dot between blanks.\<close>

definition formatCodexUsageSummary :: "props option \<Rightarrow> jstr result" where
  "formatCodexUsageSummary data =
     (case data of
        None \<Rightarrow> Inr []
      | Some ps \<Rightarrow>
          (let rateLimit = asRecord (get (js ''rate_limit'') ps);
               primary = asRecord (get (js ''primary_window'') rateLimit);
               secondary = asRecord (get (js ''secondary_window'') rateLimit);
               plan = (case get (js ''plan_type'') ps of
                   Some v \<Rightarrow> if json_truthy v then Some v else get (js ''plan_type'') rateLimit
                 | None \<Rightarrow> get (js ''plan_type'') rateLimit) in
           rbind (string_or plan []) (\<lambda>planType.
           rbind (formatPercent (get (js ''used_percent'') primary)) (\<lambda>primaryPercent.
           rbind (formatPercent (get (js ''used_percent'') secondary)) (\<lambda>secondaryPercent.
             Inr (join [32, 183, 32] (filter (\<lambda>s. s \<noteq> [])
               [trim planType,
                if primaryPercent \<noteq> [] then js ''5h '' @ primaryPercent else [],
                if secondaryPercent \<noteq> [] then js ''7d '' @ secondaryPercent else []])))))))"

definition formatBalanceDisplay :: "json option \<Rightarrow> jstr option \<Rightarrow> jstr result" where
  "formatBalanceDisplay value currency =
     rbind (value_to_number value) (\<lambda>number.
       Inr (if num_is_finite number
         then to_fixed 4 number @ js '' '' @
           (case currency of Some c \<Rightarrow> if c \<noteq> [] then c else js ''USD'' | None \<Rightarrow> js ''USD'')
         else js ''-''))"

section \<open>Monitor state\<close>

definition createMonitorSnapshot ::
  "ImportedChannelCheck \<Rightarrow> ImportedChannelCheck \<Rightarrow> (jstr \<times> json option) list" where
  "createMonitorSnapshot item patch =
     (let num = (\<lambda>f. map_option JNum (coalesce (f patch) (f item)));
          txt = (\<lambda>f. map_option JStr (coalesce (f patch) (f item)));
          stat = (\<lambda>f. map_option (\<lambda>c. JStr (check_status_name c)) (coalesce (f patch) (f item)));
          num0 = (\<lambda>f. Some (JNum (case coalesce (f patch) (f item) of Some x \<Rightarrow> x | None \<Rightarrow> Fin 0))) in
      [(js ''monitor_enabled'',
          Some (JBool (case coalesce (ck_monitorEnabled patch) (ck_monitorEnabled item) of
            Some b \<Rightarrow> b | None \<Rightarrow> False))),
       (js ''monitor_interval_ms'', Some (JNum MONITOR_INTERVAL_MS)),
       (js ''checked_at'', num ck_lastCheckedAt),
       (js ''quota_status'', stat ck_quotaStatus),
       (js ''quota_message'', txt ck_quotaMessage),
       (js ''channel_status'', stat ck_channelStatus),
       (js ''channel_message'', txt ck_channelMessage),
       (js ''response_time'', num ck_responseTime),
       (js ''balance'', num ck_balance),
       (js ''balance_currency'', txt ck_balanceCurrency),
       (js ''balance_updated_time'', num ck_balanceUpdatedTime),
       (js ''reset_count'', num0 ck_resetCount),
       (js ''last_reset_at'', num0 ck_lastResetAt),
       (js ''provider_reset_credits'', num ck_providerResetCredits)])"

definition getImportedChannelKey :: "nat \<Rightarrow> jnum option \<Rightarrow> jstr" where
  "getImportedChannelKey index channelId =
     (case channelId of
        Some i \<Rightarrow> if num_truthy i then js ''channel-'' @ num_to_string i else js ''import-'' @ dec (int index)
      | None \<Rightarrow> js ''import-'' @ dec (int index))"

abbreviation num_pos :: "jnum \<Rightarrow> bool" where
  "num_pos x \<equiv> num_lt (Fin 0) x"

definition num_div1000 :: "jnum \<Rightarrow> jnum" where
  "num_div1000 x = (case x of Fin v \<Rightarrow> to_double (v / 1000) | y \<Rightarrow> y)"

definition finite_slot :: "(jnum \<Rightarrow> bool) \<Rightarrow> jnum \<Rightarrow> jnum slot" where
  "finite_slot ok x = (if num_is_finite x \<and> ok x then Val x else Undef)"

text \<open>A message of the monitor, unless it is missing or empty.\<close>

definition monitor_text :: "jstr \<Rightarrow> props \<Rightarrow> jstr slot \<Rightarrow> jstr slot" where
  "monitor_text key monitor other =
     (case get key monitor of Some (JStr s) \<Rightarrow> if s \<noteq> [] then Val s else other | _ \<Rightarrow> other)"

definition monitor_status :: "jstr \<Rightarrow> props \<Rightarrow> jnum \<Rightarrow> CheckStatus" where
  "monitor_status key monitor time =
     (case check_status_of (get key monitor) of
        Some c \<Rightarrow> c
      | None \<Rightarrow> if num_pos time then Success else Pending)"

definition channelToImportedItem :: "Ui \<Rightarrow> Channel \<Rightarrow> nat \<Rightarrow> ImportedChannelCheck result" where
  "channelToImportedItem ui channel index =
     (let settings = parseRecord (str (ch_settings channel));
          monitor = parseRecord (get (js ''imported_account_monitor'') settings);
          own = (\<lambda>x. Some (JNum x));
          from = (\<lambda>key other. value_to_number (nullish (get (js key) monitor) other)) in
      rbind (from ''response_time''
          (if num_pos (ch_response_time channel) then own (num_div1000 (ch_response_time channel)) else None))
        (\<lambda>responseTime.
      rbind (from ''balance_updated_time'' (own (ch_balance_updated_time channel))) (\<lambda>balanceUpdatedTime.
      rbind (value_to_number (get (js ''checked_at'') monitor)) (\<lambda>lastCheckedAt.
      rbind (value_to_number (get (js ''reset_count'') monitor)) (\<lambda>resetCount.
      rbind (value_to_number (get (js ''last_reset_at'') monitor)) (\<lambda>lastResetAt.
      rbind (value_to_number (get (js ''provider_reset_credits'') monitor)) (\<lambda>providerResetCredits.
      rbind (getPlatformLabel (Some (ch_type channel)) settings) (\<lambda>platform.
      rbind (from ''balance'' (own (ch_balance channel))) (\<lambda>balance.
      rbind (string_or (get (js ''balance_currency'') monitor) (js ''USD'')) (\<lambda>balanceCurrency.
        Inr \<lparr>ck_key = Val (getImportedChannelKey index (Some (ch_id channel))),
          ck_index = Val index, ck_name = Val (ch_name channel), ck_platform = Val platform,
          ck_channelId = Val (ch_id channel), ck_type = Val (ch_type channel),
          ck_models = Val (ch_models channel), ck_group = Val (ch_group channel),
          ck_status = Val (ch_status channel), ck_balance = Val balance,
          ck_balanceCurrency = Val balanceCurrency,
          ck_balanceUpdatedTime = finite_slot (\<lambda>_. True) balanceUpdatedTime,
          ck_usedQuota = Val (ch_used_quota channel), ck_remark = Val (ch_remark channel),
          ck_createdTime = Val (ch_created_time channel), ck_settings = Val (ch_settings channel),
          ck_monitorEnabled = Val (get (js ''monitor_enabled'') monitor = Some (JBool True)),
          ck_lastCheckedAt = finite_slot (\<lambda>_. True) lastCheckedAt,
          ck_quotaStatus = Val (monitor_status (js ''quota_status'') monitor (ch_balance_updated_time channel)),
          ck_quotaMessage = monitor_text (js ''quota_message'') monitor
            (if ch_type channel \<noteq> CODEX_CHANNEL_TYPE \<and> num_pos (ch_balance_updated_time channel)
             then Val (translate ui (js ''Balance: {{balance}} {{currency}}'')
               [(js ''balance'', JStr (to_fixed 4 (if num_truthy (ch_balance channel) then ch_balance channel else Fin 0))),
                (js ''currency'', JStr (js ''USD''))])
             else Undef),
          ck_channelStatus = Val (monitor_status (js ''channel_status'') monitor (ch_test_time channel)),
          ck_channelMessage = monitor_text (js ''channel_message'') monitor
            (if num_pos (ch_test_time channel) \<and> num_is_finite responseTime
             then Val (translate ui (js ''Response time: {{time}}s'') [(js ''time'', JStr (to_fixed 2 responseTime))])
             else Undef),
          ck_responseTime = finite_slot (\<lambda>_. True) responseTime,
          ck_resetCount = Val (if num_is_finite resetCount \<and> num_le (Fin 0) resetCount then resetCount else Fin 0),
          ck_lastResetAt = finite_slot num_pos lastResetAt,
          ck_providerResetCredits = finite_slot (num_le (Fin 0)) providerResetCredits\<rparr>))))))))))"

section \<open>Display\<close>

datatype StatusVariant = VSuccess | VDanger | VInfo | VWarning | VNeutral

fun getCheckVariant :: "CheckStatus \<Rightarrow> StatusVariant" where
  "getCheckVariant Success = VSuccess"
| "getCheckVariant Error = VDanger"
| "getCheckVariant Running = VInfo"
| "getCheckVariant Skipped = VWarning"
| "getCheckVariant Pending = VNeutral"

definition getChannelStatusMeta :: "jnum option \<Rightarrow> jstr \<times> StatusVariant" where
  "getChannelStatusMeta status =
     (if status = Some (Fin 1) then (js ''Enabled'', VSuccess)
      else if status = Some (Fin 2) then (js ''Auto disabled'', VWarning)
      else if status = Some (Fin 0) then (js ''Disabled'', VDanger)
      else (js ''Unknown'', VNeutral))"

section \<open>Saved monitor state\<close>

lemma snapshot_keys: "distinct (map fst (createMonitorSnapshot item patch))"
proof -
  have "map fst (createMonitorSnapshot item patch) =
      map js [''monitor_enabled'', ''monitor_interval_ms'', ''checked_at'', ''quota_status'', ''quota_message'',
        ''channel_status'', ''channel_message'', ''response_time'', ''balance'', ''balance_currency'',
        ''balance_updated_time'', ''reset_count'', ''last_reset_at'', ''provider_reset_credits'']"
    by (simp add: createMonitorSnapshot_def Let_def del: js_Cons)
  moreover have "distinct \<dots>" by code_simp
  ultimately show ?thesis by simp
qed

lemma val_over: "val (over a b) = (if b = Absent then val a else val b)"
  by (cases b) simp_all

text \<open>A patch sets a property to \<open>undefined\<close> only where the item has no value.\<close>

definition keeps :: "'a slot \<Rightarrow> 'a slot \<Rightarrow> bool" where
  "keeps a b \<longleftrightarrow> (b = Undef \<longrightarrow> val a = None)"

lemma coalesce_over: "keeps a b \<Longrightarrow> coalesce b a = val (over a b)"
  by (cases b) (simp_all add: coalesce_def keeps_def)

lemma snapshot_get:
  "get (js ''monitor_enabled'') (defined_props (createMonitorSnapshot item patch)) =
     Some (JBool (case coalesce (ck_monitorEnabled patch) (ck_monitorEnabled item) of Some b \<Rightarrow> b | None \<Rightarrow> False))"
  "get (js ''checked_at'') (defined_props (createMonitorSnapshot item patch)) =
     map_option JNum (coalesce (ck_lastCheckedAt patch) (ck_lastCheckedAt item))"
  "get (js ''quota_status'') (defined_props (createMonitorSnapshot item patch)) =
     map_option (\<lambda>c. JStr (check_status_name c)) (coalesce (ck_quotaStatus patch) (ck_quotaStatus item))"
  "get (js ''quota_message'') (defined_props (createMonitorSnapshot item patch)) =
     map_option JStr (coalesce (ck_quotaMessage patch) (ck_quotaMessage item))"
  "get (js ''channel_status'') (defined_props (createMonitorSnapshot item patch)) =
     map_option (\<lambda>c. JStr (check_status_name c)) (coalesce (ck_channelStatus patch) (ck_channelStatus item))"
  "get (js ''channel_message'') (defined_props (createMonitorSnapshot item patch)) =
     map_option JStr (coalesce (ck_channelMessage patch) (ck_channelMessage item))"
  "get (js ''response_time'') (defined_props (createMonitorSnapshot item patch)) =
     map_option JNum (coalesce (ck_responseTime patch) (ck_responseTime item))"
  "get (js ''balance'') (defined_props (createMonitorSnapshot item patch)) =
     map_option JNum (coalesce (ck_balance patch) (ck_balance item))"
  "get (js ''reset_count'') (defined_props (createMonitorSnapshot item patch)) =
     Some (JNum (case coalesce (ck_resetCount patch) (ck_resetCount item) of Some x \<Rightarrow> x | None \<Rightarrow> Fin 0))"
  unfolding get_defined_props [OF snapshot_keys]
  by (simp_all add: createMonitorSnapshot_def Let_def)

lemma parseRecord_stringify:
  assumes "json_ok (JObj ps)"
  shows "parseRecord (str (json_stringify (JObj ps))) = ps"
proof -
  have "\<exists>t. json_stringify (JObj ps) = 123 # t" using stringify_object [of ps] by (auto simp: js_def)
  then have "trim (json_stringify (JObj ps)) \<noteq> []" by (auto simp: trim_eq_Nil_iff is_ws_def simp del: json_stringify.simps)
  then show ?thesis using json_parse_stringify [OF assms] by (simp add: parseRecord_def del: json_stringify.simps)
qed

lemma check_status_of_name: "check_status_of (Some (JStr (check_status_name c))) = Some c"
  by (cases c) (simp_all add: check_status_of_def)

text \<open>The state of an item after its checks: both checks have a status and a message, and the time
  of the check is a number.\<close>

definition monitor_shown :: "ImportedChannelCheck \<Rightarrow> bool" where
  "monitor_shown s \<longleftrightarrow>
     ck_quotaStatus s \<in> range Val \<and> ck_channelStatus s \<in> range Val \<and>
     ck_quotaMessage s \<in> Val ` (- {[]}) \<and> ck_channelMessage s \<in> Val ` (- {[]}) \<and>
     ck_lastCheckedAt s \<in> Val ` range Fin"

definition monitor_kept :: "ImportedChannelCheck \<Rightarrow> ImportedChannelCheck \<Rightarrow> bool" where
  "monitor_kept item patch \<longleftrightarrow>
     keeps (ck_monitorEnabled item) (ck_monitorEnabled patch) \<and> keeps (ck_quotaStatus item) (ck_quotaStatus patch) \<and>
     keeps (ck_quotaMessage item) (ck_quotaMessage patch) \<and> keeps (ck_channelStatus item) (ck_channelStatus patch) \<and>
     keeps (ck_channelMessage item) (ck_channelMessage patch) \<and>
     keeps (ck_lastCheckedAt item) (ck_lastCheckedAt patch) \<and>
     keeps (ck_responseTime item) (ck_responseTime patch) \<and> keeps (ck_balance item) (ck_balance patch)"


text \<open>A channel, an item before its checks and the patch of a run of the checks, for the examples.\<close>

definition plain_ui :: Ui where
  "plain_ui = \<lparr>translate = (\<lambda>key options. key), engine_message = (\<lambda>e. [])\<rparr>"

definition sample_channel :: "jstr \<Rightarrow> Channel" where
  "sample_channel settings =
     \<lparr>ch_id = Fin 7, ch_type = Fin 1, ch_key = [], ch_openai_organization = None, ch_test_model = None,
      ch_status = Fin 1, ch_name = js ''a'', ch_weight = None, ch_created_time = Fin 0, ch_test_time = Fin 0,
      ch_response_time = Fin 0, ch_base_url = None, ch_other = [], ch_balance = Fin 0,
      ch_balance_updated_time = Fin 0, ch_models = js ''m'', ch_group = js ''default'', ch_used_quota = Fin 0,
      ch_model_mapping = None, ch_status_code_mapping = None, ch_priority = None, ch_auto_ban = None,
      ch_other_info = [], ch_tag = None, ch_setting = None, ch_param_override = None,
      ch_header_override = None, ch_remark = [], ch_max_input_tokens = Fin 0,
      ch_channel_info = \<lparr>ci_is_multi_key = False, ci_multi_key_size = Fin 0, ci_multi_key_status_list = None,
        ci_multi_key_disabled_reason = None, ci_multi_key_disabled_time = None,
        ci_multi_key_polling_index = Fin 0, ci_multi_key_mode = Random\<rparr>,
      ch_settings = settings\<rparr>"

definition sample_item :: ImportedChannelCheck where
  "sample_item = empty_patch\<lparr>ck_key := Val (js ''channel-7''), ck_index := Val 0, ck_name := Val (js ''a''),
     ck_platform := Val (Text (js ''OpenAI'')), ck_channelId := Val (Fin 7), ck_type := Val (Fin 1),
     ck_models := Val (js ''m''), ck_quotaStatus := Val Pending, ck_channelStatus := Val Pending\<rparr>"

definition sample_patch :: ImportedChannelCheck where
  "sample_patch = empty_patch\<lparr>ck_quotaStatus := Val Success, ck_quotaMessage := Val (js ''q''),
     ck_channelStatus := Val Error, ck_channelMessage := Val (js ''c''), ck_lastCheckedAt := Val (Fin 5)\<rparr>"

definition sample_settings :: props where
  "sample_settings =
     [(js ''imported_account_monitor'', JObj (defined_props (createMonitorSnapshot sample_item sample_patch)))]"

lemma sample_settings_ok: "json_ok (JObj sample_settings)"
proof -
  have o: "own_entries ps = ps" if "list_all (\<lambda>p. \<not> is_index_key (fst p)) ps" for ps :: props
    using that by (intro own_entries_named) (simp add: list_all_iff)
  have "defined_props (createMonitorSnapshot sample_item sample_patch) =
      [(js ''monitor_enabled'', JBool False), (js ''monitor_interval_ms'', JNum (Fin 300000)),
       (js ''checked_at'', JNum (Fin 5)), (js ''quota_status'', JStr (js ''success'')),
       (js ''quota_message'', JStr (js ''q'')), (js ''channel_status'', JStr (js ''error'')),
       (js ''channel_message'', JStr (js ''c'')), (js ''reset_count'', JNum (Fin 0)),
       (js ''last_reset_at'', JNum (Fin 0))]"
    by (simp add: defined_props_def createMonitorSnapshot_def Let_def sample_item_def sample_patch_def
        empty_patch_def coalesce_def List.map_filter_def MONITOR_INTERVAL_MS_def del: js_Cons)
  then show ?thesis
    by (simp add: sample_settings_def json_ok_numeral o is_index_key_def is_digit_def code_units_def del: json_ok.simps(1))
qed


section \<open>Labels, keys and percentages\<close>

lemma code_units_trim: "code_units s \<Longrightarrow> code_units (trim s)"
  using set_trim_subset [of s] by (auto simp: code_units_def)

lemma oauth_settings_ok:
  assumes "pred_option code_units mail" and "pred_option code_units account"
  shows "\<exists>ps. buildOpenAIOAuthSettings mail account = json_stringify (JObj ps) \<and> json_ok (JObj ps) \<and>
    get (js ''imported_account_platform'') ps = str (js ''openai'') \<and>
    get (js ''imported_account_type'') ps = str (js ''oauth'') \<and>
    get (js ''imported_account_source'') ps = str (js ''openai_oauth_authorization_page'') \<and>
    get (js ''imported_account_monitor'') ps = None"
proof -
  have t: "code_units (trimmed x)" if "pred_option code_units x" for x
    using that by (cases x) (simp_all add: trimmed_def code_units_trim code_units_def [of "[]"])
  define ps where "ps = defined_props
       [(js ''imported_account_platform'', str (js ''openai'')),
        (js ''imported_account_type'', str (js ''oauth'')),
        (js ''imported_account_source'', str (js ''openai_oauth_authorization_page'')),
        (js ''imported_account_email'', map_option JStr (non_empty (trimmed mail))),
        (js ''imported_account_id'', map_option JStr (non_empty (trimmed account)))]"
  have keys: "list_all (\<lambda>k. \<not> is_index_key k \<and> code_units k) (map js [''imported_account_platform'',
      ''imported_account_type'', ''imported_account_source'', ''imported_account_email'', ''imported_account_id''])"
    by (simp add: is_index_key_def is_digit_def code_units_def)
  have "own_entries ps = ps"
    unfolding ps_def by (rule own_entries_named)
      (use keys in \<open>auto simp: defined_props_def List.map_filter_def simp del: js_Cons split: option.splits\<close>)
  moreover have "distinct (map fst ps)" "list_all code_units (map fst ps)"
    unfolding ps_def by (simp_all add: defined_props_def List.map_filter_def non_empty_def code_units_def)
  moreover have "list_all (\<lambda>p. json_ok (snd p)) ps"
    unfolding ps_def using t [OF assms(1)] t [OF assms(2)]
    by (simp add: defined_props_def List.map_filter_def non_empty_def) (simp add: code_units_def)
  ultimately have "json_ok (JObj ps)" by simp
  moreover have "buildOpenAIOAuthSettings mail account = json_stringify (JObj ps)"
    by (simp only: buildOpenAIOAuthSettings_def ps_def)
  moreover have "get (js ''imported_account_platform'') ps = str (js ''openai'')"
    "get (js ''imported_account_type'') ps = str (js ''oauth'')"
    "get (js ''imported_account_source'') ps = str (js ''openai_oauth_authorization_page'')"
    "get (js ''imported_account_monitor'') ps = None"
    unfolding ps_def by (subst get_defined_props; simp)+
  ultimately show ?thesis by blast
qed

text \<open>An account that the panel created by authorization is shown under the same label when its
  channel is loaded again.\<close>

theorem oauth_label_roundtrip:
  assumes "pred_option code_units mail" and "pred_option code_units account"
    and "ch_settings channel = buildOpenAIOAuthSettings mail account"
  shows "\<exists>item. channelToImportedItem ui channel index = Inr item \<and>
    ck_platform item = Val (Text (js ''OpenAI OAuth'')) \<and> ck_monitorEnabled item = Val False"
proof -
  from oauth_settings_ok [OF assms(1, 2)] obtain ps where
    b: "buildOpenAIOAuthSettings mail account = json_stringify (JObj ps)" and ok: "json_ok (JObj ps)"
    and g: "get (js ''imported_account_platform'') ps = str (js ''openai'')"
      "get (js ''imported_account_type'') ps = str (js ''oauth'')"
      "get (js ''imported_account_source'') ps = str (js ''openai_oauth_authorization_page'')"
      "get (js ''imported_account_monitor'') ps = None" by blast
  have settings: "parseRecord (str (ch_settings channel)) = ps"
    unfolding assms(3) b by (rule parseRecord_stringify [OF ok])
  have m: "parseRecord (get (js ''imported_account_monitor'') ps) = []"
    unfolding g(4) by (simp add: parseRecord_def)
  have e: "get k [] = None" for k by (simp add: get_def)
  have t: "trim (js ''openai'') = js ''openai''" "trim (js ''oauth'') = js ''oauth''" "js ''openai'' \<noteq> []"
    "json_truthy (JStr (js ''openai''))" "json_truthy (JStr (js ''oauth''))"
    "json_truthy (JStr (js ''openai_oauth_authorization_page''))"
    by code_simp+
  have l: "getPlatformLabel type ps = Inr (Text (js ''OpenAI OAuth''))" for type
    unfolding getPlatformLabel_def g string_or_def option.case using t by (simp only: if_True value_to_string.simps
        option.case rbind_simps Let_def simp_thms)
  have "nullish None x = x" for x by (simp add: nullish_def)
  with l show ?thesis
    unfolding channelToImportedItem_def Let_def settings m e string_or_def
    by (simp del: js_Cons)
qed

theorem oauth_label_roundtrip_witness:
  "\<exists>item. channelToImportedItem plain_ui (sample_channel (buildOpenAIOAuthSettings (Some (js ''a@b'')) None)) 0 = Inr item \<and>
    ck_platform item = Val (Text (js ''OpenAI OAuth''))"
proof -
  have u: "pred_option code_units (Some (js ''a@b''))" "pred_option code_units None" by (simp_all add: code_units_def)
  have "ch_settings (sample_channel (buildOpenAIOAuthSettings (Some (js ''a@b'')) None)) =
      buildOpenAIOAuthSettings (Some (js ''a@b'')) None" by (simp only: sample_channel_def Channel.simps)
  from oauth_label_roundtrip [OF u this] show ?thesis by blast
qed

text \<open>The usage shown for a window of an account is empty or a whole percentage between 0 and
  100.\<close>

theorem percent_bounds:
  assumes "formatPercent value = Inr s"
  shows "s = [] \<or> (\<exists>n. 0 \<le> n \<and> n \<le> 100 \<and> s = dec n @ js ''%'')"
proof -
  from assms obtain x where x: "s = (case x of Fin v \<Rightarrow> to_fixed 0 (Fin (max 0 (min 100 v))) @ js ''%'' | _ \<Rightarrow> [])"
    by (auto simp: formatPercent_def rbind_eq_Inr)
  show ?thesis
  proof (cases x)
    case (Fin v)
    define w where "w = max 0 (min 100 v)"
    have w: "0 \<le> w" "w \<le> 100" by (simp_all add: w_def)
    define n where "n = floor (w + 1 / 2)"
    have "0 \<le> n" "n \<le> 100" using w by (simp_all add: n_def floor_le_iff)
    moreover have "to_fixed 0 (Fin w) = dec n" using w by (simp add: to_fixed_def fixed_digits_def n_def)
    ultimately show ?thesis using x Fin by (auto simp: w_def)
  qed (use x in simp_all)
qed

theorem percent_bounds_witness:
  "formatPercent (Some (JNum (Fin 250))) = Inr (js ''100%'') \<and>
   (js ''100%'' = [] \<or> (\<exists>n. 0 \<le> n \<and> n \<le> 100 \<and> js ''100%'' = dec n @ js ''%''))"
proof -
  have f: "formatPercent (Some (JNum (Fin 250))) = Inr (js ''100%'')" by code_simp
  from percent_bounds [OF f] f show ?thesis by (rule conjI [rotated])
qed

lemma channel_key_inj:
  assumes "0 < a" "a < 10 ^ 15" "0 < b" "b < 10 ^ 15"
    and "getImportedChannelKey i (Some (Fin (of_int a))) = getImportedChannelKey j (Some (Fin (of_int b)))"
  shows "a = b"
  using assms num_to_string_inj [of a b] by (simp add: getImportedChannelKey_def num_truthy_def del: num_to_string.simps)

text \<open>The panel names the status of a channel that the channels page calls disabled by hand
  "Auto disabled", and the one that page calls automatically disabled "Unknown".\<close>

lemma status_labels_disagree:
  "fst (getChannelStatusMeta (Some (Fin (of_int STATUS_MANUAL_DISABLED)))) = js ''Auto disabled'' \<and>
   map_of CHANNEL_STATUS_LABELS STATUS_MANUAL_DISABLED = Some (js ''Disabled'') \<and>
   fst (getChannelStatusMeta (Some (Fin (of_int STATUS_AUTO_DISABLED)))) = js ''Unknown'' \<and>
   map_of CHANNEL_STATUS_LABELS STATUS_AUTO_DISABLED = Some (js ''Auto Disabled'')"
  by (simp add: getChannelStatusMeta_def STATUS_UNKNOWN_def STATUS_ENABLED_def STATUS_MANUAL_DISABLED_def
      STATUS_AUTO_DISABLED_def CHANNEL_STATUS_LABELS_def)

end
