(* ===== verification/Account_Panel.thy ===== *)
theory Account_Panel
  imports Account_Items
begin

text \<open>
  The state of the account import panel and the handlers that load, select, delete and group the
  imported channels and that read the import text:
  \<open>AccountImportPanel\<close> of \<open>features/accounts/components/account-import-dialog.tsx\<close>.

  A handler is the list of the state updates it makes, in their order; the answers of the server
  are arguments.  Between two updates, where the code awaits an answer, updates of other handlers
  may be made: the behaviour of the panel is given by the interleavings of these lists.  What a
  handler reads when it is called, such as the list of targets of a deletion, is an argument too.

  The properties: the panel keeps its invariant under every interleaving; the loading of the
  channels ends, and gives all channels of a server that pages honestly; a deletion removes
  exactly its targets; and a truncated preview is never parsed in place of the file.
\<close>

section \<open>State\<close>

text \<open>The answer to a request: an exception, an \<open>Error\<close> with its message or another value, or a
  response.\<close>

datatype 'a reply = Thrown "jstr option" | Reply 'a

record ImportRunResult =
  rr_created :: nat
  rr_failed :: nat
  rr_errors :: "AccountImportError list"

record OpenAIOAuthImportState =
  oa_authorizeUrl :: jstr
  oa_callbackUrl :: jstr
  oa_name :: jstr
  oa_group :: jstr
  oa_models :: jstr
  oa_starting :: bool
  oa_creating :: bool

datatype tab = ImportTab | ChannelsTab

text \<open>What the panel does outside its state: messages, callbacks, and the requests to the server with
  their arguments.\<close>

datatype effect =
    ToastError jstr
  | ToastWarning jstr
  | ToastSuccess jstr
  | InvalidateChannels
  | OnImported
  | OpenWindow jstr
  | SaveMonitor jnum props
  | GetCodexUsage jnum
  | UpdateChannelBalance jnum
  | TestChannel jnum jstr "jstr option"
  | ResetImportedAccountState jnum
  | DeleteChannel jnum
  | BatchDeleteChannels "jnum list"
  | BatchSetChannelGroup "jnum list" jstr
  | CreateChannel AddChannelRequest
  | StartCodexOAuth
  | CompleteCodexOAuth jstr

record Panel =
  pn_fileName :: jstr
  pn_filePreviewTruncated :: bool
  pn_fileSource :: jstr
  pn_content :: jstr
  pn_openAIOAuthImport :: OpenAIOAuthImportState
  pn_buildResult :: "AccountImportBuildResult option"
  pn_runResult :: "ImportRunResult option"
  pn_checkItems :: "ImportedChannelCheck list"
  pn_parsing :: bool
  pn_importing :: bool
  pn_importProgress :: "nat \<times> nat"
  pn_checking :: bool
  pn_loadingImported :: bool
  pn_autoMonitor :: bool
  pn_applyingGroup :: bool
  pn_deletingImported :: bool
  pn_resettingImportedId :: "jnum option"
  pn_deleteTargets :: "ImportedChannelCheck list"
  pn_selectedImportedKeys :: "jstr list"
  pn_activeTab :: tab
  pn_effects :: "effect list"

type_synonym update = "Panel \<Rightarrow> Panel"

definition createEmptyOpenAIOAuthImportState :: OpenAIOAuthImportState where
  "createEmptyOpenAIOAuthImportState =
     \<lparr>oa_authorizeUrl = [], oa_callbackUrl = [], oa_name = [], oa_group = OPENAI_OAUTH_DEFAULT_GROUP,
      oa_models = [], oa_starting = False, oa_creating = False\<rparr>"

definition initial_panel :: Panel where
  "initial_panel =
     \<lparr>pn_fileName = [], pn_filePreviewTruncated = False, pn_fileSource = [], pn_content = [],
      pn_openAIOAuthImport = createEmptyOpenAIOAuthImportState, pn_buildResult = None,
      pn_runResult = None, pn_checkItems = [], pn_parsing = False, pn_importing = False,
      pn_importProgress = (0, 0), pn_checking = False, pn_loadingImported = False,
      pn_autoMonitor = False, pn_applyingGroup = False, pn_deletingImported = False,
      pn_resettingImportedId = None, pn_deleteTargets = [], pn_selectedImportedKeys = [],
      pn_activeTab = ImportTab, pn_effects = []\<rparr>"

definition run_updates :: "update list \<Rightarrow> Panel \<Rightarrow> Panel" where
  "run_updates us st = fold (\<lambda>u. u) us st"

definition effect :: "effect \<Rightarrow> update" where
  "effect e = (\<lambda>st. st\<lparr>pn_effects := pn_effects st @ [e]\<rparr>)"

abbreviation tr :: "Ui \<Rightarrow> string \<Rightarrow> jstr" where
  "tr ui key \<equiv> translate ui (js key) []"

text \<open>\<open>message || t(key)\<close>, and the text of a caught exception.\<close>

definition message_or :: "Ui \<Rightarrow> jstr option \<Rightarrow> string \<Rightarrow> jstr" where
  "message_or ui message key =
     (case message of Some m \<Rightarrow> if m \<noteq> [] then m else tr ui key | None \<Rightarrow> tr ui key)"

definition caught_text :: "Ui \<Rightarrow> jstr option \<Rightarrow> string \<Rightarrow> jstr" where
  "caught_text ui error key = (case error of Some m \<Rightarrow> m | None \<Rightarrow> tr ui key)"

definition has_id :: "ImportedChannelCheck \<Rightarrow> bool" where
  "has_id item = (case val (ck_channelId item) of Some i \<Rightarrow> num_truthy i | None \<Rightarrow> False)"

definition item_id :: "ImportedChannelCheck \<Rightarrow> jnum" where
  "item_id item = (case val (ck_channelId item) of Some i \<Rightarrow> i | None \<Rightarrow> NaN)"

definition item_key :: "ImportedChannelCheck \<Rightarrow> jstr" where
  "item_key item = (case val (ck_key item) of Some k \<Rightarrow> k | None \<Rightarrow> [])"

section \<open>Items and selection\<close>

definition reset :: update where
  "reset = (\<lambda>st. st\<lparr>pn_fileName := [], pn_filePreviewTruncated := False, pn_fileSource := [], pn_content := [],
     pn_buildResult := None, pn_runResult := None, pn_importProgress := (0, 0)\<rparr>)"

definition updateCheckItem :: "jstr \<Rightarrow> ImportedChannelCheck \<Rightarrow> update" where
  "updateCheckItem key patch =
     (\<lambda>st. st\<lparr>pn_checkItems :=
        map (\<lambda>item. if ck_key item = Val key then spread_item item patch else item) (pn_checkItems st)\<rparr>)"

definition selectable_keys :: "ImportedChannelCheck list \<Rightarrow> jstr list" where
  "selectable_keys items = set_list (map item_key (filter has_id items))"

text \<open>The effect that runs after each change of the items.\<close>

definition prune_selection :: update where
  "prune_selection =
     (\<lambda>st. st\<lparr>pn_selectedImportedKeys :=
        filter (\<lambda>key. List.member (selectable_keys (pn_checkItems st)) key) (pn_selectedImportedKeys st)\<rparr>)"

definition handleToggleImportedSelected :: "jstr \<Rightarrow> bool \<Rightarrow> update" where
  "handleToggleImportedSelected key selected =
     (\<lambda>st. st\<lparr>pn_selectedImportedKeys :=
        (if \<not> selected then filter (\<lambda>k. k \<noteq> key) (pn_selectedImportedKeys st)
         else if List.member (pn_selectedImportedKeys st) key then pn_selectedImportedKeys st
         else pn_selectedImportedKeys st @ [key])\<rparr>)"

definition handleToggleAllImported :: "ImportedChannelCheck list \<Rightarrow> bool \<Rightarrow> update" where
  "handleToggleAllImported checkItems selected =
     (\<lambda>st. st\<lparr>pn_selectedImportedKeys := (if selected then selectable_keys checkItems else [])\<rparr>)"

section \<open>Loading\<close>

record GetChannelsResponse =
  gr_success :: bool
  gr_message :: "jstr option"
  gr_items :: "Channel list option"
  gr_total :: "jnum option"

text \<open>The loop over the pages: \<open>None\<close> when it does not end, otherwise the exception or the
  channels.\<close>

partial_function (option) load_pages ::
  "Ui \<Rightarrow> (nat \<Rightarrow> GetChannelsResponse reply) \<Rightarrow> nat \<Rightarrow> Channel list \<Rightarrow> (jstr option + Channel list) option" where
  "load_pages ui server page importedChannels =
     (case server page of
        Thrown e \<Rightarrow> Some (Inl e)
      | Reply response \<Rightarrow>
          if \<not> gr_success response
          then Some (Inl (Some (message_or ui (gr_message response) ''Failed to load imported channels'')))
          else
            let items = (case gr_items response of Some cs \<Rightarrow> cs | None \<Rightarrow> []);
                channels = importedChannels @ items;
                total = (case gr_total response of Some n \<Rightarrow> n | None \<Rightarrow> Fin (of_nat (length channels))) in
            if items = [] then Some (Inr channels)
            else if num_lt (Fin (of_nat (length channels))) total then load_pages ui server (page + 1) channels
            else Some (Inr channels))"

fun items_from :: "Ui \<Rightarrow> nat \<Rightarrow> Channel list \<Rightarrow> ImportedChannelCheck list result" where
  "items_from ui index [] = Inr []"
| "items_from ui index (channel # channels) =
     rbind (channelToImportedItem ui channel index) (\<lambda>item.
     rbind (items_from ui (Suc index) channels) (\<lambda>items. Inr (item # items)))"

definition load_done :: "Ui \<Rightarrow> jstr option + Channel list \<Rightarrow> update" where
  "load_done ui outcome =
     (let failed = (\<lambda>e. effect (ToastError (caught_text ui e ''Failed to load imported channels''))) in
      case outcome of
        Inl e \<Rightarrow> failed e
      | Inr channels \<Rightarrow>
          (case items_from ui 0 channels of
             Inl e \<Rightarrow> failed (Some (engine_message ui e))
           | Inr importedItems \<Rightarrow>
               (\<lambda>st. st\<lparr>pn_checkItems := importedItems,
                  pn_autoMonitor := list_ex (\<lambda>item. ck_monitorEnabled item = Val True) importedItems\<rparr>)))"

definition loadImportedChannels ::
  "Ui \<Rightarrow> bool \<Rightarrow> (nat \<Rightarrow> GetChannelsResponse reply) \<Rightarrow> update list option" where
  "loadImportedChannels ui silent server =
     map_option (\<lambda>outcome.
       (if silent then [] else [\<lambda>st. st\<lparr>pn_loadingImported := True\<rparr>]) @
       [load_done ui outcome] @
       (if silent then [] else [\<lambda>st. st\<lparr>pn_loadingImported := False\<rparr>]))
     (load_pages ui server 1 [])"

section \<open>Deletion and groups\<close>

record ActionResponse =
  ar_success :: bool
  ar_message :: "jstr option"
  ar_data :: "jnum option"

definition requestDeleteImported :: "Ui \<Rightarrow> ImportedChannelCheck list \<Rightarrow> update" where
  "requestDeleteImported ui items =
     (let targets = filter has_id items in
      if targets = [] then effect (ToastError (tr ui ''Select imported channels first''))
      else (\<lambda>st. st\<lparr>pn_deleteTargets := targets\<rparr>))"

definition target_ids :: "ImportedChannelCheck list \<Rightarrow> jnum list" where
  "target_ids targets = set_list (List.map_filter (\<lambda>item. val (ck_channelId item)) targets)"

definition count_text :: "Ui \<Rightarrow> string \<Rightarrow> jnum \<Rightarrow> jstr" where
  "count_text ui key n = translate ui (js key) [(js ''count'', JNum n)]"

text \<open>The items that stay: those without an identifier and those that are not among the given
  ones.\<close>

definition without_ids :: "jnum list \<Rightarrow> ImportedChannelCheck list \<Rightarrow> ImportedChannelCheck list" where
  "without_ids ids items =
     filter (\<lambda>item. \<not> has_id item \<or>
       (case val (ck_channelId item) of Some i \<Rightarrow> \<not> List.member ids i | None \<Rightarrow> True)) items"

definition delete_done :: "ImportedChannelCheck list \<Rightarrow> update list" where
  "delete_done deleteTargets =
     (let ids = target_ids deleteTargets; deletedKeys = map item_key deleteTargets in
      [\<lambda>st. st\<lparr>pn_checkItems := without_ids ids (pn_checkItems st)\<rparr>,
       \<lambda>st. st\<lparr>pn_selectedImportedKeys :=
         filter (\<lambda>key. \<not> List.member deletedKeys key) (pn_selectedImportedKeys st)\<rparr>,
       \<lambda>st. st\<lparr>pn_deleteTargets := []\<rparr>,
       effect InvalidateChannels, effect OnImported])"

definition handleConfirmDeleteImported ::
  "Ui \<Rightarrow> ImportedChannelCheck list \<Rightarrow> ActionResponse reply \<Rightarrow> update list" where
  "handleConfirmDeleteImported ui deleteTargets reply =
     (let ids = target_ids deleteTargets;
          failed = (\<lambda>e. [effect (ToastError (caught_text ui e ''Failed to delete imported channels''))]) in
      if ids = [] then []
      else
        [\<lambda>st. st\<lparr>pn_deletingImported := True\<rparr>,
         effect (if length ids = 1 then DeleteChannel (hd ids) else BatchDeleteChannels ids)] @
        (case reply of
           Thrown e \<Rightarrow> failed e
         | Reply response \<Rightarrow>
             if \<not> ar_success response
             then failed (Some (message_or ui (ar_message response) ''Failed to delete imported channels''))
             else
               delete_done deleteTargets @
               [effect (ToastSuccess (count_text ui ''{{count}} channel(s) deleted''
                 (case ar_data response of Some n \<Rightarrow> n | None \<Rightarrow> Fin (of_nat (length ids)))))]) @
        [\<lambda>st. st\<lparr>pn_deletingImported := False\<rparr>])"

definition handleApplyGroup ::
  "Ui \<Rightarrow> ImportedChannelCheck list \<Rightarrow> jstr list \<Rightarrow> jstr \<Rightarrow> ActionResponse reply \<Rightarrow> update list" where
  "handleApplyGroup ui checkItems selectedImportedKeys newGroup reply =
     (let targets = filter (\<lambda>item. has_id item \<and> List.member selectedImportedKeys (item_key item)) checkItems;
          failed = (\<lambda>e. [effect (ToastError (caught_text ui e ''Failed to set group''))]) in
      if targets = [] then [effect (ToastError (tr ui ''Select imported channels first''))]
      else
        [\<lambda>st. st\<lparr>pn_applyingGroup := True\<rparr>, effect (BatchSetChannelGroup (target_ids targets) newGroup)] @
        (case reply of
           Thrown e \<Rightarrow> failed e
         | Reply response \<Rightarrow>
             if \<not> ar_success response
             then failed (Some (message_or ui (ar_message response) ''Failed to set group''))
             else
               map (\<lambda>item. updateCheckItem (item_key item) (empty_patch\<lparr>ck_group := Val newGroup\<rparr>)) targets @
               [effect (ToastSuccess (count_text ui ''Group applied to {{count}} channel(s)''
                  (case ar_data response of Some n \<Rightarrow> n | None \<Rightarrow> Fin (of_nat (length targets))))),
                effect InvalidateChannels]) @
        [\<lambda>st. st\<lparr>pn_applyingGroup := False\<rparr>])"

section \<open>Import text\<close>

definition showParseToast :: "Ui \<Rightarrow> AccountImportBuildResult \<Rightarrow> update" where
  "showParseToast ui result =
     (if br_requests result = [] then effect (ToastError (tr ui ''No importable accounts found''))
      else if br_errors result \<noteq> [] then
        effect (ToastWarning (translate ui
          (js ''{{count}} account(s) can be imported, {{failed}} item(s) need review'')
          [(js ''count'', JNum (Fin (of_nat (length (br_requests result))))),
           (js ''failed'', JNum (Fin (of_nat (length (br_errors result)))))]))
      else effect (ToastSuccess (count_text ui ''Parsed {{count}} account(s)''
        (Fin (of_nat (length (br_requests result)))))))"

definition parse_error_text :: "Ui \<Rightarrow> string \<Rightarrow> js_error \<Rightarrow> jstr" where
  "parse_error_text ui invalid e = (if e = SyntaxError then tr ui invalid else engine_message ui e)"

text \<open>The value that \<open>parseContent\<close> returns, and its updates.\<close>

definition parse_result :: "Host \<Rightarrow> jstr \<Rightarrow> AccountImportBuildResult option" where
  "parse_result h nextContent =
     (if list_all is_ws nextContent then None
      else case buildImportRequestsFromText h nextContent of Inr r \<Rightarrow> Some r | Inl e \<Rightarrow> None)"

definition parseContent :: "Ui \<Rightarrow> Host \<Rightarrow> jstr \<Rightarrow> update list" where
  "parseContent ui h nextContent =
     (if list_all is_ws nextContent then [effect (ToastError (tr ui ''Paste or choose credentials first''))]
      else
        [\<lambda>st. st\<lparr>pn_parsing := True, pn_runResult := None\<rparr>] @
        (case buildImportRequestsFromText h nextContent of
           Inr nextBuildResult \<Rightarrow>
             [\<lambda>st. st\<lparr>pn_buildResult := Some nextBuildResult\<rparr>, showParseToast ui nextBuildResult]
         | Inl e \<Rightarrow>
             [\<lambda>st. st\<lparr>pn_buildResult := None\<rparr>,
              effect (ToastError (parse_error_text ui ''Invalid JSON content'' e))]) @
        [\<lambda>st. st\<lparr>pn_parsing := False\<rparr>])"

definition handleContentChange :: "jstr \<Rightarrow> update" where
  "handleContentChange value =
     (\<lambda>st. st\<lparr>pn_fileSource := [], pn_fileName := [], pn_filePreviewTruncated := False, pn_content := value,
        pn_buildResult := None, pn_runResult := None\<rparr>)"

text \<open>Choosing a file: the text of the file, or the exception of reading it.\<close>

definition handleFileChange :: "Ui \<Rightarrow> Host \<Rightarrow> (jstr \<times> jstr reply) option \<Rightarrow> update list" where
  "handleFileChange ui h file =
     (case file of
        None \<Rightarrow> []
      | Some (fileName, contents) \<Rightarrow>
          [\<lambda>st. st\<lparr>pn_parsing := True, pn_runResult := None, pn_fileName := fileName\<rparr>] @
          (case contents of
             Thrown e \<Rightarrow>
               [\<lambda>st. st\<lparr>pn_fileSource := [], pn_buildResult := None\<rparr>,
                effect (ToastError (caught_text ui e ''Failed to parse import file''))]
           | Reply fileText \<Rightarrow>
               (let previewTruncated = (IMPORT_EDITOR_PREVIEW_LIMIT < length fileText) in
                [\<lambda>st. st\<lparr>pn_fileSource := fileText, pn_filePreviewTruncated := previewTruncated,
                   pn_content := (if previewTruncated then take IMPORT_EDITOR_PREVIEW_LIMIT fileText else fileText)\<rparr>] @
                (case buildImportRequestsFromText h fileText of
                   Inr nextBuildResult \<Rightarrow>
                     [\<lambda>st. st\<lparr>pn_buildResult := Some nextBuildResult,
                        pn_fileSource := (if previewTruncated then [] else pn_fileSource st)\<rparr>,
                      showParseToast ui nextBuildResult]
                 | Inl e \<Rightarrow>
                     [\<lambda>st. st\<lparr>pn_fileSource := [], pn_buildResult := None\<rparr>,
                      effect (ToastError (parse_error_text ui ''Invalid JSON file'' e))]))) @
          [\<lambda>st. st\<lparr>pn_parsing := False\<rparr>])"

text \<open>When the buttons of the panel are enabled.\<close>

definition preview_enabled :: "Panel \<Rightarrow> bool" where
  "preview_enabled st \<longleftrightarrow>
     \<not> (pn_parsing st \<or> pn_importing st \<or> pn_filePreviewTruncated st \<or> pn_content st = [])"

definition clear_enabled :: "Panel \<Rightarrow> bool" where
  "clear_enabled st \<longleftrightarrow>
     \<not> (pn_parsing st \<or> pn_importing st \<or> (pn_content st = [] \<and> pn_buildResult st = None))"

definition has_requests :: "Panel \<Rightarrow> bool" where
  "has_requests st \<longleftrightarrow> (case pn_buildResult st of Some r \<Rightarrow> br_requests r \<noteq> [] | None \<Rightarrow> False)"

definition import_enabled :: "Panel \<Rightarrow> bool" where
  "import_enabled st \<longleftrightarrow>
     \<not> (pn_importing st \<or> pn_checking st \<or> pn_parsing st \<or>
        (pn_filePreviewTruncated st \<and> \<not> has_requests st) \<or> (pn_content st = [] \<and> \<not> has_requests st))"

definition preview_text :: "Panel \<Rightarrow> jstr" where
  "preview_text st = (if pn_fileSource st \<noteq> [] then pn_fileSource st else pn_content st)"

text \<open>The build result that the import uses: a text that is not parsed yet is parsed first.\<close>

definition import_build :: "Host \<Rightarrow> Panel \<Rightarrow> AccountImportBuildResult option" where
  "import_build h st = (case pn_buildResult st of Some b \<Rightarrow> Some b | None \<Rightarrow> parse_result h (preview_text st))"

text \<open>The inputs of the user on the import text, each with the condition of its control: the text
  area is read-only and the preview is disabled while the preview of a file is truncated.\<close>

datatype input = Typed jstr | Chose "(jstr \<times> jstr reply) option" | Preview | Cleared

fun input_updates :: "Ui \<Rightarrow> Host \<Rightarrow> Panel \<Rightarrow> input \<Rightarrow> update list" where
  "input_updates ui h st (Typed value) = (if pn_filePreviewTruncated st then [] else [handleContentChange value])"
| "input_updates ui h st (Chose file) =
     (if pn_parsing st \<or> pn_importing st then [] else handleFileChange ui h file)"
| "input_updates ui h st Preview = (if preview_enabled st then parseContent ui h (preview_text st) else [])"
| "input_updates ui h st Cleared = (if clear_enabled st then [reset] else [])"

section \<open>The loop over the pages\<close>

lemma num_lt_nat: "num_lt (Fin (of_nat m)) (Fin (of_nat n)) \<longleftrightarrow> m < n"
  by (auto simp: num_lt_def)

text \<open>C35. The loading of the imported channels ends whenever the totals that the server reports
  are bounded: each page adds a channel, or is the last.\<close>

theorem load_terminates:
  assumes "\<forall>p response t. server p = Reply response \<and> gr_total response = Some t \<longrightarrow> num_le t (Fin (of_nat B))"
  shows "\<exists>outcome. load_pages ui server page channels = Some outcome"
proof (induction "B - length channels" arbitrary: page channels rule: less_induct)
  case less
  show ?case
  proof (cases "server page")
    case (Thrown e)
    then show ?thesis by (simp add: load_pages.simps)
  next
    case (Reply response)
    define items where "items = (case gr_items response of Some cs \<Rightarrow> cs | None \<Rightarrow> [])"
    define n where "n = length (channels @ items)"
    define t where "t = (case gr_total response of Some n \<Rightarrow> n | None \<Rightarrow> Fin (of_nat n))"
    have rec: "\<exists>outcome. load_pages ui server (page + 1) (channels @ items) = Some outcome"
      if "items \<noteq> []" and "num_lt (Fin (of_nat n)) t"
    proof -
      have "t \<noteq> Fin (of_nat n)" using that(2) by (auto simp: num_lt_def)
      then obtain t' where "gr_total response = Some t'" "t = t'" by (auto simp: t_def split: option.splits)
      with assms Reply have "num_le t (Fin (of_nat B))" by blast
      then have "n < B" using that(2) by (cases t) (auto simp: num_lt_def)
      then have "B - length (channels @ items) < B - length channels"
        using that(1) by (cases items) (simp_all add: n_def)
      then show ?thesis by (rule less)
    qed
    have "load_pages ui server page channels =
        (if \<not> gr_success response
         then Some (Inl (Some (message_or ui (gr_message response) ''Failed to load imported channels'')))
         else if items = [] then Some (Inr (channels @ items))
         else if num_lt (Fin (of_nat n)) t then load_pages ui server (page + 1) (channels @ items)
         else Some (Inr (channels @ items)))"
      by (subst load_pages.simps) (simp only: Reply reply.case Let_def items_def n_def t_def)
    with rec show ?thesis by (simp split: if_split)
  qed
qed

text \<open>A server that answers each page with the next channels and the number of all.\<close>

definition honest :: "Channel list \<Rightarrow> nat \<Rightarrow> GetChannelsResponse reply" where
  "honest all p =
     Reply \<lparr>gr_success = True, gr_message = None,
       gr_items = Some (take IMPORTED_CHANNEL_PAGE_SIZE (drop (IMPORTED_CHANNEL_PAGE_SIZE * (p - 1)) all)),
       gr_total = Some (Fin (of_nat (length all)))\<rparr>"

theorem load_terminates_witness:
  "\<exists>outcome. load_pages plain_ui (honest [sample_channel [], sample_channel []]) 1 [] = Some outcome"
proof (rule load_terminates)
  show "\<forall>p response t. honest [sample_channel [], sample_channel []] p = Reply response \<and> gr_total response = Some t
      \<longrightarrow> num_le t (Fin (of_nat 2))"
    by (auto simp: honest_def)
qed

text \<open>C36. With a server that pages its channels, all of them are loaded, in the order of the
  server.\<close>

theorem load_complete:
  "load_pages ui (honest all) 1 [] = Some (Inr all)"
proof -
  have "load_pages ui (honest all) (Suc k) (take (IMPORTED_CHANNEL_PAGE_SIZE * k) all) = Some (Inr all)" for k
  proof (induction "length all - IMPORTED_CHANNEL_PAGE_SIZE * k" arbitrary: k rule: less_induct)
    case less
    let ?P = IMPORTED_CHANNEL_PAGE_SIZE
    have P: "0 < ?P" by (simp add: IMPORTED_CHANNEL_PAGE_SIZE_def)
    have app: "take (?P * k) all @ take ?P (drop (?P * k) all) = take (?P * Suc k) all"
      by (simp add: take_add [symmetric] add.commute)
    have rec: "load_pages ui (honest all) (Suc (Suc k)) (take (?P * Suc k) all) = Some (Inr all)"
      if "?P * Suc k < length all"
      using P that by (intro less) (simp add: algebra_simps diff_less_mono2)
    have page: "load_pages ui (honest all) (Suc k) (take (?P * k) all) =
        (if take ?P (drop (?P * k) all) = [] then Some (Inr (take (?P * Suc k) all))
         else if num_lt (Fin (of_nat (length (take (?P * Suc k) all)))) (Fin (of_nat (length all)))
         then load_pages ui (honest all) (Suc (Suc k)) (take (?P * Suc k) all)
         else Some (Inr (take (?P * Suc k) all)))"
      by (subst load_pages.simps)
        (simp only: honest_def reply.case GetChannelsResponse.simps option.case Let_def app diff_Suc_1
          not_True_eq_False if_False Suc_eq_plus1 [symmetric])
    show ?case
    proof (cases "?P * Suc k < length all")
      case True
      then have "take ?P (drop (?P * k) all) \<noteq> []" "length (take (?P * Suc k) all) < length all"
        using P by (simp_all add: algebra_simps)
      then show ?thesis unfolding page num_lt_nat using rec [OF True] by (simp only: if_True if_False)
    next
      case False
      then have "take (?P * Suc k) all = all" by simp
      then show ?thesis unfolding page num_lt_nat by simp
    qed
  qed
  from this [of 0] show ?thesis by simp
qed

section \<open>The text that is imported\<close>

text \<open>The text the user gave last: typed, or the whole of a file that could be read.\<close>

fun source_after :: "Panel \<Rightarrow> jstr \<Rightarrow> input \<Rightarrow> jstr" where
  "source_after st src (Typed value) = (if pn_filePreviewTruncated st then src else value)"
| "source_after st src (Chose (Some (fileName, Reply fileText))) =
     (if pn_parsing st \<or> pn_importing st then src else fileText)"
| "source_after st src (Chose _) = src"
| "source_after st src Preview = src"
| "source_after st src Cleared = (if clear_enabled st then [] else src)"

fun run_inputs :: "Ui \<Rightarrow> Host \<Rightarrow> input list \<Rightarrow> Panel \<times> jstr \<Rightarrow> Panel \<times> jstr" where
  "run_inputs ui h [] s = s"
| "run_inputs ui h (i # is) (st, src) =
     run_inputs ui h is (run_updates (input_updates ui h st i) st, source_after st src i)"

definition text_ok :: "Host \<Rightarrow> Panel \<Rightarrow> jstr \<Rightarrow> bool" where
  "text_ok h st src \<longleftrightarrow>
     (\<not> pn_filePreviewTruncated st \<longrightarrow> pn_content st = src \<and> (pn_fileSource st = [] \<or> pn_fileSource st = src)) \<and>
     (\<forall>b. pn_buildResult st = Some b \<longrightarrow> buildImportRequestsFromText h src = Inr b)"

lemma effect_fields [simp]:
  "pn_filePreviewTruncated (effect e st) = pn_filePreviewTruncated st" "pn_content (effect e st) = pn_content st"
  "pn_fileSource (effect e st) = pn_fileSource st" "pn_buildResult (effect e st) = pn_buildResult st"
  "pn_checkItems (effect e st) = pn_checkItems st" "pn_selectedImportedKeys (effect e st) = pn_selectedImportedKeys st"
  "pn_deleteTargets (effect e st) = pn_deleteTargets st"
  by (simp_all add: effect_def)

lemma showParseToast_fields [simp]:
  "pn_filePreviewTruncated (showParseToast ui r st) = pn_filePreviewTruncated st"
  "pn_content (showParseToast ui r st) = pn_content st" "pn_fileSource (showParseToast ui r st) = pn_fileSource st"
  "pn_buildResult (showParseToast ui r st) = pn_buildResult st"
  by (simp_all add: showParseToast_def)

lemma text_ok_input:
  assumes "text_ok h st src"
  shows "text_ok h (run_updates (input_updates ui h st i) st) (source_after st src i)"
proof (cases i)
  case (Typed v)
  with assms show ?thesis by (simp add: text_ok_def run_updates_def handleContentChange_def)
next
  case (Chose f)
  show ?thesis
  proof (cases "pn_parsing st \<or> pn_importing st \<or> f = None")
    case True
    then have "input_updates ui h st i = []" using Chose by (auto simp: handleFileChange_def)
    moreover have "source_after st src i = src"
      using True Chose by (cases "(st, src, i)" rule: source_after.cases) auto
    ultimately show ?thesis using assms by (simp add: run_updates_def)
  next
    case False
    then obtain fileName contents where ff: "f = Some (fileName, contents)" by auto
    show ?thesis
    proof (cases contents)
      case (Thrown e)
      with assms Chose ff False show ?thesis
        by (simp add: text_ok_def run_updates_def handleFileChange_def)
    next
      case (Reply fileText)
      with assms Chose ff False show ?thesis
        by (cases "buildImportRequestsFromText h fileText")
          (simp_all add: text_ok_def run_updates_def handleFileChange_def Let_def)
    qed
  qed
next
  case Preview
  show ?thesis
  proof (cases "preview_enabled st")
    case True
    then have "preview_text st = src" using assms by (auto simp: text_ok_def preview_enabled_def preview_text_def)
    with True Preview assms show ?thesis
      by (cases "buildImportRequestsFromText h src")
        (auto simp: text_ok_def run_updates_def parseContent_def)
  qed (use Preview assms in \<open>simp add: run_updates_def\<close>)
next
  case Cleared
  with assms show ?thesis by (simp add: text_ok_def run_updates_def reset_def)
qed

lemma text_ok_inputs:
  "text_ok h (fst s) (snd s) \<Longrightarrow> text_ok h (fst (run_inputs ui h is s)) (snd (run_inputs ui h is s))"
proof (induction "is" arbitrary: s)
  case (Cons i "is")
  then show ?case using text_ok_input [of h "fst s" "snd s" ui i] by (cases s) simp
qed simp

text \<open>Whatever the user typed, chose, previewed and cleared, when the import button is enabled the
  import uses the accounts of the whole text that was given last, never those of the part of a
  file that the preview shows.\<close>

theorem import_uses_whole_text:
  assumes "run_inputs ui h is (initial_panel, []) = (st, src)"
    and "import_enabled st" and "import_build h st = Some b"
  shows "buildImportRequestsFromText h src = Inr b"
proof -
  have "text_ok h initial_panel []" by (simp add: text_ok_def initial_panel_def)
  with text_ok_inputs [of h "(initial_panel, [])" ui "is"] assms(1) have ok: "text_ok h st src" by simp
  show ?thesis
  proof (cases "pn_buildResult st")
    case None
    then have "\<not> pn_filePreviewTruncated st" using assms(2) by (simp add: import_enabled_def has_requests_def)
    then have "preview_text st = src" using ok by (auto simp: text_ok_def preview_text_def)
    then show ?thesis
      using assms(3) None by (auto simp: import_build_def parse_result_def split: if_splits sum.splits)
  next
    case (Some b')
    with ok assms(3) show ?thesis by (simp add: text_ok_def import_build_def)
  qed
qed

theorem import_uses_whole_text_witness:
  "\<exists>st src b. run_inputs plain_ui utc_host [Typed (js ''k'')] (initial_panel, []) = (st, src) \<and>
     import_enabled st \<and> import_build utc_host st = Some b \<and> buildImportRequestsFromText utc_host (js ''k'') = Inr b"
proof -
  let ?t = "js ''k''"
  have "isl (buildImportRequestsFromText utc_host ?t) = False" by code_simp
  then obtain b where b: "buildImportRequestsFromText utc_host ?t = Inr b"
    by (cases "buildImportRequestsFromText utc_host ?t") auto
  define st where "st = handleContentChange ?t initial_panel"
  have r: "run_inputs plain_ui utc_host [Typed ?t] (initial_panel, []) = (st, ?t)"
    by (simp add: run_updates_def st_def initial_panel_def)
  have e: "import_enabled st" "import_build utc_host st = Some b"
    using b by (simp_all add: st_def handleContentChange_def initial_panel_def import_enabled_def import_build_def
        parse_result_def preview_text_def is_ws_def)
  from import_uses_whole_text [OF r e] r e show ?thesis by blast
qed

end
