(* ===== verification/Async_Pool.thy ===== *)
theory Async_Pool
  imports Main
begin

text \<open>
  \<open>mapWithConcurrency\<close> of \<open>features/accounts/components/account-import-dialog.tsx\<close>: a
  fixed number of asynchronous workers that take the items of an array one after the other from a
  shared cursor and store the results at the indices of the items.

  JavaScript runs one piece of code at a time and a worker gives up control only at its
  \<open>await\<close>.  A state is what the workers share together with what each of them awaits; a step
  is the settling of the promise that one worker awaits, followed by the code of this worker up to
  its next \<open>await\<close>.  The promises settle in any order.

  The properties: the results are those of a sequential map, whatever the order; at most as many
  tasks as workers are in flight and no item is taken twice; a run ends after at most one step per
  item, and it cannot stop before the promise of the call is settled.
\<close>

section \<open>Workers\<close>

text \<open>The promise of a worker: pending on the task of an item, fulfilled, or rejected by the task
  of an item.\<close>

datatype worker = Awaiting nat | Finished | Rejected nat

record ('e, 'r) pool =
  pl_cursor :: nat
  pl_workers :: "worker list"
  pl_results :: "'r option list"
  pl_rejection :: "'e option"

definition worker_count :: "nat \<Rightarrow> int \<Rightarrow> nat" where
  "worker_count n concurrency = min (nat (max 1 concurrency)) n"

text \<open>The test of the \<open>while\<close> loop and its body up to the \<open>await\<close>: the new state of the
  worker and of the cursor.\<close>

definition take_next :: "nat \<Rightarrow> nat \<Rightarrow> worker \<times> nat" where
  "take_next n cursor = (if cursor < n then (Awaiting cursor, cursor + 1) else (Finished, cursor))"

fun spawn :: "nat \<Rightarrow> nat \<Rightarrow> ('e, 'r) pool \<Rightarrow> ('e, 'r) pool" where
  "spawn n 0 s = s"
| "spawn n (Suc k) s =
     (let (w, c) = take_next n (pl_cursor s) in
      spawn n k (s\<lparr>pl_workers := pl_workers s @ [w], pl_cursor := c\<rparr>))"

definition start_pool :: "nat \<Rightarrow> int \<Rightarrow> ('e, 'r) pool" where
  "start_pool n concurrency =
     spawn n (worker_count n concurrency)
       \<lparr>pl_cursor = 0, pl_workers = [], pl_results = replicate n None, pl_rejection = None\<rparr>"

text \<open>The promise awaited by the worker \<open>w\<close> settles: \<open>task\<close> gives the outcome for each
  item.  \<open>Promise.all\<close> keeps the first rejection.\<close>

definition settle :: "nat \<Rightarrow> (nat \<Rightarrow> 'e + 'r) \<Rightarrow> nat \<Rightarrow> ('e, 'r) pool \<Rightarrow> ('e, 'r) pool" where
  "settle n task w s =
     (case pl_workers s ! w of
        Awaiting index \<Rightarrow>
          (case task index of
             Inr r \<Rightarrow>
               (let (w', c) = take_next n (pl_cursor s) in
                s\<lparr>pl_results := (pl_results s)[index := Some r], pl_cursor := c,
                  pl_workers := (pl_workers s)[w := w']\<rparr>)
           | Inl e \<Rightarrow>
               s\<lparr>pl_workers := (pl_workers s)[w := Rejected index],
                 pl_rejection := (case pl_rejection s of None \<Rightarrow> Some e | Some e' \<Rightarrow> Some e')\<rparr>)
      | _ \<Rightarrow> s)"

inductive pool_step :: "nat \<Rightarrow> (nat \<Rightarrow> 'e + 'r) \<Rightarrow> ('e, 'r) pool \<Rightarrow> ('e, 'r) pool \<Rightarrow> bool"
  for n task where
  settles: "w < length (pl_workers s) \<Longrightarrow> pl_workers s ! w = Awaiting index \<Longrightarrow>
    pool_step n task s (settle n task w s)"

text \<open>The promise of the call: pending, rejected, or fulfilled with the results.\<close>

definition pool_outcome :: "('e, 'r) pool \<Rightarrow> ('e + 'r option list) option" where
  "pool_outcome s =
     (case pl_rejection s of
        Some e \<Rightarrow> Some (Inl e)
      | None \<Rightarrow> if list_all (\<lambda>w. w = Finished) (pl_workers s) then Some (Inr (pl_results s)) else None)"

text \<open>A run for a given order in which the workers are served.\<close>

definition run_pool :: "nat \<Rightarrow> int \<Rightarrow> (nat \<Rightarrow> 'e + 'r) \<Rightarrow> nat list \<Rightarrow> ('e, 'r) pool" where
  "run_pool n concurrency task order = fold (settle n task) order (start_pool n concurrency)"

section \<open>Invariant\<close>

fun in_flight :: "worker \<Rightarrow> nat list" where
  "in_flight (Awaiting i) = [i]"
| "in_flight _ = []"

fun owned :: "worker \<Rightarrow> nat list" where
  "owned (Awaiting i) = [i]"
| "owned (Rejected i) = [i]"
| "owned Finished = []"

definition flying :: "('e, 'r) pool \<Rightarrow> nat list" where
  "flying s = concat (map in_flight (pl_workers s))"

definition stored :: "('e, 'r) pool \<Rightarrow> nat set" where
  "stored s = {i. i < length (pl_results s) \<and> pl_results s ! i \<noteq> None}"

definition taken :: "('e, 'r) pool \<Rightarrow> nat list" where
  "taken s = concat (map owned (pl_workers s))"

text \<open>Every item below the cursor is with exactly one worker or has its result; a worker finishes
  only when the cursor is at the end.\<close>

definition pool_shape :: "nat \<Rightarrow> nat \<Rightarrow> ('e, 'r) pool \<Rightarrow> bool" where
  "pool_shape n k s \<longleftrightarrow>
     length (pl_workers s) = k \<and> length (pl_results s) = n \<and> pl_cursor s \<le> n \<and>
     distinct (taken s) \<and> set (taken s) \<inter> stored s = {} \<and> set (taken s) \<union> stored s = {..<pl_cursor s} \<and>
     (Finished \<in> set (pl_workers s) \<longrightarrow> pl_cursor s = n)"

text \<open>The stored results and the rejection are outcomes of the tasks.\<close>

definition pool_values :: "(nat \<Rightarrow> 'e + 'r) \<Rightarrow> ('e, 'r) pool \<Rightarrow> bool" where
  "pool_values task s \<longleftrightarrow>
     (\<forall>i\<in>stored s. \<exists>r. pl_results s ! i = Some r \<and> task i = Inr r) \<and>
     (\<forall>i. Rejected i \<in> set (pl_workers s) \<longrightarrow> (\<exists>e. task i = Inl e)) \<and>
     (case pl_rejection s of
        None \<Rightarrow> \<forall>i. Rejected i \<notin> set (pl_workers s)
      | Some e \<Rightarrow> \<exists>i. Rejected i \<in> set (pl_workers s) \<and> task i = Inl e)"

lemma pool_step_cases:
  assumes "pool_step n task s t"
  obtains (stored) us i vs r where "pl_workers s = us @ Awaiting i # vs" and "task i = Inr r"
    and "t = s\<lparr>pl_results := (pl_results s)[i := Some r], pl_cursor := snd (take_next n (pl_cursor s)),
            pl_workers := us @ fst (take_next n (pl_cursor s)) # vs\<rparr>"
  | (rejected) us i vs e where "pl_workers s = us @ Awaiting i # vs" and "task i = Inl e"
    and "t = s\<lparr>pl_workers := us @ Rejected i # vs,
            pl_rejection := (case pl_rejection s of None \<Rightarrow> Some e | Some e' \<Rightarrow> Some e')\<rparr>"
  using assms
proof cases
  case (settles w i)
  define us vs where "us = take w (pl_workers s)" and "vs = drop (Suc w) (pl_workers s)"
  have ws: "pl_workers s = us @ Awaiting i # vs" "length us = w"
    using settles id_take_nth_drop [of w "pl_workers s"] by (simp_all add: us_def vs_def)
  then have u: "(pl_workers s)[w := x] = us @ x # vs" for x by (metis list_update_length)
  show ?thesis
  proof (cases "task i")
    case (Inl e)
    then show ?thesis using rejected [OF ws(1) Inl] settles u by (simp add: settle_def)
  next
    case (Inr r)
    then show ?thesis using stored [OF ws(1) Inr] settles u by (simp add: settle_def split: prod.splits)
  qed
qed

lemma stored_update:
  "i < length (pl_results s) \<Longrightarrow>
   stored (s\<lparr>pl_results := (pl_results s)[i := Some r], pl_cursor := c, pl_workers := ws\<rparr>) = insert i (stored s)"
  by (auto simp: stored_def nth_list_update)

lemma stored_other [simp]:
  "stored (s\<lparr>pl_workers := ws, pl_cursor := c\<rparr>) = stored s"
  "stored (s\<lparr>pl_workers := ws, pl_rejection := e\<rparr>) = stored s"
  by (simp_all add: stored_def)

lemma pool_shapeD:
  assumes "pool_shape n k s"
  shows "length (pl_workers s) = k" "length (pl_results s) = n" "pl_cursor s \<le> n" "distinct (taken s)"
    and "i \<in> set (taken s) \<Longrightarrow> i < pl_cursor s" "i \<in> set (taken s) \<Longrightarrow> i \<notin> stored s"
    and "set (taken s) \<union> stored s = {..<pl_cursor s}"
    and "Finished \<in> set (pl_workers s) \<Longrightarrow> pl_cursor s = n"
  using assms unfolding pool_shape_def by blast+

lemma pool_shape_step:
  assumes "pool_shape n k s" and "pool_step n task s t"
  shows "pool_shape n k t"
  using assms(2)
proof (cases rule: pool_step_cases)
  case (stored us i vs r)
  have i: "i \<in> set (taken s)" using stored by (simp add: taken_def)
  then have "i < length (pl_results s)" using pool_shapeD [OF assms(1)] by (metis order_less_le_trans)
  note st = stored_update [OF this]
  show ?thesis
  proof (cases "pl_cursor s < n")
    case True
    have "pl_cursor s \<notin> set (taken s) \<union> stored s" using assms(1) by (simp add: pool_shape_def)
    with assms(1) stored True show ?thesis
      by (auto simp: pool_shape_def st taken_def take_next_def)
  next
    case False
    with assms(1) stored show ?thesis
      by (auto simp: pool_shape_def st taken_def take_next_def)
  qed
next
  case (rejected us i vs e)
  with assms(1) show ?thesis by (auto simp: pool_shape_def taken_def)
qed

lemma pool_values_step:
  assumes "pool_shape n k s" and "pool_values task s" and "pool_step n task s t"
  shows "pool_values task t"
  using assms(3)
proof (cases rule: pool_step_cases)
  case (stored us i vs r)
  have "i \<in> set (taken s)" using stored by (simp add: taken_def)
  then have l: "i < length (pl_results s)" using pool_shapeD [OF assms(1)] by (metis order_less_le_trans)
  have w: "Rejected j \<in> set (pl_workers t) \<longleftrightarrow> Rejected j \<in> set (pl_workers s)" for j
    using stored by (auto simp: take_next_def)
  have r: "pl_results t ! j = (if j = i then Some r else pl_results s ! j)" for j
    using stored l by (simp add: nth_list_update)
  have st: "stored t = insert i (stored s)" using stored stored_update [OF l] by simp
  have "pl_rejection t = pl_rejection s" using stored by simp
  with assms(2) show ?thesis unfolding pool_values_def w st r using stored(2) by simp
next
  case (rejected us i vs e)
  with assms(2) show ?thesis by (auto simp: pool_values_def split: option.splits)
qed

lemma spawn_shape:
  assumes "pl_cursor s + k \<le> n"
  shows "spawn n k s = s\<lparr>pl_cursor := pl_cursor s + k,
    pl_workers := pl_workers s @ map Awaiting [pl_cursor s..<pl_cursor s + k]\<rparr>"
  using assms
proof (induction k arbitrary: s)
  case (Suc k)
  then show ?case by (simp add: take_next_def upt_rec [of "pl_cursor s"] del: upt_Suc)
qed simp

lemma start_pool_eq:
  "start_pool n c = \<lparr>pl_cursor = worker_count n c, pl_workers = map Awaiting [0..<worker_count n c],
     pl_results = replicate n None, pl_rejection = None\<rparr>"
  by (simp add: start_pool_def spawn_shape worker_count_def)

lemma start_pool_inv:
  "pool_shape n (worker_count n c) (start_pool n c)" "pool_values task (start_pool n c)"
proof -
  have "concat (map owned (map Awaiting xs)) = xs" for xs by (induction xs) simp_all
  then show "pool_shape n (worker_count n c) (start_pool n c)"
    by (auto simp: start_pool_eq pool_shape_def taken_def stored_def worker_count_def)
  show "pool_values task (start_pool n c)"
    by (auto simp: start_pool_eq pool_values_def stored_def)
qed

lemma pool_reachable:
  assumes "(pool_step n task)\<^sup>*\<^sup>* (start_pool n c) s"
  shows "pool_shape n (worker_count n c) s" and "pool_values task s"
proof -
  from assms have "pool_shape n (worker_count n c) s \<and> pool_values task s"
    by (induction rule: rtranclp_induct)
      (use start_pool_inv pool_shape_step pool_values_step in blast)+
  then show "pool_shape n (worker_count n c) s" and "pool_values task s" by simp_all
qed

text \<open>Serving the workers in any order is a run; a worker that awaits nothing is passed over.\<close>

lemma settle_step:
  assumes "w < length (pl_workers s)"
  shows "(pool_step n task)\<^sup>*\<^sup>* s (settle n task w s)" and "length (pl_workers (settle n task w s)) = length (pl_workers s)"
proof -
  show "(pool_step n task)\<^sup>*\<^sup>* s (settle n task w s)"
  proof (cases "pl_workers s ! w")
    case (Awaiting i)
    with assms have "pool_step n task s (settle n task w s)" by (rule settles)
    then show ?thesis by blast
  qed (simp_all add: settle_def)
  show "length (pl_workers (settle n task w s)) = length (pl_workers s)"
    by (simp add: settle_def split: worker.split sum.split prod.split)
qed

lemma run_pool_reachable:
  assumes "list_all (\<lambda>w. w < worker_count n c) order"
  shows "(pool_step n task)\<^sup>*\<^sup>* (start_pool n c) (run_pool n c task order)"
proof -
  have "list_all (\<lambda>w. w < length (pl_workers s)) ws \<Longrightarrow> (pool_step n task)\<^sup>*\<^sup>* s (fold (settle n task) ws s)" for s ws
  proof (induction ws arbitrary: s)
    case (Cons w ws)
    then have w: "w < length (pl_workers s)" by simp
    have "(pool_step n task)\<^sup>*\<^sup>* (settle n task w s) (fold (settle n task) ws (settle n task w s))"
      using Cons settle_step(2) [OF w, of n task] by simp
    with settle_step(1) [OF w, of n task] show ?case by simp
  qed simp
  from this [where s = "start_pool n c"] assms show ?thesis by (simp add: run_pool_def start_pool_eq)
qed

section \<open>Bounds\<close>

lemma flying_sub: "set (flying s) \<subseteq> set (taken s)" "distinct (taken s) \<Longrightarrow> distinct (flying s)"
  "length (flying s) \<le> length (pl_workers s)"
proof -
  have sub: "set (in_flight w) \<subseteq> set (owned w)" for w by (cases w) auto
  then show "set (flying s) \<subseteq> set (taken s)" by (auto simp: flying_def taken_def)
  have "distinct (concat (map owned ws)) \<Longrightarrow> distinct (concat (map in_flight ws))" for ws
  proof (induction ws)
    case (Cons w ws)
    moreover have "set (concat (map in_flight ws)) \<subseteq> set (concat (map owned ws))" using sub by auto
    moreover have "distinct (in_flight w)" by (cases w) auto
    ultimately show ?case using sub [of w] by auto
  qed simp
  then show "distinct (taken s) \<Longrightarrow> distinct (flying s)" by (simp add: flying_def taken_def)
  have "length (concat (map in_flight ws)) \<le> length ws" for ws
  proof (induction ws)
    case (Cons w ws)
    moreover have "length (in_flight w) \<le> 1" by (cases w) auto
    ultimately show ?case by simp
  qed simp
  then show "length (flying s) \<le> length (pl_workers s)" by (simp add: flying_def)
qed

text \<open>At most the given number of tasks run at the same time, never more than there are items;
  no two of them work on the same item, and none on an item that has its result.\<close>

theorem pool_bounds:
  assumes "(pool_step n task)\<^sup>*\<^sup>* (start_pool n c) s"
  shows "length (flying s) \<le> nat (max 1 c) \<and> length (flying s) \<le> n \<and> distinct (flying s) \<and>
    set (flying s) \<subseteq> {..<n} - stored s \<and> pl_cursor s \<le> n"
proof -
  note inv = pool_shapeD [OF pool_reachable(1) [OF assms]]
  have k: "length (flying s) \<le> nat (max 1 c)" "length (flying s) \<le> n"
    using inv(1) flying_sub(3) [of s] by (simp_all add: worker_count_def)
  have "i < n \<and> i \<notin> stored s" if "i \<in> set (flying s)" for i
    using inv(3) inv(5, 6) [of i] flying_sub(1) [of s] that by force
  then have "set (flying s) \<subseteq> {..<n} - stored s" by blast
  with k inv(3) flying_sub(2) [OF inv(4)] show ?thesis by (intro conjI)
qed

theorem pool_bounds_witness:
  "length (flying (run_pool 3 2 (\<lambda>i. Inr i :: nat + nat) [1])) \<le> nat (max 1 2)"
proof -
  have "list_all (\<lambda>w. w < worker_count 3 2) [1]" by (simp add: worker_count_def)
  from pool_bounds [OF run_pool_reachable [OF this]] show ?thesis by blast
qed

section \<open>Refinement of a map\<close>

text \<open>The specification: with no failing task the results in the order of the items, otherwise the
  error of some task.\<close>

definition map_spec :: "nat \<Rightarrow> (nat \<Rightarrow> 'e + 'r) \<Rightarrow> ('e + 'r option list) set" where
  "map_spec n task =
     (if \<exists>i<n. isl (task i) then {Inl e |e. \<exists>i<n. task i = Inl e}
      else {Inr (map (\<lambda>i. Some (projr (task i))) [0..<n])})"

lemma all_finished:
  assumes "pool_shape n (worker_count n c) s" and "list_all (\<lambda>w. w = Finished) (pl_workers s)"
  shows "stored s = {..<n}"
proof (cases "n = 0")
  case True
  with assms(1) show ?thesis by (simp add: stored_def pool_shape_def)
next
  case False
  have t: "taken s = []" using assms(2) by (auto simp: taken_def list_all_iff)
  from False have "0 < worker_count n c" by (simp add: worker_count_def)
  then have "pl_workers s \<noteq> []" using assms(1) by (auto simp: pool_shape_def)
  then have "Finished \<in> set (pl_workers s)" using assms(2) by (cases "pl_workers s") auto
  with assms(1) t show ?thesis by (simp add: pool_shape_def)
qed

lemma pool_results_map:
  assumes "pool_shape n k s" and "pool_values task s" and "stored s = {..<n}"
  shows "pl_results s = map (\<lambda>i. Some (projr (task i))) [0..<n] \<and> (\<forall>i<n. \<not> isl (task i))"
proof -
  have r: "\<exists>r. pl_results s ! i = Some r \<and> task i = Inr r" if "i < n" for i
    using assms(2, 3) that by (simp add: pool_values_def)
  have "pl_results s ! i = Some (projr (task i)) \<and> \<not> isl (task i)" if "i < n" for i
    using r [OF that] by auto
  moreover have "length (pl_results s) = n" using assms(1) by (simp add: pool_shape_def)
  ultimately show ?thesis by (simp add: list_eq_iff_nth_eq)
qed

text \<open>C6. Whatever the order in which the tasks settle, the promise of the call is fulfilled with
  the results of all tasks in the order of the items, or, only when a task fails, rejected with the
  error of a task.\<close>

theorem pool_refines_map:
  assumes "(pool_step n task)\<^sup>*\<^sup>* (start_pool n c) s" and "pool_outcome s = Some out"
  shows "out \<in> map_spec n task"
proof (cases "pl_rejection s")
  case None
  then have f: "list_all (\<lambda>w. w = Finished) (pl_workers s)" and out: "out = Inr (pl_results s)"
    using assms(2) by (simp_all add: pool_outcome_def split: if_splits)
  note inv = pool_reachable [OF assms(1)]
  from pool_results_map [OF inv all_finished [OF inv(1) f]] out show ?thesis by (auto simp: map_spec_def)
next
  case (Some e)
  then have out: "out = Inl e" using assms(2) by (simp add: pool_outcome_def)
  note inv = pool_reachable [OF assms(1)]
  from inv(2) Some obtain i where i: "Rejected i \<in> set (pl_workers s)" "task i = Inl e"
    by (auto simp: pool_values_def)
  then have "i \<in> set (taken s)" by (force simp: taken_def)
  then have "i < n" using pool_shapeD(3, 5) [OF inv(1)] by (metis order_less_le_trans)
  with i out show ?thesis by (auto simp: map_spec_def)
qed

theorem pool_refines_map_witness:
  "pool_outcome (run_pool 3 2 (\<lambda>i. Inr (i * i) :: nat + nat) [1, 0, 1]) = Some (Inr [Some 0, Some 1, Some 4]) \<and>
   Inr [Some 0, Some 1, Some 4] \<in> map_spec 3 (\<lambda>i. Inr (i * i) :: nat + nat)"
proof -
  have o: "pool_outcome (run_pool 3 2 (\<lambda>i. Inr (i * i) :: nat + nat) [1, 0, 1]) = Some (Inr [Some 0, Some 1, Some 4])"
    by code_simp
  have "list_all (\<lambda>w. w < worker_count 3 2) [1, 0, 1]" by (simp add: worker_count_def)
  from pool_refines_map [OF run_pool_reachable [OF this] o] o show ?thesis by (rule conjI [rotated])
qed

section \<open>Termination and progress\<close>

lemma step_count:
  "pool_step n task s t \<Longrightarrow> pl_cursor t + length (flying s) = Suc (pl_cursor s + length (flying t))"
  by (elim pool_step_cases) (auto simp: flying_def take_next_def)

lemma steps_count:
  "(pool_step n task ^^ m) (start_pool n c) s \<Longrightarrow> pl_cursor s = length (flying s) + m"
proof (induction m arbitrary: s)
  case 0
  have "concat (map in_flight (map Awaiting xs)) = xs" for xs by (induction xs) simp_all
  with 0 show ?case by (auto simp: start_pool_eq flying_def)
next
  case (Suc m)
  then obtain t where "(pool_step n task ^^ m) (start_pool n c) t" "pool_step n task t s" by auto
  with Suc.IH [of t] step_count [of n task t s] show ?case by simp
qed

lemma no_step: "(\<nexists>t. pool_step n task s t) \<longleftrightarrow> flying s = []"
proof
  assume s: "\<nexists>t. pool_step n task s t"
  have "in_flight w = []" if "w \<in> set (pl_workers s)" for w
  proof (cases w)
    case (Awaiting i)
    with that obtain k where "k < length (pl_workers s)" "pl_workers s ! k = Awaiting i"
      by (auto simp: in_set_conv_nth)
    then have "pool_step n task s (settle n task k s)" by (rule settles)
    with s show ?thesis by blast
  qed simp_all
  then show "flying s = []" by (simp add: flying_def)
next
  assume "flying s = []"
  then show "\<nexists>t. pool_step n task s t" by (auto simp: flying_def elim!: pool_step_cases)
qed

lemma stuck_settled:
  assumes "pool_shape n k s" and "pool_values task s" and "flying s = []"
  shows "pool_outcome s \<noteq> None"
proof (cases "pl_rejection s")
  case None
  have "w = Finished" if "w \<in> set (pl_workers s)" for w
  proof -
    have "in_flight w = []" using that assms(3) by (simp add: flying_def)
    moreover have "\<forall>i. w \<noteq> Rejected i" using that assms(2) None by (auto simp: pool_values_def)
    ultimately show ?thesis by (cases w) auto
  qed
  then have "list_all (\<lambda>w. w = Finished) (pl_workers s)" by (simp add: list_all_iff)
  with None show ?thesis by (simp add: pool_outcome_def)
qed (simp add: pool_outcome_def)

text \<open>A run has at most one step per item: the number of its steps is the number of items taken
  less those in flight.  When it cannot go on and no task failed, it made one step for every item.\<close>

theorem pool_terminates:
  assumes "(pool_step n task ^^ m) (start_pool n c) s"
  shows "m + length (flying s) = pl_cursor s \<and> m \<le> n \<and>
    ((\<nexists>t. pool_step n task s t) \<and> pl_rejection s = None \<longrightarrow> m = n)"
proof -
  have r: "(pool_step n task)\<^sup>*\<^sup>* (start_pool n c) s" using assms by (auto simp: rtranclp_power)
  note inv = pool_reachable [OF r]
  have c: "pl_cursor s = length (flying s) + m" by (rule steps_count [OF assms])
  have "pl_cursor s = n" if f: "flying s = []" and "pl_rejection s = None"
  proof -
    have "list_all (\<lambda>w. w = Finished) (pl_workers s)"
      using stuck_settled [OF inv f] that by (auto simp: pool_outcome_def split: if_splits)
    note st = all_finished [OF inv(1) this]
    have "stored s \<subseteq> {..<pl_cursor s}" using pool_shapeD(7) [OF inv(1)] by blast
    with st pool_shapeD(3) [OF inv(1)] show ?thesis by simp
  qed
  with c pool_shapeD(3) [OF inv(1)] show ?thesis unfolding no_step by simp
qed

theorem pool_terminates_witness:
  "(pool_step 1 (\<lambda>i. Inr i :: nat + nat) ^^ 1) (start_pool 1 8) (run_pool 1 8 (\<lambda>i. Inr i) [0]) \<and> 1 \<le> (1 :: nat)"
proof -
  have "pool_step 1 (\<lambda>i. Inr i :: nat + nat) (start_pool 1 8) (run_pool 1 8 (\<lambda>i. Inr i) [0])"
    using settles [of 0 "start_pool 1 8" 0 1] by (simp add: run_pool_def start_pool_eq worker_count_def)
  then have s: "(pool_step 1 (\<lambda>i. Inr i :: nat + nat) ^^ 1) (start_pool 1 8) (run_pool 1 8 (\<lambda>i. Inr i) [0])"
    by (simp only: relpowp_1)
  from pool_terminates [OF this] have "1 \<le> (1 :: nat)" by (elim conjE)
  with s show ?thesis by (rule conjI)
qed

text \<open>C32. Every run that goes on as long as it can settles the promise of the call after at most as
  many steps as there are items.\<close>

theorem pool_settles:
  assumes "run 0 = start_pool n c"
    and "\<forall>i. if flying (run i) = [] then run (Suc i) = run i else pool_step n task (run i) (run (Suc i))"
  shows "\<exists>i\<le>n. flying (run i) = [] \<and> pool_outcome (run i) \<noteq> None"
proof -
  have steps: "(pool_step n task ^^ i) (start_pool n c) (run i)" if "\<forall>j<i. flying (run j) \<noteq> []" for i
    using that
  proof (induction i)
    case (Suc i)
    then have "pool_step n task (run i) (run (Suc i))" using assms(2) by (metis lessI)
    with Suc show ?case by auto
  qed (use assms(1) in simp)
  have "\<exists>i\<le>n. flying (run i) = []"
  proof (rule ccontr)
    assume "\<not> (\<exists>i\<le>n. flying (run i) = [])"
    then have f: "\<forall>j<Suc n. flying (run j) \<noteq> []" by auto
    from steps [OF f] have s: "(pool_step n task ^^ Suc n) (start_pool n c) (run (Suc n))" .
    then have "(pool_step n task)\<^sup>*\<^sup>* (start_pool n c) (run (Suc n))" by (rule relpowp_imp_rtranclp)
    then have "pl_cursor (run (Suc n)) \<le> n" by (rule pool_shapeD(3) [OF pool_reachable(1)])
    with steps_count [OF s] show False by simp
  qed
  then obtain i where i: "flying (run i) = []" "i \<le> n" by auto
  define l where "l = (LEAST i. flying (run i) = [])"
  have l: "flying (run l) = []" "\<forall>j<l. flying (run j) \<noteq> []"
    unfolding l_def using i(1) by (auto intro: LeastI dest: not_less_Least)
  have "l \<le> n" using i unfolding l_def by (meson Least_le le_trans)
  have "(pool_step n task)\<^sup>*\<^sup>* (start_pool n c) (run l)" using steps [OF l(2)] by (rule relpowp_imp_rtranclp)
  from stuck_settled [OF pool_reachable [OF this] l(1)] l(1) \<open>l \<le> n\<close> show ?thesis by blast
qed

theorem pool_settles_witness:
  "\<exists>i\<le>1. pool_outcome (run_pool 1 8 (\<lambda>i. Inr i :: nat + nat) (replicate i 0)) \<noteq> None"
proof -
  let ?task = "\<lambda>i. Inr i :: nat + nat"
  let ?run = "\<lambda>i. run_pool 1 8 ?task (replicate i 0)"
  have 0: "?run 0 = start_pool 1 8" by (simp add: run_pool_def)
  have 1: "?run (Suc i) = run_pool 1 8 ?task [0]" for i
  proof (induction i)
    case (Suc i)
    have "?run (Suc (Suc i)) = settle 1 ?task 0 (?run (Suc i))"
      by (simp only: run_pool_def replicate_append_same [symmetric] replicate_Suc [of "Suc i"] fold_append) simp
    then show ?case unfolding Suc by (simp add: run_pool_def start_pool_eq worker_count_def settle_def take_next_def)
  qed simp
  have e: "flying (run_pool 1 8 ?task [0]) = []"
    by (simp add: run_pool_def start_pool_eq worker_count_def settle_def take_next_def flying_def)
  have s: "pool_step 1 ?task (start_pool 1 8) (run_pool 1 8 ?task [0])"
    using settles [of 0 "start_pool 1 8" 0 1] by (simp add: run_pool_def start_pool_eq worker_count_def)
  have f: "flying (start_pool 1 8 :: (nat, nat) pool) \<noteq> []"
    by (simp add: start_pool_eq worker_count_def flying_def)
  have "\<forall>i. if flying (?run i) = [] then ?run (Suc i) = ?run i else pool_step 1 ?task (?run i) (?run (Suc i))"
  proof
    fix i
    show "if flying (?run i) = [] then ?run (Suc i) = ?run i else pool_step 1 ?task (?run i) (?run (Suc i))"
    proof (cases i)
      case 0
      then show ?thesis using f s unfolding 1 by (simp add: run_pool_def)
    next
      case (Suc k)
      then show ?thesis using e by (simp only: 1) simp
    qed
  qed
  from pool_settles [OF 0 this] show ?thesis by blast
qed

section \<open>Contract for clients\<close>

text \<open>What a caller whose tasks never fail relies on: the result is determined, in the order of the
  items, and there is one.\<close>

locale concurrent_map =
  fixes possible :: "nat \<Rightarrow> (nat \<Rightarrow> 'r) \<Rightarrow> 'r list \<Rightarrow> bool"
  assumes possible_map: "possible n f rs \<Longrightarrow> rs = map f [0..<n]"
    and possible_total: "\<exists>rs. possible n f rs"
begin

lemma possible_iff: "possible n f rs \<longleftrightarrow> rs = map f [0..<n]"
  using possible_map possible_total by metis

lemma possible_split:
  assumes "possible n f rs"
  shows "length (filter P rs) + length (filter (\<lambda>r. \<not> P r) rs) = n"
  using assms sum_length_filter_compl [of P rs] by (simp add: possible_iff)

lemma possible_flat:
  assumes "possible n f rs"
  shows "concat (map g rs) = concat (map (\<lambda>i. g (f i)) [0..<n])"
  using assms by (simp add: possible_iff comp_def)

end

definition pool_result :: "int \<Rightarrow> nat \<Rightarrow> (nat \<Rightarrow> 'r) \<Rightarrow> 'r list \<Rightarrow> bool" where
  "pool_result c n f rs \<longleftrightarrow>
     (\<exists>s. (pool_step n (\<lambda>i. Inr (f i) :: unit + 'r))\<^sup>*\<^sup>* (start_pool n c) s \<and>
        pool_outcome s = Some (Inr (map Some rs)))"

lemma pool_runs_out:
  "\<exists>t. (pool_step n task)\<^sup>*\<^sup>* (start_pool n c) t \<and> flying t = []"
proof (rule ccontr)
  assume n: "\<not> ?thesis"
  have "\<exists>s. (pool_step n task ^^ m) (start_pool n c) s" for m
  proof (induction m)
    case (Suc m)
    then obtain s where s: "(pool_step n task ^^ m) (start_pool n c) s" by blast
    then have "(pool_step n task)\<^sup>*\<^sup>* (start_pool n c) s" by (rule relpowp_imp_rtranclp)
    with n have "flying s \<noteq> []" by blast
    with no_step [of n task s] obtain t where "pool_step n task s t" by blast
    with s show ?case by auto
  qed simp
  then obtain s where s: "(pool_step n task ^^ Suc n) (start_pool n c) s" by blast
  then have "(pool_step n task)\<^sup>*\<^sup>* (start_pool n c) s" by (rule relpowp_imp_rtranclp)
  then have "pl_cursor s \<le> n" by (rule pool_shapeD(3) [OF pool_reachable(1)])
  with steps_count [OF s] show False by simp
qed

lemma pool_result_intro:
  assumes "(pool_step n (\<lambda>i. Inr (f i) :: unit + 'r))\<^sup>*\<^sup>* (start_pool n c) s" and "pool_outcome s = Some (Inr results)"
  shows "pool_result c n f (List.map_filter id results)"
proof -
  note inv = pool_reachable [OF assms(1)]
  from assms(2) have f: "list_all (\<lambda>w. w = Finished) (pl_workers s)" and e: "pl_results s = results"
    by (auto simp: pool_outcome_def split: option.splits if_splits)
  have r: "results = map Some (map f [0..<n])"
    using pool_results_map [OF inv all_finished [OF inv(1) f]] e by simp
  have "List.map_filter id (map Some xs) = xs" for xs :: "'r list" by (induction xs) simp_all
  then have "results = map Some (List.map_filter id results)" unfolding r by (simp only:)
  with assms show ?thesis unfolding pool_result_def by metis
qed

lemma pool_result_map: "pool_result c n f rs \<Longrightarrow> rs = map f [0..<n]"
proof -
  assume "pool_result c n f rs"
  then obtain s where r: "(pool_step n (\<lambda>i. Inr (f i) :: unit + 'a))\<^sup>*\<^sup>* (start_pool n c) s"
    and o: "pool_outcome s = Some (Inr (map Some rs))" by (auto simp: pool_result_def)
  from o have f: "list_all (\<lambda>w. w = Finished) (pl_workers s)" and e: "pl_results s = map Some rs"
    by (auto simp: pool_outcome_def split: option.splits if_splits)
  note inv = pool_reachable [OF r]
  from pool_results_map [OF inv all_finished [OF inv(1) f]] e have "map Some rs = map Some (map f [0..<n])"
    by simp
  then show ?thesis by (simp only: inj_map_eq_map [OF inj_Some])
qed

lemma pool_result_total: "\<exists>rs. pool_result c n f rs"
proof -
  let ?task = "\<lambda>i. Inr (f i) :: unit + 'a"
  obtain t where t: "(pool_step n ?task)\<^sup>*\<^sup>* (start_pool n c) t" "flying t = []" using pool_runs_out by blast
  note inv = pool_reachable [OF t(1)]
  have "pl_rejection t = None" using inv(2) by (auto simp: pool_values_def split: option.splits)
  moreover from stuck_settled [OF inv t(2)] this have f: "list_all (\<lambda>w. w = Finished) (pl_workers t)"
    by (auto simp: pool_outcome_def split: if_splits)
  moreover from pool_results_map [OF inv all_finished [OF inv(1) f]] have "pl_results t = map Some (map f [0..<n])"
    by simp
  ultimately have "pool_outcome t = Some (Inr (map Some (map f [0..<n])))" by (simp add: pool_outcome_def)
  with t(1) have "pool_result c n f (map f [0..<n])" unfolding pool_result_def by (intro exI conjI)
  then show ?thesis by (rule exI)
qed

interpretation pool: concurrent_map "pool_result c" for c
  by unfold_locales (rule pool_result_map, assumption, rule pool_result_total)

end
