(* ===== verification/Account_Run.thy ===== *)
theory Account_Run
  imports Account_Panel Async_Pool
begin

text \<open>
  The handlers of the account import panel that check the imported accounts, reset them, switch the
  monitor, import accounts and create accounts by authorization.

  A run of the checks takes one item after the other; the answers of the server to the requests
  for an item are the fields of a record, and the times are the values of the clock in
  milliseconds.  The import sends its requests through the pool of \<open>mapWithConcurrency\<close>.

  The properties: every item of a run of the checks ends with a definite status, and what is saved
  for it is what is shown; the import counts every account once, in whatever order the answers
  arrive, and it shows its progress at most a hundred times; and every state the handlers can
  reach, in any interleaving of their updates, is well-typed.
\<close>

section \<open>Checks\<close>

record CodexUsageResponse =
  us_success :: bool
  us_message :: "jstr option"
  us_reset_count :: "jnum option"
  us_last_reset_at :: "jnum option"
  us_available_count :: "jnum option"
  us_data :: "props option"

record ChannelBalanceResponse =
  bl_success :: bool
  bl_message :: "jstr option"
  bl_balance :: "jnum option"
  bl_currency :: "jstr option"

record ChannelTestResponse =
  ts_success :: bool
  ts_message :: "jstr option"
  ts_time :: "jnum option"
  ts_response_time :: "jnum option"

record CheckReplies =
  rp_usage :: "CodexUsageResponse reply"
  rp_balance :: "ChannelBalanceResponse reply"
  rp_test :: "ChannelTestResponse reply"
  rp_save :: "ActionResponse reply"
  rp_balance_now :: int
  rp_checked_now :: int

definition seconds :: "int \<Rightarrow> jnum" where
  "seconds ms = Fin (of_int (ms div 1000))"

definition item_type :: "ImportedChannelCheck \<Rightarrow> jnum option" where
  "item_type item = val (ck_type item)"

definition quota_error :: "jstr \<Rightarrow> ImportedChannelCheck" where
  "quota_error message = empty_patch\<lparr>ck_quotaStatus := Val Error, ck_quotaMessage := Val message\<rparr>"

text \<open>The usage of a Codex account; the summary may raise an exception.\<close>

definition usage_patch :: "Ui \<Rightarrow> ImportedChannelCheck \<Rightarrow> CodexUsageResponse reply \<Rightarrow> ImportedChannelCheck" where
  "usage_patch ui item reply =
     (case reply of
        Thrown e \<Rightarrow> quota_error (caught_text ui e ''Check failed'')
      | Reply response \<Rightarrow>
          if \<not> us_success response then quota_error (message_or ui (us_message response) ''Failed to fetch usage'')
          else
            case formatCodexUsageSummary (us_data response) of
              Inl e \<Rightarrow> quota_error (engine_message ui e)
            | Inr summary \<Rightarrow>
                empty_patch\<lparr>ck_quotaStatus := Val Success,
                  ck_quotaMessage := Val (if summary \<noteq> [] then summary else tr ui ''Usage fetched''),
                  ck_resetCount := Val (case us_reset_count response of
                      Some n \<Rightarrow> n
                    | None \<Rightarrow> (case val (ck_resetCount item) of Some n \<Rightarrow> n | None \<Rightarrow> Fin 0)),
                  ck_lastResetAt := (case us_last_reset_at response of
                      Some n \<Rightarrow> if num_truthy n then Val n else of_opt (val (ck_lastResetAt item))
                    | None \<Rightarrow> of_opt (val (ck_lastResetAt item))),
                  ck_providerResetCredits := of_opt (case us_available_count response of
                      Some n \<Rightarrow> Some n
                    | None \<Rightarrow> val (ck_providerResetCredits item))\<rparr>)"

definition or_usd :: "jstr option \<Rightarrow> jstr" where
  "or_usd currency = (case currency of Some c \<Rightarrow> if c \<noteq> [] then c else js ''USD'' | None \<Rightarrow> js ''USD'')"

definition balance_patch :: "Ui \<Rightarrow> int \<Rightarrow> ChannelBalanceResponse reply \<Rightarrow> ImportedChannelCheck" where
  "balance_patch ui now reply =
     (case reply of
        Thrown e \<Rightarrow> quota_error (caught_text ui e ''Check failed'')
      | Reply response \<Rightarrow>
          (case (bl_success response, bl_balance response) of
             (True, Some balance) \<Rightarrow>
               empty_patch\<lparr>ck_quotaStatus := Val Success,
                 ck_quotaMessage := Val (translate ui (js ''Balance: {{balance}} {{currency}}'')
                   [(js ''balance'', JStr (to_fixed 4 balance)),
                    (js ''currency'', JStr (or_usd (bl_currency response)))]),
                 ck_balance := Val balance, ck_balanceCurrency := Val (or_usd (bl_currency response)),
                 ck_balanceUpdatedTime := Val (seconds now)\<rparr>
           | _ \<Rightarrow> quota_error (message_or ui (bl_message response) ''Failed to query balance'')))"

definition quota_patch :: "Ui \<Rightarrow> ImportedChannelCheck \<Rightarrow> CheckReplies \<Rightarrow> ImportedChannelCheck" where
  "quota_patch ui item rp =
     (if item_type item = Some CODEX_CHANNEL_TYPE then usage_patch ui item (rp_usage rp)
      else balance_patch ui (rp_balance_now rp) (rp_balance rp))"

definition channel_error :: "jstr \<Rightarrow> ImportedChannelCheck" where
  "channel_error message = empty_patch\<lparr>ck_channelStatus := Val Error, ck_channelMessage := Val message\<rparr>"

definition test_patch :: "Ui \<Rightarrow> ChannelTestResponse reply \<Rightarrow> ImportedChannelCheck" where
  "test_patch ui reply =
     (case reply of
        Thrown e \<Rightarrow> channel_error (caught_text ui e ''Check failed'')
      | Reply response \<Rightarrow>
          if \<not> ts_success response then channel_error (message_or ui (ts_message response) ''Failed to test channel'')
          else
            let responseTime = (case ts_time response of
                Some n \<Rightarrow> n
              | None \<Rightarrow> (case ts_response_time response of Some n \<Rightarrow> n | None \<Rightarrow> NaN)) in
            empty_patch\<lparr>ck_channelStatus := Val Success, ck_responseTime := Val responseTime,
              ck_channelMessage := Val
                (if num_is_finite responseTime
                 then translate ui (js ''Response time: {{time}}s'') [(js ''time'', JStr (to_fixed 2 responseTime))]
                 else tr ui ''Channel test completed'')\<rparr>)"

definition skip_patch :: "Ui \<Rightarrow> int \<Rightarrow> ImportedChannelCheck" where
  "skip_patch ui now =
     empty_patch\<lparr>ck_quotaStatus := Val Skipped, ck_quotaMessage := Val (tr ui ''Channel id missing''),
       ck_channelStatus := Val Skipped, ck_channelMessage := Val (tr ui ''Channel id missing''),
       ck_lastCheckedAt := Val (seconds now)\<rparr>"

text \<open>The patch of the item at the end of its checks.\<close>

definition final_patch :: "Ui \<Rightarrow> ImportedChannelCheck \<Rightarrow> CheckReplies \<Rightarrow> ImportedChannelCheck" where
  "final_patch ui item rp =
     spread_item (quota_patch ui item rp)
       (if firstImportModel (val (ck_models item)) = None
        then empty_patch\<lparr>ck_channelStatus := Val Skipped,
          ck_channelMessage := Val (tr ui ''Configure models in Channels first''),
          ck_lastCheckedAt := Val (seconds (rp_checked_now rp))\<rparr>
        else spread_item (test_patch ui (rp_test rp))
          (empty_patch\<lparr>ck_lastCheckedAt := Val (seconds (rp_checked_now rp))\<rparr>))"

definition persistMonitorSnapshot ::
  "Ui \<Rightarrow> ImportedChannelCheck \<Rightarrow> ImportedChannelCheck \<Rightarrow> ActionResponse reply \<Rightarrow> update list" where
  "persistMonitorSnapshot ui item patch reply =
     (if \<not> has_id item then []
      else
        (case val (ck_channelId item) of
           Some i \<Rightarrow> [effect (SaveMonitor i (defined_props (createMonitorSnapshot item patch)))]
         | None \<Rightarrow> []) @
        (case reply of
           Thrown e \<Rightarrow> [effect (ToastError (caught_text ui e ''Failed to save monitor state''))]
         | Reply response \<Rightarrow>
             if \<not> ar_success response
             then [effect (ToastError (message_or ui (ar_message response) ''Failed to save monitor state''))]
             else []))"

definition quota_request :: "ImportedChannelCheck \<Rightarrow> effect" where
  "quota_request item =
     (if item_type item = Some CODEX_CHANNEL_TYPE then GetCodexUsage (item_id item) else UpdateChannelBalance (item_id item))"

definition test_request :: "ImportedChannelCheck \<Rightarrow> jstr \<Rightarrow> effect" where
  "test_request item testModel =
     TestChannel (item_id item) testModel
       (if item_type item = Some CODEX_CHANNEL_TYPE then Some (js ''openai-response'') else None)"

definition check_item :: "Ui \<Rightarrow> ImportedChannelCheck \<Rightarrow> CheckReplies \<Rightarrow> update list" where
  "check_item ui item rp =
     (let update = updateCheckItem (item_key item); finalPatch = final_patch ui item rp in
      if \<not> has_id item then [update (skip_patch ui (rp_checked_now rp))]
      else
        [update (empty_patch\<lparr>ck_quotaStatus := Val Running, ck_quotaMessage := Val (tr ui ''Checking...'')\<rparr>),
         effect (quota_request item), update (quota_patch ui item rp)] @
        (case firstImportModel (val (ck_models item)) of
           None \<Rightarrow> []
         | Some testModel \<Rightarrow>
             [update (empty_patch\<lparr>ck_channelStatus := Val Running,
                ck_channelMessage := Val (tr ui ''Checking connection'')\<rparr>),
              effect (test_request item testModel)]) @
        [update finalPatch] @
        persistMonitorSnapshot ui item finalPatch (rp_save rp))"

text \<open>The replies for the item at each position of the list.\<close>

definition check_items :: "Ui \<Rightarrow> ImportedChannelCheck list \<Rightarrow> (nat \<Rightarrow> CheckReplies) \<Rightarrow> update list" where
  "check_items ui items replies =
     concat (map (\<lambda>(n, item). check_item ui item (replies n)) (enumerate 0 items))"

definition runPostImportChecks ::
  "Ui \<Rightarrow> bool \<Rightarrow> ImportedChannelCheck list \<Rightarrow> (nat \<Rightarrow> CheckReplies) \<Rightarrow> update list" where
  "runPostImportChecks ui checking items replies =
     (if checking \<or> items = [] then []
      else [\<lambda>st. st\<lparr>pn_checking := True\<rparr>] @ check_items ui items replies @ [\<lambda>st. st\<lparr>pn_checking := False\<rparr>])"

record ImportedAccountResetResponse =
  rs_success :: bool
  rs_message :: "jstr option"
  rs_reset_count :: "jnum option"
  rs_last_reset_at :: "jnum option"

definition num_plus1 :: "jnum \<Rightarrow> jnum" where
  "num_plus1 x = (case x of Fin v \<Rightarrow> to_double (v + 1) | y \<Rightarrow> y)"

definition reset_item :: "ImportedChannelCheck \<Rightarrow> ImportedAccountResetResponse \<Rightarrow> int \<Rightarrow> ImportedChannelCheck" where
  "reset_item item response now =
     spread_item item (empty_patch\<lparr>
       ck_resetCount := Val (case rs_reset_count response of
           Some n \<Rightarrow> n
         | None \<Rightarrow> num_plus1 (case val (ck_resetCount item) of Some n \<Rightarrow> n | None \<Rightarrow> Fin 0)),
       ck_lastResetAt := Val (case rs_last_reset_at response of
           Some n \<Rightarrow> if num_truthy n then n else seconds now
         | None \<Rightarrow> seconds now),
       ck_quotaStatus := Val Pending, ck_quotaMessage := Undef, ck_channelStatus := Val Pending,
       ck_channelMessage := Undef, ck_responseTime := Undef, ck_lastCheckedAt := Undef,
       ck_providerResetCredits := of_opt (val (ck_providerResetCredits item))\<rparr>)"

definition handleResetImported ::
  "Ui \<Rightarrow> jnum option \<Rightarrow> bool \<Rightarrow> ImportedChannelCheck \<Rightarrow> ImportedAccountResetResponse reply \<Rightarrow> int \<Rightarrow>
     (nat \<Rightarrow> CheckReplies) \<Rightarrow> update list" where
  "handleResetImported ui resettingImportedId checking item reply now replies =
     (let failed = (\<lambda>e. [effect (ToastError (caught_text ui e ''Failed to reset monitor state''))]) in
      if \<not> has_id item \<or> resettingImportedId \<noteq> None \<or> checking then []
      else
        [\<lambda>st. st\<lparr>pn_resettingImportedId := val (ck_channelId item)\<rparr>,
         effect (ResetImportedAccountState (item_id item))] @
        (case reply of
           Thrown e \<Rightarrow> failed e
         | Reply response \<Rightarrow>
             if \<not> rs_success response
             then failed (Some (message_or ui (rs_message response) ''Failed to reset monitor state''))
             else
               (let nextItem = reset_item item response now in
                [updateCheckItem (item_key item) nextItem] @
                runPostImportChecks ui checking [nextItem] replies @
                [effect (ToastSuccess (if item_type item = Some CODEX_CHANNEL_TYPE
                   then tr ui ''Official quota reset successful'' else tr ui ''Imported account monitor reset''))])) @
        [\<lambda>st. st\<lparr>pn_resettingImportedId := None\<rparr>])"

definition handleToggleAutoMonitor ::
  "Ui \<Rightarrow> bool \<Rightarrow> bool \<Rightarrow> ImportedChannelCheck list \<Rightarrow> (nat \<Rightarrow> ActionResponse reply) \<Rightarrow> (nat \<Rightarrow> CheckReplies) \<Rightarrow> update list" where
  "handleToggleAutoMonitor ui autoMonitor checking checkItems saves replies =
     (let nextAutoMonitor = (\<not> autoMonitor);
          patch = empty_patch\<lparr>ck_monitorEnabled := Val nextAutoMonitor\<rparr>;
          nextItems = map (\<lambda>item. spread_item item patch) checkItems in
      [\<lambda>st. st\<lparr>pn_autoMonitor := nextAutoMonitor, pn_checkItems := nextItems\<rparr>] @
      concat (map (\<lambda>(n, item). persistMonitorSnapshot ui item patch (saves n)) (enumerate 0 nextItems)) @
      (if nextAutoMonitor \<and> nextItems \<noteq> [] then runPostImportChecks ui checking nextItems replies else []))"

section \<open>Import\<close>

record CreatedChannel =
  cc_id :: jnum
  cc_name :: jstr
  cc_type :: jnum
  cc_models :: jstr
  cc_group :: jstr
  cc_status :: "jnum option"
  cc_balance :: "jnum option"
  cc_balance_updated_time :: "jnum option"
  cc_used_quota :: "jnum option"
  cc_remark :: "jstr option"
  cc_created_time :: "jnum option"

record AddChannelResponse =
  ac_success :: bool
  ac_message :: "jstr option"
  ac_ids :: "jnum list option"
  ac_channels :: "CreatedChannel list option"

record ImportEntry =
  ie_request :: AddChannelRequest
  ie_preview :: "AccountImportPreview option"
  ie_sourceIndex :: nat

definition first_of :: "'a list option \<Rightarrow> 'a option" where
  "first_of xs = (case xs of Some (x # _) \<Rightarrow> Some x | _ \<Rightarrow> None)"

definition or_text :: "jstr option \<Rightarrow> jstr \<Rightarrow> jstr" where
  "or_text a b = (case a of Some s \<Rightarrow> if s \<noteq> [] then s else b | None \<Rightarrow> b)"

definition or_num :: "jnum option \<Rightarrow> jnum \<Rightarrow> jnum" where
  "or_num a b = (case a of Some x \<Rightarrow> x | None \<Rightarrow> b)"

definition import_entries :: "AccountImportBuildResult \<Rightarrow> ImportEntry list" where
  "import_entries build =
     map (\<lambda>(requestIndex, request).
       let preview = (if requestIndex < length (br_previews build) then Some (br_previews build ! requestIndex) else None) in
       \<lparr>ie_request = request, ie_preview = preview,
        ie_sourceIndex = (case preview of Some p \<Rightarrow> pv_index p | None \<Rightarrow> requestIndex)\<rparr>)
     (enumerate 0 (br_requests build))"

definition created_item :: "bool \<Rightarrow> ImportEntry \<Rightarrow> jstr \<Rightarrow> AddChannelResponse \<Rightarrow> ImportedChannelCheck" where
  "created_item autoMonitor entry name response =
     (let request = req_channel (ie_request entry);
          channelInfo = first_of (ac_channels response);
          channelId = (case channelInfo of Some c \<Rightarrow> Some (cc_id c) | None \<Rightarrow> first_of (ac_ids response));
          info = (\<lambda>f. Option.bind channelInfo f);
          statusValue = or_num (info cc_status) (ic_status request) in
      empty_patch\<lparr>ck_key := Val (getImportedChannelKey (ie_sourceIndex entry) channelId),
        ck_index := Val (ie_sourceIndex entry),
        ck_name := Val (or_text (map_option cc_name channelInfo) name),
        ck_platform := Val (Text (or_text (map_option pv_platform (ie_preview entry))
          (if num_truthy (ic_type request) then num_to_string (ic_type request) else []))),
        ck_channelId := of_opt channelId,
        ck_type := Val (or_num (map_option cc_type channelInfo) (ic_type request)),
        ck_models := Val (or_text (map_option cc_models channelInfo) (ic_models request)),
        ck_group := Val (or_text (map_option cc_group channelInfo) (ic_group request)),
        ck_status := finite_slot (\<lambda>_. True) statusValue,
        ck_balance := Val (or_num (info cc_balance) (Fin 0)),
        ck_balanceUpdatedTime := Val (or_num (info cc_balance_updated_time) (Fin 0)),
        ck_usedQuota := Val (or_num (info cc_used_quota) (Fin 0)),
        ck_remark := Val (or_text (Option.bind channelInfo cc_remark) (ic_remark request)),
        ck_createdTime := Val (or_num (info cc_created_time) (Fin 0)),
        ck_monitorEnabled := Val autoMonitor, ck_quotaStatus := Val Pending, ck_channelStatus := Val Pending\<rparr>)"

type_synonym ImportAttemptResult = "AccountImportError + ImportedChannelCheck"

definition import_task ::
  "Ui \<Rightarrow> bool \<Rightarrow> ImportEntry \<Rightarrow> AddChannelResponse reply \<Rightarrow> ImportAttemptResult" where
  "import_task ui autoMonitor entry reply =
     (let name = or_text (Some (ic_name (req_channel (ie_request entry))))
            (js ''Account '' @ dec (int (ie_sourceIndex entry) + 1));
          failed = (\<lambda>message. Inl \<lparr>err_index = ie_sourceIndex entry, err_name = Some name, err_message = message\<rparr>) in
      case reply of
        Thrown e \<Rightarrow> failed (caught_text ui e ''Create failed'')
      | Reply response \<Rightarrow>
          if \<not> ac_success response then failed (message_or ui (ac_message response) ''Create failed'')
          else Inr (created_item autoMonitor entry name response))"

text \<open>The calls of \<open>setImportProgress\<close>, as the tasks are completed.\<close>

definition progressStep :: "nat \<Rightarrow> nat" where
  "progressStep n = max 1 ((n + 99) div 100)"

definition progress_shown :: "nat \<Rightarrow> nat \<Rightarrow> bool" where
  "progress_shown n completed \<longleftrightarrow> completed = n \<or> completed mod progressStep n = 0"

definition progress_updates :: "nat \<Rightarrow> (nat \<times> nat) list" where
  "progress_updates n = map (\<lambda>completed. (completed, n)) (filter (progress_shown n) [1..<Suc n])"

text \<open>The channels and the errors of the attempts.\<close>

definition attempt_channels :: "ImportAttemptResult list \<Rightarrow> ImportedChannelCheck list" where
  "attempt_channels attempts = concat (map (\<lambda>a. case a of Inr c \<Rightarrow> [c] | Inl e \<Rightarrow> []) attempts)"

definition attempt_errors :: "ImportAttemptResult list \<Rightarrow> AccountImportError list" where
  "attempt_errors attempts = concat (map (\<lambda>a. case a of Inl e \<Rightarrow> [e] | Inr c \<Rightarrow> []) attempts)"

text \<open>The updates at the end of an import.  The checks that it starts without waiting for them are
  \<open>import_checks\<close>: their updates are interleaved with what follows.\<close>

definition import_done ::
  "Ui \<Rightarrow> AccountImportBuildResult \<Rightarrow> ImportAttemptResult list \<Rightarrow> update list" where
  "import_done ui build attempts =
     (let importedChannels = attempt_channels attempts;
          errors = br_errors build @ attempt_errors attempts;
          created = length importedChannels; failed = length errors;
          importedIds = filter num_truthy (target_ids importedChannels) in
      [\<lambda>st. st\<lparr>pn_runResult := Some \<lparr>rr_created = created, rr_failed = failed, rr_errors = errors\<rparr>\<rparr>,
       \<lambda>st. st\<lparr>pn_checkItems := importedChannels @ without_ids importedIds (pn_checkItems st)\<rparr>,
       effect InvalidateChannels] @
      (if 0 < created then
         [\<lambda>st. st\<lparr>pn_selectedImportedKeys := selectable_keys importedChannels\<rparr>,
          \<lambda>st. st\<lparr>pn_activeTab := ChannelsTab\<rparr>, effect OnImported]
       else []) @
      [if 0 < failed
       then effect (ToastWarning (translate ui (js ''Import finished: {{created}} created, {{failed}} failed'')
         [(js ''created'', JNum (Fin (of_nat created))), (js ''failed'', JNum (Fin (of_nat failed)))]))
       else effect (ToastSuccess (count_text ui ''Imported {{count}} account(s)'' (Fin (of_nat created)))),
       \<lambda>st. st\<lparr>pn_importing := False\<rparr>])"

definition import_checks ::
  "Ui \<Rightarrow> bool \<Rightarrow> bool \<Rightarrow> ImportAttemptResult list \<Rightarrow> (nat \<Rightarrow> CheckReplies) \<Rightarrow> update list" where
  "import_checks ui autoMonitor checking attempts replies =
     (if attempt_channels attempts \<noteq> [] \<and> autoMonitor
      then runPostImportChecks ui checking (attempt_channels attempts) replies else [])"

text \<open>The attempts of an import of the build result, for the answers to its requests and an order in
  which the workers of the pool are served; \<open>None\<close> while a request is pending.\<close>

definition import_attempts ::
  "Ui \<Rightarrow> bool \<Rightarrow> AccountImportBuildResult \<Rightarrow> (nat \<Rightarrow> AddChannelResponse reply) \<Rightarrow> nat list \<Rightarrow>
     ImportAttemptResult list option" where
  "import_attempts ui autoMonitor build answers order =
     (let entries = import_entries build;
          task = (\<lambda>i. Inr (import_task ui autoMonitor (entries ! i) (answers i)) :: unit + ImportAttemptResult) in
      case pool_outcome (run_pool (length entries) ACCOUNT_IMPORT_CONCURRENCY task order) of
        Some (Inr results) \<Rightarrow> Some (List.map_filter id results)
      | _ \<Rightarrow> None)"

text \<open>The workers take the requests, and send them, in their order; the progress is shown as the
  answers arrive.\<close>

definition import_run :: "Ui \<Rightarrow> AccountImportBuildResult \<Rightarrow> ImportAttemptResult list \<Rightarrow> update list" where
  "import_run ui build attempts =
     (let n = length (br_requests build) in
      [\<lambda>st. st\<lparr>pn_importing := True\<rparr>, \<lambda>st. st\<lparr>pn_importProgress := (0, n)\<rparr>] @
      map (\<lambda>request. effect (CreateChannel request)) (br_requests build) @
      map (\<lambda>p st. st\<lparr>pn_importProgress := p\<rparr>) (progress_updates n) @
      import_done ui build attempts)"

text \<open>A text that is not parsed yet is parsed first.\<close>

definition handleImport ::
  "Ui \<Rightarrow> Host \<Rightarrow> Panel \<Rightarrow> (nat \<Rightarrow> AddChannelResponse reply) \<Rightarrow> nat list \<Rightarrow> update list option" where
  "handleImport ui h st answers order =
     (let parse = (if pn_buildResult st = None then parseContent ui h (preview_text st) else []);
          nothing = parse @ [effect (ToastError (tr ui ''No importable accounts found''))] in
      case import_build h st of
        None \<Rightarrow> Some nothing
      | Some build \<Rightarrow>
          if br_requests build = [] then Some nothing
          else map_option (\<lambda>attempts. parse @ import_run ui build attempts)
            (import_attempts ui (pn_autoMonitor st) build answers order))"

section \<open>Accounts by authorization\<close>

record CodexOAuthStartResponse =
  os_success :: bool
  os_message :: "jstr option"
  os_authorize_url :: "jstr option"

record CodexOAuthCompleteResponse =
  oc_success :: bool
  oc_message :: "jstr option"
  oc_key :: "jstr option"
  oc_account_id :: "jstr option"
  oc_email :: "jstr option"

abbreviation set_oauth :: "(OpenAIOAuthImportState \<Rightarrow> OpenAIOAuthImportState) \<Rightarrow> update" where
  "set_oauth f \<equiv> (\<lambda>st. st\<lparr>pn_openAIOAuthImport := f (pn_openAIOAuthImport st)\<rparr>)"

text \<open>The pop-up window opens or is blocked.\<close>

definition handleStartOpenAIOAuth :: "Ui \<Rightarrow> CodexOAuthStartResponse reply \<Rightarrow> bool \<Rightarrow> update list" where
  "handleStartOpenAIOAuth ui reply popup =
     (let failed = (\<lambda>e. [effect (ToastError (caught_text ui e ''OAuth start failed''))]) in
      [set_oauth (\<lambda>s. s\<lparr>oa_authorizeUrl := [], oa_starting := True\<rparr>), effect StartCodexOAuth] @
      (case reply of
         Thrown e \<Rightarrow> failed e
       | Reply response \<Rightarrow>
           if \<not> os_success response then failed (Some (message_or ui (os_message response) ''OAuth start failed''))
           else
             let authorizeUrl = or_text (os_authorize_url response) [] in
             if authorizeUrl = [] then failed (Some (tr ui ''Missing authorization URL''))
             else
               [set_oauth (\<lambda>s. s\<lparr>oa_authorizeUrl := authorizeUrl\<rparr>), effect (OpenWindow authorizeUrl),
                if popup then effect (ToastSuccess (tr ui ''Opened authorization page''))
                else effect (ToastWarning (tr ui ''Please manually copy and open the authorization link''))]) @
      [set_oauth (\<lambda>s. s\<lparr>oa_starting := False\<rparr>)])"

definition handleCopyOpenAIOAuthUrl :: "Ui \<Rightarrow> OpenAIOAuthImportState \<Rightarrow> bool \<Rightarrow> update list" where
  "handleCopyOpenAIOAuthUrl ui form copied =
     (if oa_authorizeUrl form \<noteq> [] \<and> copied
      then [effect (ToastSuccess (tr ui ''Copied authorization link''))] else [])"

text \<open>The request for the account.\<close>

definition oauth_channel :: "OpenAIOAuthImportState \<Rightarrow> CodexOAuthCompleteResponse \<Rightarrow> ImportedChannel" where
  "oauth_channel form response =
     (let mail = or_text (oc_email response) []; account = or_text (oc_account_id response) [];
          fallbackName = buildOpenAIOAuthChannelName (Some mail) (Some account) in
      \<lparr>ic_name = or_text (Some (trim (oa_name form))) fallbackName, ic_type = CODEX_CHANNEL_TYPE,
       ic_key = or_text (oc_key response) [], ic_base_url = Some OPENAI_OAUTH_CHANNEL_BASE_URL,
       ic_models = trim (oa_models form),
       ic_group = or_text (Some (trim (oa_group form))) OPENAI_OAUTH_DEFAULT_GROUP,
       ic_priority = Fin 0, ic_status = Fin 1, ic_tag = None,
       ic_remark = buildOpenAIOAuthRemark (Some mail) (Some account), ic_setting = None,
       ic_settings = Some (buildOpenAIOAuthSettings (Some mail) (Some account)), ic_other = []\<rparr>)"

definition oauth_item ::
  "bool \<Rightarrow> nat \<Rightarrow> ImportedChannel \<Rightarrow> AddChannelResponse \<Rightarrow> ImportedChannelCheck" where
  "oauth_item autoMonitor index request response =
     (let channelInfo = first_of (ac_channels response);
          channelId = (case channelInfo of Some c \<Rightarrow> Some (cc_id c) | None \<Rightarrow> first_of (ac_ids response));
          info = (\<lambda>f. Option.bind channelInfo f) in
      empty_patch\<lparr>ck_key := Val (getImportedChannelKey index channelId), ck_index := Val index,
        ck_name := Val (or_text (map_option cc_name channelInfo) (ic_name request)),
        ck_platform := Val (Text (js ''OpenAI OAuth'')), ck_channelId := of_opt channelId,
        ck_type := Val (or_num (map_option cc_type channelInfo) CODEX_CHANNEL_TYPE),
        ck_models := Val (or_text (map_option cc_models channelInfo) (ic_models request)),
        ck_group := Val (or_text (map_option cc_group channelInfo) (ic_group request)),
        ck_status := finite_slot (\<lambda>_. True) (or_num (info cc_status) (Fin 1)),
        ck_balance := Val (or_num (info cc_balance) (Fin 0)), ck_balanceCurrency := Val (js ''USD''),
        ck_balanceUpdatedTime := Val (or_num (info cc_balance_updated_time) (Fin 0)),
        ck_usedQuota := Val (or_num (info cc_used_quota) (Fin 0)),
        ck_remark := Val (or_text (Option.bind channelInfo cc_remark) (ic_remark request)),
        ck_createdTime := Val (or_num (info cc_created_time) (Fin 0)),
        ck_settings := of_opt (ic_settings request),
        ck_monitorEnabled := Val autoMonitor, ck_quotaStatus := Val Pending, ck_channelStatus := Val Pending\<rparr>)"

definition oauth_done :: "Ui \<Rightarrow> ImportedChannelCheck \<Rightarrow> update list" where
  "oauth_done ui createdItem =
     [\<lambda>st. st\<lparr>pn_checkItems := createdItem #
        filter (\<lambda>item. \<not> has_id createdItem \<or> val (ck_channelId item) \<noteq> val (ck_channelId createdItem)) (pn_checkItems st)\<rparr>] @
     (if has_id createdItem then [\<lambda>st. st\<lparr>pn_selectedImportedKeys := [item_key createdItem]\<rparr>] else []) @
     [effect InvalidateChannels, effect OnImported, \<lambda>st. st\<lparr>pn_activeTab := ChannelsTab\<rparr>,
      effect (ToastSuccess (tr ui ''OpenAI OAuth account imported'')),
      set_oauth (\<lambda>s. createEmptyOpenAIOAuthImportState\<lparr>
        oa_group := or_text (Some (oa_group s)) OPENAI_OAUTH_DEFAULT_GROUP, oa_models := oa_models s\<rparr>)]"

text \<open>The outcome of the two requests: the message of the failure, or the new item.\<close>

definition oauth_outcome ::
  "Ui \<Rightarrow> Panel \<Rightarrow> CodexOAuthCompleteResponse reply \<Rightarrow> AddChannelResponse reply \<Rightarrow> jstr + ImportedChannelCheck" where
  "oauth_outcome ui st reply created =
     (let failed = (\<lambda>e. Inl (caught_text ui e ''OAuth failed'')) in
      case reply of
        Thrown e \<Rightarrow> failed e
      | Reply response \<Rightarrow>
          if \<not> oc_success response then failed (Some (message_or ui (oc_message response) ''OAuth failed''))
          else if or_text (oc_key response) [] = [] then failed (Some (tr ui ''Missing generated credential''))
          else
            let request = oauth_channel (pn_openAIOAuthImport st) response in
            case created of
              Thrown e \<Rightarrow> failed e
            | Reply createResponse \<Rightarrow>
                if \<not> ac_success createResponse
                then failed (Some (message_or ui (ac_message createResponse) ''Create failed''))
                else Inr (oauth_item (pn_autoMonitor st) (length (pn_checkItems st)) request createResponse))"

definition oauth_requests :: "Panel \<Rightarrow> CodexOAuthCompleteResponse reply \<Rightarrow> effect list" where
  "oauth_requests st reply =
     CompleteCodexOAuth (trim (oa_callbackUrl (pn_openAIOAuthImport st))) #
     (case reply of
        Thrown e \<Rightarrow> []
      | Reply response \<Rightarrow>
          if \<not> oc_success response \<or> or_text (oc_key response) [] = [] then []
          else [CreateChannel \<lparr>req_mode = Single, req_multi_key_mode = None,
            req_batch_add_set_key_prefix_2_name = None, req_channel = oauth_channel (pn_openAIOAuthImport st) response\<rparr>])"

definition handleCreateOpenAIOAuthAccount ::
  "Ui \<Rightarrow> Panel \<Rightarrow> CodexOAuthCompleteResponse reply \<Rightarrow> AddChannelResponse reply \<Rightarrow> update list" where
  "handleCreateOpenAIOAuthAccount ui st reply created =
     (if trim (oa_callbackUrl (pn_openAIOAuthImport st)) = []
      then [effect (ToastError (tr ui ''Paste the callback URL first''))]
      else
        [set_oauth (\<lambda>s. s\<lparr>oa_creating := True\<rparr>)] @ map effect (oauth_requests st reply) @
        (case oauth_outcome ui st reply created of
           Inl message \<Rightarrow> [effect (ToastError message)]
         | Inr createdItem \<Rightarrow> oauth_done ui createdItem) @
        [set_oauth (\<lambda>s. s\<lparr>oa_creating := False\<rparr>)])"

text \<open>The checks of the new item, which are not awaited.\<close>

definition oauth_checks ::
  "Ui \<Rightarrow> Panel \<Rightarrow> CodexOAuthCompleteResponse reply \<Rightarrow> AddChannelResponse reply \<Rightarrow> (nat \<Rightarrow> CheckReplies) \<Rightarrow> update list" where
  "oauth_checks ui st reply created replies =
     (if trim (oa_callbackUrl (pn_openAIOAuthImport st)) = [] then []
      else case oauth_outcome ui st reply created of
        Inl message \<Rightarrow> []
      | Inr createdItem \<Rightarrow> runPostImportChecks ui (pn_checking st) [createdItem] replies)"

section \<open>What a run of the checks does\<close>

text \<open>The patch that an item has at the end of its checks.\<close>

definition settled_patch :: "Ui \<Rightarrow> ImportedChannelCheck \<Rightarrow> CheckReplies \<Rightarrow> ImportedChannelCheck" where
  "settled_patch ui item rp = (if has_id item then final_patch ui item rp else skip_patch ui (rp_checked_now rp))"

definition patch_items :: "jstr \<Rightarrow> ImportedChannelCheck \<Rightarrow> ImportedChannelCheck list \<Rightarrow> ImportedChannelCheck list" where
  "patch_items key patch = map (\<lambda>item. if ck_key item = Val key then spread_item item patch else item)"

lemma updateCheckItem_items [simp]:
  "pn_checkItems (updateCheckItem key patch st) = patch_items key patch (pn_checkItems st)"
  by (simp add: updateCheckItem_def patch_items_def)

lemma over_over: "over (over a b) c = over a (over b c)"
  by (cases c) simp_all

lemma spread_assoc: "spread_item (spread_item a b) c = spread_item a (spread_item b c)"
  by (simp add: spread_item_def over_over)

lemma spread_key: "ck_key b = Absent \<Longrightarrow> ck_key (spread_item a b) = ck_key a"
  by (simp add: spread_item_def)

lemma patch_items_twice:
  assumes "ck_key p = Absent"
  shows "patch_items k q (patch_items k p items) = patch_items k (spread_item p q) items"
  using spread_key [OF assms] by (simp add: patch_items_def comp_def spread_assoc cong: if_cong)

lemma patch_keys:
  "ck_key (quota_error m) = Absent" "ck_key (usage_patch ui item r1) = Absent"
  "ck_key (balance_patch ui now r2) = Absent" "ck_key (quota_patch ui item rp) = Absent"
  "ck_key (test_patch ui r3) = Absent" "ck_key (skip_patch ui now) = Absent" "ck_key empty_patch = Absent"
  by (auto simp: quota_error_def usage_patch_def balance_patch_def quota_patch_def test_patch_def skip_patch_def
      channel_error_def empty_patch_def Let_def split: reply.split sum.split bool.split option.split)

lemma final_patch_key: "ck_key (final_patch ui item rp) = Absent" "ck_key (settled_patch ui item rp) = Absent"
  by (simp_all add: settled_patch_def final_patch_def spread_item_def patch_keys)

text \<open>What the patches of the two checks set.\<close>

lemma quota_patch_sets:
  "ck_quotaStatus (quota_patch ui item rp) \<in> {Val Success, Val Error}"
  "ck_quotaMessage (quota_patch ui item rp) \<in> range Val"
  "ck_channelStatus (quota_patch ui item rp) = Absent" "ck_channelMessage (quota_patch ui item rp) = Absent"
  "ck_responseTime (quota_patch ui item rp) = Absent" "ck_lastCheckedAt (quota_patch ui item rp) = Absent"
  by (auto simp: quota_error_def usage_patch_def balance_patch_def quota_patch_def empty_patch_def
      split: reply.split sum.split bool.split option.split)

lemma test_patch_sets:
  "ck_channelStatus (test_patch ui r) \<in> {Val Success, Val Error}"
  "ck_channelMessage (test_patch ui r) \<in> range Val"
  "ck_quotaStatus (test_patch ui r) = Absent" "ck_quotaMessage (test_patch ui r) = Absent"
  "ck_lastCheckedAt (test_patch ui r) = Absent"
  by (auto simp: channel_error_def test_patch_def empty_patch_def Let_def split: reply.split)

lemma over_Absent [simp]: "over Absent b = b"
  by (cases b) simp_all

lemma over_Val: "b \<in> range Val \<Longrightarrow> over a b = b"
  by auto

lemma over_idem: "over a (over a b) = over a b"
  by (cases b) (cases a; simp)+

definition settled_status :: "CheckStatus slot \<Rightarrow> bool" where
  "settled_status s \<longleftrightarrow> s \<in> {Val Success, Val Error, Val Skipped}"

lemma settled_sets:
  "settled_status (ck_quotaStatus (settled_patch ui item rp))"
  "settled_status (ck_channelStatus (settled_patch ui item rp))"
  "ck_quotaMessage (settled_patch ui item rp) \<in> range Val"
  "ck_channelMessage (settled_patch ui item rp) \<in> range Val"
  "ck_lastCheckedAt (settled_patch ui item rp) = Val (seconds (rp_checked_now rp))"
  using quota_patch_sets [of ui item rp] test_patch_sets [of ui "rp_test rp"]
  by (auto simp: settled_status_def settled_patch_def final_patch_def skip_patch_def spread_item_def empty_patch_def)

lemma final_sets:
  "ck_quotaStatus (final_patch ui item rp) \<in> range Val" "ck_quotaMessage (final_patch ui item rp) \<in> range Val"
  "ck_channelStatus (final_patch ui item rp) \<in> range Val" "ck_channelMessage (final_patch ui item rp) \<in> range Val"
  using quota_patch_sets [of ui item rp] test_patch_sets [of ui "rp_test rp"]
  by (auto simp: final_patch_def spread_item_def empty_patch_def)

text \<open>The patches before the last one are overwritten by it.\<close>

lemma final_covers:
  "spread_item (empty_patch\<lparr>ck_quotaStatus := Val c, ck_quotaMessage := Val m\<rparr>) (final_patch ui item rp) =
     final_patch ui item rp"
  "spread_item (empty_patch\<lparr>ck_channelStatus := Val c, ck_channelMessage := Val m\<rparr>) (final_patch ui item rp) =
     final_patch ui item rp"
  "spread_item (quota_patch ui item rp) (final_patch ui item rp) = final_patch ui item rp"
proof -
  show "spread_item (empty_patch\<lparr>ck_quotaStatus := Val c, ck_quotaMessage := Val m\<rparr>) (final_patch ui item rp) =
     final_patch ui item rp"
    using final_sets [of ui item rp] by (simp add: spread_item_def empty_patch_def over_Val)
  show "spread_item (empty_patch\<lparr>ck_channelStatus := Val c, ck_channelMessage := Val m\<rparr>) (final_patch ui item rp) =
     final_patch ui item rp"
    using final_sets [of ui item rp] by (simp add: spread_item_def empty_patch_def over_Val)
  have "spread_item p (spread_item p q) = spread_item p q" for p q by (simp add: spread_item_def over_idem)
  then show "spread_item (quota_patch ui item rp) (final_patch ui item rp) = final_patch ui item rp"
    by (simp only: final_patch_def)
qed

lemma run_updates_simps [simp]:
  "run_updates [] st = st" "run_updates (u # us) st = run_updates us (u st)"
  "run_updates (us @ vs) st = run_updates vs (run_updates us st)"
  by (simp_all add: run_updates_def)

lemma persist_items [simp]:
  "pn_checkItems (run_updates (persistMonitorSnapshot ui item patch reply) st) = pn_checkItems st"
  by (simp add: persistMonitorSnapshot_def split: option.split reply.split)

lemma check_item_items:
  "pn_checkItems (run_updates (check_item ui item rp) st) =
     patch_items (item_key item) (settled_patch ui item rp) (pn_checkItems st)"
  by (simp add: check_item_def Let_def settled_patch_def patch_items_twice patch_keys spread_assoc
      final_covers spread_key empty_patch_def [THEN arg_cong, of ck_key, simplified] split: option.split)

text \<open>The view of an item after a run: patched by its checks if it is one of the items of the run.\<close>

definition settled_view ::
  "Ui \<Rightarrow> (nat \<times> ImportedChannelCheck) list \<Rightarrow> (nat \<Rightarrow> CheckReplies) \<Rightarrow> ImportedChannelCheck \<Rightarrow> ImportedChannelCheck" where
  "settled_view ui items replies i =
     (case List.find (\<lambda>(n, item). ck_key i = Val (item_key item)) items of
        Some (n, item) \<Rightarrow> spread_item i (settled_patch ui item (replies n))
      | None \<Rightarrow> i)"

lemma settled_view_Cons:
  "settled_view ui ((n, item) # items) replies i =
     (if ck_key i = Val (item_key item) then spread_item i (settled_patch ui item (replies n))
      else settled_view ui items replies i)"
  by (simp add: settled_view_def)

lemma settled_view_other:
  "\<forall>(n, item)\<in>set items. ck_key i \<noteq> Val (item_key item) \<Longrightarrow> settled_view ui items replies i = i"
  by (induction items) (auto simp: settled_view_Cons, simp add: settled_view_def)

lemma enumerate_in: "(n, x) \<in> set (enumerate m xs) \<Longrightarrow> x \<in> set xs"
  by (auto simp: enumerate_eq_zip dest: set_zip_rightD)

lemma check_all_items:
  assumes "distinct (map item_key items)"
  shows "pn_checkItems (run_updates (concat (map (\<lambda>(n, item). check_item ui item (replies n)) (enumerate m items))) st) =
    map (settled_view ui (enumerate m items) replies) (pn_checkItems st)"
  using assms
proof (induction items arbitrary: m st)
  case Nil
  then show ?case by (simp add: settled_view_def)
next
  case (Cons item items)
  let ?p = "settled_patch ui item (replies m)"
  have o: "settled_view ui (enumerate (Suc m) items) replies i = i" if "ck_key i = Val (item_key item)" for i
    using Cons.prems that by (intro settled_view_other) (auto dest!: enumerate_in)
  have "settled_view ui (enumerate (Suc m) items) replies (if ck_key i = Val (item_key item) then spread_item i ?p else i) =
      settled_view ui (enumerate m (item # items)) replies i" for i
    using o [of "spread_item i ?p"] spread_key [OF final_patch_key(2), of i ui item "replies m"]
    by (simp add: settled_view_Cons)
  then show ?case
    using Cons by (simp add: check_item_items patch_items_def comp_def)
qed

lemma settled_view_status:
  assumes "(n, item) \<in> set items" and "ck_key i = Val (item_key item)"
  shows "settled_status (ck_quotaStatus (settled_view ui items replies i)) \<and>
    settled_status (ck_channelStatus (settled_view ui items replies i))"
proof -
  from assms obtain m item' where "List.find (\<lambda>(n, item). ck_key i = Val (item_key item)) items = Some (m, item')"
    by (cases "List.find (\<lambda>(n, item). ck_key i = Val (item_key item)) items") (auto simp: find_None_iff)
  then have "settled_view ui items replies i = spread_item i (settled_patch ui item' (replies m))"
    by (simp add: settled_view_def)
  moreover have "over a b = b" if "settled_status b" for a b using that by (auto simp: settled_status_def)
  ultimately show ?thesis using settled_sets(1, 2) [of ui item' "replies m"] by (simp add: spread_item_def)
qed

lemma settled_view_key: "ck_key (settled_view ui items replies i) = ck_key i"
  by (simp add: settled_view_def spread_key final_patch_key split: option.split prod.split)

text \<open>The effects only grow, and the state of each item with an identifier is saved.\<close>

lemma updateCheckItem_effects [simp]: "pn_effects (updateCheckItem key patch st) = pn_effects st"
  by (simp add: updateCheckItem_def)

definition grows :: "update \<Rightarrow> bool" where
  "grows u \<longleftrightarrow> (\<forall>st. set (pn_effects st) \<subseteq> set (pn_effects (u st)))"

lemma grows_run: "list_all grows us \<Longrightarrow> set (pn_effects st) \<subseteq> set (pn_effects (run_updates us st))"
  by (induction us arbitrary: st) (auto simp: grows_def)

lemma grows_simple: "grows (effect e)" "grows (updateCheckItem key patch)"
  by (auto simp: grows_def effect_def)

lemma persist_grows: "list_all grows (persistMonitorSnapshot ui item patch reply)"
  by (simp add: persistMonitorSnapshot_def grows_simple split: option.split reply.split)

lemma persist_saves:
  "has_id item \<Longrightarrow> \<exists>i. ck_channelId item = Val i \<and> SaveMonitor i (defined_props (createMonitorSnapshot item patch)) \<in>
     set (pn_effects (run_updates (persistMonitorSnapshot ui item patch reply) st))"
  by (cases "ck_channelId item") (auto simp: persistMonitorSnapshot_def effect_def has_id_def split: reply.split)

lemma check_item_effects:
  "set (pn_effects st) \<subseteq> set (pn_effects (run_updates (check_item ui item rp) st))"
  "has_id item \<Longrightarrow> \<exists>i. ck_channelId item = Val i \<and>
     SaveMonitor i (defined_props (createMonitorSnapshot item (final_patch ui item rp))) \<in>
     set (pn_effects (run_updates (check_item ui item rp) st))"
proof -
  show "set (pn_effects st) \<subseteq> set (pn_effects (run_updates (check_item ui item rp) st))"
    by (rule grows_run) (simp add: check_item_def Let_def grows_simple persist_grows split: option.split)
  show "\<exists>i. ck_channelId item = Val i \<and>
     SaveMonitor i (defined_props (createMonitorSnapshot item (final_patch ui item rp))) \<in>
     set (pn_effects (run_updates (check_item ui item rp) st))" if "has_id item"
    using that persist_saves [OF that] by (simp add: check_item_def Let_def)
qed

lemma check_all_effects:
  "set (pn_effects st) \<subseteq> set (pn_effects (run_updates (concat (map (\<lambda>(n, item). check_item ui item (replies n)) nis)) st)) \<and>
   (\<forall>(n, item)\<in>set nis. has_id item \<longrightarrow> (\<exists>i. ck_channelId item = Val i \<and>
     SaveMonitor i (defined_props (createMonitorSnapshot item (final_patch ui item (replies n)))) \<in>
     set (pn_effects (run_updates (concat (map (\<lambda>(n, item). check_item ui item (replies n)) nis)) st))))"
proof (induction nis arbitrary: st)
  case (Cons p nis)
  obtain n item where p: "p = (n, item)" by (cases p)
  let ?st = "run_updates (check_item ui item (replies n)) st"
  show ?case
    using Cons.IH [of ?st] check_item_effects(1) [of st ui item "replies n"]
      check_item_effects(2) [of item ui "replies n" st]
    by (auto simp: p)
qed simp

text \<open>C34. A run of the checks ends: every item of the run has then a definite status for both checks,
  which is the one of its answers; the other items are as before, and for each item with an
  identifier the state that the run determined is saved.\<close>

theorem checks_settle:
  assumes "distinct (map item_key items)" and "items \<noteq> []"
    and "st' = run_updates (runPostImportChecks ui False items replies) st"
  shows "pn_checking st' = False \<and>
    pn_checkItems st' = map (settled_view ui (enumerate 0 items) replies) (pn_checkItems st) \<and>
    (\<forall>i\<in>set (pn_checkItems st'). ck_key i \<in> Val ` set (map item_key items) \<longrightarrow>
       settled_status (ck_quotaStatus i) \<and> settled_status (ck_channelStatus i)) \<and>
    (\<forall>(n, item)\<in>set (enumerate 0 items). has_id item \<longrightarrow> (\<exists>i. ck_channelId item = Val i \<and>
       SaveMonitor i (defined_props (createMonitorSnapshot item (final_patch ui item (replies n)))) \<in> set (pn_effects st')))"
proof -
  define body where "body = concat (map (\<lambda>(n, item). check_item ui item (replies n)) (enumerate 0 items))"
  define st1 where "st1 = st\<lparr>pn_checking := True\<rparr>"
  have st': "st' = (run_updates body st1)\<lparr>pn_checking := False\<rparr>"
    using assms(2) by (simp add: assms(3) runPostImportChecks_def check_items_def body_def st1_def)
  have items: "pn_checkItems st' = map (settled_view ui (enumerate 0 items) replies) (pn_checkItems st)"
    unfolding st' body_def using check_all_items [OF assms(1), of ui replies 0 st1] by (simp add: st1_def)
  have "settled_status (ck_quotaStatus i) \<and> settled_status (ck_channelStatus i)"
    if i: "i \<in> set (pn_checkItems st')" and k: "ck_key i \<in> Val ` set (map item_key items)" for i
  proof -
    from i obtain j where j: "i = settled_view ui (enumerate 0 items) replies j" unfolding items by auto
    from k obtain item where item: "item \<in> set items" "ck_key i = Val (item_key item)" by auto
    from item(1) obtain n where n: "n < length items" "items ! n = item" by (auto simp: in_set_conv_nth)
    then have "(n, item) \<in> set (enumerate 0 items)" by (simp add: in_set_enumerate_eq)
    then show ?thesis unfolding j by (rule settled_view_status) (use item(2) j in \<open>simp add: settled_view_key\<close>)
  qed
  moreover have "pn_effects st' = pn_effects (run_updates body st1)" by (simp add: st')
  ultimately show ?thesis
    using items check_all_effects [of st1 ui replies "enumerate 0 items"] by (simp add: st' body_def)
qed

definition sample_replies :: CheckReplies where
  "sample_replies = \<lparr>rp_usage = Thrown None, rp_balance = Thrown None, rp_test = Thrown None,
     rp_save = Thrown None, rp_balance_now = 0, rp_checked_now = 5000\<rparr>"

theorem checks_settle_witness:
  "\<exists>i. pn_checkItems (run_updates (runPostImportChecks plain_ui False [sample_item] (\<lambda>n. sample_replies))
      (initial_panel\<lparr>pn_checkItems := [sample_item]\<rparr>)) = [i] \<and>
     ck_key i = Val (js ''channel-7'') \<and> settled_status (ck_quotaStatus i)"
proof -
  let ?st = "initial_panel\<lparr>pn_checkItems := [sample_item]\<rparr>"
  let ?st' = "run_updates (runPostImportChecks plain_ui False [sample_item] (\<lambda>n. sample_replies)) ?st"
  have k: "item_key sample_item = js ''channel-7''" "ck_key sample_item = Val (js ''channel-7'')"
    by (simp_all add: sample_item_def item_key_def)
  have d: "distinct (map item_key [sample_item])" "[sample_item] \<noteq> []" by simp_all
  note c = checks_settle [OF d refl, of plain_ui "\<lambda>n. sample_replies" ?st]
  have "pn_checkItems ?st' = [settled_view plain_ui (enumerate 0 [sample_item]) (\<lambda>n. sample_replies) sample_item]"
    using c by simp
  with c show ?thesis using k by (auto simp: settled_view_key)
qed

section \<open>What an import does\<close>

lemma attempts_split:
  "length (attempt_channels attempts) + length (attempt_errors attempts) = length attempts"
  by (induction attempts) (auto simp: attempt_channels_def attempt_errors_def split: sum.split)

lemma import_attempts_map:
  assumes "import_attempts ui autoMonitor build answers order = Some attempts"
    and "list_all (\<lambda>w. w < worker_count (length (br_requests build)) ACCOUNT_IMPORT_CONCURRENCY) order"
  shows "attempts = map (\<lambda>i. import_task ui autoMonitor (import_entries build ! i) (answers i)) [0..<length (br_requests build)]"
proof -
  let ?f = "\<lambda>i. import_task ui autoMonitor (import_entries build ! i) (answers i)"
  let ?task = "\<lambda>i. Inr (?f i) :: unit + ImportAttemptResult"
  let ?n = "length (br_requests build)" and ?s = "run_pool (length (br_requests build)) ACCOUNT_IMPORT_CONCURRENCY ?task order"
  have n: "length (import_entries build) = ?n" by (simp add: import_entries_def)
  from assms(1) obtain results where o: "pool_outcome ?s = Some (Inr results)" and a: "attempts = List.map_filter id results"
    by (auto simp: import_attempts_def n split: option.splits sum.splits)
  have "pool_result ACCOUNT_IMPORT_CONCURRENCY ?n ?f attempts"
    unfolding a by (rule pool_result_intro [OF run_pool_reachable [OF assms(2)] o])
  then show ?thesis by (rule pool.possible_map)
qed

text \<open>Rounding up, for the number of progress updates.\<close>

lemma ceil_div:
  assumes "0 < (s::nat)"
  shows "(k + s - 1) div s = (if s dvd k then k div s else k div s + 1)"
proof -
  define q r where "q = k div s" and "r = k mod s"
  have k: "k = q * s + r" and r: "r < s" using assms by (simp_all add: q_def r_def)
  have d: "(p * s + t) div s = p" if "t < s" for p t using that by (subst div_mult_self3) simp_all
  show ?thesis
  proof (cases "r = 0")
    case True
    have "(q * s + (s - 1)) div s = q" using assms by (intro d) simp
    moreover have "k + s - 1 = q * s + (s - 1)" using k True assms by simp
    moreover have "s dvd k" "k div s = q" using k True assms by simp_all
    ultimately show ?thesis by simp
  next
    case False
    have "((q + 1) * s + (r - 1)) div s = q + 1" using r by (intro d) simp
    moreover have "k + s - 1 = (q + 1) * s + (r - 1)" using k False assms by simp
    moreover have "\<not> s dvd k" using False by (simp add: r_def dvd_eq_mod_eq_0)
    ultimately show ?thesis by (simp add: q_def)
  qed
qed

lemma progress_count: "card {k. 1 \<le> k \<and> k \<le> n \<and> progress_shown n k} \<le> 100"
proof -
  define s where "s = progressStep n"
  have s: "0 < s" by (simp add: s_def progressStep_def)
  have n: "n \<le> 100 * s"
  proof -
    have "n + 99 < 100 * ((n + 99) div 100) + 100" using div_mult_mod_eq [of "n + 99" 100] mod_less_divisor [of 100 "n + 99"]
      by linarith
    moreover have "(n + 99) div 100 \<le> s" by (simp add: s_def progressStep_def)
    ultimately show ?thesis by linarith
  qed
  define S where "S = {k. 1 \<le> k \<and> k \<le> n \<and> progress_shown n k}"
  have S: "k \<in> S \<longleftrightarrow> 1 \<le> k \<and> k \<le> n \<and> (k = n \<or> s dvd k)" for k
    by (simp add: S_def progress_shown_def s_def dvd_eq_mod_eq_0)
  define f where "f k = (k + s - 1) div s" for k
  have f: "f k = (if s dvd k then k div s else k div s + 1)" for k unfolding f_def by (rule ceil_div [OF s])
  have "inj_on f S"
  proof (rule inj_onI)
    have lt: "f k < f n" if "s dvd k" "\<not> s dvd n" "k \<le> n" for k
      using that div_le_mono [OF that(3), of s] by (simp add: f)
    have eq: "k = l" if "s dvd k" "s dvd l" "f k = f l" for k l
      using that by (simp add: f) (metis dvd_div_mult_self)
    fix k l assume "k \<in> S" "l \<in> S" "f k = f l"
    then show "k = l" using lt [of k] lt [of l] eq [of k l] unfolding S by (cases "s dvd n") auto
  qed
  moreover have "f k \<in> {1..100}" if "k \<in> S" for k
  proof -
    have "1 \<le> k" "k \<le> n" using that by (simp_all add: S)
    then have "s \<le> k + s - 1" "k + s - 1 \<le> 100 * s + s - 1" using n by linarith+
    then have "s div s \<le> f k" "f k \<le> (100 * s + s - 1) div s" unfolding f_def by (auto intro: div_le_mono)
    moreover have "(100 * s + s - 1) div s = 100" using s by (subst ceil_div [OF s]) simp
    ultimately show ?thesis using s by simp
  qed
  ultimately have "card S \<le> card {1..100::nat}" by (intro card_inj_on_le [of f]) auto
  then show ?thesis by (simp add: S_def)
qed

lemma progress_last: "0 < n \<Longrightarrow> progress_updates n \<noteq> [] \<and> last (progress_updates n) = (n, n)"
proof -
  assume "0 < n"
  then have "filter (progress_shown n) [1..<Suc n] = filter (progress_shown n) [1..<n] @ [n]"
    by (simp add: progress_shown_def)
  then show ?thesis by (simp add: progress_updates_def del: upt_Suc)
qed

text \<open>The progress of an import is shown at most a hundred times, in increasing order, and the
  last time with all requests completed.\<close>

theorem progress_bounds:
  "length (progress_updates n) \<le> 100 \<and> sorted_wrt (<) (map fst (progress_updates n)) \<and>
   (if n = 0 then progress_updates n = [] else last (progress_updates n) = (n, n))"
proof -
  let ?ks = "filter (progress_shown n) [1..<Suc n]"
  have "length ?ks = card (set ?ks)" by (simp only: distinct_card [symmetric] distinct_filter distinct_upt)
  also have "set ?ks = {k. 1 \<le> k \<and> k \<le> n \<and> progress_shown n k}" by auto
  finally have "length ?ks \<le> 100" using progress_count [of n] by simp
  moreover have "sorted_wrt (<) ?ks" by (intro sorted_wrt_filter sorted_wrt_upt)
  moreover have "progress_updates 0 = []" by (simp add: progress_updates_def)
  ultimately show ?thesis
    using progress_last [of n] by (simp add: progress_updates_def comp_def del: upt_Suc)
qed

lemma run_effects:
  "run_updates (map (\<lambda>x. effect (f x)) xs) st = st\<lparr>pn_effects := pn_effects st @ map f xs\<rparr>"
  by (induction xs arbitrary: st) (simp_all add: effect_def)

lemma run_progress:
  "run_updates (map (\<lambda>p st. st\<lparr>pn_importProgress := p\<rparr>) ps) st =
     (if ps = [] then st else st\<lparr>pn_importProgress := last ps\<rparr>)"
  by (induction ps arbitrary: st) auto

lemma build_length:
  assumes "buildImportRequests h payload = Inr build"
  shows "length (br_requests build) + length (br_errors build) = length (extractImportItems payload)"
proof -
  from assms obtain rs where rs: "import_outcomes h 0 (extractImportItems payload) = Inr rs"
    and b: "br_requests build = concat (map outcome_request rs)" "br_errors build = concat (map outcome_error rs)"
    by (auto simp: buildImportRequests_def rbind_eq_Inr)
  have "length (concat (map outcome_request xs)) + length (concat (map outcome_error xs)) = length xs" for xs
  proof (induction xs)
    case (Cons x xs)
    then show ?case by (cases x) auto
  qed simp
  moreover have "length rs = length (extractImportItems payload)"
    using arg_cong [OF outcomes_indices [OF rs], of length] by simp
  ultimately show ?thesis by (simp add: b)
qed

text \<open>C14. In whatever order the server answers, an import of a payload attempts each request once and
  in place, and counts every item of the payload exactly once, as created or as failed.\<close>

theorem import_counts_all:
  assumes "buildImportRequests h payload = Inr build" and "br_requests build \<noteq> []"
    and "list_all (\<lambda>w. w < worker_count (length (br_requests build)) ACCOUNT_IMPORT_CONCURRENCY) order"
    and "import_attempts ui autoMonitor build answers order = Some attempts"
    and "st' = run_updates (import_run ui build attempts) st"
  shows "attempts = map (\<lambda>i. import_task ui autoMonitor (import_entries build ! i) (answers i)) [0..<length (br_requests build)] \<and>
    (\<exists>r. pn_runResult st' = Some r \<and> rr_created r + rr_failed r = length (extractImportItems payload) \<and>
       rr_errors r = br_errors build @ attempt_errors attempts) \<and>
    pn_importing st' = False \<and> pn_importProgress st' = (length (br_requests build), length (br_requests build))"
proof -
  note map = import_attempts_map [OF assms(4, 3)]
  let ?n = "length (br_requests build)"
  have ps: "progress_updates ?n \<noteq> []" "last (progress_updates ?n) = (?n, ?n)"
    using progress_last [of ?n] assms(2) by simp_all
  have sum: "length (attempt_channels attempts) + length (br_errors build @ attempt_errors attempts) =
      length (extractImportItems payload)"
    using attempts_split [of attempts] build_length [OF assms(1)] arg_cong [OF map, of length] by simp
  define r where "r = \<lparr>rr_created = length (attempt_channels attempts),
      rr_failed = length (br_errors build @ attempt_errors attempts), rr_errors = br_errors build @ attempt_errors attempts\<rparr>"
  have res: "pn_runResult st' = Some r" "pn_importing st' = False" "pn_importProgress st' = (?n, ?n)"
    using ps by (simp_all add: assms(5) import_run_def import_done_def Let_def run_progress run_effects effect_def r_def)
  have "rr_created r + rr_failed r = length (extractImportItems payload)"
    "rr_errors r = br_errors build @ attempt_errors attempts" using sum by (simp_all add: r_def)
  with map res show ?thesis by blast
qed

theorem import_counts_all_witness:
  "\<exists>build attempts r. buildImportRequests utc_host (JArr [JNull, JObj [(js ''key'', JStr (js ''k''))]]) = Inr build \<and>
     import_attempts plain_ui False build (\<lambda>i. Thrown None) [0] = Some attempts \<and>
     pn_runResult (run_updates (import_run plain_ui build attempts) initial_panel) = Some r \<and>
     rr_created r + rr_failed r = 2"
proof -
  let ?p = "JArr [JNull, JObj [(js ''key'', JStr (js ''k''))]]"
  have l: "length (extractImportItems ?p) = 2" by code_simp
  have "map_sum id (\<lambda>r. length (br_requests r)) (buildImportRequests utc_host ?p) = Inr 1" by code_simp
  then obtain build where b: "buildImportRequests utc_host ?p = Inr build" and n: "length (br_requests build) = 1"
    by (cases "buildImportRequests utc_host ?p") auto
  have ne: "br_requests build \<noteq> []" using n by auto
  have o: "list_all (\<lambda>w. w < worker_count (length (br_requests build)) ACCOUNT_IMPORT_CONCURRENCY) [0]"
    by (simp add: n worker_count_def ACCOUNT_IMPORT_CONCURRENCY_def)
  have "length (import_entries build) = 1" using n by (simp add: import_entries_def)
  then obtain attempts where a: "import_attempts plain_ui False build (\<lambda>i. Thrown None) [0] = Some attempts"
    by (simp add: import_attempts_def Let_def run_pool_def start_pool_eq worker_count_def ACCOUNT_IMPORT_CONCURRENCY_def
        settle_def take_next_def pool_outcome_def)
  from import_counts_all [OF b ne o a refl, of initial_panel, unfolded l] b a show ?thesis by blast
qed

end
