(* ===== verification/Account_Safety.thy ===== *)
theory Account_Safety
  imports Account_Run
begin

text \<open>
  The type invariant of the account import panel: the items have the properties that their type
  requires, the targets of a deletion have identifiers, no key is selected twice, and the requests
  that wait for the import are usable.

  The updates of all handlers are collected in one predicate.  Every sequence of such updates keeps
  the invariant; the sequences include all interleavings of handlers that run at the same time.
\<close>

section \<open>Typed items and patches\<close>

text \<open>The required properties of \<open>ImportedChannelCheck\<close> are present; a patch does not set one of
  them to \<open>undefined\<close>.\<close>

definition item_typed :: "ImportedChannelCheck \<Rightarrow> bool" where
  "item_typed i \<longleftrightarrow>
     ck_key i \<in> range Val \<and> ck_index i \<in> range Val \<and> ck_name i \<in> range Val \<and> ck_platform i \<in> range Val \<and>
     ck_quotaStatus i \<in> range Val \<and> ck_channelStatus i \<in> range Val"

definition patch_typed :: "ImportedChannelCheck \<Rightarrow> bool" where
  "patch_typed p \<longleftrightarrow>
     ck_key p \<noteq> Undef \<and> ck_index p \<noteq> Undef \<and> ck_name p \<noteq> Undef \<and> ck_platform p \<noteq> Undef \<and>
     ck_quotaStatus p \<noteq> Undef \<and> ck_channelStatus p \<noteq> Undef"

lemma over_typed: "a \<in> range Val \<Longrightarrow> b \<noteq> Undef \<Longrightarrow> over a b \<in> range Val"
  by (cases b) auto

lemma over_Undef: "over a b = Undef \<longleftrightarrow> b = Undef \<or> (b = Absent \<and> a = Undef)"
  by (cases b) auto

lemma spread_typed: "item_typed i \<Longrightarrow> patch_typed p \<Longrightarrow> item_typed (spread_item i p)"
  by (simp add: item_typed_def patch_typed_def spread_item_def over_typed)

lemma spread_patch_typed: "patch_typed p \<Longrightarrow> patch_typed q \<Longrightarrow> patch_typed (spread_item p q)"
  by (simp add: patch_typed_def spread_item_def over_Undef)

lemma item_patch_typed: "item_typed i \<Longrightarrow> patch_typed i"
  by (auto simp: item_typed_def patch_typed_def)

lemma empty_patch_typed: "patch_typed empty_patch"
  by (simp add: patch_typed_def empty_patch_def)

lemma patches_typed:
  "patch_typed (quota_patch ui item rp)" "patch_typed (test_patch ui r)" "patch_typed (skip_patch ui now)"
  by (auto simp: patch_typed_def quota_error_def usage_patch_def balance_patch_def quota_patch_def test_patch_def
      skip_patch_def channel_error_def empty_patch_def Let_def split: reply.split sum.split bool.split option.split)

lemma final_patch_typed: "patch_typed (final_patch ui item rp)"
proof -
  have "patch_typed (empty_patch\<lparr>ck_lastCheckedAt := t\<rparr>)"
    "patch_typed (empty_patch\<lparr>ck_channelStatus := Val c, ck_channelMessage := m, ck_lastCheckedAt := t\<rparr>)" for c m t
    by (simp_all add: patch_typed_def empty_patch_def)
  then show ?thesis unfolding final_patch_def by (auto intro!: spread_patch_typed patches_typed)
qed

lemma channel_item_typed: "channelToImportedItem ui channel index = Inr item \<Longrightarrow> item_typed item"
  by (auto simp: channelToImportedItem_def Let_def rbind_eq_Inr item_typed_def)

lemma items_from_typed: "items_from ui n channels = Inr items \<Longrightarrow> list_all item_typed items"
  by (induction ui n channels arbitrary: items rule: items_from.induct) (auto simp: rbind_eq_Inr channel_item_typed)

lemma created_item_typed: "item_typed (created_item auto entry name response)" "item_typed (oauth_item auto n request response)"
  by (simp_all add: item_typed_def created_item_def oauth_item_def empty_patch_def Let_def)

lemma reset_item_typed: "item_typed item \<Longrightarrow> item_typed (reset_item item response now)"
  unfolding reset_item_def by (intro spread_typed) (simp_all add: patch_typed_def empty_patch_def)

lemma attempts_typed:
  assumes "import_attempts ui autoMonitor build answers order = Some attempts"
    and "list_all (\<lambda>w. w < worker_count (length (br_requests build)) ACCOUNT_IMPORT_CONCURRENCY) order"
  shows "list_all item_typed (attempt_channels attempts)"
proof -
  have "item_typed c" if "import_task ui autoMonitor entry reply = Inr c" for entry reply c
    using that created_item_typed(1) by (auto simp: import_task_def Let_def split: reply.splits if_splits)
  then have "list_all item_typed (attempt_channels (map (\<lambda>i. import_task ui autoMonitor (e i) (answers i)) is))" for e "is"
    by (induction "is") (auto simp: attempt_channels_def split: sum.split)
  then show ?thesis unfolding import_attempts_map [OF assms] .
qed

section \<open>The invariant\<close>

definition panel_typed :: "Host \<Rightarrow> Panel \<Rightarrow> bool" where
  "panel_typed h st \<longleftrightarrow>
     list_all item_typed (pn_checkItems st) \<and>
     list_all (\<lambda>i. item_typed i \<and> has_id i) (pn_deleteTargets st) \<and>
     distinct (pn_selectedImportedKeys st) \<and>
     (\<forall>b. pn_buildResult st = Some b \<longrightarrow> list_all (usable_request h) (br_requests b))"

definition keeps_typed :: "Host \<Rightarrow> update \<Rightarrow> bool" where
  "keeps_typed h u \<longleftrightarrow> (\<forall>st. panel_typed h st \<longrightarrow> panel_typed h (u st))"

lemma keeps_effect: "keeps_typed h (effect e)"
  by (simp add: keeps_typed_def panel_typed_def effect_def)

lemma keeps_update:
  assumes "patch_typed p"
  shows "keeps_typed h (updateCheckItem key p)"
  using assms by (auto simp: keeps_typed_def panel_typed_def updateCheckItem_def list_all_iff spread_typed)

text \<open>Updates that leave the fields of the invariant alone.\<close>

lemma keeps_frame:
  assumes "\<And>st. pn_checkItems (u st) = pn_checkItems st" "\<And>st. pn_deleteTargets (u st) = pn_deleteTargets st"
    and "\<And>st. pn_selectedImportedKeys (u st) = pn_selectedImportedKeys st" "\<And>st. pn_buildResult (u st) = pn_buildResult st"
  shows "keeps_typed h u"
  using assms by (simp add: keeps_typed_def panel_typed_def)

lemma build_text_usable:
  "buildImportRequestsFromText h text = Inr b \<Longrightarrow> list_all (usable_request h) (br_requests b)"
  using build_usable by (auto simp: buildImportRequestsFromText_def rbind_eq_Inr list_all_iff)

lemma persist_typed: "list_all (keeps_typed h) (persistMonitorSnapshot ui item patch reply)"
  by (simp add: persistMonitorSnapshot_def keeps_effect split: option.split reply.split)

lemma check_item_typed: "list_all (keeps_typed h) (check_item ui item rp)"
  by (auto simp: check_item_def Let_def persist_typed keeps_effect split: option.split
      intro!: keeps_update patches_typed final_patch_typed)
    (simp_all add: patch_typed_def empty_patch_def)

lemma concat_typed:
  assumes "\<And>x. x \<in> set xs \<Longrightarrow> list_all (keeps_typed h) (f x)"
  shows "list_all (keeps_typed h) (concat (map f xs))"
  using assms by (auto simp: list_all_iff)

lemma checks_typed: "list_all (keeps_typed h) (runPostImportChecks ui checking items replies)"
  by (auto simp: runPostImportChecks_def check_items_def check_item_typed intro!: keeps_frame concat_typed)

section \<open>The updates of the handlers\<close>

text \<open>What a handler reads of an earlier state, such as the items it works on, is typed, because
  that state was.\<close>

inductive panel_update :: "Ui \<Rightarrow> Host \<Rightarrow> update \<Rightarrow> bool" for ui h where
  by_reset: "panel_update ui h reset"
| by_prune: "panel_update ui h prune_selection"
| by_toggle: "panel_update ui h (handleToggleImportedSelected key selected)"
| by_toggle_all: "panel_update ui h (handleToggleAllImported items selected)"
| by_load: "loadImportedChannels ui silent server = Some us \<Longrightarrow> u \<in> set us \<Longrightarrow> panel_update ui h u"
| by_request_delete: "list_all item_typed items \<Longrightarrow> panel_update ui h (requestDeleteImported ui items)"
| by_delete: "u \<in> set (handleConfirmDeleteImported ui targets reply) \<Longrightarrow> panel_update ui h u"
| by_group: "u \<in> set (handleApplyGroup ui items keys newGroup reply) \<Longrightarrow> panel_update ui h u"
| by_content: "panel_update ui h (handleContentChange content)"
| by_file: "u \<in> set (handleFileChange ui h chosen) \<Longrightarrow> panel_update ui h u"
| by_parse: "u \<in> set (parseContent ui h content) \<Longrightarrow> panel_update ui h u"
| by_checks: "u \<in> set (runPostImportChecks ui checking items replies) \<Longrightarrow> panel_update ui h u"
| by_reset_item: "item_typed item \<Longrightarrow>
    u \<in> set (handleResetImported ui resetting checking item rreply now replies) \<Longrightarrow> panel_update ui h u"
| by_monitor: "list_all item_typed items \<Longrightarrow>
    u \<in> set (handleToggleAutoMonitor ui monitor checking items saves replies) \<Longrightarrow> panel_update ui h u"
| by_import: "import_attempts ui monitor build answers order = Some attempts \<Longrightarrow>
    list_all (\<lambda>w. w < worker_count (length (br_requests build)) ACCOUNT_IMPORT_CONCURRENCY) order \<Longrightarrow>
    u \<in> set (import_run ui build attempts) \<Longrightarrow> panel_update ui h u"
| by_import_checks: "u \<in> set (import_checks ui monitor checking attempts replies) \<Longrightarrow> panel_update ui h u"
| by_oauth_form: "panel_update ui h (set_oauth f)"
| by_oauth_start: "u \<in> set (handleStartOpenAIOAuth ui sreply popup) \<Longrightarrow> panel_update ui h u"
| by_oauth_copy: "u \<in> set (handleCopyOpenAIOAuthUrl ui form copied) \<Longrightarrow> panel_update ui h u"
| by_oauth: "u \<in> set (handleCreateOpenAIOAuthAccount ui st creply areply) \<Longrightarrow> panel_update ui h u"
| by_oauth_checks: "u \<in> set (oauth_checks ui st creply areply replies) \<Longrightarrow> panel_update ui h u"

lemma load_done_typed: "keeps_typed h (load_done ui outcome)"
  by (auto simp: load_done_def keeps_effect keeps_typed_def panel_typed_def items_from_typed split: sum.split)

lemma keeps_simple:
  "keeps_typed h (\<lambda>st. st\<lparr>pn_deletingImported := b\<rparr>)" "keeps_typed h (\<lambda>st. st\<lparr>pn_applyingGroup := b\<rparr>)"
  "keeps_typed h (\<lambda>st. st\<lparr>pn_deleteTargets := []\<rparr>)"
  "keeps_typed h (\<lambda>st. st\<lparr>pn_selectedImportedKeys := filter P (pn_selectedImportedKeys st)\<rparr>)"
  "keeps_typed h (\<lambda>st. st\<lparr>pn_checkItems := without_ids ids (pn_checkItems st)\<rparr>)"
  "keeps_typed h (\<lambda>st. st\<lparr>pn_selectedImportedKeys := selectable_keys items\<rparr>)"
  "keeps_typed h (\<lambda>st. st\<lparr>pn_selectedImportedKeys := [k]\<rparr>)"
  "keeps_typed h (\<lambda>st. st\<lparr>pn_importing := b\<rparr>)" "keeps_typed h (\<lambda>st. st\<lparr>pn_importProgress := p\<rparr>)"
  "keeps_typed h (\<lambda>st. st\<lparr>pn_loadingImported := b\<rparr>)" "keeps_typed h (\<lambda>st. st\<lparr>pn_runResult := r\<rparr>)" "keeps_typed h (\<lambda>st. st\<lparr>pn_activeTab := t\<rparr>)"
  by (auto simp: keeps_typed_def panel_typed_def without_ids_def selectable_keys_def list_all_iff)

lemma delete_typed: "list_all (keeps_typed h) (handleConfirmDeleteImported ui targets reply)"
  by (simp add: handleConfirmDeleteImported_def delete_done_def Let_def keeps_effect keeps_simple split: reply.split)

lemma group_typed: "list_all (keeps_typed h) (handleApplyGroup ui items keys newGroup reply)"
  by (auto simp: handleApplyGroup_def Let_def keeps_effect list_all_iff intro!: keeps_frame keeps_update split: reply.splits)
    (simp_all add: patch_typed_def empty_patch_def)

lemma parse_typed:
  "list_all (keeps_typed h) (parseContent ui h content)" "list_all (keeps_typed h) (handleFileChange ui h chosen)"
proof -
  have t: "keeps_typed h (showParseToast ui r)" for r by (simp add: showParseToast_def keeps_effect)
  have b: "keeps_typed h (\<lambda>st. st\<lparr>pn_buildResult := Some b, pn_fileSource := f st\<rparr>)"
    "keeps_typed h (\<lambda>st. st\<lparr>pn_buildResult := Some b\<rparr>)" if "buildImportRequestsFromText h x = Inr b" for b f x
    using build_text_usable [OF that] by (simp_all add: keeps_typed_def panel_typed_def)
  have n: "keeps_typed h (\<lambda>st. st\<lparr>pn_fileSource := [], pn_buildResult := None\<rparr>)"
    "keeps_typed h (\<lambda>st. st\<lparr>pn_buildResult := None\<rparr>)"
    by (simp_all add: keeps_typed_def panel_typed_def)
  show "list_all (keeps_typed h) (parseContent ui h content)"
    by (auto simp: parseContent_def keeps_effect t n intro!: keeps_frame b split: sum.split)
  show "list_all (keeps_typed h) (handleFileChange ui h chosen)"
    by (auto simp: handleFileChange_def Let_def keeps_effect t n intro!: keeps_frame b split: option.split sum.split reply.split)
qed

lemma monitor_typed:
  assumes "list_all item_typed items"
  shows "list_all (keeps_typed h) (handleToggleAutoMonitor ui monitor checking items saves replies)"
proof -
  have "patch_typed (empty_patch\<lparr>ck_monitorEnabled := v\<rparr>)" for v by (simp add: patch_typed_def empty_patch_def)
  then have "keeps_typed h (\<lambda>st. st\<lparr>pn_autoMonitor := b, pn_checkItems :=
      map (\<lambda>i. spread_item i (empty_patch\<lparr>ck_monitorEnabled := v\<rparr>)) items\<rparr>)" for b v
    using assms by (auto simp: keeps_typed_def panel_typed_def list_all_iff spread_typed)
  then show ?thesis
    by (auto simp: handleToggleAutoMonitor_def Let_def checks_typed persist_typed intro!: concat_typed)
qed

lemma reset_item_handler_typed:
  assumes "item_typed item"
  shows "list_all (keeps_typed h) (handleResetImported ui resetting checking item rreply now replies)"
  using assms
  by (auto simp: handleResetImported_def Let_def keeps_effect checks_typed intro!: keeps_frame keeps_update
      item_patch_typed reset_item_typed split: reply.split)

lemma import_typed:
  assumes "list_all item_typed (attempt_channels attempts)"
  shows "list_all (keeps_typed h) (import_run ui build attempts)"
proof -
  have "keeps_typed h (\<lambda>st. st\<lparr>pn_checkItems := attempt_channels attempts @ without_ids ids (pn_checkItems st)\<rparr>)" for ids
    using assms by (auto simp: keeps_typed_def panel_typed_def without_ids_def list_all_iff)
  then show ?thesis
    by (simp add: import_run_def import_done_def Let_def keeps_effect keeps_simple list.pred_map comp_def list.pred_True)
qed

lemma oauth_typed:
  "list_all (keeps_typed h) (handleStartOpenAIOAuth ui sreply popup)"
  "list_all (keeps_typed h) (handleCreateOpenAIOAuthAccount ui st creply areply)"
proof -
  show "list_all (keeps_typed h) (handleStartOpenAIOAuth ui sreply popup)"
    by (auto simp: handleStartOpenAIOAuth_def Let_def keeps_effect intro!: keeps_frame split: reply.split)
  have i: "item_typed i" if "oauth_outcome ui st creply areply = Inr i" for i
    using that created_item_typed(2) by (auto simp: oauth_outcome_def Let_def split: reply.splits if_splits)
  have "keeps_typed h (\<lambda>st. st\<lparr>pn_checkItems := i # filter P (pn_checkItems st)\<rparr>)" if "item_typed i" for i P
    using that by (auto simp: keeps_typed_def panel_typed_def list_all_iff)
  then show "list_all (keeps_typed h) (handleCreateOpenAIOAuthAccount ui st creply areply)"
    using i by (auto simp: handleCreateOpenAIOAuthAccount_def oauth_done_def keeps_effect keeps_simple list_all_iff [of _ "map effect _"]
        intro!: keeps_frame split: sum.split)
qed

lemma panel_update_typed: "panel_update ui h u \<Longrightarrow> keeps_typed h u"
proof (induction rule: panel_update.induct)
  case by_reset
  show ?case by (simp add: keeps_typed_def panel_typed_def reset_def)
next
  case by_prune
  show ?case by (simp add: keeps_typed_def panel_typed_def prune_selection_def)
next
  case (by_toggle key selected)
  show ?case by (simp add: keeps_typed_def panel_typed_def handleToggleImportedSelected_def List.member_iff)
next
  case (by_toggle_all items selected)
  show ?case by (simp add: keeps_typed_def panel_typed_def handleToggleAllImported_def selectable_keys_def)
next
  case (by_load silent server us u)
  then show ?case
    by (auto simp: loadImportedChannels_def load_done_typed keeps_simple split: if_splits)
next
  case (by_request_delete items)
  then show ?case
    by (auto simp: requestDeleteImported_def Let_def keeps_effect) (auto simp: keeps_typed_def panel_typed_def list_all_iff)
next
  case (by_content content)
  show ?case by (simp add: keeps_typed_def panel_typed_def handleContentChange_def)
next
  case (by_import monitor build answers order attempts u)
  then show ?case using import_typed [OF attempts_typed] by (simp add: list_all_iff)
next
  case (by_oauth_form f)
  show ?case by (rule keeps_frame) simp_all
next
  case (by_oauth_copy u form copied)
  then show ?case by (auto simp: handleCopyOpenAIOAuthUrl_def keeps_effect split: if_splits)
next
  case (by_oauth_checks u st creply areply replies)
  then show ?case using checks_typed by (auto simp: oauth_checks_def list_all_iff split: if_splits sum.splits)
next
  case (by_import_checks u monitor c attempts replies)
  then show ?case using checks_typed by (auto simp: import_checks_def list_all_iff split: if_splits)
qed (use delete_typed group_typed parse_typed checks_typed reset_item_handler_typed monitor_typed oauth_typed
    in \<open>auto simp: list_all_iff\<close>)



end
