(* ===== verification/Notification_Store.thy ===== *)
theory Notification_Store
  imports Js_Value
begin

text \<open>
  The store of read notices and announcements,
  \<^verbatim>\<open>stores/notification-store.ts\<close>: its state, its actions and queries, and the part of
  the state that is written to the local storage.

  The store keeps two collections of keys, those read and those shown by the operating
  system.  They have the same contract, the locale \<open>marks\<close>: a key is marked once it has
  been passed to the marking action and stays so.  The locale is interpreted on both pairs
  of operations (\<open>read\<close> and \<open>notified\<close>).
\<close>

section \<open>State and actions\<close>

record NotificationState =
  lastReadNotice :: jstr
  readAnnouncementKeys :: "jstr list"
  notifiedAnnouncementKeys :: "jstr list"
  closedUntilDate :: "jstr option"

definition initial_notifications :: NotificationState where
  "initial_notifications =
     \<lparr>lastReadNotice = [], readAnnouncementKeys = [], notifiedAnnouncementKeys = [],
      closedUntilDate = None\<rparr>"

definition markNoticeRead :: "jstr \<Rightarrow> NotificationState \<Rightarrow> NotificationState" where
  "markNoticeRead noticeContent st = st\<lparr>lastReadNotice := trim noticeContent\<rparr>"

definition markAnnouncementsRead :: "jstr list \<Rightarrow> NotificationState \<Rightarrow> NotificationState" where
  "markAnnouncementsRead keys st =
     st\<lparr>readAnnouncementKeys := set_list (readAnnouncementKeys st @ keys)\<rparr>"

definition markAnnouncementsNotified :: "jstr list \<Rightarrow> NotificationState \<Rightarrow> NotificationState" where
  "markAnnouncementsNotified keys st =
     st\<lparr>notifiedAnnouncementKeys := set_list (notifiedAnnouncementKeys st @ keys)\<rparr>"

definition setClosedUntilDate :: "jstr option \<Rightarrow> NotificationState \<Rightarrow> NotificationState" where
  "setClosedUntilDate date st = st\<lparr>closedUntilDate := date\<rparr>"

definition isAnnouncementRead :: "NotificationState \<Rightarrow> jstr \<Rightarrow> bool" where
  "isAnnouncementRead st key = List.member (readAnnouncementKeys st) key"

definition isAnnouncementNotified :: "NotificationState \<Rightarrow> jstr \<Rightarrow> bool" where
  "isAnnouncementNotified st key = List.member (notifiedAnnouncementKeys st) key"

text \<open>\<open>today\<close> is \<open>new Date().toDateString()\<close>, the reading of the clock.  The empty
  date is falsy.\<close>

definition isNoticeClosed :: "jstr \<Rightarrow> NotificationState \<Rightarrow> bool" where
  "isNoticeClosed today st =
     (case closedUntilDate st of
        None \<Rightarrow> False
      | Some d \<Rightarrow> d \<noteq> [] \<and> d = today)"

text \<open>What \<open>persist\<close> writes to the local storage.\<close>

definition partialize :: "NotificationState \<Rightarrow> json" where
  "partialize st =
     JObj [(js ''lastReadNotice'', JStr (lastReadNotice st)),
           (js ''readAnnouncementKeys'', JArr (map JStr (readAnnouncementKeys st))),
           (js ''notifiedAnnouncementKeys'', JArr (map JStr (notifiedAnnouncementKeys st))),
           (js ''closedUntilDate'', (case closedUntilDate st of None \<Rightarrow> JNull | Some d \<Rightarrow> JStr d))]"

section \<open>Marking keys\<close>

locale marks =
  fixes mark :: "'k list \<Rightarrow> 's \<Rightarrow> 's"
    and marked :: "'s \<Rightarrow> 'k \<Rightarrow> bool"
  assumes marked_mark: "marked (mark ks s) k \<longleftrightarrow> marked s k \<or> k \<in> set ks"
begin

lemma mark_all: "filter (\<lambda>k. \<not> marked (mark ks s) k) ks = []"
  by (simp add: marked_mark filter_empty_conv)

lemma mark_unmarked: "filter (\<lambda>k. \<not> marked (mark (filter (\<lambda>k. \<not> marked s k) ks) s) k) ks = []"
  by (auto simp: marked_mark filter_empty_conv)

lemma mark_stays: "marked s k \<Longrightarrow> marked (foldl (\<lambda>s ks. mark ks s) s kss) k"
  by (induction kss arbitrary: s) (simp_all add: marked_mark)

lemma marked_foldl: "marked (foldl (\<lambda>s ks. mark ks s) s kss) k \<longleftrightarrow> marked s k \<or> k \<in> set (concat kss)"
  by (induction kss arbitrary: s) (auto simp: marked_mark)

text \<open>Marking only what is not marked yet, round by round, never handles a key in two
  rounds.\<close>

lemma fresh_disjoint:
  "set (filter (\<lambda>k. \<not> marked s k) ks) \<inter> {k. marked s k} = {}"
  by auto

end

interpretation read: marks markAnnouncementsRead isAnnouncementRead
  by unfold_locales (simp add: isAnnouncementRead_def markAnnouncementsRead_def)

interpretation notified: marks markAnnouncementsNotified isAnnouncementNotified
  by unfold_locales (simp add: isAnnouncementNotified_def markAnnouncementsNotified_def)

lemma mark_frames [simp]:
  "isAnnouncementNotified (markAnnouncementsRead ks st) = isAnnouncementNotified st"
  "isAnnouncementRead (markAnnouncementsNotified ks st) = isAnnouncementRead st"
  "isAnnouncementNotified (markNoticeRead n st) = isAnnouncementNotified st"
  "isAnnouncementRead (markNoticeRead n st) = isAnnouncementRead st"
  "lastReadNotice (markAnnouncementsRead ks st) = lastReadNotice st"
  "lastReadNotice (markAnnouncementsNotified ks st) = lastReadNotice st"
  "lastReadNotice (markNoticeRead n st) = trim n"
  by (auto simp: fun_eq_iff isAnnouncementRead_def isAnnouncementNotified_def
      markAnnouncementsRead_def markAnnouncementsNotified_def markNoticeRead_def)

section \<open>The stored state\<close>

text \<open>A state of strings: every text is a sequence of code units.\<close>

definition stored_ok :: "NotificationState \<Rightarrow> bool" where
  "stored_ok st \<longleftrightarrow> code_units (lastReadNotice st) \<and> list_all code_units (readAnnouncementKeys st) \<and>
     list_all code_units (notifiedAnnouncementKeys st) \<and>
     (case closedUntilDate st of None \<Rightarrow> True | Some d \<Rightarrow> code_units d)"

lemma partialize_inj: "partialize st = partialize st' \<Longrightarrow> st = st'"
  by (auto simp: partialize_def inj_map_eq_map inj_def split: option.splits)

lemma partialize_ok: "stored_ok st \<Longrightarrow> json_ok (partialize st)"
  by (auto simp: stored_ok_def partialize_def own_entries_def is_index_key_def is_digit_def
      code_units_def list_all_iff js_def split: option.splits)

end
