(* ===== verification/Notifications.thy ===== *)
theory Notifications
  imports Notification_Store Js_RegExp "HOL-Library.Word"
begin

text \<open>
  The notification centre, \<^verbatim>\<open>hooks/use-notifications.ts\<close>: the keys of announcements, the
  plain text of a desktop notification, the values a render derives, and the handlers and
  effects of the hook.

  An announcement is an object of the server's JSON, or \<open>null\<close>.  Computing its key may raise
  a \<open>TypeError\<close>, as \<open>trim\<close> is called on whatever the server sent, so the derived values are
  results, and a handler returns the state it leaves together with the exception that ended
  it, if any.  What comes from outside is a parameter: the translations \<open>t\<close>, the permission of
  the browser and whether \<open>new Notification\<close> succeeds.

  The flashing title and icon (an interval over the document) are not part of the state.
\<close>

section \<open>Keys\<close>

type_synonym announcement = "props option"

text \<open>The hash is a signed 32-bit integer: \<open>hash << 5\<close> wraps, the difference and the sum
  are exact numbers, and \<open>| 0\<close> wraps them.\<close>

definition hash_step :: "32 word \<Rightarrow> jchar \<Rightarrow> 32 word" where
  "hash_step hash chr = word_of_int (sint (push_bit 5 hash) - sint hash + chr)"

definition digit36 :: "int \<Rightarrow> jchar" where
  "digit36 d = (if d < 10 then 48 + d else 87 + d)"

text \<open>\<open>n.toString(36)\<close> of an integer.\<close>

function radix36 :: "int \<Rightarrow> jstr" where
  "radix36 n = (if n < 36 then [digit36 n] else radix36 (n div 36) @ [digit36 (n mod 36)])"
  by pat_completeness auto
termination
  by (relation "measure nat") auto

declare radix36.simps [simp del]

definition to_string36 :: "int \<Rightarrow> jstr" where
  "to_string36 n = (if n < 0 then js ''-'' @ radix36 (- n) else radix36 n)"

definition hashString :: "jstr \<Rightarrow> jstr" where
  "hashString input = (if input = [] then js ''0'' else to_string36 (sint (foldl hash_step 0 input)))"

text \<open>\<open>(item.f as string) || ''\<close>, and with \<open>.trim()\<close>, which only a string has.\<close>

definition field_or_empty :: "jstr \<Rightarrow> props \<Rightarrow> json" where
  "field_or_empty f item =
     (case get f item of None \<Rightarrow> JStr [] | Some v \<Rightarrow> if json_truthy v then v else JStr [])"

definition trimmed_field :: "jstr \<Rightarrow> props \<Rightarrow> json result" where
  "trimmed_field f item =
     (case field_or_empty f item of JStr s \<Rightarrow> Inr (JStr (trim s)) | _ \<Rightarrow> Inl TypeError)"

definition fingerprint :: "props \<Rightarrow> jstr result" where
  "fingerprint item =
     rbind (trimmed_field (js ''content'') item) (\<lambda>content.
     rbind (trimmed_field (js ''extra'') item) (\<lambda>extra.
     rbind (trimmed_field (js ''title'') item) (\<lambda>title.
     rbind (trimmed_field (js ''link'') item) (\<lambda>link.
       Inr (json_stringify (JObj
         [(js ''publishDate'', field_or_empty (js ''publishDate'') item),
          (js ''content'', content),
          (js ''extra'', extra),
          (js ''type'', field_or_empty (js ''type'') item),
          (js ''title'', title),
          (js ''link'', link)]))))))"

definition getAnnouncementKey :: "announcement \<Rightarrow> jstr result" where
  "getAnnouncementKey item =
     (case item of
        None \<Rightarrow> Inr []
      | Some ps \<Rightarrow>
          (case nullish (get (js ''id'') ps) None of
             Some i \<Rightarrow>
               (case value_to_string i of
                  None \<Rightarrow> Inl TypeError
                | Some s \<Rightarrow> Inr (js ''id:'' @ s))
           | None \<Rightarrow> rbind (fingerprint ps) (\<lambda>f. Inr (js ''hash:'' @ hashString f))))"

section \<open>The text of a desktop notification\<close>

text \<open>\<open>s.replace(r, ' ')\<close> for a pattern with the flag \<open>g\<close> that matches no empty text: the
  pieces between the matches, joined.\<close>

definition replace_matches :: "rx \<Rightarrow> jstr \<Rightarrow> jstr" where
  "replace_matches r s = join (js '' '') (rx_split r s)"

definition tag_rx :: rx where
  "tag_rx = rx_seq [RCls (\<lambda>c. c = 60), RStar (RCls (\<lambda>c. c \<noteq> 62)), RCls (\<lambda>c. c = 62)]"

definition markdown_rx :: rx where
  "markdown_rx = RCls (\<lambda>c. List.member (js ''#*_`>[]()~-'') c)"

definition spaces_rx :: rx where
  "spaces_rx = rx_plus (RCls is_ws)"

definition getAnnouncementPlainText :: "announcement \<Rightarrow> jstr result" where
  "getAnnouncementPlainText item =
     (case item of
        None \<Rightarrow> Inl TypeError
      | Some ps \<Rightarrow>
          (case value_to_string
                  (if field_or_empty (js ''content'') ps \<noteq> JStr [] then field_or_empty (js ''content'') ps
                   else field_or_empty (js ''extra'') ps) of
             None \<Rightarrow> Inl TypeError
           | Some content \<Rightarrow>
               Inr (take 180 (trim (replace_matches spaces_rx
                 (replace_matches markdown_rx (replace_matches tag_rx content)))))))"

section \<open>What a render derives\<close>

datatype permission = Default | Granted | Denied | Unsupported

datatype notice_tab = NoticeTab | AnnouncementsTab

text \<open>The answers of the two queries: the notice and the part of the status the hook reads.\<close>

record Feed =
  noticeResponse :: "(bool \<times> jstr option) option"
  announcements_enabled :: "json option"
  status_announcements :: "announcement list option"
  statusLoading :: bool

text \<open>A desktop notification that was shown, with the keys it stands for.\<close>

record Shown =
  shown_title :: jstr
  shown_body :: jstr
  shown_keys :: "jstr list"

text \<open>The state of the hook, the store it shares and the notifications shown so far.\<close>

record Notifier =
  nt_store :: NotificationState
  popoverOpen :: bool
  activeTab :: notice_tab
  dismissedAnnouncementDialogKey :: "jstr option"
  desktopNotificationPermission :: permission
  nt_shown :: "Shown list"

definition initial_notifier :: "permission \<Rightarrow> NotificationState \<Rightarrow> Notifier" where
  "initial_notifier perm st =
     \<lparr>nt_store = st, popoverOpen = False, activeTab = NoticeTab,
      dismissedAnnouncementDialogKey = None, desktopNotificationPermission = perm, nt_shown = []\<rparr>"

definition feed_announcements :: "Feed \<Rightarrow> announcement list" where
  "feed_announcements fd =
     (if (case announcements_enabled fd of None \<Rightarrow> False | Some v \<Rightarrow> json_truthy v)
      then take 20 (case status_announcements fd of None \<Rightarrow> [] | Some xs \<Rightarrow> xs)
      else [])"

definition noticeContent :: "Feed \<Rightarrow> jstr" where
  "noticeContent fd =
     (case noticeResponse fd of
        Some (True, d) \<Rightarrow> trim (case d of None \<Rightarrow> [] | Some s \<Rightarrow> s)
      | _ \<Rightarrow> [])"

text \<open>\<open>filter\<close> with a predicate that may raise.\<close>

fun rfilter :: "('a \<Rightarrow> bool result) \<Rightarrow> 'a list \<Rightarrow> 'a list result" where
  "rfilter p [] = Inr []"
| "rfilter p (x # xs) =
     rbind (p x) (\<lambda>b. rbind (rfilter p xs) (\<lambda>ys. Inr (if b then x # ys else ys)))"

definition unreadAnnouncements :: "Feed \<Rightarrow> NotificationState \<Rightarrow> announcement list result" where
  "unreadAnnouncements fd st =
     rfilter (\<lambda>item. rbind (getAnnouncementKey item) (\<lambda>key. Inr (\<not> isAnnouncementRead st key)))
       (feed_announcements fd)"

record Unread_Counts =
  unread_notice :: nat
  unread_announcements :: nat
  unread_total :: nat

definition unreadCounts :: "Feed \<Rightarrow> NotificationState \<Rightarrow> Unread_Counts result" where
  "unreadCounts fd st =
     (let noticeUnread = (if noticeContent fd \<noteq> [] \<and> noticeContent fd \<noteq> lastReadNotice st then 1 else 0)
      in rbind (unreadAnnouncements fd st) (\<lambda>xs.
           Inr \<lparr>unread_notice = noticeUnread, unread_announcements = length xs,
                unread_total = noticeUnread + length xs\<rparr>))"

definition announcementDialogKey :: "Feed \<Rightarrow> NotificationState \<Rightarrow> jstr result" where
  "announcementDialogKey fd st =
     rbind (unreadAnnouncements fd st) (\<lambda>xs.
     rbind (rmap getAnnouncementKey xs) (\<lambda>keys.
       Inr (join (js ''|'') (filter (\<lambda>k. k \<noteq> []) keys))))"

definition announcementDialogOpen :: "Feed \<Rightarrow> Notifier \<Rightarrow> bool result" where
  "announcementDialogOpen fd nt =
     rbind (announcementDialogKey fd (nt_store nt)) (\<lambda>key.
       Inr (\<not> statusLoading fd \<and> key \<noteq> [] \<and> dismissedAnnouncementDialogKey nt \<noteq> Some key))"

section \<open>Handlers\<close>

text \<open>A handler leaves a state and may end with an exception.\<close>

type_synonym outcome = "Notifier \<times> js_error option"

definition raising :: "'a result \<Rightarrow> ('a \<Rightarrow> Notifier) \<Rightarrow> Notifier \<Rightarrow> outcome" where
  "raising r f nt = (case r of Inl e \<Rightarrow> (nt, Some e) | Inr x \<Rightarrow> (f x, None))"

definition and_then :: "outcome \<Rightarrow> (Notifier \<Rightarrow> Notifier) \<Rightarrow> outcome" where
  "and_then r f = (case r of (nt, None) \<Rightarrow> (f nt, None) | (nt, Some e) \<Rightarrow> (nt, Some e))"

definition on_store :: "(NotificationState \<Rightarrow> NotificationState) \<Rightarrow> Notifier \<Rightarrow> Notifier" where
  "on_store f nt = nt\<lparr>nt_store := f (nt_store nt)\<rparr>"

definition markAnnouncementsAsRead :: "Feed \<Rightarrow> Notifier \<Rightarrow> outcome" where
  "markAnnouncementsAsRead fd nt =
     (if feed_announcements fd \<noteq> [] then
        raising (rmap getAnnouncementKey (feed_announcements fd))
          (\<lambda>allKeys. on_store (markAnnouncementsRead allKeys) nt) nt
      else (nt, None))"

text \<open>The handler is a closure of a render: \<open>announcementDialogKey\<close> and
  \<open>unreadAnnouncements\<close> are the values that render derived.\<close>

definition closeAnnouncementDialog :: "jstr \<Rightarrow> announcement list \<Rightarrow> Notifier \<Rightarrow> outcome" where
  "closeAnnouncementDialog dialogKey unread nt =
     (let nt1 = nt\<lparr>dismissedAnnouncementDialogKey := Some dialogKey\<rparr> in
      if unread \<noteq> [] then
        raising (rmap getAnnouncementKey unread)
          (\<lambda>unreadKeys. on_store (markAnnouncementsRead unreadKeys) nt1) nt1
      else (nt1, None))"

definition setAnnouncementDialogOpen :: "jstr \<Rightarrow> announcement list \<Rightarrow> bool \<Rightarrow> Notifier \<Rightarrow> outcome" where
  "setAnnouncementDialogOpen dialogKey unread opened nt =
     (if opened then (nt\<lparr>dismissedAnnouncementDialogKey := None\<rparr>, None)
      else closeAnnouncementDialog dialogKey unread nt)"

definition handleOpenPopover :: "Feed \<Rightarrow> notice_tab option \<Rightarrow> Notifier \<Rightarrow> outcome" where
  "handleOpenPopover fd tab nt =
     (let nextTab = (case tab of None \<Rightarrow> activeTab nt | Some x \<Rightarrow> x);
          nt1 = (if noticeContent fd \<noteq> [] then on_store (markNoticeRead (noticeContent fd)) nt else nt);
          r = (if nextTab = AnnouncementsTab then markAnnouncementsAsRead fd nt1 else (nt1, None))
      in and_then r (\<lambda>nt2. nt2\<lparr>activeTab := nextTab, popoverOpen := True\<rparr>))"

definition closePopover :: "Notifier \<Rightarrow> Notifier" where
  "closePopover nt = nt\<lparr>popoverOpen := False\<rparr>"

definition handlePopoverOpenChange :: "Feed \<Rightarrow> bool \<Rightarrow> Notifier \<Rightarrow> outcome" where
  "handlePopoverOpenChange fd opened nt =
     (if opened then handleOpenPopover fd (Some (activeTab nt)) nt else (closePopover nt, None))"

definition handleTabChange :: "Feed \<Rightarrow> notice_tab \<Rightarrow> Notifier \<Rightarrow> outcome" where
  "handleTabChange fd tab nt =
     (let nt1 = nt\<lparr>activeTab := tab\<rparr> in
      if tab = AnnouncementsTab then markAnnouncementsAsRead fd nt1 else (nt1, None))"

definition syncPermission :: "permission \<Rightarrow> Notifier \<Rightarrow> Notifier" where
  "syncPermission current nt = nt\<lparr>desktopNotificationPermission := current\<rparr>"

text \<open>\<open>answer\<close> is what the browser's dialog returns, \<open>current\<close> the permission before.\<close>

definition requestDesktopNotifications :: "permission \<Rightarrow> permission \<Rightarrow> Notifier \<Rightarrow> Notifier" where
  "requestDesktopNotifications current answer nt =
     (if current = Unsupported then nt
      else if current = Denied then nt\<lparr>desktopNotificationPermission := current\<rparr>
      else nt\<lparr>desktopNotificationPermission := answer\<rparr>)"

text \<open>The click on a shown notification.\<close>

definition notification_click :: "Notifier \<Rightarrow> Notifier" where
  "notification_click nt = nt\<lparr>dismissedAnnouncementDialogKey := None\<rparr>"

text \<open>The effect that shows a desktop notification.  \<open>t\<close> translates a text with an
  optional count; \<open>accepted\<close> says whether the browser's constructor returns.  An exception
  inside \<open>try\<close>, of the constructor or of the text, is dropped.\<close>

definition notifyDesktop ::
  "(jstr \<Rightarrow> nat option \<Rightarrow> jstr) \<Rightarrow> bool \<Rightarrow> bool \<Rightarrow> announcement list \<Rightarrow> Notifier \<Rightarrow> outcome" where
  "notifyDesktop t accepted loading unread nt =
     (if loading \<or> desktopNotificationPermission nt \<noteq> Granted then (nt, None)
      else
        (case rfilter (\<lambda>item. rbind (getAnnouncementKey item)
                 (\<lambda>key. Inr (\<not> isAnnouncementNotified (nt_store nt) key))) unread of
           Inl e \<Rightarrow> (nt, Some e)
         | Inr [] \<Rightarrow> (nt, None)
         | Inr (latest # rest) \<Rightarrow>
             raising (rmap getAnnouncementKey (latest # rest))
               (\<lambda>keys.
                  let title = (if rest = [] then t (js ''New system announcement'') None
                               else t (js ''{{count}} new system announcements'')
                                      (Some (length (latest # rest))))
                  in case getAnnouncementPlainText latest of
                       Inl _ \<Rightarrow> nt
                     | Inr body \<Rightarrow>
                         if accepted then
                           on_store (markAnnouncementsNotified keys)
                             (nt\<lparr>nt_shown := nt_shown nt @
                                [\<lparr>shown_title = title, shown_body = body, shown_keys = keys\<rparr>]\<rparr>)
                         else nt)
               nt))"

section \<open>The hash\<close>

text \<open>The polynomial the hash evaluates, without wrap-around.\<close>

definition horner :: "jstr \<Rightarrow> int" where
  "horner s = foldl (\<lambda>h c. 31 * h + c) 0 s"

lemma hash_step_eq: "hash_step h c = 31 * h + word_of_int c"
proof -
  have "push_bit 5 h = 32 * h" by (simp add: push_bit_eq_mult)
  then have "hash_step h c = 32 * h - h + word_of_int c"
    by (simp add: hash_step_def scast_id)
  then show ?thesis by simp
qed

lemma hash_fold: "foldl hash_step (word_of_int a) s = word_of_int (foldl (\<lambda>h c. 31 * h + c) a s)"
proof (induction s arbitrary: a)
  case (Cons c s)
  have "hash_step (word_of_int a) c = word_of_int (31 * a + c)" by (simp add: hash_step_eq)
  then show ?case using Cons.IH by (simp del: of_int_add of_int_mult)
qed simp

lemma hash_horner: "foldl hash_step 0 s = word_of_int (horner s)"
  using hash_fold [of 0 s] by (simp add: horner_def)

definition digit36_value :: "jchar \<Rightarrow> int" where
  "digit36_value c = (if c < 58 then c - 48 else c - 87)"

definition value36 :: "jstr \<Rightarrow> int" where
  "value36 s = foldl (\<lambda>v c. 36 * v + digit36_value c) 0 s"

lemma value36_snoc: "value36 (s @ [c]) = 36 * value36 s + digit36_value c"
  by (simp add: value36_def)

lemma digit36_back: "0 \<le> d \<Longrightarrow> digit36_value (digit36 d) = d"
  by (simp add: digit36_def digit36_value_def)

lemma value36_radix36: "0 \<le> n \<Longrightarrow> value36 (radix36 n) = n"
proof (induction n rule: radix36.induct)
  case (1 n)
  show ?case
  proof (cases "n < 36")
    case True
    then show ?thesis using 1 by (simp add: radix36.simps value36_def digit36_back)
  next
    case False
    then have "value36 (radix36 n) = 36 * (n div 36) + n mod 36"
      using 1 by (simp add: radix36.simps [of n] value36_snoc digit36_back)
    then show ?thesis by simp
  qed
qed

lemma digit36_not_minus: "0 \<le> d \<Longrightarrow> digit36 d \<noteq> 45"
  by (simp add: digit36_def)

lemma radix36_not_minus: "0 \<le> n \<Longrightarrow> 45 \<notin> set (radix36 n)"
proof (induction n rule: radix36.induct)
  case (1 n)
  then show ?case
    using digit36_not_minus [of n] digit36_not_minus [of "n mod 36"] by (subst radix36.simps) auto
qed

lemma to_string36_inj: "to_string36 m = to_string36 n \<longleftrightarrow> m = n"
proof
  define unval where "unval s = (if 45 \<in> set s then - value36 (tl s) else value36 s)" for s
  have "unval (to_string36 k) = k" for k
    by (simp add: unval_def to_string36_def value36_radix36 radix36_not_minus)
  then show "to_string36 m = to_string36 n \<Longrightarrow> m = n" by metis
qed simp

lemma hashString_eq: "hashString s = to_string36 (sint (word_of_int (horner s) :: 32 word))"
  by (simp add: hashString_def hash_horner [symmetric] to_string36_def radix36.simps digit36_def)

lemma hash_collides: "hashString s = hashString t \<longleftrightarrow> horner s mod 2 ^ 32 = horner t mod 2 ^ 32"
  by (simp only: hashString_eq to_string36_inj inj_eq [OF inj_signed])
    (simp add: word_of_int_eq_iff take_bit_eq_mod)

section \<open>Keys that exist\<close>

text \<open>A list of announcements is keyed when the key of each can be computed; a render
  succeeds exactly on those.\<close>

definition item_key :: "announcement \<Rightarrow> jstr" where
  "item_key item = projr (getAnnouncementKey item)"

definition keyed :: "announcement list \<Rightarrow> bool" where
  "keyed xs \<longleftrightarrow> (\<forall>x\<in>set xs. getAnnouncementKey x = Inr (item_key x))"

lemma keyed_simps [simp]:
  "keyed []" "keyed (x # xs) \<longleftrightarrow> getAnnouncementKey x = Inr (item_key x) \<and> keyed xs"
  by (auto simp: keyed_def)

lemma key_exists: "getAnnouncementKey x = Inr k \<Longrightarrow> getAnnouncementKey x = Inr (item_key x)"
  by (simp add: item_key_def)

lemma keyed_filter: "keyed xs \<Longrightarrow> keyed (filter p xs)"
  by (auto simp: keyed_def)

lemma keyed_keys: "keyed xs \<Longrightarrow> rmap getAnnouncementKey xs = Inr (map item_key xs)"
  by (induction xs) auto

lemma keyed_rfilter:
  "keyed xs \<Longrightarrow>
   rfilter (\<lambda>x. rbind (getAnnouncementKey x) (\<lambda>k. Inr (p k))) xs = Inr (filter (\<lambda>x. p (item_key x)) xs)"
  by (induction xs) auto

lemma rfilter_keyed:
  "rfilter (\<lambda>x. rbind (getAnnouncementKey x) (\<lambda>k. Inr (p k))) xs = Inr ys \<Longrightarrow> keyed xs"
  by (induction xs arbitrary: ys) (auto simp: rbind_eq_Inr dest: key_exists)

lemma unread_keyed: "unreadAnnouncements fd st = Inr ys \<Longrightarrow> keyed (feed_announcements fd)"
  unfolding unreadAnnouncements_def by (rule rfilter_keyed)

lemma keyed_unread:
  "keyed (feed_announcements fd) \<Longrightarrow>
   unreadAnnouncements fd st =
     Inr (filter (\<lambda>x. \<not> isAnnouncementRead st (item_key x)) (feed_announcements fd))"
  unfolding unreadAnnouncements_def by (rule keyed_rfilter)

lemma unread_items:
  assumes "unreadAnnouncements fd st = Inr unread"
  shows "unread = filter (\<lambda>x. \<not> isAnnouncementRead st (item_key x)) (feed_announcements fd)"
    and "keyed unread"
  using assms keyed_unread [OF unread_keyed [OF assms], of st] unread_keyed [OF assms]
  by (auto intro: keyed_filter)

text \<open>With every announcement read, nothing is counted and the dialog stays closed.\<close>

definition all_read :: "Feed \<Rightarrow> NotificationState \<Rightarrow> bool" where
  "all_read fd st \<longleftrightarrow> list_all (\<lambda>x. isAnnouncementRead st (item_key x)) (feed_announcements fd)"

lemma all_read_unread:
  "keyed (feed_announcements fd) \<Longrightarrow> all_read fd st \<Longrightarrow> unreadAnnouncements fd st = Inr []"
  by (simp add: keyed_unread all_read_def list_all_iff filter_empty_conv)

lemma all_read_dialog:
  "keyed (feed_announcements fd) \<Longrightarrow> all_read fd (nt_store nt) \<Longrightarrow> announcementDialogOpen fd nt = Inr False"
  by (simp add: announcementDialogOpen_def announcementDialogKey_def all_read_unread)

section \<open>Handlers on keyed announcements\<close>

lemma on_store_simps [simp]:
  "nt_store (on_store f nt) = f (nt_store nt)" "popoverOpen (on_store f nt) = popoverOpen nt"
  "activeTab (on_store f nt) = activeTab nt" "nt_shown (on_store f nt) = nt_shown nt"
  by (simp_all add: on_store_def)

lemma markAnnouncementsAsRead_keyed:
  assumes "keyed (feed_announcements fd)"
  obtains nt' where "markAnnouncementsAsRead fd nt = (nt', None)"
    and "all_read fd (nt_store nt')" and "lastReadNotice (nt_store nt') = lastReadNotice (nt_store nt)"
proof (cases "feed_announcements fd = []")
  case True
  then show ?thesis by (intro that [of nt]) (auto simp: markAnnouncementsAsRead_def all_read_def)
next
  case False
  let ?nt' = "on_store (markAnnouncementsRead (map item_key (feed_announcements fd))) nt"
  show ?thesis
  proof (rule that [of ?nt'])
    show "markAnnouncementsAsRead fd nt = (?nt', None)"
      using False assms by (simp add: markAnnouncementsAsRead_def keyed_keys raising_def)
    show "all_read fd (nt_store ?nt')"
      by (simp add: all_read_def list_all_iff read.marked_mark)
  qed simp
qed

lemma closeAnnouncementDialog_keyed:
  assumes "keyed (feed_announcements fd)" "unreadAnnouncements fd (nt_store nt) = Inr unread"
  obtains nt' where "closeAnnouncementDialog dialogKey unread nt = (nt', None)"
    and "all_read fd (nt_store nt')"
proof (cases "unread = []")
  case True
  let ?nt' = "nt\<lparr>dismissedAnnouncementDialogKey := Some dialogKey\<rparr>"
  have "all_read fd (nt_store nt)"
    using True unread_items(1) [OF assms(2)] by (auto simp: all_read_def list_all_iff filter_empty_conv)
  then show ?thesis using True by (intro that [of ?nt']) (simp_all add: closeAnnouncementDialog_def)
next
  case False
  let ?nt' = "on_store (markAnnouncementsRead (map item_key unread))
                (nt\<lparr>dismissedAnnouncementDialogKey := Some dialogKey\<rparr>)"
  show ?thesis
  proof (rule that [of ?nt'])
    show "closeAnnouncementDialog dialogKey unread nt = (?nt', None)"
      using False unread_items(2) [OF assms(2)]
      by (simp add: closeAnnouncementDialog_def keyed_keys raising_def)
    show "all_read fd (nt_store ?nt')"
      by (auto simp: all_read_def list_all_iff read.marked_mark unread_items(1) [OF assms(2)])
  qed
qed

lemma trim_noticeContent: "trim (noticeContent fd) = noticeContent fd"
  by (auto simp: noticeContent_def split: option.split prod.split bool.split)

section \<open>Sample announcements\<close>

definition sample_announcement :: "jstr \<Rightarrow> announcement" where
  "sample_announcement content = Some [(js ''content'', JStr content)]"

definition numbered_announcement :: "jstr \<Rightarrow> announcement" where
  "numbered_announcement i = Some [(js ''id'', JStr i), (js ''content'', JStr (js ''hello''))]"

definition sample_feed :: "announcement list \<Rightarrow> Feed" where
  "sample_feed xs =
     \<lparr>noticeResponse = Some (True, Some (js '' maintenance '')), announcements_enabled = Some (JBool True),
      status_announcements = Some xs, statusLoading = False\<rparr>"

lemma numbered_key [simp]: "getAnnouncementKey (numbered_announcement i) = Inr (js ''id:'' @ i)"
  by (simp add: getAnnouncementKey_def numbered_announcement_def get_def nullish_def js_def)

lemma sample_feed_announcements [simp]: "feed_announcements (sample_feed xs) = take 20 xs"
  by (simp add: feed_announcements_def sample_feed_def)

section \<open>Reading announcements\<close>

text \<open>Opening the notification centre on the announcements raises no exception, shows the
  announcements, and leaves no unread notice or announcement: every count is 0 and the
  announcement dialog is closed.\<close>

theorem open_announcements_clears:
  assumes "unreadCounts fd (nt_store nt) = Inr c"
  shows "\<exists>nt'. handleOpenPopover fd (Some AnnouncementsTab) nt = (nt', None) \<and>
    popoverOpen nt' \<and> activeTab nt' = AnnouncementsTab \<and>
    unreadCounts fd (nt_store nt') =
      Inr \<lparr>unread_notice = 0, unread_announcements = 0, unread_total = 0\<rparr> \<and>
    announcementDialogOpen fd nt' = Inr False"
proof -
  have keyed: "keyed (feed_announcements fd)"
    using assms by (auto simp: unreadCounts_def rbind_eq_Inr Let_def dest: unread_keyed)
  let ?nt1 = "if noticeContent fd \<noteq> [] then on_store (markNoticeRead (noticeContent fd)) nt else nt"
  obtain nt2 where nt2: "markAnnouncementsAsRead fd ?nt1 = (nt2, None)" "all_read fd (nt_store nt2)"
      "lastReadNotice (nt_store nt2) = lastReadNotice (nt_store ?nt1)"
    using markAnnouncementsAsRead_keyed [OF keyed] by metis
  let ?nt' = "nt2\<lparr>activeTab := AnnouncementsTab, popoverOpen := True\<rparr>"
  have "handleOpenPopover fd (Some AnnouncementsTab) nt = (?nt', None)"
    using nt2(1) by (simp add: handleOpenPopover_def and_then_def)
  moreover have "unreadCounts fd (nt_store ?nt') =
      Inr \<lparr>unread_notice = 0, unread_announcements = 0, unread_total = 0\<rparr>"
    using nt2(2,3) by (simp add: unreadCounts_def all_read_unread [OF keyed] trim_noticeContent)
  moreover have "announcementDialogOpen fd ?nt' = Inr False"
    using nt2(2) by (simp add: all_read_dialog [OF keyed])
  ultimately show ?thesis by (intro exI [of _ ?nt']) simp
qed

text \<open>Closing the announcement dialog with the values of a render raises no exception,
  marks what it showed as read and closes the dialog.\<close>

theorem dialog_closes:
  assumes "unreadAnnouncements fd (nt_store nt) = Inr unread"
    and "announcementDialogKey fd (nt_store nt) = Inr dialogKey"
  shows "\<exists>nt'. setAnnouncementDialogOpen dialogKey unread False nt = (nt', None) \<and>
    announcementDialogOpen fd nt' = Inr False \<and> unreadAnnouncements fd (nt_store nt') = Inr []"
  using closeAnnouncementDialog_keyed [OF unread_keyed [OF assms(1)] assms(1), of dialogKey]
    all_read_unread [OF unread_keyed [OF assms(1)]] all_read_dialog [OF unread_keyed [OF assms(1)]]
  by (metis setAnnouncementDialogOpen_def)

text \<open>The dialog at work: two announcements, one of them read.\<close>

definition sample_notifier :: Notifier where
  "sample_notifier = initial_notifier Granted (markAnnouncementsRead [js ''id:1''] initial_notifications)"

definition sample_pair :: Feed where
  "sample_pair = sample_feed [numbered_announcement (js ''1''), numbered_announcement (js ''2'')]"

lemma sample_unread:
  "unreadAnnouncements sample_pair
     (nt_store sample_notifier) = Inr [numbered_announcement (js ''2'')]"
  by (simp add: sample_pair_def unreadAnnouncements_def sample_notifier_def initial_notifier_def isAnnouncementRead_def
      markAnnouncementsRead_def initial_notifications_def js_def)

theorem open_announcements_clears_witness:
  "\<exists>nt'. handleOpenPopover sample_pair
       (Some AnnouncementsTab) sample_notifier = (nt', None) \<and>
    unreadCounts sample_pair
       (nt_store nt') = Inr \<lparr>unread_notice = 0, unread_announcements = 0, unread_total = 0\<rparr>"
proof -
  obtain c where "unreadCounts sample_pair (nt_store sample_notifier) = Inr c"
    by (simp add: unreadCounts_def sample_unread Let_def)
  from open_announcements_clears [OF this] show ?thesis by blast
qed

theorem dialog_closes_witness:
  "\<exists>nt'. setAnnouncementDialogOpen (js ''id:2'') [numbered_announcement (js ''2'')] False sample_notifier =
       (nt', None) \<and>
     announcementDialogOpen sample_pair
       nt' = Inr False"
proof -
  have "announcementDialogKey sample_pair (nt_store sample_notifier) = Inr (js ''id:2'')"
    by (simp add: announcementDialogKey_def sample_unread js_def)
  from dialog_closes [OF sample_unread this] show ?thesis by blast
qed

section \<open>Keys of announcements without an id\<close>

text \<open>Two announcements without an id have the same key exactly if the polynomials of their
  fingerprints agree modulo \<open>2\<^sup>3\<^sup>2\<close>.\<close>

theorem content_key_collides:
  assumes "nullish (get (js ''id'') a) None = None" "nullish (get (js ''id'') b) None = None"
    and "fingerprint a = Inr fa" "fingerprint b = Inr fb"
  shows "getAnnouncementKey (Some a) = getAnnouncementKey (Some b) \<longleftrightarrow>
    horner fa mod 2 ^ 32 = horner fb mod 2 ^ 32"
  using assms by (simp add: getAnnouncementKey_def hash_collides)

text \<open>The prefix keeps the two kinds of keys apart.\<close>

lemma id_key_not_hash: "js ''id:'' @ s \<noteq> js ''hash:'' @ t"
  by (simp add: js_def)

text \<open>The fingerprint of an announcement that has only a content.\<close>

lemma sample_fingerprint:
  "fingerprint [(js ''content'', JStr c)] =
   Inr (js ''{\"publishDate\":\"\",\"content\":'' @ json_quote (trim c) @
        js '',\"extra\":\"\",\"type\":\"\",\"title\":\"\",\"link\":\"\"}'')"
  by (simp add: fingerprint_def trimmed_field_def field_or_empty_def get_def js_def own_entries_def
      is_index_key_def is_digit_def json_quote_def trim_def trim_start_def trim_end_def
      json_esc_def is_high_surrogate_def is_low_surrogate_def)

lemma sample_key:
  "getAnnouncementKey (sample_announcement c) =
   Inr (js ''hash:'' @ hashString (projr (fingerprint [(js ''content'', JStr c)])))"
  using sample_fingerprint [of c]
  by (simp add: getAnnouncementKey_def sample_announcement_def get_def nullish_def js_def)

lemma sample_horner:
  "horner (projr (fingerprint [(js ''content'', JStr (js ''Aa''))])) =
   horner (projr (fingerprint [(js ''content'', JStr (js ''BB''))]))"
  unfolding sample_fingerprint
  by (simp add: horner_def json_quote_def trim_def trim_start_def trim_end_def is_ws_def
      json_esc_def is_high_surrogate_def is_low_surrogate_def)

lemma sample_hash:
  "hashString (projr (fingerprint [(js ''content'', JStr (js ''Aa''))])) =
   hashString (projr (fingerprint [(js ''content'', JStr (js ''BB''))]))"
  by (simp only: hash_collides sample_horner)

text \<open>An edit of the content from \<open>Aa\<close> to \<open>BB\<close> leaves the key unchanged: the announcement
  that was read stays read.\<close>

theorem edit_unnoticed:
  "(\<exists>k. getAnnouncementKey (sample_announcement (js ''Aa'')) = Inr k \<and>
        getAnnouncementKey (sample_announcement (js ''BB'')) = Inr k) \<and>
   sample_announcement (js ''Aa'') \<noteq> sample_announcement (js ''BB'')"
  by (simp only: sample_key sample_hash) (simp add: sample_announcement_def)

section \<open>Runs of the hook\<close>

text \<open>New answers of the server, and the handlers and effects of a render that succeeded.\<close>

inductive notifier_step ::
  "(jstr \<Rightarrow> nat option \<Rightarrow> jstr) \<Rightarrow> Feed \<times> Notifier \<Rightarrow> Feed \<times> Notifier \<Rightarrow> bool"
  for t where
  answer: "notifier_step t (fd, nt) (fd', nt)"
| open_popover: "unreadCounts fd (nt_store nt) = Inr c \<Longrightarrow> handleOpenPopover fd tab nt = (nt', e) \<Longrightarrow>
    notifier_step t (fd, nt) (fd, nt')"
| open_change: "unreadCounts fd (nt_store nt) = Inr c \<Longrightarrow> handlePopoverOpenChange fd b nt = (nt', e) \<Longrightarrow>
    notifier_step t (fd, nt) (fd, nt')"
| tab_change: "unreadCounts fd (nt_store nt) = Inr c \<Longrightarrow> handleTabChange fd x nt = (nt', e) \<Longrightarrow>
    notifier_step t (fd, nt) (fd, nt')"
| close_popover: "notifier_step t (fd, nt) (fd, closePopover nt)"
| dialog: "unreadAnnouncements fd (nt_store nt) = Inr unread \<Longrightarrow>
    announcementDialogKey fd (nt_store nt) = Inr dialogKey \<Longrightarrow>
    setAnnouncementDialogOpen dialogKey unread b nt = (nt', e) \<Longrightarrow>
    notifier_step t (fd, nt) (fd, nt')"
| sync: "notifier_step t (fd, nt) (fd, syncPermission p nt)"
| request: "notifier_step t (fd, nt) (fd, requestDesktopNotifications p q nt)"
| click: "notifier_step t (fd, nt) (fd, notification_click nt)"
| notify: "unreadAnnouncements fd (nt_store nt) = Inr unread \<Longrightarrow>
    notifyDesktop t accepted (statusLoading fd) unread nt = (nt', e) \<Longrightarrow>
    notifier_step t (fd, nt) (fd, nt')"

text \<open>What a step does to the store and the notifications shown: reading only adds read
  keys; a notification is new and its keys are marked.\<close>

definition reads_more :: "Notifier \<Rightarrow> Notifier \<Rightarrow> bool" where
  "reads_more nt nt' \<longleftrightarrow> nt_shown nt' = nt_shown nt \<and>
     isAnnouncementNotified (nt_store nt') = isAnnouncementNotified (nt_store nt) \<and>
     (\<forall>k. isAnnouncementRead (nt_store nt) k \<longrightarrow> isAnnouncementRead (nt_store nt') k)"

definition shows_new :: "Notifier \<Rightarrow> Notifier \<Rightarrow> bool" where
  "shows_new nt nt' \<longleftrightarrow> (\<exists>x. nt_shown nt' = nt_shown nt @ [x] \<and> shown_keys x \<noteq> [] \<and>
     (\<forall>k\<in>set (shown_keys x). \<not> isAnnouncementNotified (nt_store nt) k) \<and>
     nt_store nt' = markAnnouncementsNotified (shown_keys x) (nt_store nt))"

lemma reads_more_refl [simp]: "reads_more nt nt"
  by (simp add: reads_more_def)

lemma reads_more_updates [simp]:
  "reads_more nt (nt'\<lparr>popoverOpen := b\<rparr>) = reads_more nt nt'"
  "reads_more nt (nt'\<lparr>activeTab := x\<rparr>) = reads_more nt nt'"
  "reads_more nt (nt'\<lparr>dismissedAnnouncementDialogKey := d\<rparr>) = reads_more nt nt'"
  "reads_more nt (nt'\<lparr>desktopNotificationPermission := p\<rparr>) = reads_more nt nt'"
  by (simp_all add: reads_more_def)

lemma reads_more_store [simp]:
  "reads_more nt nt' \<Longrightarrow> reads_more nt (on_store (markAnnouncementsRead ks) nt')"
  "reads_more nt nt' \<Longrightarrow> reads_more nt (on_store (markNoticeRead n) nt')"
  by (simp_all add: reads_more_def read.marked_mark)

lemma mark_reads_more: "reads_more nt nt' \<Longrightarrow> reads_more nt (fst (markAnnouncementsAsRead fd nt'))"
  by (simp add: markAnnouncementsAsRead_def raising_def split: sum.split)

lemma open_reads_more: "reads_more nt (fst (handleOpenPopover fd tab nt))"
proof -
  have "reads_more nt (fst r) \<Longrightarrow> reads_more nt (fst (and_then r (\<lambda>nt2. nt2\<lparr>activeTab := x, popoverOpen := b\<rparr>)))"
    for r x b
    by (auto simp: and_then_def split: prod.split option.split)
  then show ?thesis by (simp add: handleOpenPopover_def Let_def mark_reads_more)
qed

lemma tab_reads_more: "reads_more nt (fst (handleTabChange fd x nt))"
  by (simp add: handleTabChange_def Let_def mark_reads_more)

lemma change_reads_more: "reads_more nt (fst (handlePopoverOpenChange fd b nt))"
  by (simp add: handlePopoverOpenChange_def closePopover_def open_reads_more)

lemma dialog_reads_more: "reads_more nt (fst (setAnnouncementDialogOpen k unread b nt))"
  by (simp add: setAnnouncementDialogOpen_def closeAnnouncementDialog_def Let_def raising_def split: sum.split)

lemma notify_shows_new:
  assumes "notifyDesktop t accepted loading unread nt = (nt', e)"
  shows "nt' = nt \<or> shows_new nt nt'"
proof (cases "rfilter (\<lambda>item. rbind (getAnnouncementKey item)
    (\<lambda>key. Inr (\<not> isAnnouncementNotified (nt_store nt) key))) unread")
  case (Inl e)
  then show ?thesis using assms by (simp add: notifyDesktop_def split: if_splits)
next
  case (Inr pending)
  have keyed: "keyed unread" using Inr by (rule rfilter_keyed)
  then have pending: "pending = filter (\<lambda>x. \<not> isAnnouncementNotified (nt_store nt) (item_key x)) unread"
    using Inr keyed_rfilter [OF keyed, of "\<lambda>k. \<not> isAnnouncementNotified (nt_store nt) k"] by simp
  have keys: "rmap getAnnouncementKey pending = Inr (map item_key pending)"
    using keyed by (simp add: pending keyed_keys keyed_filter)
  have new: "\<not> isAnnouncementNotified (nt_store nt) k" if "k \<in> set (map item_key pending)" for k
    using that by (auto simp: pending)
  show ?thesis
  proof (cases pending)
    case Nil
    then show ?thesis using assms Inr by (simp add: notifyDesktop_def split: if_splits)
  next
    case (Cons latest rest)
    then show ?thesis
      using assms Inr keys new
      by (cases "getAnnouncementPlainText latest")
        (auto simp: notifyDesktop_def raising_def shows_new_def Let_def simp del: rmap.simps split: if_splits)
  qed
qed

lemma step_effect:
  assumes "notifier_step t (fd, nt) (fd', nt')"
  shows "reads_more nt nt' \<or> shows_new nt nt'"
  using assms
proof cases
  case open_popover then show ?thesis by (metis open_reads_more fst_conv)
next
  case open_change then show ?thesis by (metis change_reads_more fst_conv)
next
  case tab_change then show ?thesis by (metis tab_reads_more fst_conv)
next
  case dialog then show ?thesis by (metis dialog_reads_more fst_conv)
next
  case notify then show ?thesis by (metis notify_shows_new reads_more_refl)
qed (simp_all add: closePopover_def syncPermission_def requestDesktopNotifications_def notification_click_def)

text \<open>The invariant of a run from a stored state \<open>st\<close>.\<close>

definition notifier_inv :: "NotificationState \<Rightarrow> Notifier \<Rightarrow> bool" where
  "notifier_inv st nt \<longleftrightarrow>
     sorted_wrt (\<lambda>a b. set (shown_keys a) \<inter> set (shown_keys b) = {}) (nt_shown nt) \<and>
     (\<forall>x\<in>set (nt_shown nt). \<forall>k\<in>set (shown_keys x).
        \<not> isAnnouncementNotified st k \<and> isAnnouncementNotified (nt_store nt) k) \<and>
     (\<forall>k. isAnnouncementNotified st k \<longrightarrow> isAnnouncementNotified (nt_store nt) k) \<and>
     (\<forall>k. isAnnouncementRead st k \<longrightarrow> isAnnouncementRead (nt_store nt) k)"

lemma notifier_inv_reads: "notifier_inv st nt \<Longrightarrow> reads_more nt nt' \<Longrightarrow> notifier_inv st nt'"
  by (simp add: notifier_inv_def reads_more_def)

lemma notifier_inv_shows:
  assumes "notifier_inv st nt" "shows_new nt nt'"
  shows "notifier_inv st nt'"
proof -
  obtain x where x: "nt_shown nt' = nt_shown nt @ [x]"
      "\<forall>k\<in>set (shown_keys x). \<not> isAnnouncementNotified (nt_store nt) k"
      "nt_store nt' = markAnnouncementsNotified (shown_keys x) (nt_store nt)"
    using assms(2) by (auto simp: shows_new_def)
  show ?thesis
    using assms(1) x by (auto simp: notifier_inv_def sorted_wrt_append notified.marked_mark)
qed

lemma notifier_run_inv:
  assumes "(notifier_step t)\<^sup>*\<^sup>* (fd, initial_notifier perm st) (fd', nt)"
  shows "notifier_inv st nt"
  using assms
proof (induction rule: rtranclp_induct2)
  case refl
  then show ?case by (simp add: notifier_inv_def initial_notifier_def)
next
  case (step fd1 nt1 fd2 nt2)
  then show ?case
    using step_effect [of t fd1 nt1 fd2 nt2] notifier_inv_reads notifier_inv_shows by blast
qed

text \<open>C15. In every run of the hook, whatever the server answers and whatever is opened,
  closed or clicked: no two desktop notifications stand for the same key, none stands for a
  key that was already notified, and what was read stays read.\<close>

theorem notified_once:
  assumes "(notifier_step t)\<^sup>*\<^sup>* (fd, initial_notifier perm st) (fd', nt)"
  shows "sorted_wrt (\<lambda>a b. set (shown_keys a) \<inter> set (shown_keys b) = {}) (nt_shown nt) \<and>
    (\<forall>x\<in>set (nt_shown nt). \<forall>k\<in>set (shown_keys x). \<not> isAnnouncementNotified st k) \<and>
    (\<forall>k. isAnnouncementRead st k \<longrightarrow> isAnnouncementRead (nt_store nt) k)"
  using notifier_run_inv [OF assms] by (auto simp: notifier_inv_def)

lemma sample_body: "\<exists>body. getAnnouncementPlainText (numbered_announcement i) = Inr body"
  by (simp add: getAnnouncementPlainText_def numbered_announcement_def field_or_empty_def get_def)

lemma numbered_item_key [simp]: "item_key (numbered_announcement i) = js ''id:'' @ i"
  by (simp add: item_key_def)

lemma sample_notify:
  assumes "desktopNotificationPermission nt = Granted"
    and "\<not> isAnnouncementNotified (nt_store nt) (js ''id:'' @ i)"
  obtains nt' e x where "notifyDesktop t True False [numbered_announcement i] nt = (nt', e)"
    and "nt_shown nt' = nt_shown nt @ [x]" and "shown_keys x = [js ''id:'' @ i]"
    and "desktopNotificationPermission nt' = Granted"
    and "nt_store nt' = markAnnouncementsNotified [js ''id:'' @ i] (nt_store nt)"
proof -
  obtain body where body: "getAnnouncementPlainText (numbered_announcement i) = Inr body"
    using sample_body by blast
  let ?x = "\<lparr>shown_title = t (js ''New system announcement'') None, shown_body = body,
              shown_keys = [js ''id:'' @ i]\<rparr>"
  let ?nt' = "on_store (markAnnouncementsNotified [js ''id:'' @ i]) (nt\<lparr>nt_shown := nt_shown nt @ [?x]\<rparr>)"
  show ?thesis
  proof (rule that [of ?nt' None ?x])
    show "notifyDesktop t True False [numbered_announcement i] nt = (?nt', None)"
      using assms body by (simp add: notifyDesktop_def raising_def)
  qed (simp_all add: assms(1) on_store_def)
qed

text \<open>A run that shows two notifications: the second announcement arrives while the first
  one is read.\<close>

lemma sample_run:
  "\<exists>nt. (notifier_step (\<lambda>k n. k))\<^sup>*\<^sup>*
      (sample_feed [numbered_announcement (js ''2'')], sample_notifier)
      (sample_feed [numbered_announcement (js ''3'')], nt) \<and> length (nt_shown nt) = 2"
proof -
  let ?fd = "sample_feed [numbered_announcement (js ''2'')]"
  let ?fd' = "sample_feed [numbered_announcement (js ''3'')]"
  have perm: "desktopNotificationPermission sample_notifier = Granted"
    "\<not> isAnnouncementNotified (nt_store sample_notifier) k" "nt_shown sample_notifier = []" for k
    by (simp_all add: sample_notifier_def initial_notifier_def isAnnouncementNotified_def initial_notifications_def)
  obtain nt1 e1 where nt1: "notifyDesktop (\<lambda>k n. k) True False [numbered_announcement (js ''2'')] sample_notifier = (nt1, e1)"
      "length (nt_shown nt1) = 1" "desktopNotificationPermission nt1 = Granted"
      "nt_store nt1 = markAnnouncementsNotified [js ''id:'' @ js ''2''] (nt_store sample_notifier)"
    by (rule sample_notify [OF perm(1,2), where i = "js ''2''" and t = "\<lambda>k n. k"]) (simp add: perm(3))
  have fresh: "\<not> isAnnouncementNotified (nt_store nt1) (js ''id:'' @ js ''3'')"
    using perm(2) by (simp add: nt1(4) notified.marked_mark)
  obtain nt2 e2 where nt2: "notifyDesktop (\<lambda>k n. k) True False [numbered_announcement (js ''3'')] nt1 = (nt2, e2)"
      "length (nt_shown nt2) = 2"
    by (rule sample_notify [OF nt1(3) fresh, where t = "\<lambda>k n. k"]) (simp add: nt1(2))
  have unread: "unreadAnnouncements ?fd (nt_store sample_notifier) = Inr [numbered_announcement (js ''2'')]"
      "unreadAnnouncements ?fd' (nt_store nt1) = Inr [numbered_announcement (js ''3'')]"
    by (simp_all add: unreadAnnouncements_def nt1(4) sample_notifier_def initial_notifier_def
        isAnnouncementRead_def markAnnouncementsRead_def markAnnouncementsNotified_def initial_notifications_def)
  have "notifier_step (\<lambda>k n. k) (?fd, sample_notifier) (?fd, nt1)"
    by (rule notifier_step.notify [OF unread(1)]) (use nt1(1) in \<open>simp add: sample_feed_def\<close>)
  moreover have "notifier_step (\<lambda>k n. k) (?fd, nt1) (?fd', nt1)" by (rule notifier_step.answer)
  moreover have "notifier_step (\<lambda>k n. k) (?fd', nt1) (?fd', nt2)"
    by (rule notifier_step.notify [OF unread(2)]) (use nt2(1) in \<open>simp add: sample_feed_def\<close>)
  ultimately show ?thesis
    using nt2(2) by (meson rtranclp.rtrancl_into_rtrancl rtranclp.rtrancl_refl)
qed

theorem notified_once_witness:
  "\<exists>nt :: Notifier. length (nt_shown nt) = 2 \<and>
     sorted_wrt (\<lambda>a b. set (shown_keys a) \<inter> set (shown_keys b) = {}) (nt_shown nt) \<and>
     isAnnouncementRead (nt_store nt) (js ''id:1'')"
proof -
  obtain nt where nt: "(notifier_step (\<lambda>k n. k))\<^sup>*\<^sup>*
      (sample_feed [numbered_announcement (js ''2'')], sample_notifier)
      (sample_feed [numbered_announcement (js ''3'')], nt)" "length (nt_shown nt) = 2"
    using sample_run by blast
  have "isAnnouncementRead (markAnnouncementsRead [js ''id:1''] initial_notifications) (js ''id:1'')"
    by (simp add: read.marked_mark)
  then show ?thesis
    using notified_once [OF nt(1) [unfolded sample_notifier_def]] nt(2) by (intro exI [of _ nt]) simp
qed

section \<open>The text of a notification\<close>

text \<open>A match leaves a suffix of the input.\<close>

lemma star_iter_rest:
  assumes "\<And>k b a c. m k b a c = Some x \<Longrightarrow> \<exists>b' a' c'. k b' a' c' = Some x \<and> set a' \<subseteq> set a"
  shows "star_iter m n k b a c = Some x \<Longrightarrow> \<exists>b' a' c'. k b' a' c' = Some x \<and> set a' \<subseteq> set a"
proof (induction n arbitrary: b a c)
  case (Suc n)
  show ?case
  proof (cases "m (\<lambda>b' a' c'. if length a' < length a then star_iter m n k b' a' c' else None) b a c")
    case None
    then show ?thesis using Suc.prems by auto
  next
    case (Some y)
    then obtain b' a' c' where "star_iter m n k b' a' c' = Some x" "set a' \<subseteq> set a"
      using assms [of _ b a c] Suc.prems by (fastforce split: if_splits)
    then show ?thesis using Suc.IH by blast
  qed
qed auto

lemma rx_m_rest: "rx_m r k b a c = Some x \<Longrightarrow> \<exists>b' a' c'. k b' a' c' = Some x \<and> set a' \<subseteq> set a"
proof (induction r arbitrary: k b a c)
  case (RSeq r s)
  then show ?case by (fastforce dest!: RSeq.IH)
next
  case (RAlt r s)
  then show ?case by (auto split: option.splits)
next
  case (RStar r)
  show ?case by (rule star_iter_rest [OF RStar.IH RStar.prems [unfolded rx_m.simps]])
next
  case (RGroup n r)
  show ?case using RGroup.IH [OF RGroup.prems [unfolded rx_m.simps]] by blast
next
  case (RRef n)
  then show ?case by (fastforce split: option.splits if_splits dest: in_set_dropD)
qed (fastforce split: list.splits if_splits option.splits)+

lemma rx_at_rest: "rx_at r b a = Some (b0, b', a', c) \<Longrightarrow> set a' \<subseteq> set a"
  unfolding rx_at_def by (drule rx_m_rest) auto

lemma rx_split_acc_cases:
  assumes "p \<in> set (rx_split_acc r b acc (x # t))"
  obtains "p = rev acc"
  | b' a' where "length a' < length (x # t)" "set a' \<subseteq> set (x # t)" "p \<in> set (rx_split_acc r b' [] a')"
  | "p \<in> set (rx_split_acc r (x # b) (x # acc) t)"
proof (cases "rx_at r b (x # t)")
  case None
  then show ?thesis using assms that(3) by (simp add: rx_split_acc.simps [of r b acc "x # t"])
next
  case (Some m)
  obtain b0 b' a' c where m: "m = (b0, b', a', c)" by (cases m)
  show ?thesis
  proof (cases "length a' < length (x # t)")
    case True
    then have "p = rev acc \<or> p \<in> set (rx_split_acc r b' [] a')"
      using assms Some m by (simp add: rx_split_acc.simps [of r b acc "x # t"])
    then show ?thesis using True rx_at_rest [OF Some [unfolded m]] that(1,2) by blast
  next
    case False
    then show ?thesis using assms Some m that(3) by (simp add: rx_split_acc.simps [of r b acc "x # t"])
  qed
qed

lemma rx_split_acc_set:
  "p \<in> set (rx_split_acc r b acc a) \<Longrightarrow> set p \<subseteq> set acc \<union> set a"
proof (induction "length a" arbitrary: a b acc rule: less_induct)
  case less
  show ?case
  proof (cases a)
    case Nil
    then show ?thesis using less.prems by (simp add: rx_split_acc.simps)
  next
    case (Cons x t)
    show ?thesis
      using less.prems [unfolded Cons]
    proof (cases rule: rx_split_acc_cases)
      case (2 b' a')
      then show ?thesis using less.hyps [of a' b' "[]"] Cons by auto
    next
      case 3
      then show ?thesis using less.hyps [of t "x # b" "x # acc"] Cons by auto
    qed (auto simp: Cons)
  qed
qed

lemma rx_split_acc_class:
  "p \<in> set (rx_split_acc (RCls P) b acc a) \<Longrightarrow> set p \<subseteq> set acc \<union> {c. \<not> P c}"
proof (induction a arbitrary: b acc)
  case Nil
  then show ?case by (simp add: rx_split_acc.simps)
next
  case (Cons x a)
  then show ?case
    by (subst (asm) rx_split_acc.simps) (fastforce simp: rx_at_def split: if_splits)
qed

lemma replace_matches_set: "set (replace_matches r s) \<subseteq> set s \<union> {32}"
  using set_join_subset [of "js '' ''" "rx_split r s"] rx_split_acc_set [of _ r "[]" "[]" s]
  by (fastforce simp: replace_matches_def rx_split_def)

lemma replace_class_set: "c \<in> set (replace_matches (RCls P) s) \<Longrightarrow> \<not> P c \<or> c = 32"
  using set_join_subset [of "js '' ''" "rx_split (RCls P) s"] rx_split_acc_class [of _ P "[]" "[]" s]
  by (fastforce simp: replace_matches_def rx_split_def)

text \<open>The body of a desktop notification has at most 180 code units and none of the
  characters of Markdown markup.\<close>

theorem plain_text_clean:
  assumes "getAnnouncementPlainText item = Inr body"
  shows "length body \<le> 180 \<and> set body \<inter> set (js ''#*_`>[]()~-'') = {}"
proof -
  obtain u where body:
    "body = take 180 (trim (replace_matches spaces_rx (replace_matches markdown_rx u)))"
    using assms by (auto simp: getAnnouncementPlainText_def split: option.splits)
  have "c \<notin> set (js ''#*_`>[]()~-'')" if "c \<in> set body" for c
  proof -
    have "c \<in> set (replace_matches spaces_rx (replace_matches markdown_rx u))"
      using that set_trim_subset in_set_takeD unfolding body by fastforce
    then have "c \<in> set (replace_matches markdown_rx u) \<or> c = 32"
      using replace_matches_set [of spaces_rx "replace_matches markdown_rx u"] by blast
    then show ?thesis
      using replace_class_set [of c "\<lambda>c. List.member (js ''#*_`>[]()~-'') c" u]
      by (auto simp: markdown_rx_def)
  qed
  then show ?thesis by (auto simp: body)
qed

theorem plain_text_clean_witness:
  "\<exists>body. getAnnouncementPlainText (sample_announcement (js ''# News'')) = Inr body \<and>
     length body \<le> 180 \<and> set body \<inter> set (js ''#*_`>[]()~-'') = {}"
proof -
  obtain body where "getAnnouncementPlainText (sample_announcement (js ''# News'')) = Inr body"
    by (simp add: getAnnouncementPlainText_def sample_announcement_def field_or_empty_def get_def)
  with plain_text_clean [OF this] show ?thesis by blast
qed

theorem content_key_collides_witness:
  "getAnnouncementKey (Some [(js ''content'', JStr (js ''Aa''))]) =
     getAnnouncementKey (Some [(js ''content'', JStr (js ''BB''))]) \<longleftrightarrow>
   horner (projr (fingerprint [(js ''content'', JStr (js ''Aa''))])) mod 2 ^ 32 =
     horner (projr (fingerprint [(js ''content'', JStr (js ''BB''))])) mod 2 ^ 32"
proof -
  have n: "nullish (get (js ''id'') [(js ''content'', JStr c)]) None = None" for c
    by (simp add: get_def nullish_def)
  have fp: "fingerprint [(js ''content'', JStr c)] = Inr (projr (fingerprint [(js ''content'', JStr c)]))" for c
    unfolding sample_fingerprint by simp
  show ?thesis by (rule content_key_collides [OF n n fp fp])
qed

end
