(* ===== verification/Go_Base.thy ===== *)
theory Go_Base
  imports Js_String "HOL-Library.Word"
begin

text \<open>
  The part of the Go language and its standard library that the modelled server code uses.

  A Go string is modelled by its code points: the functions below split and compare at ASCII
  characters or at whole characters, for which bytes and code points agree.  An \<open>int\<close> or
  \<open>int64\<close> whose value the code computes with is a 64-bit word (\<open>goint\<close>): \<open>+\<close> and \<open>-\<close> wrap,
  comparisons are the signed ones.  An \<open>error\<close> result is the left part of a sum, its text
  included.
\<close>

type_synonym gostr = jstr
type_synonym goint = "64 word"
type_synonym 'a goresult = "gostr + 'a"

section \<open>Strings\<close>

text \<open>\<open>unicode.IsSpace\<close>.\<close>

definition go_space :: "jchar \<Rightarrow> bool" where
  "go_space c \<longleftrightarrow> (9 \<le> c \<and> c \<le> 13) \<or> c = 32 \<or> c = 133 \<or> c = 160 \<or> c = 5760 \<or> (8192 \<le> c \<and> c \<le> 8202)
     \<or> c = 8232 \<or> c = 8233 \<or> c = 8239 \<or> c = 8287 \<or> c = 12288"

text \<open>\<open>strings.TrimSpace\<close>.\<close>

definition TrimSpace :: "gostr \<Rightarrow> gostr" where
  "TrimSpace s = rev (dropWhile go_space (rev (dropWhile go_space s)))"

text \<open>\<open>strings.ReplaceAll(s, c, "")\<close> for one character.\<close>

definition remove_char :: "jchar \<Rightarrow> gostr \<Rightarrow> gostr" where
  "remove_char c s = filter (\<lambda>x. x \<noteq> c) s"

text \<open>\<open>strconv.Atoi\<close>: an optional sign and decimal digits, within the range of \<open>int\<close>.\<close>

definition Atoi :: "gostr \<Rightarrow> int option" where
  "Atoi s =
     (let neg = (s \<noteq> [] \<and> hd s = 45);
          ds = (if s \<noteq> [] \<and> (hd s = 45 \<or> hd s = 43) then tl s else s);
          v = (if neg then - digits_value ds else digits_value ds) in
      if ds = [] \<or> \<not> list_all is_digit ds \<or> v < - (2 ^ 63) \<or> 2 ^ 63 \<le> v then None else Some v)"

lemma TrimSpace_id: "\<forall>c\<in>set s. \<not> go_space c \<Longrightarrow> TrimSpace s = s"
proof -
  assume "\<forall>c\<in>set s. \<not> go_space c"
  then have "dropWhile go_space s = s" "dropWhile go_space (rev s) = rev s"
    by (auto simp: dropWhile_eq_self_iff hd_rev)
  then show ?thesis by (simp add: TrimSpace_def)
qed

lemma TrimSpace_set: "set (TrimSpace s) \<subseteq> set s"
  by (auto simp: TrimSpace_def dest!: set_dropWhileD)

lemma digit_not_space: "is_digit c \<Longrightarrow> \<not> go_space c"
  by (auto simp: is_digit_def go_space_def)

lemma Atoi_dec:
  assumes "0 \<le> i" "i < 2 ^ 63"
  shows "Atoi (dec i) = Some i"
proof -
  have d: "dec i \<noteq> []" "\<forall>c\<in>set (dec i). is_digit c" using dec_digits [OF assms(1)] by auto
  then have "is_digit (hd (dec i))" by simp
  then have "hd (dec i) \<noteq> 45" "hd (dec i) \<noteq> 43" by (auto simp: is_digit_def)
  then show ?thesis using d assms by (simp add: Atoi_def Let_def list_all_iff)
qed

section \<open>Integers\<close>

lemma sint_bounds: "- (2 ^ 63) \<le> sint (x :: goint)" "sint (x :: goint) < 2 ^ 63"
  using sint_ge [of x] sint_lt [of x] by simp_all

lemma sint_in_range:
  assumes "- (2 ^ 63) \<le> v" "v < 2 ^ 63"
  shows "sint (word_of_int v :: goint) = v"
  using assms by (simp add: signed_of_int signed_take_bit_int_eq_self)

lemma sint_diff:
  fixes a b :: goint
  assumes "- (2 ^ 63) \<le> sint a - sint b" "sint a - sint b < 2 ^ 63"
  shows "sint (a - b) = sint a - sint b"
  using sint_in_range [OF assms] by simp

lemma sint_plus:
  fixes a b :: goint
  assumes "- (2 ^ 63) \<le> sint a + sint b" "sint a + sint b < 2 ^ 63"
  shows "sint (a + b) = sint a + sint b"
  using sint_in_range [OF assms] by simp

lemma sint_uminus:
  fixes a :: goint
  assumes "sint a \<noteq> - (2 ^ 63)"
  shows "sint (- a) = - sint a"
  using sint_in_range [of "- sint a"] sint_bounds [of a] assms by simp

lemma sint_eq_0: "sint (x :: goint) = 0 \<longleftrightarrow> x = 0"
  using signed_eq_0_iff [of x] by simp

end
