(* ===== verification/Server_Status_Codes.thy ===== *)
theory Server_Status_Codes
  imports Go_Base Http_Status_Rules
begin

text \<open>
  The status-code settings of the server, \<^verbatim>\<open>setting/operation_setting/status_code_ranges.go\<close>: the
  two global lists of ranges, parsing and printing them, and the decisions taken with them.

  The web client parses the same texts (\<^verbatim>\<open>Http_Status_Rules\<close>) and submits its normalized text; the
  last section composes the two parsers.  The struct \<open>StatusCodeRange\<close> has the two fields of the
  record of that name; the codes lie between 100 and 599, so they are integers.
\<close>

section \<open>Definitions\<close>

record status_settings =
  AutomaticDisableStatusCodeRanges :: "StatusCodeRange list"
  AutomaticRetryStatusCodeRanges :: "StatusCodeRange list"

definition status_range :: "int \<Rightarrow> int \<Rightarrow> StatusCodeRange" where
  "status_range a b = \<lparr>sr_start = a, sr_end = b\<rparr>"

definition default_status_settings :: status_settings where
  "default_status_settings =
     \<lparr>AutomaticDisableStatusCodeRanges = [status_range 401 401],
      AutomaticRetryStatusCodeRanges =
        [status_range 401 401, status_range 403 403, status_range 408 409, status_range 425 425,
         status_range 429 429, status_range 500 500, status_range 502 503, status_range 522 522,
         status_range 525 527, status_range 529 529]\<rparr>"

definition alwaysSkipRetryStatusCodes :: "int list" where
  "alwaysSkipRetryStatusCodes = [400, 413, 422, 431, 451, 504, 524]"

definition statusCodeRangesToString :: "StatusCodeRange list \<Rightarrow> gostr" where
  "statusCodeRangesToString rs =
     (if rs = [] then []
      else join (js '','')
        (map (\<lambda>r. if sr_start r = sr_end r then dec (sr_start r)
                  else dec (sr_start r) @ js ''-'' @ dec (sr_end r)) rs))"

text \<open>The loop leaves at the first range that starts above the code.\<close>

fun match_ranges :: "StatusCodeRange list \<Rightarrow> int \<Rightarrow> bool" where
  "match_ranges [] code = False"
| "match_ranges (r # rs) code =
     (if code < sr_start r then False else if code \<le> sr_end r then True else match_ranges rs code)"

definition shouldMatchStatusCodeRanges :: "StatusCodeRange list \<Rightarrow> int \<Rightarrow> bool" where
  "shouldMatchStatusCodeRanges rs code = (if code < 100 \<or> 599 < code then False else match_ranges rs code)"

definition parseHTTPStatusCodeToken :: "gostr \<Rightarrow> StatusCodeRange goresult" where
  "parseHTTPStatusCodeToken tok =
     (let token = remove_char 32 (TrimSpace tok) in
      if token = [] then Inl (js ''empty token'')
      else if str_includes (js ''-'') token then
        (case split_str (js ''-'') token of
           [a, b] \<Rightarrow>
             if a = [] \<or> b = [] then Inl (js ''invalid range token: '' @ token)
             else
               (case Atoi a of
                  None \<Rightarrow> Inl (js ''invalid range start: '' @ token)
                | Some start \<Rightarrow>
                    (case Atoi b of
                       None \<Rightarrow> Inl (js ''invalid range end: '' @ token)
                     | Some end \<Rightarrow>
                         if end < start then Inl (js ''range start > end: '' @ token)
                         else if start < 100 \<or> 599 < end then Inl (js ''range out of bounds: '' @ token)
                         else Inr (status_range start end)))
         | _ \<Rightarrow> Inl (js ''invalid range token: '' @ token))
      else
        (case Atoi token of
           None \<Rightarrow> Inl (js ''invalid status code: '' @ token)
         | Some code \<Rightarrow>
             if code < 100 \<or> 599 < code then Inl (js ''status code out of bounds: '' @ token)
             else Inr (status_range code code)))"

text \<open>The two slices the loop over the segments fills.\<close>

fun server_segments :: "gostr list \<Rightarrow> StatusCodeRange list \<Rightarrow> gostr list \<Rightarrow> StatusCodeRange list \<times> gostr list" where
  "server_segments [] rs bad = (rs, bad)"
| "server_segments (s # segs) rs bad =
     (let seg = TrimSpace s in
      if seg = [] then server_segments segs rs bad
      else (case parseHTTPStatusCodeToken seg of
              Inl _ \<Rightarrow> server_segments segs rs (bad @ [seg])
            | Inr r \<Rightarrow> server_segments segs (rs @ [r]) bad))"

text \<open>The body of the merging loop: \<open>last\<close> points into the slice.\<close>

definition server_merge_step :: "StatusCodeRange list \<Rightarrow> StatusCodeRange \<Rightarrow> StatusCodeRange list" where
  "server_merge_step merged r =
     (if sr_start r \<le> sr_end (last merged) + 1 then
        (if sr_end (last merged) < sr_end r then butlast merged @ [(last merged)\<lparr>sr_end := sr_end r\<rparr>] else merged)
      else merged @ [r])"

definition server_merge :: "StatusCodeRange list \<Rightarrow> StatusCodeRange list" where
  "server_merge rs =
     (case sort_key (\<lambda>r. (sr_start r, sr_end r)) rs of
        [] \<Rightarrow> []
      | r # rest \<Rightarrow> foldl server_merge_step [r] rest)"

definition ParseHTTPStatusCodeRanges :: "gostr \<Rightarrow> StatusCodeRange list goresult" where
  "ParseHTTPStatusCodeRanges input0 =
     (let input = TrimSpace input0 in
      if input = [] then Inr []
      else
        let (rs, invalid) = server_segments (split_str (js '','') (replace_unit 65292 44 input)) [] [] in
        if invalid \<noteq> [] then Inl (js ''invalid http status code rules: '' @ join (js '', '') invalid)
        else if rs = [] then Inr []
        else Inr (server_merge rs))"

text \<open>The setters keep the old list when the text is rejected.\<close>

definition AutomaticDisableStatusCodesFromString :: "gostr \<Rightarrow> status_settings \<Rightarrow> gostr option \<times> status_settings" where
  "AutomaticDisableStatusCodesFromString s st =
     (case ParseHTTPStatusCodeRanges s of
        Inl err \<Rightarrow> (Some err, st)
      | Inr rs \<Rightarrow> (None, st\<lparr>AutomaticDisableStatusCodeRanges := rs\<rparr>))"

definition AutomaticRetryStatusCodesFromString :: "gostr \<Rightarrow> status_settings \<Rightarrow> gostr option \<times> status_settings" where
  "AutomaticRetryStatusCodesFromString s st =
     (case ParseHTTPStatusCodeRanges s of
        Inl err \<Rightarrow> (Some err, st)
      | Inr rs \<Rightarrow> (None, st\<lparr>AutomaticRetryStatusCodeRanges := rs\<rparr>))"

definition AutomaticDisableStatusCodesToString :: "status_settings \<Rightarrow> gostr" where
  "AutomaticDisableStatusCodesToString st = statusCodeRangesToString (AutomaticDisableStatusCodeRanges st)"

definition AutomaticRetryStatusCodesToString :: "status_settings \<Rightarrow> gostr" where
  "AutomaticRetryStatusCodesToString st = statusCodeRangesToString (AutomaticRetryStatusCodeRanges st)"

definition ShouldDisableByStatusCode :: "status_settings \<Rightarrow> int \<Rightarrow> bool" where
  "ShouldDisableByStatusCode st code = shouldMatchStatusCodeRanges (AutomaticDisableStatusCodeRanges st) code"

definition IsAlwaysSkipRetryStatusCode :: "int \<Rightarrow> bool" where
  "IsAlwaysSkipRetryStatusCode code = List.member alwaysSkipRetryStatusCodes code"

definition ShouldRetryByStatusCode :: "status_settings \<Rightarrow> int \<Rightarrow> bool" where
  "ShouldRetryByStatusCode st code =
     (if IsAlwaysSkipRetryStatusCode code then False
      else shouldMatchStatusCodeRanges (AutomaticRetryStatusCodeRanges st) code)"

text \<open>The settings over a run of the server: texts are submitted for either list.\<close>

datatype setting_change = SetDisable gostr | SetRetry gostr

fun apply_change :: "setting_change \<Rightarrow> status_settings \<Rightarrow> status_settings" where
  "apply_change (SetDisable s) st = snd (AutomaticDisableStatusCodesFromString s st)"
| "apply_change (SetRetry s) st = snd (AutomaticRetryStatusCodesFromString s st)"

section \<open>Merging and matching\<close>

lemma server_merge_step_eq: "merged \<noteq> [] \<Longrightarrow> server_merge_step merged r = merge_step merged r"
  by (cases merged rule: rev_cases) (auto simp: server_merge_step_def merge_step_def max_def)

lemma merge_step_nonempty: "merge_step merged r \<noteq> []"
  by (simp add: merge_step_def)

lemma server_merge_fold: "merged \<noteq> [] \<Longrightarrow> foldl server_merge_step merged rs = foldl merge_step merged rs"
  by (induction rs arbitrary: merged) (simp_all add: server_merge_step_eq merge_step_nonempty)

lemma server_merge_eq: "server_merge rs = mergeRanges rs"
proof (cases "sort_key (\<lambda>r. (sr_start r, sr_end r)) rs")
  case Nil
  then have "rs = []" by (metis length_0_conv length_sort)
  then show ?thesis by (simp add: server_merge_def mergeRanges_def)
next
  case (Cons r rest)
  then have "rs \<noteq> []" by auto
  then show ?thesis
    by (simp add: server_merge_def mergeRanges_def Cons server_merge_fold merge_step_def [of "[]"])
qed

lemma match_ranges_codes: "normal_ranges rs \<Longrightarrow> match_ranges rs c \<longleftrightarrow> c \<in> codes rs"
proof (induction rs)
  case (Cons r rs)
  then show ?case
    using gap_codes [of rs r c] by (auto simp: normal_ranges_Cons range_codes_def range_wf_def)
qed simp

lemma valid_codes: "list_all range_valid rs \<Longrightarrow> c \<in> codes rs \<Longrightarrow> 100 \<le> c \<and> c \<le> 599"
  by (fastforce simp: codes_def range_codes_def range_valid_def list_all_iff)

definition settings_ok :: "StatusCodeRange list \<Rightarrow> bool" where
  "settings_ok rs \<longleftrightarrow> normal_ranges rs \<and> list_all range_valid rs"

lemma should_match: "settings_ok rs \<Longrightarrow> shouldMatchStatusCodeRanges rs c \<longleftrightarrow> c \<in> codes rs"
  using valid_codes [of rs c] by (auto simp: settings_ok_def shouldMatchStatusCodeRanges_def match_ranges_codes)

section \<open>Parsing\<close>

lemma server_token_valid: "parseHTTPStatusCodeToken t = Inr r \<Longrightarrow> range_valid r"
  by (auto simp: parseHTTPStatusCodeToken_def Let_def range_valid_def status_range_def
      split: if_splits list.splits option.splits)

text \<open>The segments with a token, and the ranges of the tokens that are read.\<close>

definition server_tokens :: "gostr \<Rightarrow> gostr list" where
  "server_tokens input =
     filter (\<lambda>s. s \<noteq> []) (map TrimSpace (split_str (js '','') (replace_unit 65292 44 (TrimSpace input))))"

definition token_range :: "gostr \<Rightarrow> StatusCodeRange option" where
  "token_range t = (case parseHTTPStatusCodeToken t of Inl _ \<Rightarrow> None | Inr r \<Rightarrow> Some r)"

lemma server_segments_eq:
  "server_segments segs rs bad =
     (let ts = filter (\<lambda>s. s \<noteq> []) (map TrimSpace segs) in
      (rs @ List.map_filter token_range ts, bad @ filter (\<lambda>t. token_range t = None) ts))"
  by (induction segs arbitrary: rs bad)
    (auto simp: Let_def token_range_def List.map_filter_simps split: sum.splits)

lemma token_range_valid: "list_all range_valid (List.map_filter token_range ts)"
  by (auto simp: list_all_iff List.map_filter_def token_range_def server_token_valid split: sum.splits)

lemma merge_ok:
  assumes "list_all range_valid rs"
  shows "settings_ok (mergeRanges rs)" "codes (mergeRanges rs) = codes rs"
proof -
  have "list_all range_wf rs" using assms by (auto simp: list_all_iff range_valid_wf)
  then show "settings_ok (mergeRanges rs)" "codes (mergeRanges rs) = codes rs"
    using mergeRanges_correct merged_valid [OF assms] by (auto simp: settings_ok_def)
qed

lemma server_parse:
  "ParseHTTPStatusCodeRanges input =
     (let bad = filter (\<lambda>t. token_range t = None) (server_tokens input) in
      if TrimSpace input = [] then Inr []
      else if bad \<noteq> [] then Inl (js ''invalid http status code rules: '' @ join (js '', '') bad)
      else Inr (mergeRanges (List.map_filter token_range (server_tokens input))))"
  by (auto simp: ParseHTTPStatusCodeRanges_def server_segments_eq server_tokens_def Let_def server_merge_eq
      mergeRanges_def simp del: js_Cons)

lemma server_parse_ok:
  assumes "ParseHTTPStatusCodeRanges input = Inr rs"
  shows "settings_ok rs"
proof (cases "TrimSpace input = []")
  case True
  then show ?thesis using assms by (simp add: server_parse Let_def settings_ok_def normal_ranges_def)
next
  case False
  then have "rs = mergeRanges (List.map_filter token_range (server_tokens input))"
    using assms by (simp add: server_parse Let_def split: if_splits)
  then show ?thesis using merge_ok(1) [OF token_range_valid] by simp
qed

section \<open>Printed ranges\<close>

lemma to_string_tokens: "statusCodeRangesToString rs = join (js '','') (map range_token rs)"
  by (simp add: statusCodeRangesToString_def range_token_def cong: map_cong)

lemma range_token_plain:
  assumes "range_valid r"
  shows "TrimSpace (range_token r) = range_token r" "remove_char 32 (range_token r) = range_token r" "range_token r \<noteq> []"
proof -
  have c: "is_digit c \<or> c = 45" if "c \<in> set (range_token r)" for c using range_token_chars [OF assms that] .
  show "TrimSpace (range_token r) = range_token r"
    by (rule TrimSpace_id) (use c in \<open>fastforce simp: go_space_def is_digit_def\<close>)
  show "remove_char 32 (range_token r) = range_token r"
    unfolding remove_char_def filter_id_conv using c by (fastforce simp: is_digit_def)
  show "range_token r \<noteq> []"
    using assms dec_digits [of "sr_start r"] by (auto simp: range_token_def range_valid_def)
qed

lemma server_token_printed:
  assumes "range_valid r"
  shows "parseHTTPStatusCodeToken (range_token r) = Inr r"
proof -
  have v: "0 \<le> sr_start r" "0 \<le> sr_end r" "sr_start r < 2 ^ 63" "sr_end r < 2 ^ 63" "sr_start r \<le> sr_end r"
    using assms by (auto simp: range_valid_def)
  have no: "(45 :: int) \<notin> set (dec (sr_start r))" by (rule dec_not_in [OF v(1)]) (simp add: is_digit_def)
  have ne: "dec (sr_start r) \<noteq> []" "dec (sr_end r) \<noteq> []" using dec_digits v by auto
  show ?thesis
  proof (cases "sr_start r = sr_end r")
    case True
    then show ?thesis
      using assms no v Atoi_dec [OF v(1,3)] range_token_plain [OF assms]
      by (simp add: parseHTTPStatusCodeToken_def range_token_def Let_def range_valid_def status_range_def)
  next
    case False
    then show ?thesis
      using assms ne v Atoi_dec [OF v(1,3)] Atoi_dec [OF v(2,4)] range_token_plain [OF assms] split_dash [OF v(1,2)]
      by (simp add: parseHTTPStatusCodeToken_def range_token_def Let_def range_valid_def status_range_def)
  qed
qed

lemma printed_tokens:
  assumes "list_all range_valid rs" "rs \<noteq> []"
  shows "server_tokens (join (js '','') (map range_token rs)) = map range_token rs"
    "TrimSpace (join (js '','') (map range_token rs)) \<noteq> []"
proof -
  let ?s = "join [44] (map range_token rs)"
  have valid: "range_valid r" if "r \<in> set rs" for r using assms(1) that by (simp add: list_all_iff)
  have chars: "is_digit c \<or> c = 45 \<or> c = 44" if "c \<in> set ?s" for c
    using that set_join_subset [of "[44]" "map range_token rs"] range_token_chars valid by fastforce
  have t: "TrimSpace ?s = ?s"
    by (rule TrimSpace_id) (use chars in \<open>fastforce simp: go_space_def is_digit_def\<close>)
  moreover have "replace_unit 65292 44 ?s = ?s"
    unfolding replace_unit_def by (rule map_idI) (use chars in \<open>fastforce simp: is_digit_def\<close>)
  moreover have "split_str [44] ?s = map range_token rs"
    using assms(2) valid range_token_chars by (intro split_join_unit) (fastforce simp: is_digit_def)+
  moreover have "map TrimSpace (map range_token rs) = map range_token rs"
    using valid range_token_plain(1) by (auto intro!: map_idI)
  ultimately show "server_tokens (join (js '','') (map range_token rs)) = map range_token rs"
    using valid range_token_plain(3) by (auto simp: server_tokens_def filter_id_conv)
  show "TrimSpace (join (js '','') (map range_token rs)) \<noteq> []"
    using t assms(2) valid range_token_plain(3) by (cases rs; cases "tl rs") auto
qed

lemma server_reads_printed:
  assumes "settings_ok rs"
  shows "ParseHTTPStatusCodeRanges (statusCodeRangesToString rs) = Inr rs"
proof (cases "rs = []")
  case True
  then show ?thesis by (simp add: server_parse Let_def to_string_tokens TrimSpace_def)
next
  case False
  have v: "list_all range_valid rs" and n: "normal_ranges rs" using assms by (simp_all add: settings_ok_def)
  have tok: "token_range (range_token r) = Some r" if "r \<in> set rs" for r
    using v that by (simp add: list_all_iff token_range_def server_token_printed)
  have "List.map_filter token_range (map range_token rs) = rs"
    using tok by (induction rs) (auto simp: List.map_filter_simps)
  moreover have "filter (\<lambda>t. token_range t = None) (map range_token rs) = []"
    using tok by (auto simp: filter_empty_conv)
  ultimately show ?thesis
    using printed_tokens [OF v False] mr.merge_fixes_normal [OF n] by (simp add: server_parse to_string_tokens del: js_Cons)
qed

lemma settings_ok_default:
  "settings_ok (AutomaticDisableStatusCodeRanges default_status_settings)"
  "settings_ok (AutomaticRetryStatusCodeRanges default_status_settings)"
  by (simp_all add: default_status_settings_def settings_ok_def normal_ranges_def range_valid_def range_wf_def range_gap_def
      status_range_def)

lemma settings_ok_change:
  assumes "settings_ok (AutomaticDisableStatusCodeRanges st)" "settings_ok (AutomaticRetryStatusCodeRanges st)"
  shows "settings_ok (AutomaticDisableStatusCodeRanges (apply_change c st))"
    "settings_ok (AutomaticRetryStatusCodeRanges (apply_change c st))"
  using assms by (cases c; auto simp: AutomaticDisableStatusCodesFromString_def AutomaticRetryStatusCodesFromString_def
      server_parse_ok split: sum.splits)+

lemma settings_ok_run:
  "settings_ok (AutomaticDisableStatusCodeRanges (fold apply_change cs default_status_settings)) \<and>
   settings_ok (AutomaticRetryStatusCodeRanges (fold apply_change cs default_status_settings))"
  by (induction cs rule: rev_induct) (simp_all add: settings_ok_default settings_ok_change)

section \<open>Properties\<close>

text \<open>C37. Whatever texts were submitted for the two lists, accepted or not, the early exit of the
  matching loop is sound: a code disables a channel exactly if it lies in one of the current disable ranges,
  is retried exactly if it lies in one of the retry ranges and is not always skipped; and the printed
  settings read back as the current lists.\<close>

theorem settings_decide:
  fixes cs :: "setting_change list"
  defines "st \<equiv> fold apply_change cs default_status_settings"
  shows "(ShouldDisableByStatusCode st c \<longleftrightarrow> c \<in> codes (AutomaticDisableStatusCodeRanges st)) \<and>
    (ShouldRetryByStatusCode st c \<longleftrightarrow>
       c \<in> codes (AutomaticRetryStatusCodeRanges st) \<and> c \<notin> {400, 413, 422, 431, 451, 504, 524}) \<and>
    AutomaticDisableStatusCodesFromString (AutomaticDisableStatusCodesToString st) st = (None, st) \<and>
    AutomaticRetryStatusCodesFromString (AutomaticRetryStatusCodesToString st) st = (None, st)"
proof -
  have ok: "settings_ok (AutomaticDisableStatusCodeRanges st)" "settings_ok (AutomaticRetryStatusCodeRanges st)"
    using settings_ok_run by (simp_all add: st_def)
  then show ?thesis
    by (simp add: ShouldDisableByStatusCode_def ShouldRetryByStatusCode_def should_match IsAlwaysSkipRetryStatusCode_def
        alwaysSkipRetryStatusCodes_def AutomaticDisableStatusCodesFromString_def AutomaticRetryStatusCodesFromString_def
        AutomaticDisableStatusCodesToString_def AutomaticRetryStatusCodesToString_def server_reads_printed)
qed

text \<open>C2. The rules a user enters are the rules the server applies: the normalized text of an accepted input is
  accepted by the server, stored as the ranges the web client shows, printed back unchanged, and makes
  the server retry exactly the codes of the tokens that are not always skipped.\<close>

theorem web_rules_reach_server:
  assumes "ok (parseHttpStatusCodeRules input)"
  shows "\<exists>st'. AutomaticRetryStatusCodesFromString (normalized (parseHttpStatusCodeRules input)) st = (None, st') \<and>
    AutomaticRetryStatusCodeRanges st' = ranges (parseHttpStatusCodeRules input) \<and>
    AutomaticRetryStatusCodesToString st' = normalized (parseHttpStatusCodeRules input) \<and>
    (\<forall>c. ShouldRetryByStatusCode st' c \<longleftrightarrow>
       (\<exists>seg\<in>set (rule_segments (input_text input)). c \<in> range_codes (the (parseToken seg))) \<and>
       c \<notin> {400, 413, 422, 431, 451, 504, 524})"
proof -
  let ?p = "parseHttpStatusCodeRules input"
  have p: "list_all range_valid (ranges ?p)" "normal_ranges (ranges ?p)"
    "codes (ranges ?p) = (\<Union>seg\<in>set (rule_segments (input_text input)). range_codes (the (parseToken seg)))"
    "normalized ?p = join (js '','') (map range_token (ranges ?p))"
    using accepted_facts [OF assms] by blast+
  then have ok: "settings_ok (ranges ?p)" by (simp add: settings_ok_def)
  let ?st = "st\<lparr>AutomaticRetryStatusCodeRanges := ranges ?p\<rparr>"
  have "AutomaticRetryStatusCodesFromString (normalized ?p) st = (None, ?st)"
    using server_reads_printed [OF ok] by (simp add: AutomaticRetryStatusCodesFromString_def p(4) to_string_tokens del: js_Cons)
  moreover have "ShouldRetryByStatusCode ?st c \<longleftrightarrow>
       (\<exists>seg\<in>set (rule_segments (input_text input)). c \<in> range_codes (the (parseToken seg))) \<and>
       c \<notin> {400, 413, 422, 431, 451, 504, 524}" for c
    using should_match [OF ok, of c] p(3)
    by (auto simp: ShouldRetryByStatusCode_def IsAlwaysSkipRetryStatusCode_def alwaysSkipRetryStatusCodes_def)
  ultimately show ?thesis
    by (intro exI [of _ ?st]) (simp add: AutomaticRetryStatusCodesToString_def p(4) to_string_tokens del: js_Cons)
qed

theorem web_rules_reach_server_witness:
  "\<exists>st'. AutomaticRetryStatusCodesFromString (js ''400-404,504'') default_status_settings = (None, st') \<and>
     ShouldRetryByStatusCode st' 403 \<and> \<not> ShouldRetryByStatusCode st' 504"
proof -
  let ?i = "Some (js ''404, 400 - 403,504'')"
  have ok: "ok (parseHttpStatusCodeRules ?i)" by code_simp
  have n: "normalized (parseHttpStatusCodeRules ?i) = js ''400-404,504''" by code_simp
  have s: "rule_segments (input_text ?i) = [js ''404'', js ''400 - 403'', js ''504'']" by code_simp
  have t: "the (parseToken (js ''400 - 403'')) = \<lparr>sr_start = 400, sr_end = 403\<rparr>" by code_simp
  then have c: "\<exists>seg\<in>set [js ''404'', js ''400 - 403'', js ''504'']. 403 \<in> range_codes (the (parseToken seg))"
    by (intro bexI [of _ "js ''400 - 403''"]) (simp_all add: range_codes_def del: js_Cons)
  from web_rules_reach_server [OF ok, of default_status_settings, unfolded n s] obtain st' where
    "AutomaticRetryStatusCodesFromString (js ''400-404,504'') default_status_settings = (None, st')"
    "\<forall>c. ShouldRetryByStatusCode st' c \<longleftrightarrow>
       (\<exists>seg\<in>set [js ''404'', js ''400 - 403'', js ''504'']. c \<in> range_codes (the (parseToken seg))) \<and>
       c \<notin> {400, 413, 422, 431, 451, 504, 524}" by blast
  with c show ?thesis by (intro exI [of _ st']) (simp del: js_Cons)
qed

text \<open>The two parsers do not accept the same texts: the web client drops what follows a second dash, the server
  rejects it, and inside a token the web client removes every white space, the server only blanks.\<close>

lemma parsers_differ:
  "ok (parseHttpStatusCodeRules (Some (js ''400-404-500'')))"
  "\<exists>e. ParseHTTPStatusCodeRanges (js ''400-404-500'') = Inl e"
  "ok (parseHttpStatusCodeRules (Some [52, 48, 9, 49]))"
  "\<exists>e. ParseHTTPStatusCodeRanges [52, 48, 9, 49] = Inl e"
proof -
  show "ok (parseHttpStatusCodeRules (Some (js ''400-404-500'')))" by code_simp
  show "ok (parseHttpStatusCodeRules (Some [52, 48, 9, 49]))" by code_simp
  have "ParseHTTPStatusCodeRanges (js ''400-404-500'') = Inl (js ''invalid http status code rules: 400-404-500'')" by code_simp
  then show "\<exists>e. ParseHTTPStatusCodeRanges (js ''400-404-500'') = Inl e" by blast
  have "ParseHTTPStatusCodeRanges [52, 48, 9, 49] = Inl (js ''invalid http status code rules: '' @ [52, 48, 9, 49])" by code_simp
  then show "\<exists>e. ParseHTTPStatusCodeRanges [52, 48, 9, 49] = Inl e" by blast
qed

end
