(* ===== verification/Server_Quota.thy ===== *)
theory Server_Quota
  imports Go_Base
begin

text \<open>
  The quotas of users and access tokens on the server: the updates of \<^verbatim>\<open>model/user.go\<close> and
  \<^verbatim>\<open>model/token.go\<close>, and the batch updater of \<^verbatim>\<open>model/utils.go\<close> that collects deltas in memory and
  writes them later.

  A table is the list of its rows with their ids; an update applies to every row with the id, as
  the \<open>UPDATE .. WHERE id = ?\<close> does, and is no error when there is none.  A statement of the database may fail:
  the state carries the outcomes of the next statements, \<open>True\<close> for a failure.  The caches in Redis are
  updated by other goroutines at any time, so their contents are arbitrary parts of the state that are only read.

  What counts is the balance: the column plus what is still pending.  It is a 64-bit value,
  like the amounts the code computes with; the locale \<open>account\<close> states what a balance promises, with and
  without batching.
\<close>

section \<open>Tables and statements\<close>

type_synonym 'r table = "(goint \<times> 'r) list"

definition update_where :: "goint \<Rightarrow> ('r \<Rightarrow> 'r) \<Rightarrow> 'r table \<Rightarrow> 'r table" where
  "update_where uid f t = map (\<lambda>(i, r). (i, if i = uid then f r else r)) t"

record user_row =
  us_quota :: int
  us_used_quota :: int
  us_request_count :: int

record token_row =
  tk_key :: gostr
  tk_remain_quota :: int
  tk_used_quota :: int

datatype batch_type =
    BatchUpdateTypeUserQuota
  | BatchUpdateTypeTokenQuota
  | BatchUpdateTypeUsedQuota
  | BatchUpdateTypeChannelUsedQuota
  | BatchUpdateTypeRequestCount

record ledger =
  db_users :: "user_row table"
  db_tokens :: "token_row table"
  db_channel_used :: "int table"
  batchUpdateStores :: "batch_type \<Rightarrow> (goint \<times> goint) list"
  db_faults :: "bool list"
  BatchUpdateEnabled :: bool
  redis_user_quota :: "goint \<Rightarrow> goint option"
  redis_token_quota :: "gostr \<Rightarrow> goint option"

text \<open>A statement of the database.\<close>

definition db_error :: gostr where
  "db_error = js ''database error''"

definition db_exec :: "('a ledger_scheme \<Rightarrow> 'a ledger_scheme) \<Rightarrow> 'a ledger_scheme \<Rightarrow> gostr option \<times> 'a ledger_scheme" where
  "db_exec f st =
     (case db_faults st of
        [] \<Rightarrow> (None, f st)
      | b # bs \<Rightarrow> if b then (Some db_error, st\<lparr>db_faults := bs\<rparr>) else (None, f (st\<lparr>db_faults := bs\<rparr>)))"

text \<open>\<open>quota\<close> followed by the words of the source for: must not be negative.\<close>

definition negative_quota_error :: gostr where
  "negative_quota_error = js ''quota '' @ [19981, 33021, 20026, 36127, 25968, 65281]"

section \<open>The batch updater\<close>

definition add_to_store :: "goint \<Rightarrow> goint \<Rightarrow> (goint \<times> goint) list \<Rightarrow> (goint \<times> goint) list" where
  "add_to_store uid v store =
     (case map_of store uid of
        None \<Rightarrow> store @ [(uid, v)]
      | Some w \<Rightarrow> map (\<lambda>(i, x). (i, if i = uid then x + v else x)) store)"

definition addNewRecord :: "batch_type \<Rightarrow> goint \<Rightarrow> goint \<Rightarrow> 'a ledger_scheme \<Rightarrow> 'a ledger_scheme" where
  "addNewRecord ty uid v st =
     st\<lparr>batchUpdateStores := (batchUpdateStores st)(ty := add_to_store uid v (batchUpdateStores st ty))\<rparr>"

text \<open>The value of a key, 0 when it is missing.\<close>

definition store_value :: "(goint \<times> goint) list \<Rightarrow> goint \<Rightarrow> goint" where
  "store_value store uid = (case map_of store uid of None \<Rightarrow> 0 | Some v \<Rightarrow> v)"

definition GetPendingUserBatchUpdates :: "goint \<Rightarrow> 'a ledger_scheme \<Rightarrow> goint \<times> goint \<times> goint" where
  "GetPendingUserBatchUpdates uid st =
     (store_value (batchUpdateStores st BatchUpdateTypeUserQuota) uid,
      store_value (batchUpdateStores st BatchUpdateTypeUsedQuota) uid,
      store_value (batchUpdateStores st BatchUpdateTypeRequestCount) uid)"

section \<open>Tokens\<close>

definition increaseTokenQuota :: "goint \<Rightarrow> goint \<Rightarrow> 'a ledger_scheme \<Rightarrow> gostr option \<times> 'a ledger_scheme" where
  "increaseTokenQuota uid q =
     db_exec (\<lambda>st. st\<lparr>db_tokens := update_where uid
       (\<lambda>r. r\<lparr>tk_remain_quota := tk_remain_quota r + sint q, tk_used_quota := tk_used_quota r - sint q\<rparr>) (db_tokens st)\<rparr>)"

definition decreaseTokenQuota :: "goint \<Rightarrow> goint \<Rightarrow> 'a ledger_scheme \<Rightarrow> gostr option \<times> 'a ledger_scheme" where
  "decreaseTokenQuota uid q =
     db_exec (\<lambda>st. st\<lparr>db_tokens := update_where uid
       (\<lambda>r. r\<lparr>tk_remain_quota := tk_remain_quota r - sint q, tk_used_quota := tk_used_quota r + sint q\<rparr>) (db_tokens st)\<rparr>)"

definition IncreaseTokenQuota :: "goint \<Rightarrow> goint \<Rightarrow> 'a ledger_scheme \<Rightarrow> gostr option \<times> 'a ledger_scheme" where
  "IncreaseTokenQuota tokenId q st =
     (if q <s 0 then (Some negative_quota_error, st)
      else if BatchUpdateEnabled st then (None, addNewRecord BatchUpdateTypeTokenQuota tokenId q st)
      else increaseTokenQuota tokenId q st)"

definition DecreaseTokenQuota :: "goint \<Rightarrow> goint \<Rightarrow> 'a ledger_scheme \<Rightarrow> gostr option \<times> 'a ledger_scheme" where
  "DecreaseTokenQuota tokenId q st =
     (if q <s 0 then (Some negative_quota_error, st)
      else if BatchUpdateEnabled st then (None, addNewRecord BatchUpdateTypeTokenQuota tokenId (- q) st)
      else decreaseTokenQuota tokenId q st)"

text \<open>The remaining quota of the token with a key, from the cache or from the first row.\<close>

definition GetTokenByKey :: "gostr \<Rightarrow> 'a ledger_scheme \<Rightarrow> goint goresult \<times> 'a ledger_scheme" where
  "GetTokenByKey key st =
     (case redis_token_quota st key of
        Some q \<Rightarrow> (Inr q, st)
      | None \<Rightarrow>
          (case db_exec (\<lambda>st. st) st of
             (Some err, st') \<Rightarrow> (Inl err, st')
           | (None, st') \<Rightarrow>
               (case find (\<lambda>(i, r). tk_key r = key) (db_tokens st') of
                  None \<Rightarrow> (Inl (js ''record not found''), st')
                | Some (i, r) \<Rightarrow> (Inr (word_of_int (tk_remain_quota r)), st'))))"

section \<open>Users\<close>

definition increaseUserQuota :: "goint \<Rightarrow> goint \<Rightarrow> 'a ledger_scheme \<Rightarrow> gostr option \<times> 'a ledger_scheme" where
  "increaseUserQuota uid q =
     db_exec (\<lambda>st. st\<lparr>db_users := update_where uid (\<lambda>r. r\<lparr>us_quota := us_quota r + sint q\<rparr>) (db_users st)\<rparr>)"

definition decreaseUserQuota :: "goint \<Rightarrow> goint \<Rightarrow> 'a ledger_scheme \<Rightarrow> gostr option \<times> 'a ledger_scheme" where
  "decreaseUserQuota uid q =
     db_exec (\<lambda>st. st\<lparr>db_users := update_where uid (\<lambda>r. r\<lparr>us_quota := us_quota r - sint q\<rparr>) (db_users st)\<rparr>)"

definition IncreaseUserQuota :: "goint \<Rightarrow> goint \<Rightarrow> bool \<Rightarrow> 'a ledger_scheme \<Rightarrow> gostr option \<times> 'a ledger_scheme" where
  "IncreaseUserQuota uid q db st =
     (if q <s 0 then (Some negative_quota_error, st)
      else if \<not> db \<and> BatchUpdateEnabled st then (None, addNewRecord BatchUpdateTypeUserQuota uid q st)
      else increaseUserQuota uid q st)"

definition DecreaseUserQuota :: "goint \<Rightarrow> goint \<Rightarrow> bool \<Rightarrow> 'a ledger_scheme \<Rightarrow> gostr option \<times> 'a ledger_scheme" where
  "DecreaseUserQuota uid q db st =
     (if q <s 0 then (Some negative_quota_error, st)
      else if \<not> db \<and> BatchUpdateEnabled st then (None, addNewRecord BatchUpdateTypeUserQuota uid (- q) st)
      else decreaseUserQuota uid q st)"

definition DeltaUpdateUserQuota :: "goint \<Rightarrow> goint \<Rightarrow> 'a ledger_scheme \<Rightarrow> gostr option \<times> 'a ledger_scheme" where
  "DeltaUpdateUserQuota uid delta st =
     (if delta = 0 then (None, st)
      else if 0 <s delta then IncreaseUserQuota uid delta False st
      else DecreaseUserQuota uid (- delta) False st)"

text \<open>A missing user has quota 0: \<open>Find\<close> does not report a missing row.\<close>

definition GetUserQuota :: "goint \<Rightarrow> bool \<Rightarrow> 'a ledger_scheme \<Rightarrow> goint goresult \<times> 'a ledger_scheme" where
  "GetUserQuota uid fromDB st =
     (case (if fromDB then None else redis_user_quota st uid) of
        Some q \<Rightarrow> (Inr q, st)
      | None \<Rightarrow>
          (case db_exec (\<lambda>st. st) st of
             (Some err, st') \<Rightarrow> (Inl err, st')
           | (None, st') \<Rightarrow>
               (Inr (case map_of (db_users st') uid of None \<Rightarrow> 0 | Some r \<Rightarrow> word_of_int (us_quota r)), st')))"

definition updateUserQuotaUsedQuotaAndRequestCount ::
  "goint \<Rightarrow> goint \<Rightarrow> goint \<Rightarrow> goint \<Rightarrow> 'a ledger_scheme \<Rightarrow> 'a ledger_scheme" where
  "updateUserQuotaUsedQuotaAndRequestCount uid q used count st =
     (if q = 0 \<and> used = 0 \<and> count = 0 then st
      else snd (db_exec (\<lambda>st. st\<lparr>db_users := update_where uid
        (\<lambda>r. r\<lparr>us_quota := us_quota r + sint q, us_used_quota := us_used_quota r + sint used,
               us_request_count := us_request_count r + sint count\<rparr>) (db_users st)\<rparr>) st))"

definition updateChannelUsedQuota :: "goint \<Rightarrow> goint \<Rightarrow> 'a ledger_scheme \<Rightarrow> 'a ledger_scheme" where
  "updateChannelUsedQuota uid q st =
     snd (db_exec (\<lambda>st. st\<lparr>db_channel_used := update_where uid (\<lambda>x. x + sint q) (db_channel_used st)\<rparr>) st)"

section \<open>Writing the batch\<close>

text \<open>The stores are taken, then written: the tokens and channels row by row, then the users with
  their three deltas.  The loops visit the keys of a map in some order; every key is visited once.\<close>

definition batch_types :: "batch_type list" where
  "batch_types =
     [BatchUpdateTypeUserQuota, BatchUpdateTypeTokenQuota, BatchUpdateTypeUsedQuota, BatchUpdateTypeChannelUsedQuota,
      BatchUpdateTypeRequestCount]"

definition batch_user_ids :: "(batch_type \<Rightarrow> (goint \<times> goint) list) \<Rightarrow> goint list" where
  "batch_user_ids stores =
     set_list (map fst (stores BatchUpdateTypeUserQuota @ stores BatchUpdateTypeUsedQuota @ stores BatchUpdateTypeRequestCount))"

definition batchUpdate :: "'a ledger_scheme \<Rightarrow> 'a ledger_scheme" where
  "batchUpdate st =
     (let stores = batchUpdateStores st in
      if list_all (\<lambda>ty. stores ty = []) batch_types then st
      else
        fold (\<lambda>uid. updateUserQuotaUsedQuotaAndRequestCount uid
               (store_value (stores BatchUpdateTypeUserQuota) uid)
               (store_value (stores BatchUpdateTypeUsedQuota) uid)
               (store_value (stores BatchUpdateTypeRequestCount) uid)) (batch_user_ids stores)
          (fold (\<lambda>(uid, v). updateChannelUsedQuota uid v) (stores BatchUpdateTypeChannelUsedQuota)
            (fold (\<lambda>(uid, v) st. snd (increaseTokenQuota uid v st)) (stores BatchUpdateTypeTokenQuota)
              (st\<lparr>batchUpdateStores := (\<lambda>_. [])\<rparr>))))"

section \<open>Balances\<close>

definition user_balance :: "goint \<Rightarrow> 'a ledger_scheme \<Rightarrow> goint" where
  "user_balance uid st =
     (case map_of (db_users st) uid of None \<Rightarrow> 0 | Some r \<Rightarrow> word_of_int (us_quota r)) +
     store_value (batchUpdateStores st BatchUpdateTypeUserQuota) uid"

definition token_balance :: "goint \<Rightarrow> 'a ledger_scheme \<Rightarrow> goint" where
  "token_balance tid st =
     (case map_of (db_tokens st) tid of None \<Rightarrow> 0 | Some r \<Rightarrow> word_of_int (tk_remain_quota r)) +
     store_value (batchUpdateStores st BatchUpdateTypeTokenQuota) tid"

definition token_spent :: "goint \<Rightarrow> 'a ledger_scheme \<Rightarrow> goint" where
  "token_spent tid st =
     (case map_of (db_tokens st) tid of None \<Rightarrow> 0 | Some r \<Rightarrow> word_of_int (tk_used_quota r)) -
     store_value (batchUpdateStores st BatchUpdateTypeTokenQuota) tid"

definition has_user :: "goint \<Rightarrow> 'a ledger_scheme \<Rightarrow> bool" where
  "has_user uid st \<longleftrightarrow> map_of (db_users st) uid \<noteq> None"

definition has_token :: "goint \<Rightarrow> 'a ledger_scheme \<Rightarrow> bool" where
  "has_token tid st \<longleftrightarrow> map_of (db_tokens st) tid \<noteq> None"

lemma map_of_update_where:
  "map_of (update_where uid f t) j = (if j = uid then map_option f (map_of t j) else map_of t j)"
  by (induction t) (auto simp: update_where_def)

lemma update_where_keys: "map fst (update_where uid f t) = map fst t"
  by (induction t) (auto simp: update_where_def)

lemma store_value_add: "store_value (add_to_store uid v store) j = store_value store j + (if j = uid then v else 0)"
proof -
  have "map_of (map (\<lambda>(i, x). (i, if i = uid then x + v else x)) store) j =
      (if j = uid then map_option (\<lambda>x. x + v) (map_of store j) else map_of store j)"
    by (induction store) auto
  then show ?thesis
    by (auto simp: add_to_store_def store_value_def map_add_def split: option.splits)
qed

lemma add_to_store_keys: "distinct (map fst store) \<Longrightarrow> distinct (map fst (add_to_store uid v store))"
proof -
  assume d: "distinct (map fst store)"
  have "map fst (map (\<lambda>(i, x). (i, if i = uid then x + v else x)) store) = map fst store"
    by (induction store) auto
  moreover have "map_of store uid = None \<Longrightarrow> uid \<notin> fst ` set store" by (simp add: map_of_eq_None_iff)
  ultimately show ?thesis
    using d by (cases "map_of store uid") (simp_all add: add_to_store_def del: map_map map_of_eq_None_iff)
qed

lemma db_exec_clean: "db_faults st = [] \<Longrightarrow> db_exec f st = (None, f st)"
  by (simp add: db_exec_def)

text \<open>What an account promises: a successful credit or debit changes the balance by its amount, a failed one
  does not change it.\<close>

locale account =
  fixes inv :: "'s \<Rightarrow> bool"
    and credit debit :: "goint \<Rightarrow> 's \<Rightarrow> gostr option \<times> 's"
    and balance :: "'s \<Rightarrow> goint"
  assumes credit_done: "inv s \<Longrightarrow> credit q s = (None, s') \<Longrightarrow> balance s' = balance s + q"
    and debit_done: "inv s \<Longrightarrow> debit q s = (None, s') \<Longrightarrow> balance s' = balance s - q"
    and credit_failed: "inv s \<Longrightarrow> credit q s = (Some e, s') \<Longrightarrow> balance s' = balance s"
    and debit_failed: "inv s \<Longrightarrow> debit q s = (Some e, s') \<Longrightarrow> balance s' = balance s"
    and credit_inv: "inv s \<Longrightarrow> inv (snd (credit q s))"
    and debit_inv: "inv s \<Longrightarrow> inv (snd (debit q s))"
begin

lemma credit_balance: "inv s \<Longrightarrow> credit q s = (r, s') \<Longrightarrow> balance s' = balance s + (if r = None then q else 0)"
  using credit_done [of s q s'] credit_failed [of s q _ s'] by (cases r) auto

lemma debit_balance: "inv s \<Longrightarrow> debit q s = (r, s') \<Longrightarrow> balance s' = balance s - (if r = None then q else 0)"
  using debit_done [of s q s'] debit_failed [of s q _ s'] by (cases r) auto

text \<open>A signed difference, taken or given back.\<close>

lemma adjust_balance:
  "inv s \<Longrightarrow> (if 0 <s d then debit d s else credit (- d) s) = (r, s') \<Longrightarrow>
   balance s' = balance s - (if r = None then d else 0)"
  using credit_balance [of s "- d" r s'] debit_balance [of s d r s'] by (auto split: if_splits)

text \<open>What is taken and given back leaves the balance.\<close>

lemma debit_credit:
  assumes "inv s" "debit q s = (None, s1)" "credit q s1 = (None, s2)"
  shows "balance s2 = balance s"
proof -
  have "inv s1" using debit_inv [OF assms(1), of q] assms(2) by simp
  then show ?thesis using debit_done [OF assms(1,2)] credit_done [of s1 q s2] assms(3) by simp
qed

end

lemmas user_ops = IncreaseUserQuota_def DecreaseUserQuota_def increaseUserQuota_def decreaseUserQuota_def
lemmas token_ops = IncreaseTokenQuota_def DecreaseTokenQuota_def increaseTokenQuota_def decreaseTokenQuota_def

interpretation wallet: account "has_user uid" "\<lambda>q. IncreaseUserQuota uid q False" "\<lambda>q. DecreaseUserQuota uid q False"
  "user_balance uid" for uid
  by unfold_locales
    (auto simp: user_ops addNewRecord_def has_user_def user_balance_def store_value_add map_of_update_where db_exec_def
      split: if_splits list.splits)

interpretation token: account "has_token tid" "IncreaseTokenQuota tid" "DecreaseTokenQuota tid" "token_balance tid" for tid
  by unfold_locales
    (auto simp: token_ops addNewRecord_def has_token_def token_balance_def store_value_add map_of_update_where db_exec_def
      split: if_splits list.splits)

interpretation spent: account "has_token tid" "DecreaseTokenQuota tid" "IncreaseTokenQuota tid" "token_spent tid" for tid
  by unfold_locales
    (auto simp: token_ops addNewRecord_def has_token_def token_spent_def store_value_add map_of_update_where db_exec_def
      split: if_splits list.splits)

section \<open>Writing the batch keeps the balances\<close>

definition stores_distinct :: "'a ledger_scheme \<Rightarrow> bool" where
  "stores_distinct st \<longleftrightarrow> (\<forall>ty. distinct (map fst (batchUpdateStores st ty)))"

lemma store_value_Nil [simp]: "store_value [] uid = 0"
  by (simp add: store_value_def)

lemma store_value_Cons: "store_value ((i, v) # store) uid = (if i = uid then v else store_value store uid)"
  by (simp add: store_value_def)

lemma store_value_missing: "uid \<notin> fst ` set store \<Longrightarrow> store_value store uid = 0"
  by (simp add: store_value_def map_of_eq_None_iff [THEN iffD2])

lemma write_tokens:
  "db_faults st = [] \<Longrightarrow> distinct (map fst vs) \<Longrightarrow>
   \<exists>ts. fold (\<lambda>(uid, v) st. snd (increaseTokenQuota uid v st)) vs st = st\<lparr>db_tokens := ts\<rparr> \<and>
     (\<forall>tid. map_of ts tid = map_option (\<lambda>r. r\<lparr>tk_remain_quota := tk_remain_quota r + sint (store_value vs tid),
        tk_used_quota := tk_used_quota r - sint (store_value vs tid)\<rparr>) (map_of (db_tokens st) tid))"
proof (induction vs arbitrary: st)
  case Nil
  then show ?case by (intro exI [of _ "db_tokens st"]) (simp add: option.map_ident)
next
  case (Cons p vs)
  obtain i v where p: "p = (i, v)" by (cases p)
  let ?t = "update_where i (\<lambda>r. r\<lparr>tk_remain_quota := tk_remain_quota r + sint v, tk_used_quota := tk_used_quota r - sint v\<rparr>) (db_tokens st)"
  have step: "snd (increaseTokenQuota i v st) = st\<lparr>db_tokens := ?t\<rparr>"
    using Cons.prems(1) by (simp add: increaseTokenQuota_def db_exec_clean)
  have i: "store_value vs i = 0" using Cons.prems(2) p by (intro store_value_missing) auto
  obtain ts where ts: "fold (\<lambda>(uid, v) st. snd (increaseTokenQuota uid v st)) vs (st\<lparr>db_tokens := ?t\<rparr>) =
      st\<lparr>db_tokens := ?t\<rparr>\<lparr>db_tokens := ts\<rparr>"
    "\<And>tid. map_of ts tid = map_option (\<lambda>r. r\<lparr>tk_remain_quota := tk_remain_quota r + sint (store_value vs tid),
        tk_used_quota := tk_used_quota r - sint (store_value vs tid)\<rparr>) (map_of ?t tid)"
    using Cons.IH [of "st\<lparr>db_tokens := ?t\<rparr>"] Cons.prems by auto
  show ?case
    using ts i by (intro exI [of _ ts]) (auto simp: p step map_of_update_where store_value_Cons option.map_comp comp_def)
qed

lemma write_channels:
  "db_faults st = [] \<Longrightarrow> \<exists>cs. fold (\<lambda>(uid, v). updateChannelUsedQuota uid v) vs st = st\<lparr>db_channel_used := cs\<rparr>"
proof (induction vs arbitrary: st)
  case Nil
  then show ?case by (intro exI [of _ "db_channel_used st"]) simp
next
  case (Cons p vs)
  obtain i v where p: "p = (i, v)" by (cases p)
  have "updateChannelUsedQuota i v st =
      st\<lparr>db_channel_used := update_where i (\<lambda>x. x + sint v) (db_channel_used st)\<rparr>"
    using Cons.prems by (simp add: updateChannelUsedQuota_def db_exec_clean)
  then show ?case
    using Cons.IH [of "st\<lparr>db_channel_used := update_where i (\<lambda>x. x + sint v) (db_channel_used st)\<rparr>"] Cons.prems
    by (auto simp: p)
qed

definition add_user_deltas :: "goint \<Rightarrow> goint \<Rightarrow> goint \<Rightarrow> user_row \<Rightarrow> user_row" where
  "add_user_deltas q used count r =
     r\<lparr>us_quota := us_quota r + sint q, us_used_quota := us_used_quota r + sint used,
       us_request_count := us_request_count r + sint count\<rparr>"

lemma add_user_deltas_0 [simp]: "add_user_deltas 0 0 0 = (\<lambda>r. r)"
  by (simp add: add_user_deltas_def fun_eq_iff)

lemma write_users:
  fixes f g h :: "goint \<Rightarrow> goint"
  assumes "db_faults st = []" "distinct ids"
  shows "\<exists>us. fold (\<lambda>uid. updateUserQuotaUsedQuotaAndRequestCount uid (f uid) (g uid) (h uid)) ids st = st\<lparr>db_users := us\<rparr> \<and>
     (\<forall>uid. map_of us uid =
       (if uid \<in> set ids then map_option (add_user_deltas (f uid) (g uid) (h uid)) (map_of (db_users st) uid)
        else map_of (db_users st) uid))"
  using assms
proof (induction ids arbitrary: st)
  case Nil
  then show ?case by (intro exI [of _ "db_users st"]) simp
next
  case (Cons i ids)
  obtain t where step: "updateUserQuotaUsedQuotaAndRequestCount i (f i) (g i) (h i) st = st\<lparr>db_users := t\<rparr>"
    and t: "\<And>uid. map_of t uid = (if uid = i then map_option (add_user_deltas (f i) (g i) (h i)) (map_of (db_users st) uid)
        else map_of (db_users st) uid)"
  proof (cases "f i = 0 \<and> g i = 0 \<and> h i = 0")
    case True
    then show ?thesis
      by (intro that [of "db_users st"]) (simp_all add: updateUserQuotaUsedQuotaAndRequestCount_def option.map_ident)
  next
    case False
    then show ?thesis
      using Cons.prems(1)
      by (intro that [of "update_where i (add_user_deltas (f i) (g i) (h i)) (db_users st)"])
        (auto simp: updateUserQuotaUsedQuotaAndRequestCount_def db_exec_clean add_user_deltas_def [abs_def] map_of_update_where)
  qed
  obtain us where us: "fold (\<lambda>uid. updateUserQuotaUsedQuotaAndRequestCount uid (f uid) (g uid) (h uid)) ids (st\<lparr>db_users := t\<rparr>) =
      st\<lparr>db_users := t\<rparr>\<lparr>db_users := us\<rparr>"
    "\<And>uid. map_of us uid = (if uid \<in> set ids then map_option (add_user_deltas (f uid) (g uid) (h uid)) (map_of t uid) else map_of t uid)"
    using Cons.IH [of "st\<lparr>db_users := t\<rparr>"] Cons.prems by auto
  show ?case
    using us Cons.prems(2) by (intro exI [of _ us]) (auto simp: step t)
qed

text \<open>The rows after the batch was written.\<close>

definition add_token_delta :: "goint \<Rightarrow> token_row \<Rightarrow> token_row" where
  "add_token_delta v r = r\<lparr>tk_remain_quota := tk_remain_quota r + sint v, tk_used_quota := tk_used_quota r - sint v\<rparr>"

definition pending_user :: "(batch_type \<Rightarrow> (goint \<times> goint) list) \<Rightarrow> goint \<Rightarrow> user_row \<Rightarrow> user_row" where
  "pending_user stores uid =
     add_user_deltas (store_value (stores BatchUpdateTypeUserQuota) uid) (store_value (stores BatchUpdateTypeUsedQuota) uid)
       (store_value (stores BatchUpdateTypeRequestCount) uid)"

definition pending_token :: "(batch_type \<Rightarrow> (goint \<times> goint) list) \<Rightarrow> goint \<Rightarrow> token_row \<Rightarrow> token_row" where
  "pending_token stores tid = add_token_delta (store_value (stores BatchUpdateTypeTokenQuota) tid)"

lemma add_token_delta_0 [simp]: "add_token_delta 0 = (\<lambda>r. r)"
  by (simp add: add_token_delta_def fun_eq_iff)

lemma other_user: "uid \<notin> set (batch_user_ids stores) \<Longrightarrow> pending_user stores uid = (\<lambda>r. r)"
  by (simp add: batch_user_ids_def pending_user_def store_value_missing)

lemma batch_written:
  assumes "db_faults st = []" "stores_distinct st"
  obtains us ts cs where "batchUpdate st = st\<lparr>batchUpdateStores := (\<lambda>_. []), db_tokens := ts, db_channel_used := cs, db_users := us\<rparr>"
    "\<And>uid. map_of us uid = map_option (pending_user (batchUpdateStores st) uid) (map_of (db_users st) uid)"
    "\<And>tid. map_of ts tid = map_option (pending_token (batchUpdateStores st) tid) (map_of (db_tokens st) tid)"
proof -
  let ?s = "batchUpdateStores st" and ?first = "st\<lparr>batchUpdateStores := (\<lambda>_. [])\<rparr>"
  show ?thesis
  proof (cases "list_all (\<lambda>ty. ?s ty = []) batch_types")
    case True
    have e: "?s ty = []" for ty using True by (cases ty) (simp_all add: batch_types_def)
    then have "?s = (\<lambda>_. [])" by (simp add: fun_eq_iff)
    then have "batchUpdate st = st\<lparr>batchUpdateStores := (\<lambda>_. []), db_tokens := db_tokens st,
        db_channel_used := db_channel_used st, db_users := db_users st\<rparr>"
      using True by (simp add: batchUpdate_def)
    then show ?thesis
      by (rule that) (simp_all add: pending_user_def pending_token_def e option.map_ident)
  next
    case False
    let ?f = "\<lambda>uid. store_value (?s BatchUpdateTypeUserQuota) uid" and ?g = "\<lambda>uid. store_value (?s BatchUpdateTypeUsedQuota) uid"
      and ?h = "\<lambda>uid. store_value (?s BatchUpdateTypeRequestCount) uid"
    obtain ts where ts: "fold (\<lambda>(uid, v) st. snd (increaseTokenQuota uid v st)) (?s BatchUpdateTypeTokenQuota) ?first = ?first\<lparr>db_tokens := ts\<rparr>"
      "\<And>tid. map_of ts tid = map_option (pending_token ?s tid) (map_of (db_tokens ?first) tid)"
      using write_tokens [of ?first "?s BatchUpdateTypeTokenQuota"] assms
      unfolding pending_token_def add_token_delta_def [abs_def] by (auto simp: stores_distinct_def)
    let ?second = "?first\<lparr>db_tokens := ts\<rparr>"
    obtain cs where cs: "fold (\<lambda>(uid, v). updateChannelUsedQuota uid v) (?s BatchUpdateTypeChannelUsedQuota) ?second = ?second\<lparr>db_channel_used := cs\<rparr>"
      using write_channels [of ?second] assms(1) by auto
    let ?third = "?second\<lparr>db_channel_used := cs\<rparr>"
    have c2: "db_faults ?third = []" "distinct (batch_user_ids ?s)" using assms(1) by (simp_all add: batch_user_ids_def)
    from write_users [OF c2, of ?f ?g ?h] obtain us where
      us: "fold (\<lambda>uid. updateUserQuotaUsedQuotaAndRequestCount uid (?f uid) (?g uid) (?h uid)) (batch_user_ids ?s) ?third = ?third\<lparr>db_users := us\<rparr>"
      "\<And>uid. map_of us uid = (if uid \<in> set (batch_user_ids ?s) then map_option (pending_user ?s uid) (map_of (db_users ?third) uid)
        else map_of (db_users ?third) uid)"
      unfolding pending_user_def by blast
    have "batchUpdate st = ?third\<lparr>db_users := us\<rparr>"
      using False unfolding batchUpdate_def Let_def ts(1) cs us(1) by simp
    then show ?thesis
      using us(2) ts(2) by (intro that) (auto simp: other_user option.map_ident)
  qed
qed

lemma batch_balances:
  assumes "db_faults st = []" "stores_distinct st"
  shows "has_user uid st \<Longrightarrow> user_balance uid (batchUpdate st) = user_balance uid st"
    "has_token tid st \<Longrightarrow> token_balance tid (batchUpdate st) = token_balance tid st"
    "has_token tid st \<Longrightarrow> token_spent tid (batchUpdate st) = token_spent tid st"
    "has_user uid (batchUpdate st) \<longleftrightarrow> has_user uid st" "has_token tid (batchUpdate st) \<longleftrightarrow> has_token tid st"
    "batchUpdateStores (batchUpdate st) = (\<lambda>_. [])" "db_faults (batchUpdate st) = []" "BatchUpdateEnabled (batchUpdate st) = BatchUpdateEnabled st"
  by (rule batch_written [OF assms];
      auto simp: has_user_def has_token_def user_balance_def token_balance_def token_spent_def pending_user_def pending_token_def
        add_user_deltas_def add_token_delta_def assms(1))+

section \<open>Runs of the ledger\<close>

text \<open>The updates of quotas and the writes of the batch, in the order the locks and the database serialize them.\<close>

datatype quota_op =
    CreditUser goint goint
  | DebitUser goint goint
  | CreditToken goint goint
  | DebitToken goint goint
  | WriteBatch

fun quota_step :: "quota_op \<Rightarrow> 'a ledger_scheme \<Rightarrow> 'a ledger_scheme" where
  "quota_step (CreditUser uid q) st = snd (IncreaseUserQuota uid q False st)"
| "quota_step (DebitUser uid q) st = snd (DecreaseUserQuota uid q False st)"
| "quota_step (CreditToken tid q) st = snd (IncreaseTokenQuota tid q st)"
| "quota_step (DebitToken tid q) st = snd (DecreaseTokenQuota tid q st)"
| "quota_step WriteBatch st = batchUpdate st"

text \<open>What an operation adds to the balance of a user or of a token; a negative amount is refused.\<close>

fun user_delta :: "goint \<Rightarrow> quota_op \<Rightarrow> goint" where
  "user_delta uid (CreditUser i q) = (if i = uid \<and> \<not> q <s 0 then q else 0)"
| "user_delta uid (DebitUser i q) = (if i = uid \<and> \<not> q <s 0 then - q else 0)"
| "user_delta uid _ = 0"

fun token_delta :: "goint \<Rightarrow> quota_op \<Rightarrow> goint" where
  "token_delta tid (CreditToken i q) = (if i = tid \<and> \<not> q <s 0 then q else 0)"
| "token_delta tid (DebitToken i q) = (if i = tid \<and> \<not> q <s 0 then - q else 0)"
| "token_delta tid _ = 0"

definition sound_ledger :: "goint \<Rightarrow> goint \<Rightarrow> 'a ledger_scheme \<Rightarrow> bool" where
  "sound_ledger uid tid st \<longleftrightarrow> db_faults st = [] \<and> stores_distinct st \<and> has_user uid st \<and> has_token tid st"

lemmas balance_defs = user_balance_def token_balance_def token_spent_def has_user_def has_token_def

lemma stores_distinct_add: "stores_distinct st \<Longrightarrow> stores_distinct (addNewRecord ty uid v st)"
  by (simp add: stores_distinct_def addNewRecord_def add_to_store_keys)

lemma quota_step_sound:
  assumes "sound_ledger uid tid st"
  shows "sound_ledger uid tid (quota_step op st)" "BatchUpdateEnabled (quota_step op st) = BatchUpdateEnabled st"
proof -
  have a: "db_faults st = []" "stores_distinct st" "has_user uid st" "has_token tid st"
    using assms by (simp_all add: sound_ledger_def)
  show "sound_ledger uid tid (quota_step op st)"
    using a batch_balances [OF a(1,2)]
    by (cases op) (auto simp: sound_ledger_def user_ops token_ops db_exec_clean stores_distinct_add has_user_def has_token_def
        map_of_update_where addNewRecord_def [of _ _ _ st] stores_distinct_def add_to_store_keys)
  show "BatchUpdateEnabled (quota_step op st) = BatchUpdateEnabled st"
    using a batch_balances(8) [OF a(1,2)]
    by (cases op) (auto simp: user_ops token_ops db_exec_clean addNewRecord_def)
qed

lemma quota_step_balances:
  assumes "sound_ledger uid tid st"
  shows "user_balance uid (quota_step op st) = user_balance uid st + user_delta uid op"
    "token_balance tid (quota_step op st) = token_balance tid st + token_delta tid op"
    "token_spent tid (quota_step op st) = token_spent tid st - token_delta tid op"
proof -
  have a: "db_faults st = []" "stores_distinct st" "has_user uid st" "has_token tid st"
    using assms by (simp_all add: sound_ledger_def)
  note b = batch_balances(1-3) [OF a(1,2)]
  show "user_balance uid (quota_step op st) = user_balance uid st + user_delta uid op"
    using a b by (cases op) (auto simp: user_ops token_ops db_exec_clean balance_defs addNewRecord_def store_value_add map_of_update_where)
  show "token_balance tid (quota_step op st) = token_balance tid st + token_delta tid op"
    using a b by (cases op) (auto simp: user_ops token_ops db_exec_clean balance_defs addNewRecord_def store_value_add map_of_update_where)
  show "token_spent tid (quota_step op st) = token_spent tid st - token_delta tid op"
    using a b by (cases op) (auto simp: user_ops token_ops db_exec_clean balance_defs addNewRecord_def store_value_add map_of_update_where)
qed

lemma quota_run:
  assumes "sound_ledger uid tid st"
  shows "sound_ledger uid tid (fold quota_step ops st) \<and>
    BatchUpdateEnabled (fold quota_step ops st) = BatchUpdateEnabled st \<and>
    user_balance uid (fold quota_step ops st) = user_balance uid st + sum_list (map (user_delta uid) ops) \<and>
    token_balance tid (fold quota_step ops st) = token_balance tid st + sum_list (map (token_delta tid) ops) \<and>
    token_spent tid (fold quota_step ops st) = token_spent tid st - sum_list (map (token_delta tid) ops)"
  using assms
proof (induction ops arbitrary: st)
  case (Cons op ops)
  show ?case
    using Cons.IH [OF quota_step_sound(1) [OF Cons.prems]] quota_step_sound(2) [OF Cons.prems] quota_step_balances [OF Cons.prems]
    by (simp add: algebra_simps)
qed simp

lemma direct_stores:
  "db_faults st = [] \<Longrightarrow> stores_distinct st \<Longrightarrow> \<not> BatchUpdateEnabled st \<Longrightarrow> batchUpdateStores st = (\<lambda>_. []) \<Longrightarrow>
   batchUpdateStores (fold quota_step ops st) = (\<lambda>_. [])"
proof (induction ops arbitrary: st)
  case (Cons op ops)
  have "db_faults (quota_step op st) = [] \<and> stores_distinct (quota_step op st) \<and> \<not> BatchUpdateEnabled (quota_step op st) \<and>
      batchUpdateStores (quota_step op st) = (\<lambda>_. [])"
    using Cons.prems batch_balances(6-8) [OF Cons.prems(1,2)]
    by (cases op) (auto simp: user_ops token_ops db_exec_clean stores_distinct_def)
  then show ?case using Cons.IH by simp
qed simp

text \<open>C3. Batching is transparent: for every sequence of credits and debits, with writes of the batch at any
  places, the columns of a user and of a token after a last write are those of the same run without batching, and they changed
  by the sum of the accepted amounts.\<close>

theorem batching_transparent:
  fixes st :: "'a ledger_scheme"
  assumes "sound_ledger uid tid st" "batchUpdateStores st = (\<lambda>_. [])"
  shows "\<exists>u u' t t'.
    map_of (db_users (batchUpdate (fold quota_step ops (st\<lparr>BatchUpdateEnabled := True\<rparr>)))) uid = Some u \<and>
    map_of (db_users (fold quota_step ops (st\<lparr>BatchUpdateEnabled := False\<rparr>))) uid = Some u' \<and>
    map_of (db_tokens (batchUpdate (fold quota_step ops (st\<lparr>BatchUpdateEnabled := True\<rparr>)))) tid = Some t \<and>
    map_of (db_tokens (fold quota_step ops (st\<lparr>BatchUpdateEnabled := False\<rparr>))) tid = Some t' \<and>
    (word_of_int (us_quota u) :: goint) = word_of_int (us_quota u') \<and>
    (word_of_int (tk_remain_quota t) :: goint) = word_of_int (tk_remain_quota t') \<and>
    (word_of_int (tk_used_quota t) :: goint) = word_of_int (tk_used_quota t') \<and>
    (word_of_int (us_quota u) :: goint) = user_balance uid st + sum_list (map (user_delta uid) ops) \<and>
    (word_of_int (tk_remain_quota t) :: goint) = token_balance tid st + sum_list (map (token_delta tid) ops)"
proof -
  let ?on = "st\<lparr>BatchUpdateEnabled := True\<rparr>" and ?off = "st\<lparr>BatchUpdateEnabled := False\<rparr>"
  let ?b = "fold quota_step ops ?on" and ?d = "fold quota_step ops ?off"
  have s: "sound_ledger uid tid ?on" "sound_ledger uid tid ?off"
    using assms(1) by (simp_all add: sound_ledger_def stores_distinct_def has_user_def has_token_def)
  have same: "user_balance uid ?on = user_balance uid st" "user_balance uid ?off = user_balance uid st"
    "token_balance tid ?on = token_balance tid st" "token_balance tid ?off = token_balance tid st"
    "token_spent tid ?on = token_spent tid ?off"
    by (simp_all add: balance_defs)
  note on = quota_run [OF s(1), of ops] and off = quota_run [OF s(2), of ops]
  have on': "db_faults ?b = []" "stores_distinct ?b" "has_user uid ?b" "has_token tid ?b"
    using on by (simp_all add: sound_ledger_def)
  note w = batch_balances [OF on'(1,2)]
  have e: "batchUpdateStores ?d = (\<lambda>_. [])" using assms(2) s(2)
    by (intro direct_stores) (simp_all add: sound_ledger_def)
  have "has_user uid (batchUpdate ?b)" "has_token tid (batchUpdate ?b)" using w(4) [of uid] w(5) [of tid] on'(3,4) by simp_all
  then obtain u t where ut: "map_of (db_users (batchUpdate ?b)) uid = Some u" "map_of (db_tokens (batchUpdate ?b)) tid = Some t"
    unfolding has_user_def has_token_def by blast
  obtain u' t' where ut': "map_of (db_users ?d) uid = Some u'" "map_of (db_tokens ?d) tid = Some t'"
    using off by (auto simp: sound_ledger_def has_user_def has_token_def)
  have cols: "user_balance uid (batchUpdate ?b) = word_of_int (us_quota u)" "token_balance tid (batchUpdate ?b) = word_of_int (tk_remain_quota t)"
    "token_spent tid (batchUpdate ?b) = word_of_int (tk_used_quota t)" "user_balance uid ?d = word_of_int (us_quota u')"
    "token_balance tid ?d = word_of_int (tk_remain_quota t')" "token_spent tid ?d = word_of_int (tk_used_quota t')"
    using ut ut' by (simp_all add: user_balance_def token_balance_def token_spent_def w(6) e)
  show ?thesis
    using ut ut' cols w(1-3) on'(3,4) on off same by auto
qed

definition sample_ledger :: ledger where
  "sample_ledger =
     \<lparr>db_users = [(1, \<lparr>us_quota = 1000, us_used_quota = 0, us_request_count = 0\<rparr>)],
      db_tokens = [(7, \<lparr>tk_key = js ''k'', tk_remain_quota = 500, tk_used_quota = 0\<rparr>)],
      db_channel_used = [], batchUpdateStores = (\<lambda>_. []), db_faults = [], BatchUpdateEnabled = False,
      redis_user_quota = (\<lambda>_. None), redis_token_quota = (\<lambda>_. None)\<rparr>"

lemma sample_sound: "sound_ledger 1 7 sample_ledger"
  by (simp add: sound_ledger_def sample_ledger_def stores_distinct_def has_user_def has_token_def)

theorem batching_transparent_witness:
  "\<exists>u t. map_of (db_users (batchUpdate (fold quota_step
        [DebitUser 1 100, DebitToken 7 100, WriteBatch, CreditUser 1 30, CreditToken 7 30]
        (sample_ledger\<lparr>BatchUpdateEnabled := True\<rparr>)))) 1 = Some u \<and>
     map_of (db_tokens (batchUpdate (fold quota_step
        [DebitUser 1 100, DebitToken 7 100, WriteBatch, CreditUser 1 30, CreditToken 7 30]
        (sample_ledger\<lparr>BatchUpdateEnabled := True\<rparr>)))) 7 = Some t \<and>
     (word_of_int (us_quota u) :: goint) = 930 \<and> (word_of_int (tk_remain_quota t) :: goint) = 430"
proof -
  let ?ops = "[DebitUser 1 100, DebitToken 7 100, WriteBatch, CreditUser 1 30, CreditToken 7 30]"
  have "batchUpdateStores sample_ledger = (\<lambda>_. [])" by (simp add: sample_ledger_def)
  from batching_transparent [OF sample_sound this, of ?ops] obtain u t where
    "map_of (db_users (batchUpdate (fold quota_step ?ops (sample_ledger\<lparr>BatchUpdateEnabled := True\<rparr>)))) 1 = Some u"
    "map_of (db_tokens (batchUpdate (fold quota_step ?ops (sample_ledger\<lparr>BatchUpdateEnabled := True\<rparr>)))) 7 = Some t"
    "(word_of_int (us_quota u) :: goint) = user_balance 1 sample_ledger + sum_list (map (user_delta 1) ?ops)"
    "(word_of_int (tk_remain_quota t) :: goint) = token_balance 7 sample_ledger + sum_list (map (token_delta 7) ?ops)"
    by blast
  moreover have "user_balance 1 sample_ledger + sum_list (map (user_delta 1) ?ops) = 930"
    "token_balance 7 sample_ledger + sum_list (map (token_delta 7) ?ops) = 430"
    by code_simp+
  ultimately show ?thesis by metis
qed

end
