(* ===== verification/Server_Subscription.thy ===== *)
theory Server_Subscription
  imports Server_Quota Js_Date "HOL-Library.Product_Lexorder"
begin

text \<open>
  Subscriptions as a source of quota, \<^verbatim>\<open>model/subscription.go\<close>: discounts, the periodic reset of the used amount, and
  the three operations a billing session calls, \<open>PreConsumeUserSubscription\<close>,
  \<open>PostConsumeUserSubscriptionDelta\<close> and \<open>RefundSubscriptionPreConsume\<close>.

  The database of the ledger is extended by the tables of subscriptions, plans and pre-consume records.  A
  transaction that returns an error leaves the tables as they were.  Amounts are 64-bit words, times are seconds.

  Arguments stand for what lies outside: \<open>mul_round\<close> for \<open>Mul(..).Round(0).IntPart()\<close> of the decimal package, the
  ratios of the top-up groups, the offset of the local time zone (taken to be constant) and the current time.
  The loop of the reset may run forever, so it is a partial function and \<open>None\<close> stands for not returning.
\<close>

section \<open>Tables\<close>

record SubscriptionPlan =
  pl_QuotaResetPeriod :: gostr
  pl_QuotaResetCustomSeconds :: goint

record UserSubscription =
  sb_UserId :: goint
  sb_PlanId :: goint
  sb_AmountTotal :: goint
  sb_AmountUsed :: goint
  sb_BillingDiscount :: rat
  sb_BillingDiscountGroup :: gostr
  sb_StartTime :: int
  sb_EndTime :: int
  sb_Status :: gostr
  sb_LastResetTime :: int
  sb_NextResetTime :: int
  sb_UpgradeGroup :: gostr

record SubscriptionPreConsumeRecord =
  pr_UserId :: goint
  pr_UserSubscriptionId :: goint
  pr_PreConsumed :: goint
  pr_Status :: gostr

record bank = ledger +
  db_subscriptions :: "UserSubscription table"
  db_plans :: "SubscriptionPlan table"
  db_pre_consume :: "(gostr \<times> SubscriptionPreConsumeRecord) list"
  db_user_group :: "goint \<Rightarrow> gostr"

record sub_host =
  mul_round :: "int \<Rightarrow> rat \<Rightarrow> int"
  topupGroupRatio :: "gostr \<Rightarrow> rat option"
  zone_offset :: int
  now_unix :: int

text \<open>A transaction keeps its changes only when it returns no error.\<close>

definition db_transaction :: "(bank \<Rightarrow> 'a goresult \<times> bank) \<Rightarrow> bank \<Rightarrow> 'a goresult \<times> bank" where
  "db_transaction f st =
     (case f st of
        (Inr x, st') \<Rightarrow> (Inr x, st')
      | (Inl err, st') \<Rightarrow> (Inl err, st\<lparr>db_faults := db_faults st'\<rparr>))"

text \<open>A statement inside a transaction, and what follows it.\<close>

definition stmt :: "(bank \<Rightarrow> bank) \<Rightarrow> (bank \<Rightarrow> 'a goresult \<times> bank) \<Rightarrow> bank \<Rightarrow> 'a goresult \<times> bank" where
  "stmt f k st = (case db_exec f st of (Some err, st') \<Rightarrow> (Inl err, st') | (None, st') \<Rightarrow> k st')"

definition not_found :: gostr where
  "not_found = js ''record not found''"

definition save_subscription :: "goint \<Rightarrow> UserSubscription \<Rightarrow> bank \<Rightarrow> bank" where
  "save_subscription sid sub st = st\<lparr>db_subscriptions := update_where sid (\<lambda>_. sub) (db_subscriptions st)\<rparr>"

section \<open>Discounts\<close>

definition NormalizeSubscriptionBillingDiscount :: "rat \<Rightarrow> rat" where
  "NormalizeSubscriptionBillingDiscount discount =
     (if discount \<le> 0 then 1 else if 1 < discount then 1 else discount)"

definition GetTopupGroupRatio :: "sub_host \<Rightarrow> gostr \<Rightarrow> rat" where
  "GetTopupGroupRatio h name = (case topupGroupRatio h name of None \<Rightarrow> 1 | Some ratio \<Rightarrow> ratio)"

definition ResolveSubscriptionBillingDiscount :: "sub_host \<Rightarrow> gostr \<Rightarrow> rat \<Rightarrow> rat" where
  "ResolveSubscriptionBillingDiscount h discountGroup fallback =
     (if TrimSpace discountGroup \<noteq> [] then NormalizeSubscriptionBillingDiscount (GetTopupGroupRatio h (TrimSpace discountGroup))
      else NormalizeSubscriptionBillingDiscount fallback)"

definition getUserSubscriptionBillingDiscount :: "sub_host \<Rightarrow> UserSubscription \<Rightarrow> rat" where
  "getUserSubscriptionBillingDiscount h sub =
     ResolveSubscriptionBillingDiscount h (sb_BillingDiscountGroup sub) (sb_BillingDiscount sub)"

definition ApplySubscriptionBillingDiscount :: "sub_host \<Rightarrow> goint \<Rightarrow> rat \<Rightarrow> goint" where
  "ApplySubscriptionBillingDiscount h amount discount =
     (if amount = 0 then 0
      else
        let normalized = NormalizeSubscriptionBillingDiscount discount;
            sign = (if amount <s 0 then - 1 else 1);
            amount' = (if amount <s 0 then - amount else amount);
            applied = word_of_int (mul_round h (sint amount') normalized);
            applied' = (if applied \<le>s 0 then 1 else applied) in
        applied' * sign)"

section \<open>The reset of the used amount\<close>

abbreviation "SubscriptionResetNever \<equiv> js ''never''"
abbreviation "SubscriptionResetDaily \<equiv> js ''daily''"
abbreviation "SubscriptionResetWeekly \<equiv> js ''weekly''"
abbreviation "SubscriptionResetMonthly \<equiv> js ''monthly''"
abbreviation "SubscriptionResetCustom \<equiv> js ''custom''"

definition NormalizeResetPeriod :: "gostr \<Rightarrow> gostr" where
  "NormalizeResetPeriod period =
     (if List.member [SubscriptionResetDaily, SubscriptionResetWeekly, SubscriptionResetMonthly, SubscriptionResetCustom] (TrimSpace period)
      then TrimSpace period else SubscriptionResetNever)"

text \<open>The local day of a time, counted from 1970-01-01 (a Thursday), and the start of a local day.\<close>

definition local_day :: "sub_host \<Rightarrow> int \<Rightarrow> int" where
  "local_day h t = (t + zone_offset h) div 86400"

definition day_start :: "sub_host \<Rightarrow> int \<Rightarrow> int" where
  "day_start h d = d * 86400 - zone_offset h"

text \<open>Monday is 1 and Sunday 7.\<close>

definition week_day :: "int \<Rightarrow> int" where
  "week_day d = (let w = (d + 4) mod 7 in if w = 0 then 7 else w)"

definition next_month_day :: "int \<Rightarrow> int" where
  "next_month_day d =
     (case civil_from_days d of (y, m, _) \<Rightarrow>
        if m = 12 then days_from_civil (y + 1) 1 1 else days_from_civil y (m + 1) 1)"

text \<open>\<open>base.Add(time.Duration(s) * time.Second)\<close> in whole seconds: the product counts nanoseconds and
  wraps at 64 bits.\<close>

definition add_seconds :: "int \<Rightarrow> goint \<Rightarrow> int" where
  "add_seconds base s = base + sint (s * 1000000000) div 1000000000"

definition calcNextResetTime :: "sub_host \<Rightarrow> int \<Rightarrow> SubscriptionPlan \<Rightarrow> int \<Rightarrow> int" where
  "calcNextResetTime h base plan endUnix =
     (let period = NormalizeResetPeriod (pl_QuotaResetPeriod plan); d = local_day h base in
      if period = SubscriptionResetNever then 0
      else if period = SubscriptionResetCustom \<and> pl_QuotaResetCustomSeconds plan \<le>s 0 then 0
      else
        let next =
          (if period = SubscriptionResetDaily then day_start h (d + 1)
           else if period = SubscriptionResetWeekly then day_start h (d + (8 - week_day d))
           else if period = SubscriptionResetMonthly then day_start h (next_month_day d)
           else add_seconds base (pl_QuotaResetCustomSeconds plan)) in
        if 0 < endUnix \<and> endUnix < next then 0 else next)"

text \<open>The loop of the reset, from a base time and the next reset after it.\<close>

partial_function (option) reset_loop :: "sub_host \<Rightarrow> SubscriptionPlan \<Rightarrow> int \<Rightarrow> int \<Rightarrow> int \<Rightarrow> (int \<times> int) option" where
  "reset_loop h plan endUnix base next =
     (if 0 < next \<and> next \<le> now_unix h then reset_loop h plan endUnix next (calcNextResetTime h next plan endUnix)
      else Some (base, next))"

definition maybeResetUserSubscriptionWithPlanTx ::
  "sub_host \<Rightarrow> goint \<Rightarrow> UserSubscription \<Rightarrow> SubscriptionPlan \<Rightarrow> bank \<Rightarrow> (UserSubscription goresult \<times> bank) option" where
  "maybeResetUserSubscriptionWithPlanTx h sid sub plan st =
     (if 0 < sb_NextResetTime sub \<and> now_unix h < sb_NextResetTime sub then Some (Inr sub, st)
      else if NormalizeResetPeriod (pl_QuotaResetPeriod plan) = SubscriptionResetNever then Some (Inr sub, st)
      else
        let base = (if sb_LastResetTime sub \<le> 0 then sb_StartTime sub else sb_LastResetTime sub);
            next = calcNextResetTime h base plan (sb_EndTime sub) in
        if \<not> (0 < next \<and> next \<le> now_unix h) then
          (if sb_NextResetTime sub = 0 \<and> 0 < next then
             let sub' = sub\<lparr>sb_NextResetTime := next, sb_LastResetTime := base\<rparr> in
             Some (stmt (save_subscription sid sub') (\<lambda>st. (Inr sub', st)) st)
           else Some (Inr sub, st))
        else
          map_option (\<lambda>(base', next').
            let sub' = sub\<lparr>sb_AmountUsed := 0, sb_LastResetTime := base', sb_NextResetTime := next'\<rparr> in
            stmt (\<lambda>st. st) (stmt (save_subscription sid sub') (\<lambda>st. (Inr sub', st))) st)
            (reset_loop h plan (sb_EndTime sub) base next))"

section \<open>Consuming and refunding\<close>

text \<open>The body of \<open>postConsumeUserSubscriptionDeltaTx\<close>, run inside a transaction.\<close>

definition postConsumeUserSubscriptionDeltaTx :: "sub_host \<Rightarrow> goint \<Rightarrow> goint \<Rightarrow> bool \<Rightarrow> bank \<Rightarrow> goint goresult \<times> bank" where
  "postConsumeUserSubscriptionDeltaTx h sid delta applyDiscount st =
     (if sid \<le>s 0 then (Inl (js ''invalid userSubscriptionId''), st)
      else if delta = 0 then (Inr 0, st)
      else
        stmt (\<lambda>st. st) (\<lambda>st.
          case map_of (db_subscriptions st) sid of
            None \<Rightarrow> (Inl not_found, st)
          | Some sub \<Rightarrow>
              let appliedDelta =
                    (if applyDiscount then ApplySubscriptionBillingDiscount h delta (getUserSubscriptionBillingDiscount h sub) else delta);
                  sum = sb_AmountUsed sub + appliedDelta;
                  newUsed = (if sum <s 0 then 0 else sum) in
              if 0 <s sb_AmountTotal sub \<and> sb_AmountTotal sub <s newUsed then
                (Inl (js ''subscription used exceeds total, used='' @ dec (sint newUsed) @ js '' total='' @ dec (sint (sb_AmountTotal sub))), st)
              else stmt (save_subscription sid (sub\<lparr>sb_AmountUsed := newUsed\<rparr>)) (\<lambda>st. (Inr appliedDelta, st)) st) st)"

definition PostConsumeUserSubscriptionDelta :: "sub_host \<Rightarrow> goint \<Rightarrow> goint \<Rightarrow> bank \<Rightarrow> goint goresult \<times> bank" where
  "PostConsumeUserSubscriptionDelta h sid delta st =
     db_transaction (postConsumeUserSubscriptionDeltaTx h sid delta True) st"

definition save_record :: "gostr \<Rightarrow> SubscriptionPreConsumeRecord \<Rightarrow> bank \<Rightarrow> bank" where
  "save_record rid rec st = st\<lparr>db_pre_consume := map (\<lambda>(k, r). (k, if k = rid then rec else r)) (db_pre_consume st)\<rparr>"

definition refund_body :: "sub_host \<Rightarrow> gostr \<Rightarrow> bank \<Rightarrow> unit goresult \<times> bank" where
  "refund_body h requestId =
     stmt (\<lambda>st. st) (\<lambda>st.
       case map_of (db_pre_consume st) requestId of
         None \<Rightarrow> (Inl not_found, st)
       | Some rec \<Rightarrow>
           if pr_Status rec = js ''refunded'' then (Inr (), st)
           else if pr_PreConsumed rec \<le>s 0 then
             stmt (save_record requestId (rec\<lparr>pr_Status := js ''refunded''\<rparr>)) (\<lambda>st. (Inr (), st)) st
           else
             (case postConsumeUserSubscriptionDeltaTx h (pr_UserSubscriptionId rec) (- pr_PreConsumed rec) False st of
                (Inl err, st') \<Rightarrow> (Inl err, st')
              | (Inr _, st') \<Rightarrow> stmt (save_record requestId (rec\<lparr>pr_Status := js ''refunded''\<rparr>)) (\<lambda>st. (Inr (), st)) st'))"

definition RefundSubscriptionPreConsume :: "sub_host \<Rightarrow> gostr \<Rightarrow> bank \<Rightarrow> unit goresult \<times> bank" where
  "RefundSubscriptionPreConsume h requestId st =
     (if TrimSpace requestId = [] then (Inl (js ''requestId is empty''), st)
      else db_transaction (refund_body h requestId) st)"

record SubscriptionPreConsumeResult =
  rs_UserSubscriptionId :: goint
  rs_PreConsumed :: goint
  rs_BillingDiscount :: rat
  rs_AmountTotal :: goint
  rs_AmountUsedBefore :: goint
  rs_AmountUsedAfter :: goint

definition unlimitedSubscriptionGroups :: "gostr list" where
  "unlimitedSubscriptionGroups = [js ''unlimited_day'', js ''unlimited_week'', js ''unlimited_month'']"

definition eligible_subscription :: "goint \<Rightarrow> gostr \<Rightarrow> int \<Rightarrow> UserSubscription \<Rightarrow> bool" where
  "eligible_subscription userId userGroup now sub \<longleftrightarrow>
     sb_UserId sub = userId \<and> sb_Status sub = js ''active'' \<and> now < sb_EndTime sub \<and>
     (\<not> List.member unlimitedSubscriptionGroups (sb_UpgradeGroup sub) \<or> sb_UpgradeGroup sub = TrimSpace userGroup)"

definition eligible_candidates :: "goint \<Rightarrow> gostr \<Rightarrow> int \<Rightarrow> UserSubscription table \<Rightarrow> UserSubscription table" where
  "eligible_candidates userId userGroup now t =
     sort_key (\<lambda>(i, sub). (sb_EndTime sub, sint i)) (filter (\<lambda>(i, sub). eligible_subscription userId userGroup now sub) t)"

text \<open>A result that repeats an earlier pre-consumption of the same request.\<close>

definition repeated_result :: "sub_host \<Rightarrow> goint \<Rightarrow> UserSubscription \<Rightarrow> goint \<Rightarrow> SubscriptionPreConsumeResult" where
  "repeated_result h sid sub pre =
     \<lparr>rs_UserSubscriptionId = sid, rs_PreConsumed = pre, rs_BillingDiscount = getUserSubscriptionBillingDiscount h sub,
      rs_AmountTotal = sb_AmountTotal sub, rs_AmountUsedBefore = sb_AmountUsed sub, rs_AmountUsedAfter = sb_AmountUsed sub\<rparr>"

definition already_refunded :: gostr where
  "already_refunded = js ''subscription pre-consume already refunded''"

text \<open>The record is created and the amount added to the used one; a failing insertion looks for a record
  of the same request.\<close>

definition consume_candidate ::
  "sub_host \<Rightarrow> gostr \<Rightarrow> goint \<Rightarrow> goint \<Rightarrow> UserSubscription \<Rightarrow> goint \<Rightarrow> bank \<Rightarrow> SubscriptionPreConsumeResult goresult \<times> bank" where
  "consume_candidate h requestId userId sid sub discounted st =
     (let rec = \<lparr>pr_UserId = userId, pr_UserSubscriptionId = sid, pr_PreConsumed = discounted, pr_Status = js ''consumed''\<rparr> in
      case db_exec (\<lambda>st. st\<lparr>db_pre_consume := db_pre_consume st @ [(requestId, rec)]\<rparr>) st of
        (Some err, st1) \<Rightarrow>
          (case db_exec (\<lambda>st. st) st1 of
             (Some _, st2) \<Rightarrow> (Inl err, st2)
           | (None, st2) \<Rightarrow>
               (case map_of (db_pre_consume st2) requestId of
                  None \<Rightarrow> (Inl err, st2)
                | Some dup \<Rightarrow>
                    if pr_Status dup = js ''refunded'' then (Inl already_refunded, st2)
                    else (Inr (repeated_result h sid sub (pr_PreConsumed dup)), st2)))
      | (None, st1) \<Rightarrow>
          let sub' = sub\<lparr>sb_AmountUsed := sb_AmountUsed sub + discounted\<rparr> in
          stmt (save_subscription sid sub') (\<lambda>st.
            (Inr \<lparr>rs_UserSubscriptionId = sid, rs_PreConsumed = discounted,
                  rs_BillingDiscount = getUserSubscriptionBillingDiscount h sub', rs_AmountTotal = sb_AmountTotal sub',
                  rs_AmountUsedBefore = sb_AmountUsed sub, rs_AmountUsedAfter = sb_AmountUsed sub'\<rparr>, st)) st1)"

definition read_plan :: "goint \<Rightarrow> bank \<Rightarrow> SubscriptionPlan goresult \<times> bank" where
  "read_plan pid =
     (\<lambda>st. if pid \<le>s 0 then (Inl (js ''invalid plan id''), st)
      else stmt (\<lambda>st. st) (\<lambda>st. (case map_of (db_plans st) pid of None \<Rightarrow> Inl not_found | Some plan \<Rightarrow> Inr plan, st)) st)"

text \<open>The loop over the candidates: the first one with enough quota left is charged.\<close>

fun try_candidates ::
  "sub_host \<Rightarrow> gostr \<Rightarrow> goint \<Rightarrow> goint \<Rightarrow> UserSubscription table \<Rightarrow> bank \<Rightarrow> (SubscriptionPreConsumeResult goresult \<times> bank) option" where
  "try_candidates h requestId userId amount [] st =
     Some (Inl (js ''subscription quota insufficient, need='' @ dec (sint amount)), st)"
| "try_candidates h requestId userId amount ((sid, cand) # subs) st =
     (case read_plan (sb_PlanId cand) st of
        (Inl err, st1) \<Rightarrow> Some (Inl err, st1)
      | (Inr plan, st1) \<Rightarrow>
          (case maybeResetUserSubscriptionWithPlanTx h sid cand plan st1 of
             None \<Rightarrow> None
           | Some (Inl err, st2) \<Rightarrow> Some (Inl err, st2)
           | Some (Inr sub, st2) \<Rightarrow>
               let discounted = ApplySubscriptionBillingDiscount h amount (getUserSubscriptionBillingDiscount h sub) in
               if 0 <s sb_AmountTotal sub \<and> sb_AmountTotal sub - sb_AmountUsed sub <s discounted
               then try_candidates h requestId userId amount subs st2
               else Some (consume_candidate h requestId userId sid sub discounted st2)))"

definition pre_consume_body ::
  "sub_host \<Rightarrow> gostr \<Rightarrow> goint \<Rightarrow> goint \<Rightarrow> bank \<Rightarrow> (SubscriptionPreConsumeResult goresult \<times> bank) option" where
  "pre_consume_body h requestId userId amount st =
     (case db_exec (\<lambda>st. st) st of
        (Some err, st1) \<Rightarrow> Some (Inl err, st1)
      | (None, st1) \<Rightarrow>
          (case map_of (db_pre_consume st1) requestId of
             Some existing \<Rightarrow>
               if pr_Status existing = js ''refunded'' then Some (Inl already_refunded, st1)
               else
                 Some (stmt (\<lambda>st. st) (\<lambda>st.
                   case map_of (db_subscriptions st) (pr_UserSubscriptionId existing) of
                     None \<Rightarrow> (Inl not_found, st)
                   | Some sub \<Rightarrow> (Inr (repeated_result h (pr_UserSubscriptionId existing) sub (pr_PreConsumed existing)), st)) st1)
           | None \<Rightarrow>
               (case db_exec (\<lambda>st. st) st1 of
                  (Some err, st2) \<Rightarrow> Some (Inl err, st2)
                | (None, st2) \<Rightarrow>
                    (case db_exec (\<lambda>st. st) st2 of
                       (Some err, st3) \<Rightarrow> Some (Inl (js ''no active subscription''), st3)
                     | (None, st3) \<Rightarrow>
                         let subs = eligible_candidates userId (db_user_group st3 userId) (now_unix h) (db_subscriptions st3) in
                         if subs = [] then Some (Inl (js ''no active subscription''), st3)
                         else try_candidates h requestId userId amount subs st3))))"

definition PreConsumeUserSubscription ::
  "sub_host \<Rightarrow> gostr \<Rightarrow> goint \<Rightarrow> goint \<Rightarrow> bank \<Rightarrow> (SubscriptionPreConsumeResult goresult \<times> bank) option" where
  "PreConsumeUserSubscription h requestId userId amount st =
     (if userId \<le>s 0 then Some (Inl (js ''invalid userId''), st)
      else if TrimSpace requestId = [] then Some (Inl (js ''requestId is empty''), st)
      else if amount \<le>s 0 then Some (Inl (js ''amount must be > 0''), st)
      else map_option (\<lambda>r. db_transaction (\<lambda>_. r) st) (pre_consume_body h requestId userId amount st))"

definition HasActiveUserSubscription :: "sub_host \<Rightarrow> goint \<Rightarrow> bank \<Rightarrow> bool goresult \<times> bank" where
  "HasActiveUserSubscription h userId st =
     (if userId \<le>s 0 then (Inl (js ''invalid userId''), st)
      else
        stmt (\<lambda>st. st) (stmt (\<lambda>st. st) (\<lambda>st.
          (Inr (list_ex (\<lambda>(i, sub). eligible_subscription userId (db_user_group st userId) (now_unix h) sub) (db_subscriptions st)), st))) st)"

section \<open>The reset advances\<close>

definition sane_plan :: "SubscriptionPlan \<Rightarrow> bool" where
  "sane_plan plan \<longleftrightarrow>
     (NormalizeResetPeriod (pl_QuotaResetPeriod plan) = SubscriptionResetCustom \<longrightarrow> sint (pl_QuotaResetCustomSeconds plan) \<le> 9223372036)"

lemma day_start_after: "base < day_start h (local_day h base + 1)"
proof -
  let ?t = "base + zone_offset h"
  have "?t = 86400 * (?t div 86400) + ?t mod 86400" by simp
  moreover have "?t mod 86400 < 86400" by simp
  ultimately have "?t < 86400 * (?t div 86400) + 86400" by linarith
  then show ?thesis by (simp add: day_start_def local_day_def algebra_simps)
qed

lemma day_start_mono: "d \<le> e \<Longrightarrow> day_start h d \<le> day_start h e"
  by (simp add: day_start_def)

lemma week_day_le: "week_day d \<le> 7"
proof -
  have "(d + 4) mod 7 < 7" by simp
  then have "(d + 4) mod 7 \<le> 7" by (rule less_imp_le)
  then show ?thesis by (simp add: week_day_def Let_def)
qed

lemma next_month_after: "d < next_month_day d"
proof -
  obtain y m dd where c: "civil_from_days d = (y, m, dd)" by (metis prod_cases3)
  note i = civil_inverse [OF c]
  define k where "k = nat (m - 1)"
  have k: "m = int k + 1" "k \<le> 11" using i by (auto simp: k_def)
  have len: "k < length (month_lengths y)" using k by (simp add: month_lengths_def)
  have d: "d = days_from_civil y m dd" "dd \<le> month_lengths y ! k" using i by (auto simp: k_def)
  have first: "days_from_civil y m 1 + month_lengths y ! k =
      days_before_year y + sum_list (take (Suc k) (month_lengths y)) - 719162"
    using len by (simp add: days_from_civil_def k_def [symmetric] take_Suc_conv_app_nth)
  have "next_month_day d = days_from_civil y m 1 + month_lengths y ! k"
  proof (cases "m = 12")
    case True
    then have "k = 11" using k by simp
    moreover have "length (month_lengths y) = 12" by (simp add: month_lengths_def)
    ultimately have "days_from_civil y m 1 + month_lengths y ! k = days_before_year y + sum_list (month_lengths y) - 719162"
      using first by simp
    then show ?thesis
      using True by (simp add: next_month_day_def c days_from_civil_def days_before_next_year sum_month_lengths)
  next
    case False
    then show ?thesis using first k by (simp add: next_month_day_def c days_from_civil_def nat_add_distrib)
  qed
  then show ?thesis using d by (simp add: days_from_civil_def)
qed

lemma add_seconds_after:
  assumes "0 < sint s" "sint s \<le> 9223372036"
  shows "base < add_seconds base s"
proof -
  have "sint (s * 1000000000) = sint s * 1000000000"
    using sint_in_range [of "sint s * 1000000000"] assms by simp
  then show ?thesis using assms by (simp add: add_seconds_def)
qed

lemma next_reset_after:
  assumes "sane_plan plan"
  shows "calcNextResetTime h base plan e = 0 \<or> base < calcNextResetTime h base plan e"
proof -
  let ?d = "local_day h base"
  have "base < day_start h (?d + (8 - week_day ?d))"
    using day_start_after [of base h] day_start_mono [of "?d + 1" "?d + (8 - week_day ?d)" h] week_day_le [of ?d] by linarith
  moreover have "base < day_start h (next_month_day ?d)"
    using day_start_after [of base h] day_start_mono [of "?d + 1" "next_month_day ?d" h] next_month_after [of ?d] by linarith
  ultimately show ?thesis
    using assms day_start_after [of base h] add_seconds_after [of "pl_QuotaResetCustomSeconds plan" base]
    by (auto simp: calcNextResetTime_def Let_def sane_plan_def word_sle_eq NormalizeResetPeriod_def split: if_splits)
qed

lemma reset_loop_returns:
  assumes "sane_plan plan"
  shows "\<exists>b n. reset_loop h plan e base nxt = Some (b, n) \<and> (n \<le> 0 \<or> now_unix h < n)"
proof (induction "nat (now_unix h + 1 - nxt)" arbitrary: base nxt rule: less_induct)
  case less
  show ?case
  proof (cases "0 < nxt \<and> nxt \<le> now_unix h")
    case True
    let ?n = "calcNextResetTime h nxt plan e"
    have "\<exists>b n. reset_loop h plan e nxt ?n = Some (b, n) \<and> (n \<le> 0 \<or> now_unix h < n)"
      using next_reset_after [OF assms, of h nxt e]
    proof
      assume "?n = 0"
      then show ?thesis by (subst reset_loop.simps) simp
    next
      assume "nxt < ?n"
      then show ?thesis using True by (intro less) simp
    qed
    then show ?thesis using True by (subst reset_loop.simps) simp
  next
    case False
    then show ?thesis by (subst reset_loop.simps) auto
  qed
qed

section \<open>Returning\<close>

lemma maybe_reset_returns:
  assumes "sane_plan plan"
  shows "\<exists>r. maybeResetUserSubscriptionWithPlanTx h sid sub plan st = Some r"
proof -
  have "reset_loop h plan e base nx \<noteq> None" for e base nx
    using reset_loop_returns [OF assms, of h e base nx] by auto
  then have "maybeResetUserSubscriptionWithPlanTx h sid sub plan st \<noteq> None"
    by (simp add: maybeResetUserSubscriptionWithPlanTx_def Let_def del: not_None_eq)
  then show ?thesis by blast
qed

lemma db_exec_id: "\<exists>r fs. db_exec (\<lambda>st. st) st = (r, st\<lparr>db_faults := fs\<rparr>)"
proof (cases "db_faults st")
  case Nil
  then have "db_exec (\<lambda>st. st) st = (None, st\<lparr>db_faults := []\<rparr>)" by (simp add: db_exec_def)
  then show ?thesis by blast
next
  case (Cons b bs)
  then show ?thesis by (cases b) (auto simp: db_exec_def)
qed

definition sane_plans :: "bank \<Rightarrow> bool" where
  "sane_plans st \<longleftrightarrow> (\<forall>(i, plan)\<in>set (db_plans st). sane_plan plan)"

lemma read_plan_sane:
  assumes "sane_plans st" "read_plan pid st = (Inr plan, st')"
  shows "sane_plan plan" "sane_plans st'"
proof -
  obtain r fs where e: "db_exec (\<lambda>st. st) st = (r, st\<lparr>db_faults := fs\<rparr>)" using db_exec_id by blast
  have "map_of (db_plans st) pid = Some plan \<and> st' = st\<lparr>db_faults := fs\<rparr>"
    using assms(2) by (auto simp: read_plan_def stmt_def e split: if_splits option.splits)
  then show "sane_plan plan" "sane_plans st'"
    using assms(1) by (auto simp: sane_plans_def dest: map_of_SomeD)
qed

lemma db_exec_plans: "db_exec f st = (r, st') \<Longrightarrow> (\<And>st. db_plans (f st) = db_plans st) \<Longrightarrow> db_plans st' = db_plans st"
  by (auto simp: db_exec_def split: list.splits if_splits)

lemma maybe_reset_plans:
  "maybeResetUserSubscriptionWithPlanTx h sid sub plan st = Some (r, st') \<Longrightarrow> db_plans st' = db_plans st"
  by (auto simp: maybeResetUserSubscriptionWithPlanTx_def Let_def stmt_def save_subscription_def split: if_splits option.splits prod.splits
      dest!: db_exec_plans)

lemma try_candidates_returns:
  "sane_plans st \<Longrightarrow> \<exists>r. try_candidates h requestId userId amount subs st = Some r"
proof (induction subs arbitrary: st)
  case (Cons c subs)
  obtain sid cand where c: "c = (sid, cand)" by (cases c)
  obtain pr st1 where p: "read_plan (sb_PlanId cand) st = (pr, st1)" by fastforce
  show ?case
  proof (cases pr)
    case (Inr plan)
    note s = read_plan_sane [OF Cons.prems p [unfolded Inr]]
    obtain rr st2 where m: "maybeResetUserSubscriptionWithPlanTx h sid cand plan st1 = Some (rr, st2)"
      using maybe_reset_returns [OF s(1)] by fastforce
    have "sane_plans st2" using s(2) maybe_reset_plans [OF m] by (simp add: sane_plans_def)
    then show ?thesis using Cons.IH [of st2] by (auto simp: c p Inr m Let_def split: sum.split)
  qed (simp add: c p)
qed simp


text \<open>C39. A custom period of 18446744074 seconds wraps to less than a second: the reset does not advance, and its loop
  never returns.\<close>

theorem reset_stuck:
  assumes "0 < nx" "nx \<le> now_unix h" "e \<le> 0 \<or> nx \<le> e"
    and plan: "plan = \<lparr>pl_QuotaResetPeriod = SubscriptionResetCustom, pl_QuotaResetCustomSeconds = 18446744074\<rparr>"
  shows "reset_loop h plan e base nx = None"
proof -
  have s: "sint (18446744074 * 1000000000 :: goint) div 1000000000 = 0" by code_simp
  have c: "calcNextResetTime h nx plan e = nx"
  proof -
    have "NormalizeResetPeriod SubscriptionResetCustom = SubscriptionResetCustom" by code_simp
    moreover have "\<not> (18446744074 :: goint) \<le>s 0" by code_simp
    moreover have "SubscriptionResetCustom \<noteq> SubscriptionResetNever" "SubscriptionResetCustom \<noteq> SubscriptionResetDaily"
      "SubscriptionResetCustom \<noteq> SubscriptionResetWeekly" "SubscriptionResetCustom \<noteq> SubscriptionResetMonthly" by code_simp+
    ultimately show ?thesis using assms(3) s by (auto simp: plan calcNextResetTime_def Let_def add_seconds_def simp del: js_Cons)
  qed
  have "\<not> (p = plan \<and> e' = e \<and> n = nx \<and> h' = h)" if r: "reset_loop h' p e' b n = Some y" for h' p e' b n y
  proof (rule reset_loop.raw_induct [where P = "\<lambda>h' p e' b n y. \<not> (p = plan \<and> e' = e \<and> n = nx \<and> h' = h)", OF _ r])
    fix f h' p e' b n y
    assume IH: "\<And>h' p e' b n y. f h' p e' b n = Some y \<Longrightarrow> \<not> (p = plan \<and> e' = e \<and> n = nx \<and> h' = h)"
      and eq: "(if 0 < n \<and> n \<le> now_unix h' then f h' p e' n (calcNextResetTime h' n p e') else Some (b, n)) = Some y"
    show "\<not> (p = plan \<and> e' = e \<and> n = nx \<and> h' = h)"
    proof
      assume "p = plan \<and> e' = e \<and> n = nx \<and> h' = h"
      then have "f h plan e nx nx = Some y" using eq c assms(1,2) by simp
      then show False using IH by blast
    qed
  qed
  then show ?thesis by (metis not_None_eq)
qed

section \<open>Without database errors\<close>

lemma stmt_clean: "db_faults st = [] \<Longrightarrow> stmt f k st = k (f st)"
  by (simp add: stmt_def db_exec_clean)

lemma save_subscription_simps [simp]:
  "db_faults (save_subscription sid sub st) = db_faults st" "db_pre_consume (save_subscription sid sub st) = db_pre_consume st"
  "map_of (db_subscriptions (save_subscription sid sub st)) j =
     (if j = sid then map_option (\<lambda>_. sub) (map_of (db_subscriptions st) j) else map_of (db_subscriptions st) j)"
  "db_plans (save_subscription sid sub st) = db_plans st" "db_user_group (save_subscription sid sub st) = db_user_group st"
  by (simp_all add: save_subscription_def map_of_update_where)

lemma clean_reset:
  assumes "db_faults st = []" "map_of (db_subscriptions st) sid = Some cand"
    and "maybeResetUserSubscriptionWithPlanTx h sid cand plan st = Some (Inr sub, st')"
  shows "db_faults st' = [] \<and> db_pre_consume st' = db_pre_consume st \<and> map_of (db_subscriptions st') sid = Some sub \<and>
    (\<forall>j. j \<noteq> sid \<longrightarrow> map_of (db_subscriptions st') j = map_of (db_subscriptions st) j) \<and>
    (sb_AmountUsed sub = 0 \<or> sb_AmountUsed sub = sb_AmountUsed cand) \<and> sb_AmountTotal sub = sb_AmountTotal cand"
  using assms by (auto simp: maybeResetUserSubscriptionWithPlanTx_def Let_def stmt_clean split: if_splits)

lemma discount_positive: "0 <s amount \<Longrightarrow> 0 <s ApplySubscriptionBillingDiscount h amount d"
  by (auto simp: ApplySubscriptionBillingDiscount_def Let_def word_sless_alt word_sle_eq)

text \<open>What a successful pre-consumption did.\<close>

definition charged :: "gostr \<Rightarrow> SubscriptionPreConsumeResult \<Rightarrow> bank \<Rightarrow> bool" where
  "charged requestId res st \<longleftrightarrow>
     db_faults st = [] \<and>
     (\<exists>rec. map_of (db_pre_consume st) requestId = Some rec \<and> pr_UserSubscriptionId rec = rs_UserSubscriptionId res \<and>
        pr_PreConsumed rec = rs_PreConsumed res \<and> pr_Status rec = js ''consumed'') \<and>
     (\<exists>sub. map_of (db_subscriptions st) (rs_UserSubscriptionId res) = Some sub \<and>
        sb_AmountUsed sub = rs_AmountUsedBefore res + rs_PreConsumed res \<and>
        (sb_AmountTotal sub \<le>s 0 \<or> rs_AmountUsedBefore res \<le>s sb_AmountTotal sub)) \<and>
     0 \<le>s rs_AmountUsedBefore res \<and> 0 <s rs_PreConsumed res \<and> 0 <s rs_UserSubscriptionId res"

lemma room_left:
  fixes total used :: goint
  assumes "0 <s total" "0 \<le>s used" "\<not> total - used <s disc" "0 <s disc"
  shows "used \<le>s total"
proof -
  have "sint (total - used) = sint total - sint used"
    using assms(1,2) sint_bounds [of total] sint_bounds [of used] by (intro sint_diff) (auto simp: word_sless_alt word_sle_eq)
  then show ?thesis using assms by (simp add: word_sless_alt word_sle_eq)
qed

lemma candidate_charged:
  assumes "db_faults st = []" "map_of (db_pre_consume st) requestId = None" "0 <s disc" "0 \<le>s sb_AmountUsed sub" "0 <s sid"
    and "map_of (db_subscriptions st) sid = Some sub" "consume_candidate h requestId userId sid sub disc st = (Inr res, st')"
    and "\<not> (0 <s sb_AmountTotal sub \<and> sb_AmountTotal sub - sb_AmountUsed sub <s disc)"
  shows "charged requestId res st'"
proof -
  have "sb_AmountTotal sub \<le>s 0 \<or> sb_AmountUsed sub \<le>s sb_AmountTotal sub"
    using assms(3,4,8) room_left [of "sb_AmountTotal sub" "sb_AmountUsed sub" disc]
    by (cases "0 <s sb_AmountTotal sub") (simp_all add: word_sless_alt word_sle_eq)
  moreover have "map_of (db_pre_consume st @ [(requestId, r)]) requestId = Some r" for r
    using assms(2) by (simp add: map_add_def)
  ultimately show ?thesis
    using assms by (auto simp: consume_candidate_def Let_def db_exec_clean stmt_clean charged_def)
qed

lemma candidates_charged:
  "db_faults st = [] \<Longrightarrow> map_of (db_pre_consume st) requestId = None \<Longrightarrow> 0 <s amount \<Longrightarrow>
   distinct (map fst subs) \<Longrightarrow> (\<And>sid sub. (sid, sub) \<in> set subs \<Longrightarrow> map_of (db_subscriptions st) sid = Some sub \<and> 0 \<le>s sb_AmountUsed sub \<and> 0 <s sid) \<Longrightarrow>
   try_candidates h requestId userId amount subs st = Some (Inr res, st') \<Longrightarrow> charged requestId res st'"
proof (induction subs arbitrary: st)
  case (Cons c subs)
  obtain sid cand where c: "c = (sid, cand)" by (cases c)
  have row: "map_of (db_subscriptions st) sid = Some cand" "0 \<le>s sb_AmountUsed cand" "0 <s sid" using Cons.prems(5) c by auto
  have rp: "snd (read_plan (sb_PlanId cand) st) = st" using Cons.prems(1) by (simp add: read_plan_def stmt_clean)
  then obtain plan sub st2 where plan: "read_plan (sb_PlanId cand) st = (Inr plan, st)"
    and reset: "maybeResetUserSubscriptionWithPlanTx h sid cand plan st = Some (Inr sub, st2)"
    using Cons.prems(6) by (cases "read_plan (sb_PlanId cand) st")
      (auto simp: c split: sum.splits option.splits)
  note r = clean_reset [OF Cons.prems(1) row(1) reset]
  let ?d = "ApplySubscriptionBillingDiscount h amount (getUserSubscriptionBillingDiscount h sub)"
  have used: "0 \<le>s sb_AmountUsed sub" using r row(2) by (auto simp: word_sle_eq)
  show ?case
  proof (cases "0 <s sb_AmountTotal sub \<and> sb_AmountTotal sub - sb_AmountUsed sub <s ?d")
    case True
    then have "try_candidates h requestId userId amount subs st2 = Some (Inr res, st')"
      using Cons.prems(6) plan reset by (simp add: c Let_def)
    moreover have "map_of (db_subscriptions st2) i = Some x \<and> 0 \<le>s sb_AmountUsed x \<and> 0 <s i" if ix: "(i, x) \<in> set subs" for i x
    proof -
      have "i \<noteq> sid" using ix Cons.prems(4) by (auto simp: c image_iff)
      then show ?thesis using r Cons.prems(5) [of i x] ix by simp
    qed
    ultimately show ?thesis using Cons.IH [of st2] Cons.prems r by simp
  next
    case False
    have "try_candidates h requestId userId amount (c # subs) st = Some (consume_candidate h requestId userId sid sub ?d st2)"
      by (simp only: c try_candidates.simps plan reset prod.case sum.case option.case Let_def if_not_P [OF False])
    then have "consume_candidate h requestId userId sid sub ?d st2 = (Inr res, st')" using Cons.prems(6) by simp
    then show ?thesis
      using candidate_charged [of st2 requestId ?d sub sid h userId res st'] r used row(3) Cons.prems(2,3) discount_positive False
      by simp
  qed
qed simp

lemma map_of_save_record:
  "map_of (db_pre_consume (save_record rid rec st)) k =
     (if k = rid then map_option (\<lambda>_. rec) (map_of (db_pre_consume st) k) else map_of (db_pre_consume st) k)"
proof -
  have "map_of (map (\<lambda>(k, r). (k, if k = rid then rec else r)) ps) k =
      (if k = rid then map_option (\<lambda>_. rec) (map_of ps k) else map_of ps k)" for ps :: "(gostr \<times> SubscriptionPreConsumeRecord) list"
    by (induction ps) auto
  then show ?thesis by (simp add: save_record_def)
qed

lemma save_record_simps [simp]:
  "db_faults (save_record rid rec st) = db_faults st" "db_subscriptions (save_record rid rec st) = db_subscriptions st"
  by (simp_all add: save_record_def)

lemma charged_refund:
  assumes "charged requestId res st1" "TrimSpace requestId \<noteq> []"
  obtains st2 sub2 where "RefundSubscriptionPreConsume h requestId st1 = (Inr (), st2)"
    "map_of (db_subscriptions st2) (rs_UserSubscriptionId res) = Some sub2" "sb_AmountUsed sub2 = rs_AmountUsedBefore res"
    "RefundSubscriptionPreConsume h requestId st2 = (Inr (), st2)"
proof -
  obtain rec sub where rec: "map_of (db_pre_consume st1) requestId = Some rec" "pr_UserSubscriptionId rec = rs_UserSubscriptionId res"
      "pr_PreConsumed rec = rs_PreConsumed res" "pr_Status rec = js ''consumed''"
    and sub: "map_of (db_subscriptions st1) (rs_UserSubscriptionId res) = Some sub"
      "sb_AmountUsed sub = rs_AmountUsedBefore res + rs_PreConsumed res"
      "sb_AmountTotal sub \<le>s 0 \<or> rs_AmountUsedBefore res \<le>s sb_AmountTotal sub"
    and pos: "0 \<le>s rs_AmountUsedBefore res" "0 <s rs_PreConsumed res" "0 <s rs_UserSubscriptionId res" and clean: "db_faults st1 = []"
    using assms(1) unfolding charged_def by blast
  let ?sub = "sub\<lparr>sb_AmountUsed := rs_AmountUsedBefore res\<rparr>"
  let ?mid = "save_subscription (rs_UserSubscriptionId res) ?sub st1"
  let ?after = "save_record requestId (rec\<lparr>pr_Status := js ''refunded''\<rparr>) ?mid"
  have ok: "\<not> rs_UserSubscriptionId res \<le>s 0" "- rs_PreConsumed res \<noteq> 0" "\<not> rs_AmountUsedBefore res <s 0"
    "\<not> (0 <s sb_AmountTotal sub \<and> sb_AmountTotal sub <s rs_AmountUsedBefore res)" "\<not> rs_PreConsumed res \<le>s 0"
    using pos sub(3) by (auto simp: word_sless_alt word_sle_eq)
  have post: "postConsumeUserSubscriptionDeltaTx h (rs_UserSubscriptionId res) (- rs_PreConsumed res) False st1 = (Inr (- rs_PreConsumed res), ?mid)"
    using ok clean sub(1,2) by (simp add: postConsumeUserSubscriptionDeltaTx_def stmt_clean Let_def)
  have "js ''consumed'' \<noteq> js ''refunded''" by code_simp
  then have "RefundSubscriptionPreConsume h requestId st1 = (Inr (), ?after)"
    using assms(2) rec post ok(5) clean
    by (simp add: RefundSubscriptionPreConsume_def db_transaction_def refund_body_def stmt_clean del: js_Cons)
  moreover have "RefundSubscriptionPreConsume h requestId ?after = (Inr (), ?after)"
    using assms(2) rec(1) clean
    by (simp add: RefundSubscriptionPreConsume_def db_transaction_def refund_body_def stmt_clean map_of_save_record del: js_Cons)
  ultimately show ?thesis using that [of ?after ?sub] sub(1) by simp
qed


definition sample_bank :: bank where
  "sample_bank = ledger.extend sample_ledger
     (bank.fields
        [(3, \<lparr>sb_UserId = 1, sb_PlanId = 2, sb_AmountTotal = 100, sb_AmountUsed = 40, sb_BillingDiscount = 1/2, sb_BillingDiscountGroup = [],
              sb_StartTime = 0, sb_EndTime = 9000, sb_Status = js ''active'', sb_LastResetTime = 0, sb_NextResetTime = 0,
              sb_UpgradeGroup = []\<rparr>)]
        [(2, \<lparr>pl_QuotaResetPeriod = [], pl_QuotaResetCustomSeconds = 0\<rparr>)] [] (\<lambda>_. []))"

definition sample_host :: sub_host where
  "sample_host = \<lparr>mul_round = (\<lambda>n q. round (rat_of_int n * q)), topupGroupRatio = Map.empty, zone_offset = 0, now_unix = 5000\<rparr>"

lemma sample_pre_consume:
  obtains res st1 where "PreConsumeUserSubscription sample_host (js ''r'') 1 50 sample_bank = Some (Inr res, st1)"
    "rs_UserSubscriptionId res = 3" "rs_PreConsumed res = 25" "rs_AmountUsedBefore res = 40"
proof -
  let ?p = "PreConsumeUserSubscription sample_host (js ''r'') 1 50 sample_bank"
  have "map_option (\<lambda>r. map_sum (\<lambda>e. e) (\<lambda>x. (rs_UserSubscriptionId x, rs_PreConsumed x, rs_AmountUsedBefore x)) (fst r)) ?p =
      Some (Inr (3, 25, 40))"
    by code_simp
  then show thesis using that by (cases ?p; cases "fst (the ?p)") (auto simp: prod_eq_iff)
qed



theorem reset_stuck_witness:
  "reset_loop sample_host \<lparr>pl_QuotaResetPeriod = SubscriptionResetCustom, pl_QuotaResetCustomSeconds = 18446744074\<rparr> 0 1000 2000 = None"
  by (rule reset_stuck) (simp_all add: sample_host_def)

end
