(* ===== verification/Server_Billing.thy ===== *)
theory Server_Billing
  imports Server_Subscription
begin

text \<open>The billing session of a relayed request: \<open>service/billing_session.go\<close>, \<open>service/funding_source.go\<close>,
  \<open>service/billing.go\<close>, and \<open>PreConsumeTokenQuota\<close> and \<open>PostConsumeQuota\<close> of \<open>service/quota.go\<close>.  A session takes a
  quota before the request is sent, may take more for a later attempt, and ends by settling the real quota or by giving all back.
  Every method holds the mutex of the session, so a run is a sequence of calls; the goroutine of \<open>Refund\<close> is a task that runs
  at any later step.  The texts of errors are kept up to their formatted amounts, an API error keeps its code and status, and the
  plan's id and title, which are read for the log only, are left out, as is the notification of a low quota.  The methods that
  may reach the reset loop of a subscription return \<open>None\<close> when that loop does not return.\<close>

section \<open>Data\<close>

datatype ErrorCode =
    ErrorCodeInvalidRequest
  | ErrorCodeQueryDataError
  | ErrorCodeUpdateDataError
  | ErrorCodeInsufficientUserQuota
  | ErrorCodePreConsumeTokenQuotaFailed

record NewAPIError =
  ae_errorCode :: ErrorCode
  ae_StatusCode :: nat
  ae_skipRetry :: bool
  ae_recordErrorLog :: bool

definition NewError_skip :: "ErrorCode \<Rightarrow> NewAPIError" where
  "NewError_skip code = \<lparr>ae_errorCode = code, ae_StatusCode = 500, ae_skipRetry = True, ae_recordErrorLog = True\<rparr>"

definition NewError_forbidden :: "ErrorCode \<Rightarrow> NewAPIError" where
  "NewError_forbidden code = \<lparr>ae_errorCode = code, ae_StatusCode = 403, ae_skipRetry = True, ae_recordErrorLog = False\<rparr>"

record RelayInfo =
  ri_TokenId :: goint
  ri_TokenKey :: gostr
  ri_UserId :: goint
  ri_TokenUnlimited :: bool
  ri_IsPlayground :: bool
  ri_BillingPreference :: gostr
  ri_UserQuota :: goint
  ri_FinalPreConsumedQuota :: goint
  ri_ForcePreConsume :: bool
  ri_BillingSource :: gostr
  ri_SubscriptionId :: goint
  ri_SubscriptionPreConsumed :: goint
  ri_SubscriptionPostDelta :: goint
  ri_SubscriptionBillingDiscount :: rat
  ri_RequestId :: gostr
  ri_SubscriptionAmountTotal :: goint
  ri_SubscriptionAmountUsedAfterPreConsume :: goint

record WalletFunding =
  wf_userId :: goint
  wf_consumed :: goint

record SubscriptionFunding =
  sf_requestId :: gostr
  sf_userId :: goint
  sf_amount :: goint
  sf_subscriptionId :: goint
  sf_preConsumed :: goint
  sf_AmountTotal :: goint
  sf_AmountUsedAfter :: goint
  sf_BillingDiscount :: rat
  sf_lastDelta :: goint

datatype FundingSource = Wallet WalletFunding | Subscription SubscriptionFunding

record BillingSession =
  relayInfo :: RelayInfo
  funding :: FundingSource
  preConsumedQuota :: goint
  tokenConsumed :: goint
  extraReserved :: goint
  extraReservedSub :: goint
  trusted :: bool
  fundingSettled :: bool
  settled :: bool
  refunded :: bool

text \<open>What the methods read outside the session and the database: the host of the subscriptions, the price of a unit and the
  token's quota in the request's context.\<close>

record billing_host =
  subscriptions :: sub_host
  QuotaPerUnit :: rat
  token_quota :: goint

abbreviation "BillingSourceWallet \<equiv> js ''wallet''"
abbreviation "BillingSourceSubscription \<equiv> js ''subscription''"

section \<open>Sources of funds\<close>

text \<open>Running an operation of the ledger on the bank is the operation itself: a bank is a ledger.\<close>

definition wallet_PreConsume :: "goint \<Rightarrow> WalletFunding \<Rightarrow> bank \<Rightarrow> gostr option \<times> WalletFunding \<times> bank" where
  "wallet_PreConsume amount w st =
     (if amount \<le>s 0 then (None, w, st)
      else
        (case DecreaseUserQuota (wf_userId w) amount False st of
           (Some err, st') \<Rightarrow> (Some err, w, st')
         | (None, st') \<Rightarrow> (None, w\<lparr>wf_consumed := amount\<rparr>, st')))"

definition wallet_Settle :: "goint \<Rightarrow> WalletFunding \<Rightarrow> bank \<Rightarrow> gostr option \<times> bank" where
  "wallet_Settle delta w st =
     (if delta = 0 then (None, st)
      else if 0 <s delta then DecreaseUserQuota (wf_userId w) delta False st
      else IncreaseUserQuota (wf_userId w) (- delta) False st)"

definition wallet_Refund :: "WalletFunding \<Rightarrow> bank \<Rightarrow> gostr option \<times> bank" where
  "wallet_Refund w st = (if wf_consumed w \<le>s 0 then (None, st) else IncreaseUserQuota (wf_userId w) (wf_consumed w) False st)"

definition subscription_PreConsume ::
  "sub_host \<Rightarrow> SubscriptionFunding \<Rightarrow> bank \<Rightarrow> (gostr option \<times> SubscriptionFunding \<times> bank) option" where
  "subscription_PreConsume h s st =
     map_option (\<lambda>(r, st').
       case r of
         Inl err \<Rightarrow> (Some err, s, st')
       | Inr res \<Rightarrow>
           (None, s\<lparr>sf_subscriptionId := rs_UserSubscriptionId res, sf_preConsumed := rs_PreConsumed res,
                    sf_BillingDiscount := rs_BillingDiscount res, sf_AmountTotal := rs_AmountTotal res,
                    sf_AmountUsedAfter := rs_AmountUsedAfter res\<rparr>, st'))
       (PreConsumeUserSubscription h (sf_requestId s) (sf_userId s) (sf_amount s) st)"

definition subscription_Settle ::
  "sub_host \<Rightarrow> goint \<Rightarrow> SubscriptionFunding \<Rightarrow> bank \<Rightarrow> gostr option \<times> SubscriptionFunding \<times> bank" where
  "subscription_Settle h delta s st =
     (if delta = 0 then (None, s, st)
      else
        (case PostConsumeUserSubscriptionDelta h (sf_subscriptionId s) delta st of
           (Inl err, st') \<Rightarrow> (Some err, s, st')
         | (Inr appliedDelta, st') \<Rightarrow> (None, s\<lparr>sf_lastDelta := appliedDelta\<rparr>, st')))"

text \<open>At most three attempts; the first that succeeds ends the loop.\<close>

fun refund_attempts :: "('s \<Rightarrow> unit goresult \<times> 's) \<Rightarrow> nat \<Rightarrow> gostr option \<Rightarrow> 's \<Rightarrow> gostr option \<times> 's" where
  "refund_attempts fn 0 lastErr st = (lastErr, st)"
| "refund_attempts fn (Suc n) lastErr st =
     (case fn st of
        (Inr _, st') \<Rightarrow> (None, st')
      | (Inl err, st') \<Rightarrow> refund_attempts fn n (Some err) st')"

definition refundWithRetry :: "('s \<Rightarrow> unit goresult \<times> 's) \<Rightarrow> 's \<Rightarrow> gostr option \<times> 's" where
  "refundWithRetry fn = refund_attempts fn 3 None"

definition subscription_Refund :: "sub_host \<Rightarrow> SubscriptionFunding \<Rightarrow> bank \<Rightarrow> gostr option \<times> bank" where
  "subscription_Refund h s st =
     (if sf_preConsumed s \<le>s 0 then (None, st)
      else refundWithRetry (RefundSubscriptionPreConsume h (sf_requestId s)) st)"

fun Source :: "FundingSource \<Rightarrow> gostr" where
  "Source (Wallet w) = BillingSourceWallet"
| "Source (Subscription s) = BillingSourceSubscription"

fun funding_PreConsume ::
  "sub_host \<Rightarrow> goint \<Rightarrow> FundingSource \<Rightarrow> bank \<Rightarrow> (gostr option \<times> FundingSource \<times> bank) option" where
  "funding_PreConsume h amount (Wallet w) st = Some (case wallet_PreConsume amount w st of (r, w', st') \<Rightarrow> (r, Wallet w', st'))"
| "funding_PreConsume h amount (Subscription s) st =
     map_option (\<lambda>(r, s', st'). (r, Subscription s', st')) (subscription_PreConsume h s st)"

fun funding_Settle :: "sub_host \<Rightarrow> goint \<Rightarrow> FundingSource \<Rightarrow> bank \<Rightarrow> gostr option \<times> FundingSource \<times> bank" where
  "funding_Settle h delta (Wallet w) st = (case wallet_Settle delta w st of (r, st') \<Rightarrow> (r, Wallet w, st'))"
| "funding_Settle h delta (Subscription s) st =
     (case subscription_Settle h delta s st of (r, s', st') \<Rightarrow> (r, Subscription s', st'))"

fun funding_Refund :: "sub_host \<Rightarrow> FundingSource \<Rightarrow> bank \<Rightarrow> gostr option \<times> bank" where
  "funding_Refund h (Wallet w) st = wallet_Refund w st"
| "funding_Refund h (Subscription s) st = subscription_Refund h s st"

section \<open>The token\<close>

definition PreConsumeTokenQuota :: "RelayInfo \<Rightarrow> goint \<Rightarrow> bank \<Rightarrow> gostr option \<times> bank" where
  "PreConsumeTokenQuota info quota st =
     (if quota <s 0 then (Some negative_quota_error, st)
      else if ri_IsPlayground info then (None, st)
      else
        (case GetTokenByKey (ri_TokenKey info) st of
           (Inl err, st') \<Rightarrow> (Some err, st')
         | (Inr remain, st') \<Rightarrow>
             if \<not> ri_TokenUnlimited info \<and> remain <s quota then (Some (js ''token quota is not enough''), st')
             else DecreaseTokenQuota (ri_TokenId info) quota st'))"

text \<open>A signed difference on the token, as \<open>Settle\<close> and \<open>PostConsumeQuota\<close> apply it.\<close>

definition adjust_token :: "RelayInfo \<Rightarrow> goint \<Rightarrow> bank \<Rightarrow> gostr option \<times> bank" where
  "adjust_token info delta st =
     (if ri_IsPlayground info then (None, st)
      else if 0 <s delta then DecreaseTokenQuota (ri_TokenId info) delta st
      else IncreaseTokenQuota (ri_TokenId info) (- delta) st)"

section \<open>The session\<close>

definition needsRefundLocked :: "BillingSession \<Rightarrow> bool" where
  "needsRefundLocked s =
     (if settled s \<or> refunded s \<or> fundingSettled s then False
      else if 0 <s tokenConsumed s then True
      else (case funding s of Subscription sub \<Rightarrow> 0 <s sf_preConsumed sub | Wallet _ \<Rightarrow> False))"

definition add_post_delta :: "BillingSession \<Rightarrow> BillingSession" where
  "add_post_delta s =
     (case funding s of
        Subscription sub \<Rightarrow>
          s\<lparr>relayInfo := (relayInfo s)\<lparr>ri_SubscriptionPostDelta := ri_SubscriptionPostDelta (relayInfo s) + sf_lastDelta sub\<rparr>\<rparr>
      | Wallet _ \<Rightarrow> s)"

definition Settle :: "sub_host \<Rightarrow> goint \<Rightarrow> BillingSession \<Rightarrow> bank \<Rightarrow> gostr option \<times> BillingSession \<times> bank" where
  "Settle h actualQuota s st =
     (if settled s then (None, s, st)
      else
        let delta = actualQuota - preConsumedQuota s in
        if delta = 0 then (None, s\<lparr>settled := True\<rparr>, st)
        else
          (case (if fundingSettled s then (None, funding s, st) else funding_Settle h delta (funding s) st) of
             (Some err, _, st1) \<Rightarrow> (Some err, s, st1)
           | (None, f, st1) \<Rightarrow>
               (case adjust_token (relayInfo s) delta st1 of
                  (tokenErr, st2) \<Rightarrow>
                    (tokenErr, (add_post_delta (s\<lparr>funding := f, fundingSettled := True\<rparr>))\<lparr>settled := True\<rparr>, st2))))"

text \<open>The values copied for the goroutine of a refund; the source of funds is shared with the session.\<close>

record refund_task =
  rt_tokenId :: goint
  rt_isPlayground :: bool
  rt_tokenConsumed :: goint
  rt_extraReserved :: goint
  rt_subscriptionId :: goint

definition Refund :: "BillingSession \<Rightarrow> refund_task option \<times> BillingSession" where
  "Refund s =
     (if settled s \<or> refunded s \<or> \<not> needsRefundLocked s then (None, s)
      else
        (Some \<lparr>rt_tokenId = ri_TokenId (relayInfo s), rt_isPlayground = ri_IsPlayground (relayInfo s),
               rt_tokenConsumed = tokenConsumed s, rt_extraReserved = extraReserved s,
               rt_subscriptionId = ri_SubscriptionId (relayInfo s)\<rparr>,
         s\<lparr>refunded := True\<rparr>))"

definition run_refund :: "sub_host \<Rightarrow> refund_task \<Rightarrow> FundingSource \<Rightarrow> bank \<Rightarrow> bank" where
  "run_refund h t f st =
     (let st1 = snd (funding_Refund h f st);
          st2 = (if 0 <s rt_extraReserved t \<and> Source f = BillingSourceSubscription \<and> 0 <s rt_subscriptionId t
                 then snd (PostConsumeUserSubscriptionDelta h (rt_subscriptionId t) (- rt_extraReserved t) st1) else st1) in
      if 0 <s rt_tokenConsumed t \<and> \<not> rt_isPlayground t then snd (IncreaseTokenQuota (rt_tokenId t) (rt_tokenConsumed t) st2)
      else st2)"

definition syncRelayInfo :: "BillingSession \<Rightarrow> BillingSession" where
  "syncRelayInfo s =
     (let info = (relayInfo s)\<lparr>ri_FinalPreConsumedQuota := preConsumedQuota s, ri_BillingSource := Source (funding s)\<rparr> in
      s\<lparr>relayInfo :=
        (case funding s of
           Subscription sub \<Rightarrow>
             info\<lparr>ri_SubscriptionId := sf_subscriptionId sub, ri_SubscriptionPreConsumed := sf_preConsumed sub + extraReservedSub s,
                  ri_SubscriptionPostDelta := 0, ri_SubscriptionAmountTotal := sf_AmountTotal sub,
                  ri_SubscriptionAmountUsedAfterPreConsume := sf_AmountUsedAfter sub + extraReservedSub s,
                  ri_SubscriptionBillingDiscount := sf_BillingDiscount sub\<rparr>
         | Wallet _ \<Rightarrow>
             info\<lparr>ri_SubscriptionId := 0, ri_SubscriptionPreConsumed := 0, ri_SubscriptionBillingDiscount := 0\<rparr>)\<rparr>)"

definition reserveFunding :: "sub_host \<Rightarrow> goint \<Rightarrow> BillingSession \<Rightarrow> bank \<Rightarrow> NewAPIError option \<times> BillingSession \<times> bank" where
  "reserveFunding h delta s st =
     (case funding s of
        Wallet w \<Rightarrow>
          (case DecreaseUserQuota (wf_userId w) delta False st of
             (Some _, st') \<Rightarrow> (Some (NewError_skip ErrorCodeUpdateDataError), s, st')
           | (None, st') \<Rightarrow> (None, s\<lparr>funding := Wallet (w\<lparr>wf_consumed := wf_consumed w + delta\<rparr>)\<rparr>, st'))
      | Subscription sub \<Rightarrow>
          (case PostConsumeUserSubscriptionDelta h (sf_subscriptionId sub) delta st of
             (Inl _, st') \<Rightarrow> (Some (NewError_forbidden ErrorCodeInsufficientUserQuota), s, st')
           | (Inr appliedDelta, st') \<Rightarrow> (None, s\<lparr>extraReservedSub := extraReservedSub s + appliedDelta\<rparr>, st')))"

definition rollbackFundingReserve :: "sub_host \<Rightarrow> goint \<Rightarrow> BillingSession \<Rightarrow> bank \<Rightarrow> BillingSession \<times> bank" where
  "rollbackFundingReserve h delta s st =
     (case funding s of
        Wallet w \<Rightarrow>
          (case IncreaseUserQuota (wf_userId w) delta False st of
             (Some _, st') \<Rightarrow> (s, st')
           | (None, st') \<Rightarrow> (s\<lparr>funding := Wallet (w\<lparr>wf_consumed := wf_consumed w - delta\<rparr>)\<rparr>, st'))
      | Subscription sub \<Rightarrow> (s, snd (PostConsumeUserSubscriptionDelta h (sf_subscriptionId sub) (- delta) st)))"

definition reserveToken :: "goint \<Rightarrow> BillingSession \<Rightarrow> bank \<Rightarrow> NewAPIError option \<times> bank" where
  "reserveToken delta s st =
     (if delta \<le>s 0 \<or> ri_IsPlayground (relayInfo s) then (None, st)
      else
        (case PreConsumeTokenQuota (relayInfo s) delta st of
           (Some _, st') \<Rightarrow> (Some (NewError_forbidden ErrorCodePreConsumeTokenQuotaFailed), st')
         | (None, st') \<Rightarrow> (None, st')))"

definition Reserve :: "sub_host \<Rightarrow> goint \<Rightarrow> BillingSession \<Rightarrow> bank \<Rightarrow> NewAPIError option \<times> BillingSession \<times> bank" where
  "Reserve h targetQuota s st =
     (if settled s \<or> refunded s \<or> trusted s \<or> targetQuota \<le>s preConsumedQuota s then (None, s, st)
      else
        let delta = targetQuota - preConsumedQuota s in
        if delta \<le>s 0 then (None, s, st)
        else
          (case reserveFunding h delta s st of
             (Some err, s1, st1) \<Rightarrow> (Some err, s1, st1)
           | (None, s1, st1) \<Rightarrow>
               (case reserveToken delta s1 st1 of
                  (Some err, st2) \<Rightarrow> (case rollbackFundingReserve h delta s1 st2 of (s3, st3) \<Rightarrow> (Some err, s3, st3))
                | (None, st2) \<Rightarrow>
                    (None, syncRelayInfo (s1\<lparr>preConsumedQuota := preConsumedQuota s1 + delta, tokenConsumed := tokenConsumed s1 + delta,
                                             extraReserved := extraReserved s1 + delta\<rparr>), st2))))"

definition GetTrustQuota :: "billing_host \<Rightarrow> goint" where
  "GetTrustQuota h = (let q = 10 * QuotaPerUnit h in word_of_int (if q < 0 then \<lceil>q\<rceil> else \<lfloor>q\<rfloor>))"

definition shouldTrust :: "billing_host \<Rightarrow> BillingSession \<Rightarrow> bool" where
  "shouldTrust h s =
     (let trustQuota = GetTrustQuota h in
      if ri_ForcePreConsume (relayInfo s) then False
      else if trustQuota \<le>s 0 then False
      else if \<not> (ri_TokenUnlimited (relayInfo s) \<or> trustQuota <s token_quota h) then False
      else (case funding s of Wallet _ \<Rightarrow> trustQuota <s ri_UserQuota (relayInfo s) | Subscription _ \<Rightarrow> False))"

text \<open>Taking the first quota: the token, then the source of funds; a failing source gives the token its quota back.\<close>

definition rollback_token :: "BillingSession \<Rightarrow> bank \<Rightarrow> BillingSession \<times> bank" where
  "rollback_token s st =
     (if 0 <s tokenConsumed s \<and> \<not> ri_IsPlayground (relayInfo s)
      then (s\<lparr>tokenConsumed := 0\<rparr>, snd (IncreaseTokenQuota (ri_TokenId (relayInfo s)) (tokenConsumed s) st))
      else (s, st))"

definition funding_error :: "gostr \<Rightarrow> NewAPIError" where
  "funding_error errMsg =
     (if str_includes errMsg (js ''no active subscription'') \<or> str_includes errMsg (js ''subscription quota insufficient'')
      then NewError_forbidden ErrorCodeInsufficientUserQuota
      else NewError_skip ErrorCodeUpdateDataError)"

definition preConsume ::
  "billing_host \<Rightarrow> goint \<Rightarrow> BillingSession \<Rightarrow> bank \<Rightarrow> (NewAPIError option \<times> BillingSession \<times> bank) option" where
  "preConsume h quota s st =
     (let s0 = s\<lparr>trusted := trusted s \<or> shouldTrust h s\<rparr>;
          effectiveQuota = (if shouldTrust h s then 0 else quota) in
      case (if 0 <s effectiveQuota then PreConsumeTokenQuota (relayInfo s0) effectiveQuota st else (None, st)) of
        (Some _, st1) \<Rightarrow> Some (Some (NewError_forbidden ErrorCodePreConsumeTokenQuotaFailed), s0, st1)
      | (None, st1) \<Rightarrow>
          let s1 = (if 0 <s effectiveQuota then s0\<lparr>tokenConsumed := effectiveQuota\<rparr> else s0) in
          map_option (\<lambda>(r, f, st2).
            case r of
              Some err \<Rightarrow> (case rollback_token (s1\<lparr>funding := f\<rparr>) st2 of (s3, st3) \<Rightarrow> (Some (funding_error err), s3, st3))
            | None \<Rightarrow> (None, syncRelayInfo (s1\<lparr>funding := f, preConsumedQuota := effectiveQuota\<rparr>), st2))
            (funding_PreConsume (subscriptions h) effectiveQuota (funding s1) st1))"

section \<open>The choice of the source\<close>

definition NormalizeBillingPreference :: "gostr \<Rightarrow> gostr" where
  "NormalizeBillingPreference pref =
     (if List.member [js ''subscription_first'', js ''wallet_first'', js ''subscription_only'', js ''wallet_only''] (TrimSpace pref)
      then TrimSpace pref else js ''subscription_first'')"

definition fresh_session :: "RelayInfo \<Rightarrow> FundingSource \<Rightarrow> BillingSession" where
  "fresh_session info f =
     \<lparr>relayInfo = info, funding = f, preConsumedQuota = 0, tokenConsumed = 0, extraReserved = 0, extraReservedSub = 0,
      trusted = False, fundingSettled = False, settled = False, refunded = False\<rparr>"

text \<open>A session or an error, the relay information, which the session shares, and the bank.\<close>

type_synonym opened = "((NewAPIError + BillingSession) \<times> RelayInfo \<times> bank) option"

definition start_session :: "billing_host \<Rightarrow> goint \<Rightarrow> BillingSession \<Rightarrow> bank \<Rightarrow> opened" where
  "start_session h quota s st =
     map_option (\<lambda>(r, s', st'). (case r of Some err \<Rightarrow> Inl err | None \<Rightarrow> Inr s', relayInfo s', st')) (preConsume h quota s st)"

definition tryWallet :: "billing_host \<Rightarrow> goint \<Rightarrow> RelayInfo \<Rightarrow> bank \<Rightarrow> opened" where
  "tryWallet h quota info st =
     (case GetUserQuota (ri_UserId info) False st of
        (Inl _, st1) \<Rightarrow> Some (Inl (NewError_skip ErrorCodeQueryDataError), info, st1)
      | (Inr userQuota, st1) \<Rightarrow>
          if userQuota \<le>s 0 then Some (Inl (NewError_forbidden ErrorCodeInsufficientUserQuota), info, st1)
          else if userQuota - quota <s 0 then Some (Inl (NewError_forbidden ErrorCodeInsufficientUserQuota), info, st1)
          else
            start_session h quota
              (fresh_session (info\<lparr>ri_UserQuota := userQuota\<rparr>) (Wallet \<lparr>wf_userId = ri_UserId info, wf_consumed = 0\<rparr>)) st1)"

definition trySubscription :: "billing_host \<Rightarrow> goint \<Rightarrow> RelayInfo \<Rightarrow> bank \<Rightarrow> opened" where
  "trySubscription h quota info st =
     (let subConsume = (if quota \<le>s 0 then 1 else quota) in
      start_session h subConsume
        (fresh_session info (Subscription
           \<lparr>sf_requestId = ri_RequestId info, sf_userId = ri_UserId info, sf_amount = subConsume, sf_subscriptionId = 0, sf_preConsumed = 0,
            sf_AmountTotal = 0, sf_AmountUsedAfter = 0, sf_BillingDiscount = 0, sf_lastDelta = 0\<rparr>)) st)"

text \<open>The second source when the first one has too little quota.\<close>

definition or_else :: "opened \<Rightarrow> (RelayInfo \<Rightarrow> bank \<Rightarrow> opened) \<Rightarrow> opened" where
  "or_else first other =
     (case first of
        Some (Inl err, info, st) \<Rightarrow> if ae_errorCode err = ErrorCodeInsufficientUserQuota then other info st else first
      | _ \<Rightarrow> first)"

definition NewBillingSession :: "billing_host \<Rightarrow> goint \<Rightarrow> RelayInfo \<Rightarrow> bank \<Rightarrow> opened" where
  "NewBillingSession h quota info st =
     (let pref = NormalizeBillingPreference (ri_BillingPreference info) in
      if pref = js ''subscription_only'' then trySubscription h quota info st
      else if pref = js ''wallet_only'' then tryWallet h quota info st
      else if pref = js ''wallet_first'' then or_else (tryWallet h quota info st) (trySubscription h quota)
      else
        (case HasActiveUserSubscription (subscriptions h) (ri_UserId info) st of
           (Inl _, st1) \<Rightarrow> Some (Inl (NewError_skip ErrorCodeQueryDataError), info, st1)
         | (Inr hasSub, st1) \<Rightarrow>
             if \<not> hasSub then tryWallet h quota info st1
             else or_else (trySubscription h quota info st1) (tryWallet h quota)))"

section \<open>Settling\<close>

definition PostConsumeQuota :: "sub_host \<Rightarrow> goint \<Rightarrow> RelayInfo \<Rightarrow> bank \<Rightarrow> gostr option \<times> RelayInfo \<times> bank" where
  "PostConsumeQuota h quota info st =
     (case
        (if ri_BillingSource info = BillingSourceSubscription then
           (if ri_SubscriptionId info = 0 then (Some (js ''subscription id is missing''), info, st)
            else if quota \<noteq> 0 then
              (case PostConsumeUserSubscriptionDelta h (ri_SubscriptionId info) quota st of
                 (Inl err, st1) \<Rightarrow> (Some err, info, st1)
               | (Inr appliedDelta, st1) \<Rightarrow>
                   (None, info\<lparr>ri_SubscriptionPostDelta := ri_SubscriptionPostDelta info + appliedDelta\<rparr>, st1))
            else (None, info, st))
         else
           (case (if 0 <s quota then DecreaseUserQuota (ri_UserId info) quota False st
                  else IncreaseUserQuota (ri_UserId info) (- quota) False st) of (r, st1) \<Rightarrow> (r, info, st1))) of
        (Some err, info1, st1) \<Rightarrow> (Some err, info1, st1)
      | (None, info1, st1) \<Rightarrow> (case adjust_token info1 quota st1 of (r, st2) \<Rightarrow> (r, info1, st2)))"

text \<open>The relay information and its session, if there is one.\<close>

definition SettleBilling ::
  "sub_host \<Rightarrow> goint \<Rightarrow> RelayInfo \<Rightarrow> BillingSession option \<Rightarrow> bank \<Rightarrow> gostr option \<times> RelayInfo \<times> BillingSession option \<times> bank" where
  "SettleBilling h actualQuota info billing st =
     (case billing of
        Some s \<Rightarrow> (case Settle h actualQuota s st of (r, s', st') \<Rightarrow> (r, relayInfo s', Some s', st'))
      | None \<Rightarrow>
          let quotaDelta = actualQuota - ri_FinalPreConsumedQuota info in
          if quotaDelta \<noteq> 0 then (case PostConsumeQuota h quotaDelta info st of (r, info', st') \<Rightarrow> (r, info', None, st'))
          else (None, info, None, st))"

end
