(* ===== verification/Server_Billing_Runs.thy ===== *)
theory Server_Billing_Runs
  imports Server_Billing
begin

text \<open>Runs of a billing session that is paid from the wallet.  The calls of the session, the task of a refund and the
  writes of the batch come in any order; an abstract account of what the request costs says what the user and the token have paid
  at every point, and the methods of the session implement it when the database answers.\<close>

section \<open>Operations of a healthy ledger\<close>

lemma debit_user: "sound_ledger uid tid st \<Longrightarrow> \<not> q <s 0 \<Longrightarrow> DecreaseUserQuota uid q False st = (None, quota_step (DebitUser uid q) st)"
  by (auto simp: sound_ledger_def user_ops db_exec_clean)

lemma credit_user: "sound_ledger uid tid st \<Longrightarrow> \<not> q <s 0 \<Longrightarrow> IncreaseUserQuota uid q False st = (None, quota_step (CreditUser uid q) st)"
  by (auto simp: sound_ledger_def user_ops db_exec_clean)

lemma debit_token: "sound_ledger uid tid st \<Longrightarrow> \<not> q <s 0 \<Longrightarrow> DecreaseTokenQuota tid q st = (None, quota_step (DebitToken tid q) st)"
  by (auto simp: sound_ledger_def token_ops db_exec_clean)

lemma credit_token: "sound_ledger uid tid st \<Longrightarrow> \<not> q <s 0 \<Longrightarrow> IncreaseTokenQuota tid q st = (None, quota_step (CreditToken tid q) st)"
  by (auto simp: sound_ledger_def token_ops db_exec_clean)

declare quota_step.simps [simp del]

text \<open>What the user and the token of a session have left.\<close>

definition paid :: "goint \<Rightarrow> goint \<Rightarrow> bank \<Rightarrow> goint \<Rightarrow> goint \<Rightarrow> bank \<Rightarrow> bool" where
  "paid uid tid before u t after \<longleftrightarrow>
     sound_ledger uid tid after \<and> user_balance uid after = user_balance uid before - u \<and>
     token_balance tid after = token_balance tid before - t \<and> token_spent tid after = token_spent tid before + t"

lemma paid_refl: "sound_ledger uid tid st \<Longrightarrow> paid uid tid st 0 0 st"
  by (simp add: paid_def)

lemma paid_sound: "paid uid tid a u t b \<Longrightarrow> sound_ledger uid tid b"
  by (simp add: paid_def)

lemma paid_step:
  assumes "paid uid tid a u t b"
  shows "paid uid tid a (u - user_delta uid op) (t - token_delta tid op) (quota_step op b)"
  using assms quota_step_sound(1) [OF paid_sound [OF assms], of op] quota_step_balances [OF paid_sound [OF assms], of op]
  by (simp add: paid_def)

lemma paid_ops:
  assumes "paid uid tid a u t b" "\<not> q <s 0"
  shows "paid uid tid a (u + q) t (quota_step (DebitUser uid q) b)" "paid uid tid a (u - q) t (quota_step (CreditUser uid q) b)"
    "paid uid tid a u (t + q) (quota_step (DebitToken tid q) b)" "paid uid tid a u (t - q) (quota_step (CreditToken tid q) b)"
  using paid_step [OF assms(1), of "DebitUser uid q"] paid_step [OF assms(1), of "CreditUser uid q"]
    paid_step [OF assms(1), of "DebitToken tid q"] paid_step [OF assms(1), of "CreditToken tid q"] assms(2) by simp_all

lemma paid_trans: "paid uid tid a u t b \<Longrightarrow> paid uid tid b v w c \<Longrightarrow> paid uid tid a (u + v) (t + w) c"
  by (simp add: paid_def)

lemma get_token_clean: "db_faults st = [] \<Longrightarrow> snd (GetTokenByKey key st) = st"
  by (auto simp: GetTokenByKey_def db_exec_clean split: option.split)

text \<open>What a session charges to its token: nothing in the playground.\<close>

abbreviation token_part :: "RelayInfo \<Rightarrow> goint \<Rightarrow> goint" where
  "token_part info q \<equiv> (if ri_IsPlayground info then 0 else q)"

lemma pre_consume_token_cases:
  assumes "sound_ledger uid (ri_TokenId info) st" "\<not> q <s 0"
  obtains e where "PreConsumeTokenQuota info q st = (Some e, st)"
  | st' where "PreConsumeTokenQuota info q st = (None, st')" "paid uid (ri_TokenId info) st 0 (token_part info q) st'"
proof (cases "ri_IsPlayground info")
  case True
  then show thesis using that(2) [of st] assms by (simp add: PreConsumeTokenQuota_def paid_refl)
next
  case False
  obtain r where g: "GetTokenByKey (ri_TokenKey info) st = (r, st)"
    using get_token_clean [of st "ri_TokenKey info"] assms(1) by (cases "GetTokenByKey (ri_TokenKey info) st") (auto simp: sound_ledger_def)
  show thesis
  proof (cases "case r of Inl e \<Rightarrow> True | Inr remain \<Rightarrow> \<not> ri_TokenUnlimited info \<and> remain <s q")
    case True
    then show thesis using that(1) False assms(2) g by (auto simp: PreConsumeTokenQuota_def split: sum.splits)
  next
    case ok: False
    then have "PreConsumeTokenQuota info q st = (None, quota_step (DebitToken (ri_TokenId info) q) st)"
      using False assms g debit_token [OF assms] by (auto simp: PreConsumeTokenQuota_def split: sum.splits)
    then show thesis using that(2) paid_ops(3) [OF paid_refl [OF assms(1)] assms(2)] False by simp
  qed
qed

lemma adjust_token_paid:
  assumes "sound_ledger uid (ri_TokenId info) st" "sint d \<noteq> - (2 ^ 63)"
  obtains st' where "adjust_token info d st = (None, st')" "paid uid (ri_TokenId info) st 0 (token_part info d) st'"
proof (cases "ri_IsPlayground info")
  case True
  then show thesis using that [of st] assms(1) by (simp add: adjust_token_def paid_refl)
next
  case False
  show thesis
  proof (cases "0 <s d")
    case True
    then have "\<not> d <s 0" by (simp add: word_sless_alt)
    then show thesis
      using that [of "quota_step (DebitToken (ri_TokenId info) d) st"] False True debit_token [OF assms(1)]
        paid_ops(3) [OF paid_refl [OF assms(1)], of d] by (simp add: adjust_token_def)
  next
    case neg: False
    have "\<not> - d <s 0" using neg assms(2) by (simp add: word_sless_alt sint_uminus)
    then show thesis
      using that [of "quota_step (CreditToken (ri_TokenId info) (- d)) st"] False neg credit_token [OF assms(1)]
        paid_ops(4) [OF paid_refl [OF assms(1)], of "- d"] by (simp add: adjust_token_def)
  qed
qed

section \<open>The methods of a wallet session\<close>

text \<open>A session, paid from a wallet, that has taken \<open>q\<close> so far.\<close>

definition holds :: "goint \<Rightarrow> goint \<Rightarrow> bool \<Rightarrow> goint \<Rightarrow> BillingSession \<Rightarrow> bool" where
  "holds uid tid playground q s \<longleftrightarrow>
     funding s = Wallet \<lparr>wf_userId = uid, wf_consumed = q\<rparr> \<and> preConsumedQuota s = q \<and> tokenConsumed s = q \<and> 0 \<le>s q \<and>
     ri_TokenId (relayInfo s) = tid \<and> ri_IsPlayground (relayInfo s) = playground"

abbreviation for_token :: "bool \<Rightarrow> goint \<Rightarrow> goint" where
  "for_token playground q \<equiv> (if playground then 0 else q)"

lemma difference_positive:
  fixes a b :: goint
  assumes "0 \<le>s a" "a <s b"
  shows "\<not> b - a \<le>s 0" "\<not> b - a <s 0"
proof -
  have "sint (b - a) = sint b - sint a"
    using assms sint_bounds [of a] sint_bounds [of b] by (intro sint_diff) (auto simp: word_sle_eq word_sless_alt)
  then show "\<not> b - a \<le>s 0" "\<not> b - a <s 0" using assms by (auto simp: word_sle_eq word_sless_alt)
qed

lemma difference_in_range:
  fixes a b :: goint
  assumes "0 \<le>s a" "0 \<le>s b"
  shows "sint (b - a) \<noteq> - (2 ^ 63)"
proof -
  have "sint (b - a) = sint b - sint a"
    using assms sint_bounds [of a] sint_bounds [of b] by (intro sint_diff) (auto simp: word_sle_eq)
  then show ?thesis using assms sint_bounds [of a] sint_bounds [of b] by (auto simp: word_sle_eq)
qed

lemma sync_simps [simp]:
  "funding (syncRelayInfo s) = funding s" "preConsumedQuota (syncRelayInfo s) = preConsumedQuota s"
  "tokenConsumed (syncRelayInfo s) = tokenConsumed s" "settled (syncRelayInfo s) = settled s" "refunded (syncRelayInfo s) = refunded s"
  "fundingSettled (syncRelayInfo s) = fundingSettled s" "ri_TokenId (relayInfo (syncRelayInfo s)) = ri_TokenId (relayInfo s)"
  "ri_IsPlayground (relayInfo (syncRelayInfo s)) = ri_IsPlayground (relayInfo s)"
  by (simp_all add: syncRelayInfo_def Let_def split: FundingSource.split)

lemma reserve_cases:
  assumes "holds uid tid pg q s" "sound_ledger uid tid st"
  obtains (same) r st' where "Reserve h t s st = (r, s, st')" "paid uid tid st 0 0 st'"
  | (more) s' st' where "Reserve h t s st = (None, s', st')" "\<not> settled s" "\<not> refunded s" "q <s t" "holds uid tid pg t s'"
      "\<not> settled s'" "\<not> refunded s'" "fundingSettled s' = fundingSettled s" "paid uid tid st (t - q) (for_token pg (t - q)) st'"
proof (cases "settled s \<or> refunded s \<or> trusted s \<or> t \<le>s q")
  case True
  then have "Reserve h t s st = (None, s, st)" using assms(1) by (auto simp: Reserve_def holds_def)
  then show thesis using same paid_refl [OF assms(2)] by blast
next
  case False
  let ?d = "t - q" and ?w = "Wallet \<lparr>wf_userId = uid, wf_consumed = t\<rparr>" and ?mid = "quota_step (DebitUser uid (t - q)) st"
  let ?s1 = "s\<lparr>funding := ?w\<rparr>"
  have qt: "0 \<le>s q" "q <s t" using False assms(1) by (auto simp: holds_def word_sle_eq word_sless_alt)
  note d = difference_positive [OF qt]
  have t: "0 \<le>s t" using qt by (simp add: word_sle_eq word_sless_alt)
  have rf: "reserveFunding h ?d s st = (None, ?s1, ?mid)"
    using assms(1) debit_user [OF assms(2) d(2)] by (simp add: reserveFunding_def holds_def)
  note mid = paid_ops(1) [OF paid_refl [OF assms(2)] d(2), simplified]
  have info: "ri_TokenId (relayInfo s) = tid" "ri_IsPlayground (relayInfo s) = pg" using assms(1) by (simp_all add: holds_def)
  have R: "Reserve h t s st =
      (case reserveToken ?d ?s1 ?mid of
         (Some err, st2) \<Rightarrow> (case rollbackFundingReserve h ?d ?s1 st2 of (s3, st3) \<Rightarrow> (Some err, s3, st3))
       | (None, st2) \<Rightarrow> (None, syncRelayInfo (?s1\<lparr>preConsumedQuota := t, tokenConsumed := t, extraReserved := extraReserved s + ?d\<rparr>), st2))"
    using False d(1) rf assms(1) by (simp add: Reserve_def Let_def holds_def split: prod.split option.split)
  have ps: "sound_ledger uid (ri_TokenId (relayInfo ?s1)) ?mid" using paid_sound [OF mid] info by simp
  from pre_consume_token_cases [OF ps d(2)] show thesis
  proof cases
    case (1 e)
    show thesis
    proof (cases pg)
      case True
      have "reserveToken ?d ?s1 ?mid = (None, ?mid)" using True info by (simp add: reserveToken_def)
      then show thesis using more [OF R [unfolded \<open>reserveToken ?d ?s1 ?mid = (None, ?mid)\<close>, simplified]] False qt t info mid True
        by (simp add: holds_def)
    next
      case pf: False
      have "reserveToken ?d ?s1 ?mid = (Some (NewError_forbidden ErrorCodePreConsumeTokenQuotaFailed), ?mid)"
        using 1 pf info d by (simp add: reserveToken_def)
      moreover have "rollbackFundingReserve h ?d ?s1 ?mid = (s, quota_step (CreditUser uid ?d) ?mid)"
        using credit_user [OF paid_sound [OF mid] d(2)] assms(1) by (cases s) (simp add: rollbackFundingReserve_def holds_def)
      moreover have "paid uid tid st 0 0 (quota_step (CreditUser uid ?d) ?mid)" using paid_ops(2) [OF mid d(2)] by simp
      ultimately show thesis using same R by simp
    qed
  next
    case (2 st2)
    have rt: "reserveToken ?d ?s1 ?mid = (None, if pg then ?mid else st2)" using 2 info d by (simp add: reserveToken_def)
    have "paid uid tid st ?d (for_token pg ?d) (if pg then ?mid else st2)"
      using mid paid_trans [OF mid, of 0 ?d st2] 2(2) info by (cases pg) auto
    then show thesis using more [OF R [unfolded rt, simplified]] False qt t info by (simp add: holds_def)
  qed
qed

lemma settle_open:
  assumes "holds uid tid pg q s" "sound_ledger uid tid st" "\<not> settled s" "\<not> fundingSettled s" "0 \<le>s a"
  obtains s' st' where "Settle h a s st = (None, s', st')" "holds uid tid pg q s'" "settled s'" "refunded s' = refunded s"
    "paid uid tid st (a - q) (for_token pg (a - q)) st'"
proof (cases "a = q")
  case True
  then show thesis
    using that [of "s\<lparr>settled := True\<rparr>" st] assms paid_refl [OF assms(2)] by (simp add: Settle_def Let_def holds_def)
next
  case False
  let ?d = "a - q"
  have q: "0 \<le>s q" and info: "ri_TokenId (relayInfo s) = tid" "ri_IsPlayground (relayInfo s) = pg"
    using assms(1) by (simp_all add: holds_def)
  note range = difference_in_range [OF q assms(5)]
  have d0: "?d \<noteq> 0" using False by simp
  obtain st1 where st1: "funding_Settle h ?d (funding s) st = (None, funding s, st1)" "paid uid tid st ?d 0 st1"
  proof (cases "0 <s ?d")
    case True
    then have "\<not> ?d <s 0" by (simp add: word_sless_alt)
    then show thesis
      using that [of "quota_step (DebitUser uid ?d) st"] True debit_user [OF assms(2)] paid_ops(1) [OF paid_refl [OF assms(2)], of ?d] assms(1) d0
      by (simp add: wallet_Settle_def holds_def)
  next
    case neg: False
    have "\<not> - ?d <s 0" using neg range by (simp add: word_sless_alt sint_uminus del: minus_diff_eq)
    then show thesis
      using that [of "quota_step (CreditUser uid (- ?d)) st"] neg credit_user [OF assms(2)] paid_ops(2) [OF paid_refl [OF assms(2)], of "- ?d"] assms(1) d0
      by (simp add: wallet_Settle_def holds_def)
  qed
  obtain st2 where st2: "adjust_token (relayInfo s) ?d st1 = (None, st2)" "paid uid tid st1 0 (for_token pg ?d) st2"
    using adjust_token_paid [of uid "relayInfo s" st1 ?d] paid_sound [OF st1(2)] range info by auto
  have "Settle h a s st = (None, s\<lparr>fundingSettled := True, settled := True\<rparr>, st2)"
    using assms(1,3,4) False st1(1) st2(1) by (cases s) (simp add: Settle_def Let_def add_post_delta_def holds_def)
  then show thesis
    using that [of "s\<lparr>fundingSettled := True, settled := True\<rparr>" st2] assms(1) paid_trans [OF st1(2) st2(2)] by (simp add: holds_def)
qed

lemma sources_differ: "BillingSourceWallet \<noteq> BillingSourceSubscription"
  by code_simp

lemma run_refund_paid:
  assumes "sound_ledger uid tid st" "0 \<le>s q"
    and "rt_tokenId t = tid" "rt_tokenConsumed t = q" "rt_isPlayground t = pg"
  shows "paid uid tid st (- q) (for_token pg (- q)) (run_refund h t (Wallet \<lparr>wf_userId = uid, wf_consumed = q\<rparr>) st)"
proof (cases "q = 0")
  case True
  then show ?thesis using assms sources_differ by (simp add: run_refund_def wallet_Refund_def paid_refl del: js_Cons)
next
  case False
  have q: "\<not> q <s 0" "\<not> q \<le>s 0" "0 <s q" using assms(2) False sint_eq_0 [of q] by (auto simp: word_sle_eq word_sless_alt)
  let ?mid = "quota_step (CreditUser uid q) st"
  have mid: "paid uid tid st (- q) 0 ?mid" using paid_ops(2) [OF paid_refl [OF assms(1)] q(1)] by simp
  have "run_refund h t (Wallet \<lparr>wf_userId = uid, wf_consumed = q\<rparr>) st = (if pg then ?mid else quota_step (CreditToken tid q) ?mid)"
    using q sources_differ assms credit_user [OF assms(1) q(1)] credit_token [OF paid_sound [OF mid] q(1)]
    by (simp add: run_refund_def wallet_Refund_def del: js_Cons)
  then show ?thesis using mid paid_ops(4) [OF mid q(1)] by simp
qed

section \<open>The account of a request\<close>

datatype billing_action = DoReserve goint | DoSettle goint | DoRefund | RunTask | FlushBatch

text \<open>A request has reserved a quota, has perhaps its final quota, and its refund has or has not been asked for and done.\<close>

datatype refund_phase = NotAsked | Pending | Done

record charge =
  ch_reserved :: goint
  ch_final :: "goint option"
  ch_refund :: refund_phase

definition net :: "charge \<Rightarrow> goint" where
  "net c = (case ch_final c of Some q \<Rightarrow> q | None \<Rightarrow> ch_reserved c) - (if ch_refund c = Done then ch_reserved c else 0)"

text \<open>A reservation may be refused.  A refund that was asked for ends the reservations, not the settling.\<close>

inductive charge_step :: "charge \<Rightarrow> billing_action \<Rightarrow> charge \<Rightarrow> bool" where
  reserve: "ch_final c = None \<Longrightarrow> ch_refund c = NotAsked \<Longrightarrow> ch_reserved c <s t \<Longrightarrow> charge_step c (DoReserve t) (c\<lparr>ch_reserved := t\<rparr>)"
| refuse: "charge_step c (DoReserve t) c"
| settle: "ch_final c = None \<Longrightarrow> charge_step c (DoSettle q) (c\<lparr>ch_final := Some q\<rparr>)"
| settle_again: "ch_final c \<noteq> None \<Longrightarrow> charge_step c (DoSettle q) c"
| refund: "ch_final c = None \<Longrightarrow> ch_refund c = NotAsked \<Longrightarrow> ch_reserved c \<noteq> 0 \<Longrightarrow> charge_step c DoRefund (c\<lparr>ch_refund := Pending\<rparr>)"
| no_refund: "ch_final c \<noteq> None \<or> ch_refund c \<noteq> NotAsked \<or> ch_reserved c = 0 \<Longrightarrow> charge_step c DoRefund c"
| run: "ch_refund c = Pending \<Longrightarrow> charge_step c RunTask (c\<lparr>ch_refund := Done\<rparr>)"
| no_run: "ch_refund c \<noteq> Pending \<Longrightarrow> charge_step c RunTask c"
| flush: "charge_step c FlushBatch c"

inductive_cases charge_reserveE: "charge_step c (DoReserve t) c'"
inductive_cases charge_settleE: "charge_step c (DoSettle q) c'"
inductive_cases charge_refundE: "charge_step c DoRefund c'"
inductive_cases charge_runE: "charge_step c RunTask c'"
inductive_cases charge_flushE: "charge_step c FlushBatch c'"

inductive charge_run :: "charge \<Rightarrow> billing_action list \<Rightarrow> charge \<Rightarrow> bool" where
  run_Nil: "charge_run c [] c"
| run_Cons: "charge_step c a c' \<Longrightarrow> charge_run c' as c'' \<Longrightarrow> charge_run c (a # as) c''"

inductive_cases charge_run_ConsE: "charge_run c (a # as) c'"
inductive_cases charge_run_NilE: "charge_run c [] c'"

lemma charge_run_append: "charge_run c (as @ bs) c'' \<Longrightarrow> \<exists>c'. charge_run c as c' \<and> charge_run c' bs c''"
proof (induction as arbitrary: c)
  case (Cons a as)
  then show ?case by (auto elim!: charge_run_ConsE intro: run_Cons) (metis run_Cons)
qed (auto intro: run_Nil)

lemma charge_run_at:
  assumes "charge_run c (as @ a # bs) c''"
  obtains c1 c2 where "charge_run c as c1" "charge_step c1 a c2" "charge_run c2 bs c''"
  using charge_run_append [OF assms] by (auto elim: charge_run_ConsE)

text \<open>A property that every step keeps holds at the end of a run.\<close>

lemma charge_run_invariant:
  assumes "charge_run c as c'" "P c" "\<And>c a c'. a \<in> set as \<Longrightarrow> charge_step c a c' \<Longrightarrow> P c \<Longrightarrow> P c'"
  shows "P c'"
  using assms
proof (induction rule: charge_run.induct)
  case (run_Cons c a c' as c'')
  have "P c'" using run_Cons.prems(2) [of a c c'] run_Cons.hyps(1) run_Cons.prems(1) by simp
  then show ?case using run_Cons.IH run_Cons.prems(2) by (meson list.set_intros(2))
qed

definition open_charge :: "goint \<Rightarrow> charge" where
  "open_charge q = \<lparr>ch_reserved = q, ch_final = None, ch_refund = NotAsked\<rparr>"

lemma before_settle:
  assumes "charge_run (open_charge q) as c" "\<And>a. a \<in> set as \<Longrightarrow> a \<noteq> DoRefund \<and> (\<forall>x. a \<noteq> DoSettle x)"
  shows "ch_final c = None \<and> ch_refund c = NotAsked"
  using assms(1)
proof (rule charge_run_invariant)
  fix c a c'
  assume "a \<in> set as" "charge_step c a c'" "ch_final c = None \<and> ch_refund c = NotAsked"
  then show "ch_final c' = None \<and> ch_refund c' = NotAsked" using assms(2) [of a] by (auto elim: charge_step.cases)
qed (simp add: open_charge_def)

lemma after_settle:
  assumes "charge_run c as c'" "ch_final c = Some a" "ch_refund c = NotAsked"
  shows "ch_final c' = Some a \<and> ch_refund c' = NotAsked"
  using assms(1)
  by (rule charge_run_invariant) (use assms(2,3) in \<open>auto elim: charge_step.cases\<close>)

lemma settle_net:
  assumes "charge_run (open_charge q) (pre @ DoSettle a # post) c" "\<And>x. x \<in> set pre \<Longrightarrow> x \<noteq> DoRefund \<and> (\<forall>y. x \<noteq> DoSettle y)"
  shows "net c = a"
proof -
  obtain c1 c2 where r: "charge_run (open_charge q) pre c1" "charge_step c1 (DoSettle a) c2" "charge_run c2 post c"
    using assms(1) by (rule charge_run_at)
  note b = before_settle [OF r(1) assms(2)]
  have "ch_final c2 = Some a \<and> ch_refund c2 = NotAsked" using r(2) b by (auto elim: charge_settleE)
  then show ?thesis using after_settle [OF r(3)] by (auto simp: net_def)
qed

lemma never_settled:
  assumes "charge_run c as c'" "\<And>x. DoSettle x \<notin> set as" "ch_final c = None"
  shows "ch_final c' = None"
  using assms(1,3)
proof (rule charge_run_invariant)
  fix c a c'
  assume "a \<in> set as" "charge_step c a c'" "ch_final c = None"
  then show "ch_final c' = None" using assms(2) by (auto elim!: charge_step.cases)
qed

lemma refund_net:
  assumes "charge_run (open_charge q) (pre @ DoRefund # mid @ RunTask # post) c" "\<And>x. DoSettle x \<notin> set (pre @ mid @ post)"
    and "\<And>x. DoReserve x \<notin> set (mid @ post)"
  shows "net c = 0"
proof -
  let ?asked = "\<lambda>c. ch_final c = None \<and> (ch_reserved c = 0 \<or> ch_refund c \<noteq> NotAsked)"
  let ?done = "\<lambda>c. ch_final c = None \<and> (ch_reserved c = 0 \<or> ch_refund c = Done)"
  obtain c1 c2 where r: "charge_run (open_charge q) pre c1" "charge_step c1 DoRefund c2" "charge_run c2 (mid @ RunTask # post) c"
    using assms(1) by (rule charge_run_at)
  obtain c3 c4 where r2: "charge_run c2 mid c3" "charge_step c3 RunTask c4" "charge_run c4 post c"
    using r(3) by (rule charge_run_at)
  have "ch_final c1 = None" using never_settled [OF r(1)] assms(2) by (simp add: open_charge_def)
  then have c2: "?asked c2" using r(2) by (auto elim: charge_refundE)
  have "?asked c3"
    using r2(1) c2 by (rule charge_run_invariant) (use assms(2,3) in \<open>auto elim!: charge_step.cases\<close>)
  then have c4: "?done c4" using r2(2) by (auto elim!: charge_runE) (metis refund_phase.exhaust)
  have "?done c"
    using r2(3) c4 by (rule charge_run_invariant) (use assms(2,3) in \<open>auto elim!: charge_step.cases\<close>)
  then show ?thesis by (auto simp: net_def)
qed

section \<open>Running a session\<close>

record billing_world =
  bw_session :: BillingSession
  bw_bank :: bank
  bw_tasks :: "refund_task list"

fun billing_step :: "sub_host \<Rightarrow> billing_action \<Rightarrow> billing_world \<Rightarrow> billing_world" where
  "billing_step h (DoReserve t) w =
     (case Reserve h t (bw_session w) (bw_bank w) of (_, s, st) \<Rightarrow> w\<lparr>bw_session := s, bw_bank := st\<rparr>)"
| "billing_step h (DoSettle q) w =
     (case Settle h q (bw_session w) (bw_bank w) of (_, s, st) \<Rightarrow> w\<lparr>bw_session := s, bw_bank := st\<rparr>)"
| "billing_step h DoRefund w =
     (case Refund (bw_session w) of (t, s) \<Rightarrow> w\<lparr>bw_session := s, bw_tasks := bw_tasks w @ (case t of None \<Rightarrow> [] | Some t \<Rightarrow> [t])\<rparr>)"
| "billing_step h RunTask w =
     (case bw_tasks w of
        [] \<Rightarrow> w
      | t # ts \<Rightarrow> w\<lparr>bw_bank := run_refund h t (funding (bw_session w)) (bw_bank w), bw_tasks := ts\<rparr>)"
| "billing_step h FlushBatch w = w\<lparr>bw_bank := batchUpdate (bw_bank w)\<rparr>"

definition billing_run :: "sub_host \<Rightarrow> billing_action list \<Rightarrow> BillingSession \<Rightarrow> bank \<Rightarrow> billing_world" where
  "billing_run h as s st = fold (billing_step h) as \<lparr>bw_session = s, bw_bank = st, bw_tasks = []\<rparr>"

definition implements :: "goint \<Rightarrow> goint \<Rightarrow> bool \<Rightarrow> bank \<Rightarrow> billing_world \<Rightarrow> charge \<Rightarrow> bool" where
  "implements uid tid pg before w c \<longleftrightarrow>
     holds uid tid pg (ch_reserved c) (bw_session w) \<and> settled (bw_session w) = (ch_final c \<noteq> None) \<and>
     (fundingSettled (bw_session w) \<longrightarrow> settled (bw_session w)) \<and> refunded (bw_session w) = (ch_refund c \<noteq> NotAsked) \<and>
     (if ch_refund c = Pending
      then \<exists>t. bw_tasks w = [t] \<and> rt_tokenId t = tid \<and> rt_tokenConsumed t = ch_reserved c \<and> rt_isPlayground t = pg
      else bw_tasks w = []) \<and>
     paid uid tid before (net c) (for_token pg (net c)) (bw_bank w)"

definition allowed :: "billing_action \<Rightarrow> bool" where
  "allowed a = (case a of DoSettle q \<Rightarrow> 0 \<le>s q | _ \<Rightarrow> True)"

lemma paid_for_token:
  "paid uid tid a u (for_token pg u) b \<Longrightarrow> paid uid tid b v (for_token pg v) c \<Longrightarrow> u + v = n \<Longrightarrow> paid uid tid a n (for_token pg n) c"
  using paid_trans [of uid tid a u "for_token pg u" b v "for_token pg v" c] by (auto split: if_splits)

lemma simulate_reserve:
  assumes "implements uid tid pg before w c"
  shows "\<exists>c'. charge_step c (DoReserve t) c' \<and> implements uid tid pg before (billing_step h (DoReserve t) w) c'"
proof -
  let ?s = "bw_session w" and ?b = "bw_bank w" and ?q = "ch_reserved c"
  have i: "holds uid tid pg ?q ?s" "settled ?s = (ch_final c \<noteq> None)" "refunded ?s = (ch_refund c \<noteq> NotAsked)"
    "fundingSettled ?s \<longrightarrow> settled ?s" and p: "paid uid tid before (net c) (for_token pg (net c)) ?b"
    using assms unfolding implements_def by blast+
  from i(1) paid_sound [OF p] show ?thesis
  proof (cases rule: reserve_cases [where h = h and t = t])
    case (same r st')
    then show ?thesis
      using assms paid_trans [OF p same(2)] by (intro exI [of _ c]) (auto simp: refuse implements_def)
  next
    case (more s' st')
    let ?c = "c\<lparr>ch_reserved := t\<rparr>"
    have f: "ch_final c = None" "ch_refund c = NotAsked" using more i by auto
    then have "net c + (t - ?q) = net ?c" by (simp add: net_def)
    note pc = paid_for_token [OF p more(9) this]
    then show ?thesis
      using pc more f i assms by (intro exI [of _ ?c]) (auto simp: reserve implements_def)
  qed
qed

lemma simulate_settle:
  assumes "implements uid tid pg before w c" "0 \<le>s a"
  shows "\<exists>c'. charge_step c (DoSettle a) c' \<and> implements uid tid pg before (billing_step h (DoSettle a) w) c'"
proof (cases "settled (bw_session w)")
  case True
  then have "ch_final c \<noteq> None" using assms(1) by (simp add: implements_def)
  moreover have "billing_step h (DoSettle a) w = w" using True by (simp add: Settle_def)
  ultimately show ?thesis using assms(1) by (intro exI [of _ c]) (simp add: settle_again del: not_None_eq)
next
  case False
  let ?s = "bw_session w" and ?b = "bw_bank w" and ?q = "ch_reserved c" and ?c = "c\<lparr>ch_final := Some a\<rparr>"
  have i: "holds uid tid pg ?q ?s" "\<not> fundingSettled ?s" "ch_final c = None" "refunded ?s = (ch_refund c \<noteq> NotAsked)"
    and p: "paid uid tid before (net c) (for_token pg (net c)) ?b"
    using assms False by (auto simp: implements_def)
  obtain s' st' where r: "Settle h a ?s ?b = (None, s', st')" "holds uid tid pg ?q s'" "settled s'" "refunded s' = refunded ?s"
      "paid uid tid ?b (a - ?q) (for_token pg (a - ?q)) st'"
    using settle_open [OF i(1) paid_sound [OF p] False i(2) assms(2)] by blast
  have "net c + (a - ?q) = net ?c" using i(3) by (simp add: net_def)
  note pc = paid_for_token [OF p r(5) this]
  show ?thesis using pc r i assms(1) by (intro exI [of _ ?c]) (auto simp: settle implements_def)
qed

lemma needs_refund:
  assumes "holds uid tid pg q s" "\<not> fundingSettled s"
  shows "needsRefundLocked s \<longleftrightarrow> \<not> settled s \<and> \<not> refunded s \<and> q \<noteq> 0"
  using assms sint_eq_0 [of q] by (auto simp: needsRefundLocked_def holds_def word_sle_eq word_sless_alt)

lemma simulate_refund:
  assumes "implements uid tid pg before w c"
  shows "\<exists>c'. charge_step c DoRefund c' \<and> implements uid tid pg before (billing_step h DoRefund w) c'"
proof -
  let ?s = "bw_session w" and ?q = "ch_reserved c"
  have i: "holds uid tid pg ?q ?s" "settled ?s = (ch_final c \<noteq> None)" "refunded ?s = (ch_refund c \<noteq> NotAsked)"
    "fundingSettled ?s \<longrightarrow> settled ?s"
    using assms unfolding implements_def by blast+
  show ?thesis
  proof (cases "settled ?s \<or> refunded ?s \<or> ?q = 0")
    case True
    then have "Refund ?s = (None, ?s)" using needs_refund [OF i(1)] i(4) by (auto simp: Refund_def)
    then show ?thesis
      using assms True i by (intro exI [of _ c]) (auto intro: no_refund)
  next
    case False
    let ?c = "c\<lparr>ch_refund := Pending\<rparr>"
    have f: "ch_final c = None" "ch_refund c = NotAsked" using False i by auto
    have "needsRefundLocked ?s" using False needs_refund [OF i(1)] i(4) by simp
    moreover have "net ?c = net c" using f by (simp add: net_def)
    ultimately show ?thesis
      using assms False f i by (intro exI [of _ ?c]) (auto simp: refund implements_def Refund_def holds_def)
  qed
qed

lemma simulate_task:
  assumes "implements uid tid pg before w c"
  shows "\<exists>c'. charge_step c RunTask c' \<and> implements uid tid pg before (billing_step h RunTask w) c'"
proof (cases "ch_refund c = Pending")
  case True
  let ?c = "c\<lparr>ch_refund := Done\<rparr>"
  obtain t where t: "bw_tasks w = [t]" "rt_tokenId t = tid" "rt_tokenConsumed t = ch_reserved c" "rt_isPlayground t = pg"
    using assms True by (auto simp: implements_def)
  have h: "holds uid tid pg (ch_reserved c) (bw_session w)" and p: "paid uid tid before (net c) (for_token pg (net c)) (bw_bank w)"
    using assms by (simp_all add: implements_def)
  have f: "funding (bw_session w) = Wallet \<lparr>wf_userId = uid, wf_consumed = ch_reserved c\<rparr>" "0 \<le>s ch_reserved c"
    using h by (simp_all add: holds_def)
  have "net c + - ch_reserved c = net ?c" using True by (simp add: net_def split: option.split)
  then have "paid uid tid before (net ?c) (for_token pg (net ?c)) (bw_bank (billing_step h RunTask w))"
    using paid_for_token [OF p run_refund_paid [OF paid_sound [OF p] f(2) t(2-4), of h]] by (simp add: t(1) f(1))
  then show ?thesis using assms True t(1) by (intro exI [of _ ?c]) (auto simp: run implements_def)
next
  case False
  then have "billing_step h RunTask w = w" using assms by (simp add: implements_def)
  then show ?thesis using False assms by (intro exI [of _ c]) (simp add: no_run)
qed

lemma simulate_flush:
  assumes "implements uid tid pg before w c"
  shows "implements uid tid pg before (billing_step h FlushBatch w) c"
proof -
  have "paid uid tid before (net c) (for_token pg (net c)) (quota_step WriteBatch (bw_bank w))"
    using assms paid_step [of uid tid before "net c" _ "bw_bank w" WriteBatch] by (simp add: implements_def)
  then show ?thesis using assms by (auto simp: implements_def quota_step.simps)
qed

lemma simulate:
  assumes "implements uid tid pg before w c" "allowed a"
  shows "\<exists>c'. charge_step c a c' \<and> implements uid tid pg before (billing_step h a w) c'"
proof (cases a)
  case FlushBatch
  then show ?thesis using simulate_flush [OF assms(1)] flush by blast
qed (use assms simulate_reserve simulate_settle simulate_refund simulate_task in \<open>auto simp: allowed_def simp del: billing_step.simps\<close>)

lemma simulate_run:
  assumes "implements uid tid pg before w c" "list_all allowed as"
  shows "\<exists>c'. charge_run c as c' \<and> implements uid tid pg before (fold (billing_step h) as w) c'"
  using assms
proof (induction as arbitrary: w c)
  case (Cons a as)
  obtain c1 where c1: "charge_step c a c1" "implements uid tid pg before (billing_step h a w) c1"
    using simulate [OF Cons.prems(1), of a h] Cons.prems(2) by auto
  show ?case using Cons.IH [OF c1(2)] Cons.prems(2) c1(1) by (auto intro: run_Cons simp del: billing_step.simps)
qed (auto intro: run_Nil)

section \<open>Opening a session\<close>

lemma not_positive: "0 \<le>s (q :: goint) \<Longrightarrow> \<not> 0 <s q \<Longrightarrow> q = 0"
  using sint_eq_0 [of q] by (simp add: word_sle_eq word_sless_alt)

lemma start_wallet:
  assumes "sound_ledger uid (ri_TokenId info) st" "0 \<le>s quota"
    and "start_session h quota (fresh_session info (Wallet \<lparr>wf_userId = uid, wf_consumed = 0\<rparr>)) st = Some (r, info', st')"
  shows "case r of Inl e \<Rightarrow> st' = st
    | Inr s \<Rightarrow> holds uid (ri_TokenId info) (ri_IsPlayground info) (if trusted s then 0 else quota) s \<and> \<not> settled s \<and> \<not> refunded s \<and>
        \<not> fundingSettled s \<and>
        (let q = (if trusted s then 0 else quota) in paid uid (ri_TokenId info) st q (for_token (ri_IsPlayground info) q) st')"
proof -
  let ?s = "fresh_session info (Wallet \<lparr>wf_userId = uid, wf_consumed = 0\<rparr>)"
  define e where "e = (if shouldTrust h ?s then 0 else quota)"
  have e0: "0 \<le>s e" using assms(2) by (simp add: e_def)
  have tr: "trusted (syncRelayInfo x) = trusted x" for x
    by (simp add: syncRelayInfo_def Let_def)
  show ?thesis
  proof (cases "0 <s e")
    case False
    then have "e = 0" using not_positive e0 by blast
    then show ?thesis
      using assms(1,3) unfolding start_session_def preConsume_def e_def [symmetric]
      by (auto simp: Let_def fresh_session_def wallet_PreConsume_def holds_def tr paid_refl e_def split: if_splits)
  next
    case True
    then have nt: "\<not> shouldTrust h ?s" "e = quota" by (auto simp: e_def split: if_splits)
    have q: "0 <s quota" "\<not> quota <s 0" "\<not> quota \<le>s 0" using True nt(2) by (auto simp: word_sle_eq word_sless_alt)
    note un = start_session_def preConsume_def Let_def
    from assms(1) q(2) show ?thesis
    proof (cases rule: pre_consume_token_cases)
      case (1 err)
      then show ?thesis using assms(3) nt q by (auto simp: un fresh_session_def)
    next
      case (2 st1)
      let ?after = "quota_step (DebitUser uid quota) st1"
      have pe: "paid uid (ri_TokenId info) st quota (for_token (ri_IsPlayground info) quota) ?after"
        using paid_ops(1) [OF 2(2) q(2)] by simp
      have "DecreaseUserQuota uid quota False st1 = (None, ?after)" by (rule debit_user [OF paid_sound [OF 2(2)] q(2)])
      then show ?thesis
        using assms(2,3) nt q 2(1) pe by (auto simp: un fresh_session_def wallet_PreConsume_def holds_def tr)
    qed
  qed
qed

lemma maybe_reset_faults:
  "maybeResetUserSubscriptionWithPlanTx h sid sub plan st = Some (r, st') \<Longrightarrow> db_faults st = [] \<Longrightarrow> db_faults st' = []"
  by (auto simp: maybeResetUserSubscriptionWithPlanTx_def Let_def stmt_clean save_subscription_def split: if_splits)

lemma consume_candidate_faults:
  "consume_candidate h requestId userId sid sub d st = (r, st') \<Longrightarrow> db_faults st = [] \<Longrightarrow> db_faults st' = []"
  by (auto simp: consume_candidate_def Let_def db_exec_clean stmt_clean save_subscription_def)

lemma try_candidates_faults:
  "try_candidates h requestId userId amount subs st = Some (r, st') \<Longrightarrow> db_faults st = [] \<Longrightarrow> db_faults st' = []"
proof (induction subs arbitrary: st)
  case (Cons c subs)
  obtain sid cand where c: "c = (sid, cand)" by (cases c)
  have "snd (read_plan (sb_PlanId cand) st) = st" using Cons.prems(2) by (simp add: read_plan_def stmt_clean)
  then obtain pr where p: "read_plan (sb_PlanId cand) st = (pr, st)" by (cases "read_plan (sb_PlanId cand) st") simp
  show ?case
  proof (cases pr)
    case (Inl e)
    then show ?thesis using Cons.prems p by (simp add: c)
  next
    case (Inr plan)
    obtain rr st2 where m: "maybeResetUserSubscriptionWithPlanTx h sid cand plan st = Some (rr, st2)"
      using Cons.prems(1) p Inr by (auto simp: c split: option.splits)
    note f = maybe_reset_faults [OF m Cons.prems(2)]
    show ?thesis
      using Cons.prems(1) p Inr m f Cons.IH [of st2]
      by (cases rr) (auto simp: c Let_def split: if_splits dest: consume_candidate_faults)
  qed
qed simp

lemma pre_consume_error:
  assumes "db_faults st = []" "PreConsumeUserSubscription h requestId userId amount st = Some (Inl e, st')"
  shows "st' = st"
proof -
  have b: "db_faults st'' = []" if "pre_consume_body h requestId userId amount st = Some (r, st'')" for r st''
    using that assms(1)
    by (auto simp: pre_consume_body_def db_exec_clean stmt_clean Let_def split: if_splits option.splits dest: try_candidates_faults)
  have same: "st\<lparr>db_faults := []\<rparr> = st" using assms(1) by simp
  consider "pre_consume_body h requestId userId amount st = None"
    | e' st'' where "pre_consume_body h requestId userId amount st = Some (Inl e', st'')"
    | v st'' where "pre_consume_body h requestId userId amount st = Some (Inr v, st'')"
    by (metis option.exhaust prod.exhaust sum.exhaust)
  then show ?thesis
    using assms(2) b same by cases (auto simp: PreConsumeUserSubscription_def db_transaction_def split: if_splits)
qed

lemma sync_relay [simp]:
  "ri_UserId (relayInfo (syncRelayInfo s)) = ri_UserId (relayInfo s)"
  by (simp add: syncRelayInfo_def Let_def split: FundingSource.split)

lemma token_step_subscriptions [simp]:
  "db_subscriptions (quota_step (CreditToken tid q) st) = db_subscriptions st"
  "db_subscriptions (quota_step (DebitToken tid q) st) = db_subscriptions st"
  "db_pre_consume (quota_step (CreditToken tid q) st) = db_pre_consume st"
  "db_pre_consume (quota_step (DebitToken tid q) st) = db_pre_consume st"
  by (simp_all add: quota_step.simps token_ops addNewRecord_def db_exec_def split: list.split)

text \<open>What opening a session promises: an error leaves the balances and the subscriptions, and a session that is paid from the
  wallet has taken its quota from the user and the token, or nothing when the user is trusted.\<close>

definition opens :: "goint \<Rightarrow> goint \<Rightarrow> bool \<Rightarrow> goint \<Rightarrow> bank \<Rightarrow> NewAPIError + BillingSession \<Rightarrow> RelayInfo \<Rightarrow> bank \<Rightarrow> bool" where
  "opens uid tid pg quota before r info st \<longleftrightarrow>
     ri_UserId info = uid \<and> ri_TokenId info = tid \<and> ri_IsPlayground info = pg \<and>
     (case r of
        Inl e \<Rightarrow> paid uid tid before 0 0 st \<and> db_subscriptions st = db_subscriptions before \<and> db_pre_consume st = db_pre_consume before
      | Inr s \<Rightarrow>
          (case funding s of
             Subscription _ \<Rightarrow> True
           | Wallet _ \<Rightarrow>
               let q = (if trusted s then 0 else quota) in
               holds uid tid pg q s \<and> \<not> settled s \<and> \<not> refunded s \<and> \<not> fundingSettled s \<and> paid uid tid before q (for_token pg q) st))"

lemma start_wallet_info:
  "start_session h quota (fresh_session info f) st = Some (r, info', st') \<Longrightarrow>
   ri_UserId info' = ri_UserId info \<and> ri_TokenId info' = ri_TokenId info \<and> ri_IsPlayground info' = ri_IsPlayground info"
  by (auto simp: start_session_def preConsume_def Let_def fresh_session_def rollback_token_def
      split: prod.splits option.splits if_splits)

lemma try_wallet_opens:
  assumes "sound_ledger (ri_UserId info) (ri_TokenId info) st" "0 \<le>s quota" "tryWallet h quota info st = Some (r, info', st')"
  shows "opens (ri_UserId info) (ri_TokenId info) (ri_IsPlayground info) quota st r info' st'"
proof -
  have c: "db_faults st = []" using assms(1) by (simp add: sound_ledger_def)
  obtain u where u: "GetUserQuota (ri_UserId info) False st = (Inr u, st)"
    by (cases "redis_user_quota st (ri_UserId info)") (simp_all add: GetUserQuota_def db_exec_clean [OF c])
  show ?thesis
  proof (cases "u \<le>s 0 \<or> u - quota <s 0")
    case True
    then have "r = Inl (NewError_forbidden ErrorCodeInsufficientUserQuota) \<and> info' = info \<and> st' = st"
      using assms(3) u by (auto simp: tryWallet_def split: if_splits)
    then show ?thesis using paid_refl [OF assms(1)] by (simp add: opens_def)
  next
    case False
    let ?info = "info\<lparr>ri_UserQuota := u\<rparr>" and ?w = "Wallet \<lparr>wf_userId = ri_UserId info, wf_consumed = 0\<rparr>"
    have s: "start_session h quota (fresh_session ?info ?w) st = Some (r, info', st')" using False assms(3) u by (simp add: tryWallet_def)
    have "sound_ledger (ri_UserId info) (ri_TokenId ?info) st" using assms(1) by simp
    note w = start_wallet [OF this assms(2) s] start_wallet_info [OF s]
    show ?thesis
      using w assms(1) by (cases r) (auto simp: opens_def paid_refl Let_def holds_def)
  qed
qed

lemma start_subscription:
  assumes "sound_ledger uid (ri_TokenId info) st" "0 <s quota"
    and "start_session h quota (fresh_session info (Subscription sub)) st = Some (r, info', st')"
  shows "case r of
      Inl e \<Rightarrow> paid uid (ri_TokenId info) st 0 0 st' \<and> db_subscriptions st' = db_subscriptions st \<and> db_pre_consume st' = db_pre_consume st
    | Inr s \<Rightarrow> \<exists>sub'. funding s = Subscription sub'"
proof -
  let ?s = "fresh_session info (Subscription sub)" and ?tid = "ri_TokenId info" and ?pg = "ri_IsPlayground info"
  have nt: "\<not> shouldTrust h ?s" by (simp add: shouldTrust_def Let_def fresh_session_def)
  have q: "\<not> quota <s 0" using assms(2) by (simp add: word_sless_alt)
  note un = start_session_def preConsume_def Let_def subscription_PreConsume_def
  have tok: "PreConsumeTokenQuota info quota st = (None, if ?pg then st else quota_step (DebitToken ?tid quota) st)"
    if "PreConsumeTokenQuota info quota st = (None, x)" for x
    using that debit_token [OF assms(1) q] get_token_clean [of st "ri_TokenKey info"] assms(1)
    by (auto simp: PreConsumeTokenQuota_def sound_ledger_def split: if_splits prod.splits sum.splits)
  from assms(1) q show ?thesis
  proof (cases rule: pre_consume_token_cases)
    case (1 err)
    then show ?thesis using assms nt by (auto simp: un fresh_session_def paid_refl)
  next
    case (2 st1)
    have st1: "st1 = (if ?pg then st else quota_step (DebitToken ?tid quota) st)" using tok [OF 2(1)] 2(1) by simp
    have c1: "db_faults st1 = []" using paid_sound [OF 2(2)] by (simp add: sound_ledger_def)
    obtain pr st2 where p: "PreConsumeUserSubscription (subscriptions h) (sf_requestId sub) (sf_userId sub) (sf_amount sub) st1 = Some (pr, st2)"
      using assms 2 nt by (auto simp: un fresh_session_def)
    show ?thesis
    proof (cases pr)
      case (Inl e)
      have st2: "st2 = st1" using pre_consume_error [OF c1] p Inl by blast
      have cr: "IncreaseTokenQuota ?tid quota st1 = (None, quota_step (CreditToken ?tid quota) st1)"
        by (rule credit_token [OF paid_sound [OF 2(2)] q])
      have r: "r = Inl (funding_error e)" "st' = (if ?pg then st1 else quota_step (CreditToken ?tid quota) st1)"
        using assms(2,3) nt 2(1) p Inl st2 cr by (auto simp: un fresh_session_def rollback_token_def)
      show ?thesis
        using r st1 paid_ops(4) [OF 2(2) q] paid_refl [OF assms(1)] by auto
    next
      case (Inr res)
      then show ?thesis using assms(2,3) nt 2(1) p by (auto simp: un fresh_session_def)
    qed
  qed
qed

lemma try_subscription_opens:
  assumes "sound_ledger (ri_UserId info) (ri_TokenId info) st" "trySubscription h quota info st = Some (r, info', st')"
  shows "opens (ri_UserId info) (ri_TokenId info) (ri_IsPlayground info) q st r info' st'"
proof -
  let ?q = "if quota \<le>s 0 then 1 else quota :: goint"
  have q: "0 <s ?q" by (auto simp: word_sless_alt word_sle_eq)
  obtain sub where s: "start_session h ?q (fresh_session info (Subscription sub)) st = Some (r, info', st')"
    using assms(2) by (auto simp: trySubscription_def Let_def)
  show ?thesis
    using start_subscription [OF assms(1) q s] start_wallet_info [OF s] by (cases r) (auto simp: opens_def)
qed

lemma opens_trans:
  assumes "opens uid tid pg quota st (Inl e) info1 st1" "opens uid tid pg quota st1 r info2 st2"
  shows "opens uid tid pg quota st r info2 st2"
proof -
  have p: "paid uid tid st 0 0 st1" using assms(1) by (simp add: opens_def)
  show ?thesis
    using assms paid_trans [OF p] by (auto simp: opens_def Let_def split: sum.splits FundingSource.splits)
qed

lemma or_else_opens:
  assumes "or_else first other = Some (r, info', st')"
    and "\<And>r info1 st1. first = Some (r, info1, st1) \<Longrightarrow> opens uid tid pg quota st r info1 st1"
    and "\<And>info1 st1 r info2 st2. ri_UserId info1 = uid \<Longrightarrow> ri_TokenId info1 = tid \<Longrightarrow> ri_IsPlayground info1 = pg \<Longrightarrow>
      sound_ledger uid tid st1 \<Longrightarrow> other info1 st1 = Some (r, info2, st2) \<Longrightarrow> opens uid tid pg quota st1 r info2 st2"
  shows "opens uid tid pg quota st r info' st'"
proof -
  obtain r1 info1 st1 where f: "first = Some (r1, info1, st1)" using assms(1) by (auto simp: or_else_def split: option.splits)
  note o = assms(2) [OF f]
  show ?thesis
  proof (cases "\<exists>e. r1 = Inl e \<and> ae_errorCode e = ErrorCodeInsufficientUserQuota")
    case True
    then obtain e where e: "r1 = Inl e" "ae_errorCode e = ErrorCodeInsufficientUserQuota" by blast
    have "other info1 st1 = Some (r, info', st')" using assms(1) f e by (simp add: or_else_def)
    moreover have "sound_ledger uid tid st1" "ri_UserId info1 = uid" "ri_TokenId info1 = tid" "ri_IsPlayground info1 = pg"
      using o e(1) by (auto simp: opens_def dest: paid_sound)
    ultimately show ?thesis using assms(3) opens_trans o e(1) by blast
  next
    case False
    then have "or_else first other = first" using f by (auto simp: or_else_def split: sum.splits)
    then show ?thesis using assms(1) f o by simp
  qed
qed

lemma new_session_opens:
  assumes "sound_ledger (ri_UserId info) (ri_TokenId info) st" "0 \<le>s quota" "NewBillingSession h quota info st = Some (r, info', st')"
  shows "opens (ri_UserId info) (ri_TokenId info) (ri_IsPlayground info) quota st r info' st'"
proof -
  let ?opens = "\<lambda>st r info' st'. opens (ri_UserId info) (ri_TokenId info) (ri_IsPlayground info) quota st r info' st'"
  have c: "db_faults st = []" using assms(1) by (simp add: sound_ledger_def)
  have w: "?opens st1 r info2 st2" if "ri_UserId info1 = ri_UserId info" "ri_TokenId info1 = ri_TokenId info" "ri_IsPlayground info1 = ri_IsPlayground info"
      "sound_ledger (ri_UserId info) (ri_TokenId info) st1" "tryWallet h quota info1 st1 = Some (r, info2, st2)" for info1 st1 r info2 st2
    using try_wallet_opens [of info1 st1 quota h r info2 st2] that assms(2) by simp
  have s: "?opens st1 r info2 st2" if "ri_UserId info1 = ri_UserId info" "ri_TokenId info1 = ri_TokenId info" "ri_IsPlayground info1 = ri_IsPlayground info"
      "sound_ledger (ri_UserId info) (ri_TokenId info) st1" "trySubscription h quota info1 st1 = Some (r, info2, st2)" for info1 st1 r info2 st2
    using try_subscription_opens [of info1 st1 h quota r info2 st2] that by simp
  have has: "snd (HasActiveUserSubscription (subscriptions h) (ri_UserId info) st) = st" using c by (simp add: HasActiveUserSubscription_def stmt_clean)
  consider (sub) "trySubscription h quota info st = Some (r, info', st')" | (wallet) "tryWallet h quota info st = Some (r, info', st')"
    | (wallet_first) "or_else (tryWallet h quota info st) (trySubscription h quota) = Some (r, info', st')"
    | (sub_first) "or_else (trySubscription h quota info st) (tryWallet h quota) = Some (r, info', st')"
    | (failed) "\<exists>e. r = Inl e" "info' = info" "st' = st"
    using assms(3) has by (auto simp: NewBillingSession_def Let_def simp del: js_Cons split: if_splits prod.splits sum.splits)
  then show ?thesis
  proof cases
    case failed
    then show ?thesis using paid_refl [OF assms(1)] by (auto simp: opens_def)
  next
    case wallet_first
    then show ?thesis by (rule or_else_opens) (use w s assms(1) in blast)+
  next
    case sub_first
    then show ?thesis by (rule or_else_opens) (use w s assms(1) in blast)+
  qed (use w s assms(1) in blast)+
qed

section \<open>What a request costs\<close>


lemma wallet_run:
  assumes "sound_ledger (ri_UserId info) (ri_TokenId info) st" "0 \<le>s quota" "NewBillingSession h quota info st = Some (Inr s, info', st1)"
    and "funding s = Wallet f" "list_all allowed as"
  obtains c where "charge_run (open_charge (if trusted s then 0 else quota)) as c"
    "paid (ri_UserId info) (ri_TokenId info) st (net c) (token_part info (net c)) (bw_bank (billing_run (subscriptions h) as s st1))"
proof -
  let ?q = "if trusted s then 0 else quota" and ?w = "\<lparr>bw_session = s, bw_bank = st1, bw_tasks = []\<rparr>"
  have "implements (ri_UserId info) (ri_TokenId info) (ri_IsPlayground info) st ?w (open_charge ?q)"
    using new_session_opens [OF assms(1-3)] assms(4) by (auto simp: opens_def implements_def open_charge_def net_def Let_def split: if_splits)
  from simulate_run [OF this assms(5), of "subscriptions h"] show thesis
    using that by (auto simp: implements_def billing_run_def)
qed




section \<open>Examples\<close>

definition sample_billing_host :: billing_host where
  "sample_billing_host = \<lparr>subscriptions = sample_host, QuotaPerUnit = 500000, token_quota = 0\<rparr>"

definition sample_info :: "string \<Rightarrow> RelayInfo" where
  "sample_info pref =
     \<lparr>ri_TokenId = 7, ri_TokenKey = js ''k'', ri_UserId = 1, ri_TokenUnlimited = False, ri_IsPlayground = False, ri_BillingPreference = js pref,
      ri_UserQuota = 0, ri_FinalPreConsumedQuota = 0, ri_ForcePreConsume = False, ri_BillingSource = [], ri_SubscriptionId = 0,
      ri_SubscriptionPreConsumed = 0, ri_SubscriptionPostDelta = 0, ri_SubscriptionBillingDiscount = 0, ri_RequestId = js ''r'',
      ri_SubscriptionAmountTotal = 0, ri_SubscriptionAmountUsedAfterPreConsume = 0\<rparr>"

lemma sample_bank_sound: "sound_ledger 1 7 sample_bank"
  using sample_sound
  by (simp add: sound_ledger_def stores_distinct_def has_user_def has_token_def sample_bank_def sample_ledger_def bank.defs ledger.defs)

lemma sample_balances:
  "user_balance 1 sample_bank = 1000" "token_balance 7 sample_bank = 500" "token_spent 7 sample_bank = 0"
  by (simp_all add: balance_defs store_value_def sample_bank_def sample_ledger_def bank.defs ledger.defs)

lemma sample_ids [simp]: "ri_UserId (sample_info p) = 1" "ri_TokenId (sample_info p) = 7" "ri_IsPlayground (sample_info p) = False"
  by (simp_all add: sample_info_def)

lemma sample_session:
  obtains s info' st1 f where "NewBillingSession sample_billing_host 100 (sample_info ''wallet_only'') sample_bank = Some (Inr s, info', st1)"
    "funding s = Wallet f" "\<not> trusted s"
proof -
  let ?p = "NewBillingSession sample_billing_host 100 (sample_info ''wallet_only'') sample_bank"
  have "map_option (\<lambda>r. map_sum (\<lambda>e. ()) (\<lambda>s. (funding s = Wallet \<lparr>wf_userId = 1, wf_consumed = 100\<rparr>, trusted s)) (fst r)) ?p = Some (Inr (True, False))"
    by code_simp
  then show thesis using that by (cases ?p; cases "fst (the ?p)") auto
qed

lemma sample_subscriptions: "subscriptions sample_billing_host = sample_host"
  by (simp add: sample_billing_host_def)

lemma sample_nonneg: "0 \<le>s (100 :: goint)" "0 \<le>s (120 :: goint)" by code_simp+






end
