(* ===== verification/Spec2Isabelle.thy ===== *)
theory Spec2Isabelle
  imports Http_Status_Rules Billing_Rules Playground_Chat Playground_Storage Channel_Mapping Tier_Rules Account_Safety Notifications
    Server_Status_Codes Server_Billing_Runs
begin

text \<open>
  SynthApi is a gateway for language models: a server in Go that relays the requests of its users to upstream channels and
  bills them, and a web client in TypeScript with which users chat and administrators configure channels, accounts, prices and
  rules.  This library models the parts of both that decide something, as functions and step relations, and proves
  what makes them correct.  Paths below are relative to \<^verbatim>\<open>src/web/default/src\<close> for the client and to \<^verbatim>\<open>src\<close> for
  the server.

  \<^bold>\<open>How the parts interact.\<close>  An administrator enters status code rules, which the client parses, shows and submits in normal
  form, and which the server parses again and applies to the answers of a channel.  Prices are entered in two editors that
  print billing expressions and read them back.  Accounts are imported from foreign JSON: the text becomes items, the items
  requests, and a pool sends the requests.  The playground keeps a list of messages, sends it with the settings of
  the user and feeds the answer, streamed or whole, into the last message; what it keeps in the local storage is loaded on the
  next visit.  The notification centre compares the announcements of the server with the marks in its store.  On the server
  a request opens a billing session, which reserves quota from the wallet of the user or from a subscription and from the access token, and
  settles or refunds it; the quotas are changed directly or through the batch updater.

  \<^bold>\<open>The language and its library.\<close>
  \<^item> \<open>Js_String\<close>, \<open>Js_RegExp\<close>, \<open>Js_Number\<close>, \<open>Js_Integer\<close>, \<open>Js_Json\<close>, \<open>Js_Value\<close>, \<open>Js_Date\<close>, \<open>Web_Encoding\<close>: strings as lists of
    UTF-16 code units, a backtracking matcher for the patterns of the source, numbers as IEEE doubles, JSON values with their
    parser and printer, untyped values and their exceptions, dates, \<open>atob\<close> and UTF-8.
  \<^item> \<open>Go_Base\<close>: \<open>strings.TrimSpace\<close>, \<open>strconv.Atoi\<close>, and \<open>int\<close> and \<open>int64\<close> as 64-bit words with signed comparison.

  \<^bold>\<open>The client.\<close>
  \<^item> \<open>Http_Status_Rules\<close> (\<^verbatim>\<open>lib/http-status-code-rules.ts\<close>): parsing, merging and printing of the rules; merging is characterized
    by the set of codes, an accepted text denotes the codes of its tokens, and the printed text is read back.
  \<^item> \<open>Billing_Expr\<close>, \<open>Billing_Rules\<close> (\<^verbatim>\<open>features/pricing/lib/billing-expr.ts\<close>): tiers, request rules, their printer and parser; the
    round trips of rules and of combined expressions, and the rules that are lost.
  \<^item> \<open>Tier_Expr\<close>, \<open>Tier_Match\<close>, \<open>Tier_Rules\<close> (\<^verbatim>\<open>features/pricing/lib/tier-expr.ts\<close>): the visual editor; what it prints its
    regular expressions read back.
  \<^item> \<open>Channel_Types\<close>, \<open>Channel_Mapping\<close> (\<^verbatim>\<open>features/channels\<close>): type tables and the checks of the model and status code mappings.
  \<^item> \<open>Account_Codex\<close>, \<open>Account_Import\<close> (\<^verbatim>\<open>features/accounts/lib/account-channel-map.ts\<close>): credentials, tokens and the normalization
    of imported items; round trips, the partition of the items into previews and errors, usable requests.
  \<^item> \<open>Async_Pool\<close>, \<open>Account_Items\<close>, \<open>Account_Panel\<close>, \<open>Account_Run\<close>, \<open>Account_Safety\<close>
    (\<^verbatim>\<open>features/accounts/components/account-import-dialog.tsx\<close>): the pool as a step relation that refines a map over the items, the state of
    the panel as a record, its handlers as lists of updates, and a type invariant kept by every interleaving of updates.
  \<^item> \<open>Playground_Messages\<close>, \<open>Playground_Chat\<close>, \<open>Playground_Storage\<close> (\<^verbatim>\<open>features/playground\<close>): think tags, streaming, the chat
    as a state machine and what survives a reload.
  \<^item> \<open>Notification_Store\<close>, \<open>Notifications\<close> (\<^verbatim>\<open>stores/notification-store.ts\<close>, \<^verbatim>\<open>hooks/use-notifications.ts\<close>): marks, keys and the
    handlers; an announcement is notified once.

  \<^bold>\<open>The server.\<close>
  \<^item> \<open>Server_Status_Codes\<close> (\<^verbatim>\<open>setting/operation_setting/status_code_ranges.go\<close>): the second parser of the rules and the decisions made by
    them; what the client submits is what the server applies.
  \<^item> \<open>Server_Quota\<close> (\<^verbatim>\<open>model/utils.go\<close> and the quota operations of \<^verbatim>\<open>model/user.go\<close>, \<^verbatim>\<open>model/token.go\<close>, \<^verbatim>\<open>model/channel.go\<close>): the
    ledger, the locale \<open>account\<close> with the laws of credits and debits, and the transparency of batching.
  \<^item> \<open>Server_Subscription\<close> (\<^verbatim>\<open>model/subscription.go\<close>): discounts, the reset, consumption and refund of subscriptions; exact refunds, when the
    reset returns and when it does not.
  \<^item> \<open>Server_Billing\<close> (\<^verbatim>\<open>service/billing_session.go\<close>, \<^verbatim>\<open>service/funding_source.go\<close>, \<^verbatim>\<open>service/billing.go\<close>, part of
    \<^verbatim>\<open>service/quota.go\<close>): the session with all its methods.
  \<^item> \<open>Server_Billing_Runs\<close>: an abstract account of what a request costs as a step relation, a simulation of the sessions that are paid
    from the wallet, exact settlement and refund, failed sessions that cost nothing, and a refund that is not exact for
    subscriptions.

  \<^bold>\<open>State, effects and errors.\<close>  The state of a component is a record and an operation a function on it.  Exceptions and Go errors
  are the left summand of a result or an optional message.  Promises, goroutines and timers are steps that may come in any order.  The
  database is a record of tables with a list of faults, one for each statement to come; a transaction that returns an error
  restores the tables.  A cache of the server is a partial function that is only read: its asynchronous updates are not
  modelled, so a statement about balances is about the database and the pending batch.  The properties of the billing sessions assume
  that the database reports no fault and that the row of the user and of the token exist; amounts are words, so their sums
  wrap as they do in the code.

  \<^bold>\<open>Parameters.\<close>  Lower casing, the implementation-defined part of \<open>Date.parse\<close>, translations, answers of the server, the
  rounding of the decimal package, the ratios of the top-up groups, the offset of the time zone (constant) and the clock are
  arguments of the definitions that use them.

  \<^bold>\<open>Bounds.\<close>  Loops are structural or have a termination proof.  Two may run forever and are partial functions into \<open>option\<close>: the loading
  of the imported channels, which is proved to return when the totals of the server are bounded, and the reset of a
  subscription, which is proved to return for every period up to 9223372036 seconds and not to return for one that wraps.  The only
  fuel is that of the conversion to doubles, where it bounds the correction of an estimated exponent by a few steps.

  \<^bold>\<open>Not modelled.\<close>  The adapters of the relay, its attempt loop and the controllers, middleware, login and payment of the server,
  which are built on the database package, the HTTP framework and remote services; the computation of text and audio quotas, which
  multiplies floating point ratios and decimals and whose results are arguments here; the orders and the administration of
  subscriptions; notifications by mail; the classic client and the desktop shell; markup, routes, styles, charts and number formatting
  of the client; the extraction of text from office files, which third-party readers do; the local estimator of
  expressions, which hands its text to \<open>new Function\<close>; and the title, icon and badge effects of the notification centre.
\<close>

end
